(* ===== verification/JsString.thy ===== *)
theory JsString
  imports Prelude
begin

text \<open>
  JavaScript strings: finite sequences of 16-bit code units, with the methods of
  \<open>String.prototype\<close> the modelled code calls. A literal of the source is written
  \<open>lit ''...''\<close>. \<open>s.length\<close> is \<open>length s\<close>, \<open>s[i]\<close> is \<open>s ! i\<close> below the
  length, and \<open><\<close> on strings is the lexicographic order of \<open>HOL-Library.List_Lexorder\<close>
  on code units.
\<close>

type_synonym jstr = "nat list"

definition lit :: "string \<Rightarrow> jstr" where
  "lit s = map of_char s"

lemma lit_simps [simp]:
  "lit [] = []"
  "lit (c # cs) = of_char c # lit cs"
  by (simp_all add: lit_def)

lemma of_char_nat_lt_256: "(of_char c :: nat) < 256"
  by (simp add: of_char_def)

lemma of_char_nat_inj: "(of_char c :: nat) = of_char d \<longleftrightarrow> c = d"
  by (rule of_char_eq_iff)

lemma lit_inj: "lit s = lit t \<longleftrightarrow> s = t"
  unfolding lit_def by (rule inj_map_eq_map) (auto intro: injI simp: of_char_nat_inj)

text \<open>The invariant of every string value: its code units fit in 16 bits.\<close>

definition wf_str :: "jstr \<Rightarrow> bool" where
  "wf_str s \<longleftrightarrow> list_all (\<lambda>u. u < 65536) s"

lemma wf_str_simps [simp]:
  "wf_str []"
  "wf_str (u # s) \<longleftrightarrow> u < 65536 \<and> wf_str s"
  "wf_str (s @ t) \<longleftrightarrow> wf_str s \<and> wf_str t"
  by (simp_all add: wf_str_def)

lemma wf_str_lit [wf_intro]: "wf_str (lit s)"
proof (induction s)
  case (Cons c s)
  have "(of_char c :: nat) < 65536" using of_char_nat_lt_256 [of c] by linarith
  with Cons show ?case by simp
qed simp

section \<open>Searching and cutting\<close>

definition starts_with :: "jstr \<Rightarrow> jstr \<Rightarrow> bool" where
  "starts_with s p \<longleftrightarrow> take (length p) s = p"

definition ends_with :: "jstr \<Rightarrow> jstr \<Rightarrow> bool" where
  "ends_with s p \<longleftrightarrow> length p \<le> length s \<and> drop (length s - length p) s = p"

text \<open>\<open>index_of s p\<close> is \<open>s.indexOf(p)\<close>, with \<open>None\<close> for \<open>-1\<close>.\<close>

fun index_of :: "jstr \<Rightarrow> jstr \<Rightarrow> nat option" where
  "index_of [] p = (if p = [] then Some 0 else None)"
| "index_of (u # s) p =
     (if starts_with (u # s) p then Some 0 else map_option Suc (index_of s p))"

text \<open>\<open>index_from s p i\<close> is \<open>s.indexOf(p, i)\<close> for \<open>i\<close> within the string.\<close>

definition index_from :: "jstr \<Rightarrow> jstr \<Rightarrow> nat \<Rightarrow> nat option" where
  "index_from s p i = map_option (\<lambda>k. i + k) (index_of (drop i s) p)"

fun last_index_of :: "jstr \<Rightarrow> jstr \<Rightarrow> nat option" where
  "last_index_of [] p = (if p = [] then Some 0 else None)"
| "last_index_of (u # s) p =
     (case last_index_of s p of
        Some k \<Rightarrow> Some (Suc k)
      | None \<Rightarrow> if starts_with (u # s) p then Some 0 else None)"

text \<open>\<open>js_slice s a b\<close> is \<open>s.slice(a, b)\<close> for indices that are not negative.\<close>

definition js_slice :: "jstr \<Rightarrow> nat \<Rightarrow> nat \<Rightarrow> jstr" where
  "js_slice s a b = take (b - a) (drop a s)"

lemma starts_with_conv: "starts_with s p \<longleftrightarrow> (\<exists>t. s = p @ t)"
  unfolding starts_with_def by (metis append_eq_conv_conj append_take_drop_id)

lemma index_of_Some:
  "index_of s p = Some k \<Longrightarrow> take (length p) (drop k s) = p \<and> k + length p \<le> length s"
proof (induction s p arbitrary: k rule: index_of.induct)
  case (1 p)
  then show ?case by (auto split: if_splits)
next
  case (2 u s p)
  show ?case
  proof (cases "starts_with (u # s) p")
    case True
    then have len: "length p \<le> length (u # s)"
      by (metis starts_with_def length_take min.absorb_iff1 min.commute)
    from True 2 have "k = 0" by simp
    with True len show ?thesis by (simp add: starts_with_def)
  next
    case False
    with 2 show ?thesis by (auto split: if_splits)
  qed
qed

lemma index_of_None: "index_of s p = None \<Longrightarrow> take (length p) (drop k s) \<noteq> p"
proof (induction s p arbitrary: k rule: index_of.induct)
  case (1 p)
  then show ?case by (auto split: if_splits)
next
  case (2 u s p)
  then show ?case
    by (cases k) (auto simp: starts_with_def split: if_splits)
qed

lemma index_of_first: "index_of s p = Some k \<Longrightarrow> i < k \<Longrightarrow> take (length p) (drop i s) \<noteq> p"
proof (induction s p arbitrary: k i rule: index_of.induct)
  case (2 u s p)
  then show ?case
    by (cases i) (auto simp: starts_with_def split: if_splits)
qed (auto split: if_splits)

lemma index_from_Some:
  "index_from s p i = Some k \<Longrightarrow> i \<le> k \<and> take (length p) (drop k s) = p \<and> k + length p \<le> length s \<or> length s < i"
  unfolding index_from_def by (auto dest!: index_of_Some simp: add.commute)

lemma index_from_bounds:
  "index_from s p i = Some k \<Longrightarrow> p \<noteq> [] \<Longrightarrow> i \<le> k \<and> k < length s"
  unfolding index_from_def by (auto dest!: index_of_Some) (cases p, auto)

lemma length_slice [simp]: "length (js_slice s a b) = min (b - a) (length s - a)"
  by (simp add: js_slice_def)

lemma wf_slice [wf_intro]: "wf_str s \<Longrightarrow> wf_str (js_slice s a b)"
  by (simp add: wf_str_def js_slice_def list_all_take list_all_drop)

lemma slice_full [simp]: "js_slice s 0 (length s) = s"
  by (simp add: js_slice_def)

section \<open>Splitting and joining\<close>

fun joinS :: "jstr \<Rightarrow> jstr list \<Rightarrow> jstr" where
  "joinS sep [] = []"
| "joinS sep [s] = s"
| "joinS sep (s # t # ts) = s @ sep @ joinS sep (t # ts)"

text \<open>
  \<open>split_sep sep s\<close> is \<open>s.split(sep)\<close> for a separator that is not empty: the text up to
  the first occurrence, then the pieces of the text behind it.
\<close>

function split_sep :: "jstr \<Rightarrow> jstr \<Rightarrow> jstr list" where
  "split_sep sep s =
     (if sep = [] then map (\<lambda>u. [u]) s
      else case index_of s sep of
             None \<Rightarrow> [s]
           | Some k \<Rightarrow> take k s # split_sep sep (drop (k + length sep) s))"
  by pat_completeness auto
termination
proof (relation "measure (\<lambda>(sep, s). length s)", goal_cases)
  case (2 sep s k)
  then show ?case by (cases sep) (auto dest: index_of_Some)
qed simp

declare split_sep.simps [simp del]

definition js_split :: "jstr \<Rightarrow> jstr \<Rightarrow> jstr list" where
  "js_split s sep = split_sep sep s"

lemma joinS_Cons: "ts \<noteq> [] \<Longrightarrow> joinS sep (s # ts) = s @ sep @ joinS sep ts"
  by (cases ts) auto

lemma split_sep_nonempty: "sep \<noteq> [] \<Longrightarrow> split_sep sep s \<noteq> []"
  by (subst split_sep.simps) (auto split: option.split)

lemma join_split: "sep \<noteq> [] \<Longrightarrow> joinS sep (split_sep sep s) = s"
proof (induction sep s rule: split_sep.induct)
  case (1 sep s)
  show ?case
  proof (cases "index_of s sep")
    case None
    with 1 show ?thesis by (simp add: split_sep.simps [of sep s])
  next
    case (Some k)
    then have at: "take (length sep) (drop k s) = sep" by (auto dest: index_of_Some)
    have "joinS sep (split_sep sep s) = take k s @ sep @ drop (k + length sep) s"
      using 1 Some
      by (simp add: split_sep.simps [of sep s] joinS_Cons split_sep_nonempty)
    also have "\<dots> = take k s @ take (length sep) (drop k s) @ drop (length sep) (drop k s)"
      using at by (simp add: add.commute)
    also have "\<dots> = take k s @ drop k s" by (simp only: append_take_drop_id)
    finally show ?thesis by simp
  qed
qed

lemma split_sep_absent: "sep \<noteq> [] \<Longrightarrow> index_of s sep = None \<Longrightarrow> split_sep sep s = [s]"
  by (subst split_sep.simps) simp

lemma wf_joinS: "wf_str sep \<Longrightarrow> list_all wf_str ss \<Longrightarrow> wf_str (joinS sep ss)"
  by (induction sep ss rule: joinS.induct) auto

lemma wf_split_sep: "wf_str s \<Longrightarrow> list_all wf_str (split_sep sep s)"
proof (induction sep s rule: split_sep.induct)
  case (1 sep s)
  then show ?case
    by (subst split_sep.simps)
      (auto split: option.split simp: list_all_iff wf_str_def dest: in_set_takeD in_set_dropD)
qed

section \<open>White space, case of ASCII letters, digits\<close>

text \<open>The code units \<open>String.prototype.trim\<close> and \<open>\s\<close> treat as white space.\<close>

definition is_js_space :: "nat \<Rightarrow> bool" where
  "is_js_space u \<longleftrightarrow>
     u \<in> {9, 10, 11, 12, 13, 32, 160, 5760, 8232, 8233, 8239, 8287, 12288, 65279}
     \<or> (8192 \<le> u \<and> u \<le> 8202)"

definition trim_left :: "jstr \<Rightarrow> jstr" where
  "trim_left s = dropWhile is_js_space s"

definition trim_right :: "jstr \<Rightarrow> jstr" where
  "trim_right s = rev (dropWhile is_js_space (rev s))"

definition trim :: "jstr \<Rightarrow> jstr" where
  "trim s = trim_right (trim_left s)"

lemma length_trim: "length (trim s) \<le> length s"
proof -
  have "length (dropWhile is_js_space (rev (dropWhile is_js_space s)))
          \<le> length (rev (dropWhile is_js_space s))"
    by (rule length_dropWhile_le)
  also have "\<dots> \<le> length s" by (simp add: length_dropWhile_le)
  finally show ?thesis by (simp add: trim_def trim_left_def trim_right_def)
qed

lemma set_trim: "set (trim s) \<subseteq> set s"
  unfolding trim_def trim_left_def trim_right_def
  by (auto dest!: set_dropWhileD)

lemma wf_trim [wf_intro]: "wf_str s \<Longrightarrow> wf_str (trim s)"
  using set_trim [of s] by (auto simp: wf_str_def list_all_iff)

lemma trim_right_no_space: "s = [] \<or> \<not> is_js_space (last s) \<Longrightarrow> trim_right s = s"
  by (cases s rule: rev_cases) (auto simp: trim_right_def)

lemma trim_id: "s = [] \<or> \<not> is_js_space (hd s) \<and> \<not> is_js_space (last s) \<Longrightarrow> trim s = s"
  unfolding trim_def trim_left_def by (cases s) (auto simp: trim_right_no_space)

lemma trim_edges: "trim s \<noteq> [] \<Longrightarrow> \<not> is_js_space (hd (trim s)) \<and> \<not> is_js_space (last (trim s))"
proof -
  assume ne: "trim s \<noteq> []"
  define t where "t = trim_left s"
  have tr: "trim s = trim_right t" by (simp add: trim_def t_def)
  from ne tr have rne: "dropWhile is_js_space (rev t) \<noteq> []" by (simp add: trim_right_def)
  have last: "last (trim s) = hd (dropWhile is_js_space (rev t))"
    using rne by (simp add: tr trim_right_def last_rev)
  have "\<not> is_js_space (last (trim s))"
    using hd_dropWhile [OF rne] last by simp
  moreover have "\<not> is_js_space (hd (trim s))"
  proof -
    have tne: "t \<noteq> []" using rne by auto
    then have ht: "\<not> is_js_space (hd t)"
      unfolding t_def trim_left_def by (rule hd_dropWhile)
    obtain ys where "rev t = ys @ dropWhile is_js_space (rev t)"
      by (metis takeWhile_dropWhile_id)
    then have "t = trim s @ rev ys"
      by (metis rev_append rev_rev_ident tr trim_right_def)
    with ne have "hd (trim s) = hd t" by (metis hd_append2)
    with ht show ?thesis by simp
  qed
  ultimately show ?thesis by blast
qed

lemma trim_idem: "trim (trim s) = trim s"
  using trim_edges [of s] trim_id [of "trim s"] by blast

definition is_digit :: "nat \<Rightarrow> bool" where
  "is_digit u \<longleftrightarrow> 48 \<le> u \<and> u \<le> 57"

definition is_upper :: "nat \<Rightarrow> bool" where
  "is_upper u \<longleftrightarrow> 65 \<le> u \<and> u \<le> 90"

definition is_lower :: "nat \<Rightarrow> bool" where
  "is_lower u \<longleftrightarrow> 97 \<le> u \<and> u \<le> 122"

definition is_letter :: "nat \<Rightarrow> bool" where
  "is_letter u \<longleftrightarrow> is_upper u \<or> is_lower u"

lemma digit_not_space: "is_digit u \<Longrightarrow> \<not> is_js_space u"
  by (auto simp: is_digit_def is_js_space_def)

section \<open>Decimal digits\<close>

fun digits_val_acc :: "nat \<Rightarrow> jstr \<Rightarrow> nat" where
  "digits_val_acc n [] = n"
| "digits_val_acc n (u # s) = digits_val_acc (10 * n + (u - 48)) s"

definition digits_val :: "jstr \<Rightarrow> nat" where
  "digits_val s = digits_val_acc 0 s"

fun nat_digits :: "nat \<Rightarrow> jstr" where
  "nat_digits n = (if n < 10 then [48 + n] else nat_digits (n div 10) @ [48 + n mod 10])"

declare nat_digits.simps [simp del]

definition pad_start :: "jstr \<Rightarrow> nat \<Rightarrow> nat \<Rightarrow> jstr" where
  "pad_start s width u = replicate (width - length s) u @ s"

lemma digits_val_acc_append:
  "digits_val_acc n (s @ [u]) = 10 * digits_val_acc n s + (u - 48)"
  by (induction n s rule: digits_val_acc.induct) auto

lemma digits_val_nat_digits: "digits_val (nat_digits n) = n"
proof (induction n rule: nat_digits.induct)
  case (1 n)
  show ?case
  proof (cases "n < 10")
    case True
    then show ?thesis by (simp add: nat_digits.simps [of n] digits_val_def)
  next
    case False
    with 1 have "digits_val (nat_digits (n div 10)) = n div 10" by simp
    with False show ?thesis
      by (simp add: nat_digits.simps [of n] digits_val_def digits_val_acc_append)
  qed
qed

lemma nat_digits_nonempty [simp]: "nat_digits n \<noteq> []"
  by (subst nat_digits.simps) simp

lemma nat_digits_all: "list_all is_digit (nat_digits n)"
proof (induction n rule: nat_digits.induct)
  case (1 n)
  show ?case
  proof (cases "n < 10")
    case True
    then show ?thesis by (subst nat_digits.simps) (simp add: is_digit_def)
  next
    case False
    have "is_digit (48 + n mod 10)" by (simp add: is_digit_def)
    with False 1 show ?thesis by (subst nat_digits.simps) simp
  qed
qed

lemma digits_val_acc_zeros: "digits_val_acc 0 (replicate k 48 @ s) = digits_val_acc 0 s"
  by (induction k) auto

lemma digits_val_pad: "digits_val (pad_start (nat_digits n) w 48) = n"
  using digits_val_nat_digits by (simp add: digits_val_def pad_start_def digits_val_acc_zeros)

lemma length_nat_digits: "n < 10 ^ k \<Longrightarrow> 0 < k \<Longrightarrow> length (nat_digits n) \<le> k"
proof (induction k arbitrary: n)
  case (Suc k)
  show ?case
  proof (cases "n < 10")
    case True
    then show ?thesis by (simp add: nat_digits.simps [of n])
  next
    case False
    have "n div 10 < 10 ^ k" using Suc.prems by (simp add: less_mult_imp_div_less mult.commute)
    moreover have "0 < k" using False Suc.prems by (cases k) auto
    ultimately have "length (nat_digits (n div 10)) \<le> k" by (rule Suc.IH)
    with False show ?thesis by (simp add: nat_digits.simps [of n])
  qed
qed simp

lemma length_pad: "length (pad_start s w u) = max w (length s)"
  by (simp add: pad_start_def)

end
