(* ===== verification/JsNumber.thy ===== *)
theory JsNumber
  imports Complex_Main JsString
begin

text \<open>
  JavaScript numbers: IEEE 754 binary64. A finite number other than minus zero is the
  rational it stands for, and every arithmetic operation is the exact rational operation
  followed by one rounding to nearest, ties to even (\<open>rnd\<close>), which is how the standard
  defines them. \<open>NegZero\<close> is \<open>-0\<close> and \<open>Infty neg\<close> the infinity with that sign.
  The theory also holds the two conversions the engine uses: decimal text to a number
  (\<open>Number\<close> on the formats its regular expressions admit) and a number to text
  (\<open>String\<close>, the shortest digits that read back as the same number).
\<close>

datatype jnum = NaN | Infty bool | NegZero | Fin rat

fun num_val :: "jnum \<Rightarrow> rat" where
  "num_val (Fin q) = q"
| "num_val _ = 0"

fun is_finite :: "jnum \<Rightarrow> bool" where
  "is_finite (Fin q) = True"
| "is_finite NegZero = True"
| "is_finite _ = False"

fun is_neg :: "jnum \<Rightarrow> bool" where
  "is_neg (Fin q) = (q < 0)"
| "is_neg NegZero = True"
| "is_neg (Infty s) = s"
| "is_neg NaN = False"

fun is_zero :: "jnum \<Rightarrow> bool" where
  "is_zero (Fin q) = (q = 0)"
| "is_zero NegZero = True"
| "is_zero _ = False"

section \<open>Rounding\<close>

fun bit_length :: "nat \<Rightarrow> nat" where
  "bit_length n = (if n = 0 then 0 else Suc (bit_length (n div 2)))"

declare bit_length.simps [simp del]

lemma bit_length_bounds: "0 < n \<Longrightarrow> 2 ^ (bit_length n - 1) \<le> n \<and> n < 2 ^ bit_length n"
proof (induction n rule: bit_length.induct)
  case (1 n)
  show ?case
  proof (cases "n div 2 = 0")
    case True
    with 1 have "n = 1" by simp
    then show ?thesis by (simp add: bit_length.simps)
  next
    case False
    with 1 have IH: "2 ^ (bit_length (n div 2) - 1) \<le> n div 2 \<and> n div 2 < 2 ^ bit_length (n div 2)"
      by auto
    from False have pos: "0 < bit_length (n div 2)" by (subst bit_length.simps) simp
    then have "2 ^ bit_length (n div 2) = 2 * (2::nat) ^ (bit_length (n div 2) - 1)"
      by (metis One_nat_def Suc_diff_1 power_Suc)
    with IH 1 show ?thesis by (simp add: bit_length.simps [of n]) linarith
  qed
qed

text \<open>The exponent of the leading binary digit of a positive rational.\<close>

definition flog2 :: "rat \<Rightarrow> int" where
  "flog2 q =
     (let nd = quotient_of q;
          k = int (bit_length (nat (fst nd))) - int (bit_length (nat (snd nd)))
      in if 2 powi k \<le> q then k else k - 1)"

definition round_half_even :: "rat \<Rightarrow> int" where
  "round_half_even q =
     (let f = \<lfloor>q\<rfloor>; r = q - of_int f
      in if r < 1 / 2 then f else if 1 / 2 < r then f + 1 else if even f then f else f + 1)"

definition rnd :: "rat \<Rightarrow> jnum" where
  "rnd q =
     (if q = 0 then Fin 0
      else let e = max (flog2 \<bar>q\<bar> - 52) (- 1074);
               m = round_half_even (\<bar>q\<bar> / 2 powi e);
               v = of_int m * 2 powi e
           in if 2 ^ 1024 \<le> v then Infty (q < 0)
              else if m = 0 then (if q < 0 then NegZero else Fin 0)
              else Fin (if q < 0 then - v else v))"

lemma flog2_bounds:
  assumes "0 < q"
  shows "2 powi flog2 q \<le> q \<and> q < 2 powi (flog2 q + 1)"
proof -
  obtain n d where nd: "quotient_of q = (n, d)" by (cases "quotient_of q")
  then have d: "0 < d" and q: "q = of_int n / of_int d"
    using quotient_of_denom_pos quotient_of_div by blast+
  from assms q d have n: "0 < n" by (simp add: zero_less_divide_iff)
  define a where "a = bit_length (nat n)"
  define b where "b = bit_length (nat d)"
  have bn: "2 ^ (a - 1) \<le> nat n" "nat n < 2 ^ a" and bd: "2 ^ (b - 1) \<le> nat d" "nat d < 2 ^ b"
    using bit_length_bounds [of "nat n"] bit_length_bounds [of "nat d"] n d
    by (simp_all add: a_def b_def)
  have a1: "0 < a" "0 < b" using n d unfolding a_def b_def by (subst bit_length.simps, simp)+
  have N1: "2 powi (int a - 1) \<le> (of_int n :: rat)"
  proof -
    have "(2::int) ^ (a - 1) \<le> n" using bn(1) n by (simp add: le_nat_iff)
    then have "(of_int (2 ^ (a - 1)) :: rat) \<le> of_int n" by (simp only: of_int_le_iff)
    then have "(2::rat) powi int (a - 1) \<le> of_int n" by simp
    moreover have "int (a - 1) = int a - 1" using a1 by (simp add: of_nat_diff)
    ultimately show ?thesis by metis
  qed
  have N2: "(of_int n :: rat) < 2 powi int a"
  proof -
    have "n < (2::int) ^ a" using bn(2) n by (simp add: nat_less_iff)
    then have "(of_int n :: rat) < of_int (2 ^ a)" by (simp only: of_int_less_iff)
    then show ?thesis by simp
  qed
  have D1: "2 powi (int b - 1) \<le> (of_int d :: rat)"
  proof -
    have "(2::int) ^ (b - 1) \<le> d" using bd(1) d by (simp add: le_nat_iff)
    then have "(of_int (2 ^ (b - 1)) :: rat) \<le> of_int d" by (simp only: of_int_le_iff)
    then have "(2::rat) powi int (b - 1) \<le> of_int d" by simp
    moreover have "int (b - 1) = int b - 1" using a1 by (simp add: of_nat_diff)
    ultimately show ?thesis by metis
  qed
  have D2: "(of_int d :: rat) < 2 powi int b"
  proof -
    have "d < (2::int) ^ b" using bd(2) d by (simp add: nat_less_iff)
    then have "(of_int d :: rat) < of_int (2 ^ b)" by (simp only: of_int_less_iff)
    then show ?thesis by simp
  qed
  define k where "k = int a - int b"
  have dpos: "(0::rat) < of_int d" using d by simp
  have up: "q < 2 powi (k + 1)"
  proof -
    have "2 powi int a = (2::rat) powi (k + 1) * 2 powi (int b - 1)"
      by (simp add: k_def flip: power_int_add)
    also have "\<dots> \<le> 2 powi (k + 1) * of_int d" using D1 by (simp add: mult_left_mono)
    finally have "of_int n < 2 powi (k + 1) * (of_int d :: rat)" using N2 by linarith
    then show ?thesis using dpos by (simp add: q pos_divide_less_eq)
  qed
  have low: "2 powi (k - 1) < q"
  proof -
    have "2 powi (k - 1) * (of_int d :: rat) < 2 powi (k - 1) * 2 powi int b"
      using D2 by simp
    also have "\<dots> = 2 powi (int a - 1)"
      using power_int_add [of "2::rat" "k - 1" "int b"] by (simp add: k_def)
    also have "\<dots> \<le> of_int n" by (rule N1)
    finally show ?thesis using dpos by (simp add: q pos_less_divide_eq)
  qed
  have "flog2 q = (if 2 powi k \<le> q then k else k - 1)"
    by (simp add: flog2_def nd k_def a_def b_def Let_def)
  with up low show ?thesis by (auto simp: algebra_simps)
qed

lemma round_half_even_int [simp]: "round_half_even (of_int m) = m"
  by (simp add: round_half_even_def)

text \<open>Every integer up to \<open>2^53\<close> in absolute value is a number, so rounding leaves it alone.\<close>

lemma rnd_of_int:
  assumes "\<bar>n\<bar> \<le> 2 ^ 53"
  shows "rnd (of_int n) = Fin (of_int n)"
proof (cases "n = 0")
  case True
  then show ?thesis by (simp add: rnd_def)
next
  case False
  define a :: rat where "a = of_int \<bar>n\<bar>"
  define L where "L = flog2 a"
  have apos: "0 < a" using False by (simp add: a_def)
  have b: "2 powi L \<le> a" "a < 2 powi (L + 1)" using flog2_bounds [OF apos] by (simp_all add: L_def)
  have a53: "a \<le> 2 ^ 53"
  proof -
    have "(of_int \<bar>n\<bar> :: rat) \<le> of_int (2 ^ 53)" using assms by (simp only: of_int_le_iff)
    then show ?thesis by (simp add: a_def)
  qed
  have a1: "1 \<le> a"
  proof -
    have "1 \<le> \<bar>n\<bar>" using False by linarith
    then have "(of_int 1 :: rat) \<le> of_int \<bar>n\<bar>" by (simp only: of_int_le_iff)
    then show ?thesis by (simp add: a_def)
  qed
  have L0: "0 \<le> L"
  proof (rule ccontr)
    assume "\<not> 0 \<le> L"
    then have "(2::rat) powi (L + 1) \<le> 2 powi 0" by (intro power_int_increasing) auto
    with b a1 show False by simp
  qed
  have L53: "L \<le> 53"
  proof (rule ccontr)
    assume "\<not> L \<le> 53"
    then have "(2::rat) powi 54 \<le> 2 powi L" by (intro power_int_increasing) auto
    with b a53 show False by simp
  qed
  define e where "e = max (L - 52) (- 1074)"
  have e: "e = L - 52" using L0 by (simp add: e_def)
  obtain m :: int where m: "a / 2 powi e = of_int m"
  proof (cases "L \<le> 52")
    case True
    have "a / 2 powi e = a * 2 powi (52 - L)"
      by (simp add: e divide_inverse flip: power_int_minus)
    also have "\<dots> = a * 2 ^ nat (52 - L)" using True by (simp add: power_int_def)
    also have "\<dots> = of_int (\<bar>n\<bar> * 2 ^ nat (52 - L))" by (simp add: a_def)
    finally show ?thesis by (rule that)
  next
    case False
    with L53 have L: "L = 53" by simp
    with b a53 have "a = 2 ^ 53" by simp
    with e L have "a / 2 powi e = of_int (2 ^ 52)" by simp
    then show ?thesis by (rule that)
  qed
  have whole: "of_int m * 2 powi e = a" using m [symmetric] by simp
  then have m0: "m \<noteq> 0" using apos by auto
  have small: "\<not> 2 ^ 1024 \<le> a" using a53 by simp
  have abs: "\<bar>of_int n :: rat\<bar> = a" by (simp add: a_def)
  have neg: "(of_int n :: rat) < 0 \<longleftrightarrow> n < 0" by simp
  have val: "(if n < 0 then - a else a) = of_int n" by (simp add: a_def)
  have "rnd (of_int n) = Fin (if n < 0 then - a else a)"
    using False m m0 whole small
    by (simp add: rnd_def abs Let_def flip: L_def e_def)
  then show ?thesis by (simp add: val)
qed

text \<open>Evaluation takes the exact path for whole numbers before it looks at exponents.\<close>

lemma rnd_code [code]:
  "rnd q =
     (let nd = quotient_of q
      in if snd nd = 1 \<and> \<bar>fst nd\<bar> \<le> 9007199254740992 then Fin q
         else let e = max (flog2 \<bar>q\<bar> - 52) (- 1074);
                  m = round_half_even (\<bar>q\<bar> / 2 powi e);
                  v = of_int m * 2 powi e
              in if 2 ^ 1024 \<le> v then Infty (q < 0)
                 else if m = 0 then (if q < 0 then NegZero else Fin 0)
                 else Fin (if q < 0 then - v else v))"
proof (cases "snd (quotient_of q) = 1 \<and> \<bar>fst (quotient_of q)\<bar> \<le> 9007199254740992")
  case True
  then have "quotient_of q = (fst (quotient_of q), 1)" by (simp add: prod_eq_iff)
  then have q: "q = of_int (fst (quotient_of q))" using quotient_of_div by fastforce
  have "rnd (of_int (fst (quotient_of q))) = Fin (of_int (fst (quotient_of q)))"
    using True by (intro rnd_of_int) simp
  with q True show ?thesis by (simp add: Let_def)
next
  case False
  then have "q \<noteq> 0" by auto
  show ?thesis
    unfolding rnd_def Let_def if_not_P [OF False] if_not_P [OF \<open>q \<noteq> 0\<close>] by (rule refl)
qed

section \<open>Arithmetic\<close>

fun jneg :: "jnum \<Rightarrow> jnum" where
  "jneg NaN = NaN"
| "jneg (Infty s) = Infty (\<not> s)"
| "jneg NegZero = Fin 0"
| "jneg (Fin q) = (if q = 0 then NegZero else Fin (- q))"

fun jadd :: "jnum \<Rightarrow> jnum \<Rightarrow> jnum" where
  "jadd NaN b = NaN"
| "jadd a NaN = NaN"
| "jadd (Infty s) (Infty t) = (if s = t then Infty s else NaN)"
| "jadd (Infty s) b = Infty s"
| "jadd a (Infty t) = Infty t"
| "jadd NegZero NegZero = NegZero"
| "jadd NegZero (Fin q) = Fin q"
| "jadd (Fin q) NegZero = Fin q"
| "jadd (Fin p) (Fin q) = rnd (p + q)"

definition jsub :: "jnum \<Rightarrow> jnum \<Rightarrow> jnum" where
  "jsub a b = jadd a (jneg b)"

text \<open>The zero, or the rounded value, of a product or quotient with sign \<open>s\<close>.\<close>

definition signed_rnd :: "bool \<Rightarrow> rat \<Rightarrow> jnum" where
  "signed_rnd s q = (if q = 0 then (if s then NegZero else Fin 0) else rnd q)"

definition jmul :: "jnum \<Rightarrow> jnum \<Rightarrow> jnum" where
  "jmul a b =
     (let s = (is_neg a \<noteq> is_neg b) in
      if a = NaN \<or> b = NaN then NaN
      else if \<not> is_finite a \<or> \<not> is_finite b then (if is_zero a \<or> is_zero b then NaN else Infty s)
      else signed_rnd s (num_val a * num_val b))"

definition jdiv :: "jnum \<Rightarrow> jnum \<Rightarrow> jnum" where
  "jdiv a b =
     (let s = (is_neg a \<noteq> is_neg b) in
      if a = NaN \<or> b = NaN then NaN
      else if \<not> is_finite a then (if is_finite b then Infty s else NaN)
      else if \<not> is_finite b then signed_rnd s 0
      else if is_zero b then (if is_zero a then NaN else Infty s)
      else signed_rnd s (num_val a / num_val b))"

definition rat_trunc :: "rat \<Rightarrow> int" where
  "rat_trunc q = (if q < 0 then - \<lfloor>- q\<rfloor> else \<lfloor>q\<rfloor>)"

text \<open>The remainder \<open>a % b\<close>: exact, with the sign of the dividend.\<close>

definition jmod :: "jnum \<Rightarrow> jnum \<Rightarrow> jnum" where
  "jmod a b =
     (if a = NaN \<or> b = NaN \<or> \<not> is_finite a \<or> is_zero b then NaN
      else if \<not> is_finite b then a
      else let r = num_val a - num_val b * of_int (rat_trunc (num_val a / num_val b))
           in if r = 0 then (if is_neg a then NegZero else Fin 0) else Fin r)"

definition jtrunc :: "jnum \<Rightarrow> jnum" where
  "jtrunc a =
     (if is_finite a
      then let t = rat_trunc (num_val a)
           in if t = 0 then (if is_neg a then NegZero else Fin 0) else Fin (of_int t)
      else a)"

definition is_integer :: "jnum \<Rightarrow> bool" where
  "is_integer a \<longleftrightarrow> is_finite a \<and> num_val a = of_int \<lfloor>num_val a\<rfloor>"

fun jlt :: "jnum \<Rightarrow> jnum \<Rightarrow> bool" where
  "jlt NaN b = False"
| "jlt a NaN = False"
| "jlt (Infty s) b = (s \<and> b \<noteq> Infty True)"
| "jlt a (Infty t) = (\<not> t)"
| "jlt a b = (num_val a < num_val b)"

text \<open>\<open>===\<close> on numbers: \<open>NaN\<close> differs from itself and the two zeros are equal.\<close>

fun jnum_eq :: "jnum \<Rightarrow> jnum \<Rightarrow> bool" where
  "jnum_eq NaN b = False"
| "jnum_eq a NaN = False"
| "jnum_eq (Infty s) b = (b = Infty s)"
| "jnum_eq a (Infty t) = False"
| "jnum_eq a b = (num_val a = num_val b)"

text \<open>\<open>Math.min\<close> and \<open>Math.max\<close> of two numbers, where minus zero is below plus zero.\<close>

definition jmin :: "jnum \<Rightarrow> jnum \<Rightarrow> jnum" where
  "jmin a b =
     (if a = NaN \<or> b = NaN then NaN
      else if is_zero a \<and> is_zero b then (if is_neg a then a else b)
      else if jlt b a then b else a)"

definition jmax :: "jnum \<Rightarrow> jnum \<Rightarrow> jnum" where
  "jmax a b =
     (if a = NaN \<or> b = NaN then NaN
      else if is_zero a \<and> is_zero b then (if is_neg a then b else a)
      else if jlt a b then b else a)"

definition jnum_of_int :: "int \<Rightarrow> jnum" where
  "jnum_of_int n = rnd (of_int n)"

abbreviation jnum_of_nat :: "nat \<Rightarrow> jnum" where
  "jnum_of_nat n \<equiv> jnum_of_int (int n)"

text \<open>The integer a whole number stands for.\<close>

definition int_of_jnum :: "jnum \<Rightarrow> int" where
  "int_of_jnum a = \<lfloor>num_val a\<rfloor>"

lemma jnum_eq_refl: "a \<noteq> NaN \<Longrightarrow> jnum_eq a a"
  by (cases a) auto

lemma jnum_eq_sym: "jnum_eq a b \<Longrightarrow> jnum_eq b a"
  by (cases a; cases b) auto

lemma jnum_eq_trans: "jnum_eq a b \<Longrightarrow> jnum_eq b c \<Longrightarrow> jnum_eq a c"
  by (cases a; cases b; cases c) auto

lemma jlt_irrefl: "\<not> jlt a a"
  by (cases a) auto

lemma jlt_trans: "jlt a b \<Longrightarrow> jlt b c \<Longrightarrow> jlt a c"
  by (cases a; cases b; cases c) auto

lemma jlt_asym: "jlt a b \<Longrightarrow> \<not> jlt b a"
  using jlt_irrefl jlt_trans by blast

lemma jlt_total: "a \<noteq> NaN \<Longrightarrow> b \<noteq> NaN \<Longrightarrow> jlt a b \<or> jnum_eq a b \<or> jlt b a"
  by (cases a; cases b) auto

lemma jmin_finite: "is_finite a \<Longrightarrow> is_finite b \<Longrightarrow> is_finite (jmin a b)"
  by (auto simp: jmin_def)

lemma jmax_finite: "is_finite a \<Longrightarrow> is_finite b \<Longrightarrow> is_finite (jmax a b)"
  by (auto simp: jmax_def)

lemma jtrunc_finite: "is_finite (jtrunc a) = is_finite a"
  by (auto simp: jtrunc_def Let_def)

lemma jmod_finite: "is_finite a \<Longrightarrow> is_finite b \<Longrightarrow> \<not> is_zero b \<Longrightarrow> is_finite (jmod a b)"
  by (cases a; cases b) (auto simp: jmod_def Let_def)

lemma jnum_of_int_exact: "\<bar>n\<bar> \<le> 2 ^ 53 \<Longrightarrow> jnum_of_int n = Fin (of_int n)"
  by (simp add: jnum_of_int_def rnd_of_int)

lemma jadd_of_int:
  assumes "\<bar>a\<bar> \<le> 2 ^ 53" "\<bar>b\<bar> \<le> 2 ^ 53" "\<bar>a + b\<bar> \<le> 2 ^ 53"
  shows "jadd (jnum_of_int a) (jnum_of_int b) = jnum_of_int (a + b)"
  using assms rnd_of_int [of "a + b"] by (simp add: jnum_of_int_exact)

lemma jmul_of_int:
  assumes "\<bar>a\<bar> \<le> 2 ^ 53" "\<bar>b\<bar> \<le> 2 ^ 53" "\<bar>a * b\<bar> \<le> 2 ^ 53" "a * b \<noteq> 0"
  shows "jmul (jnum_of_int a) (jnum_of_int b) = jnum_of_int (a * b)"
  using assms rnd_of_int [of "a * b"]
  by (simp add: jnum_of_int_exact jmul_def signed_rnd_def Let_def)

section \<open>Text to number\<close>

definition neg_digits :: "jstr \<Rightarrow> bool \<times> jstr" where
  "neg_digits s = (case s of u # t \<Rightarrow> if u = 45 then (True, t) else (False, s) | [] \<Rightarrow> (False, []))"

text \<open>The value of \<open>Number(text)\<close> for a sign, integer digits, fraction digits and an exponent.\<close>

definition dec_value :: "bool \<Rightarrow> jstr \<Rightarrow> jstr \<Rightarrow> int \<Rightarrow> jnum" where
  "dec_value neg ip fp ex =
     (let n = digits_val (ip @ fp)
      in if n = 0 then (if neg then NegZero else Fin 0)
         else let v = of_nat n * 10 powi (ex - int (length fp))
              in rnd (if neg then - v else v))"

text \<open>The fraction \<open>(\.\d+)?\<close>: its digits and the text behind it.\<close>

definition scan_frac :: "jstr \<Rightarrow> jstr \<times> jstr" where
  "scan_frac s =
     (case s of
        [] \<Rightarrow> ([], s)
      | u # t \<Rightarrow> if u = 46 \<and> takeWhile is_digit t \<noteq> []
                 then (takeWhile is_digit t, dropWhile is_digit t) else ([], s))"

text \<open>The exponent \<open>([eE][+-]?\d+)?\<close>: its value and the text behind it.\<close>

definition scan_exp :: "jstr \<Rightarrow> int \<times> jstr" where
  "scan_exp s =
     (case s of
        [] \<Rightarrow> (0, s)
      | u # t \<Rightarrow>
          if u = 101 \<or> u = 69
          then let neg = (t \<noteq> [] \<and> hd t = 45);
                   r = (if t \<noteq> [] \<and> (hd t = 45 \<or> hd t = 43) then tl t else t);
                   ds = takeWhile is_digit r
               in if ds = [] then (0, s)
                  else ((if neg then - int (digits_val ds) else int (digits_val ds)),
                        dropWhile is_digit r)
          else (0, s))"

text \<open>\<open>Number(s)\<close> when \<open>s\<close> is \<open>-?\d+(\.\d+)?\<close>, with an exponent if \<open>exps\<close>; \<open>None\<close> otherwise.\<close>

definition parse_decimal :: "bool \<Rightarrow> jstr \<Rightarrow> jnum option" where
  "parse_decimal exps s =
     (let nd = neg_digits s;
          ip = takeWhile is_digit (snd nd);
          fr = scan_frac (dropWhile is_digit (snd nd));
          ex = (if exps then scan_exp (snd fr) else (0, snd fr))
      in if ip \<noteq> [] \<and> snd ex = [] then Some (dec_value (fst nd) ip (fst fr) (fst ex)) else None)"

text \<open>\<open>Number(s)\<close> when \<open>s\<close> is \<open>-?\d+\<close>.\<close>

definition parse_integer :: "jstr \<Rightarrow> jnum option" where
  "parse_integer s =
     (let nd = neg_digits s
      in if snd nd \<noteq> [] \<and> list_all is_digit (snd nd)
         then Some (dec_value (fst nd) (snd nd) [] 0) else None)"

section \<open>Number to text\<close>

text \<open>\<open>dec_exponent x\<close> is the \<open>n\<close> with \<open>10^(n-1) \<le> x < 10^n\<close>, for positive \<open>x\<close>.\<close>

fun lead_zeros :: "nat \<Rightarrow> rat \<Rightarrow> nat" where
  "lead_zeros 0 x = 0"
| "lead_zeros (Suc k) x = (if 1 \<le> 10 * x then 0 else Suc (lead_zeros k (10 * x)))"

definition dec_exponent :: "rat \<Rightarrow> int" where
  "dec_exponent x =
     (if 1 \<le> x then int (length (nat_digits (nat \<lfloor>x\<rfloor>))) else - int (lead_zeros 400 x))"

text \<open>A \<open>k\<close>-digit integer \<open>s\<close> is a candidate when \<open>s * 10^(n-k)\<close> reads back as \<open>x\<close>.\<close>

definition digits_ok :: "rat \<Rightarrow> int \<Rightarrow> nat \<Rightarrow> int \<Rightarrow> bool" where
  "digits_ok x n k s \<longleftrightarrow>
     10 ^ (k - 1) \<le> s \<and> s < 10 ^ k \<and> rnd (of_int s * 10 powi (n - int k)) = Fin x"

text \<open>The fewest digits that read back as \<open>x\<close>, the closest value among those.\<close>

fun shortest :: "nat \<Rightarrow> nat \<Rightarrow> rat \<Rightarrow> int \<Rightarrow> int \<times> nat" where
  "shortest fuel k x n =
     (let t = x * 10 powi (int k - n); lo = \<lfloor>t\<rfloor>
      in if digits_ok x n k lo \<and> (\<not> digits_ok x n k (lo + 1) \<or> t - of_int lo \<le> 1 / 2) then (lo, k)
         else if digits_ok x n k (lo + 1) then (lo + 1, k)
         else case fuel of 0 \<Rightarrow> (lo, k) | Suc f \<Rightarrow> shortest f (Suc k) x n)"

text \<open>\<open>Number::toString\<close> of a positive value from its digits \<open>ds\<close> and exponent \<open>n\<close>.\<close>

definition place_point :: "jstr \<Rightarrow> int \<Rightarrow> jstr" where
  "place_point ds n =
     (let k = int (length ds) in
      if k \<le> n \<and> n \<le> 21 then ds @ replicate (nat (n - k)) 48
      else if 0 < n \<and> n \<le> 21 then take (nat n) ds @ [46] @ drop (nat n) ds
      else if - 6 < n \<and> n \<le> 0 then lit ''0.'' @ replicate (nat (- n)) 48 @ ds
      else let e = n - 1;
               ex = lit ''e'' @ (if e < 0 then lit ''-'' else lit ''+'') @ nat_digits (nat \<bar>e\<bar>)
           in if k = 1 then ds @ ex else take 1 ds @ [46] @ drop 1 ds @ ex)"

definition pos_to_str :: "rat \<Rightarrow> jstr" where
  "pos_to_str x =
     (if x = of_int \<lfloor>x\<rfloor> \<and> x \<le> 9007199254740992 then nat_digits (nat \<lfloor>x\<rfloor>)
      else let n = dec_exponent x; sk = shortest 16 1 x n
           in place_point (nat_digits (nat (fst sk))) n)"

fun num_to_str :: "jnum \<Rightarrow> jstr" where
  "num_to_str NaN = lit ''NaN''"
| "num_to_str (Infty s) = (if s then lit ''-Infinity'' else lit ''Infinity'')"
| "num_to_str NegZero = lit ''0''"
| "num_to_str (Fin q) = (if q < 0 then 45 # pos_to_str (- q) else pos_to_str q)"

lemma num_to_str_nat:
  "int n \<le> 9007199254740992 \<Longrightarrow> num_to_str (Fin (of_nat n)) = nat_digits n"
proof -
  assume "int n \<le> 9007199254740992"
  then have "(of_nat n :: rat) \<le> 9007199254740992"
    by (metis of_int_le_iff of_int_numeral of_int_of_nat_eq)
  then show ?thesis by (simp add: pos_to_str_def)
qed

text \<open>A whole number prints as decimal digits that read back as the same number.\<close>

lemma parse_integer_nat_digits: "parse_integer (nat_digits n) = Some (rnd (of_nat n))"
proof -
  have h: "is_digit (hd (nat_digits n))"
    using nat_digits_all [of n] by (cases "nat_digits n") auto
  then have "neg_digits (nat_digits n) = (False, nat_digits n)"
    by (cases "nat_digits n") (auto simp: neg_digits_def is_digit_def)
  then show ?thesis
    using nat_digits_all [of n]
    by (simp add: parse_integer_def dec_value_def Let_def digits_val_nat_digits rnd_def)
qed

lemma parse_integer_num_to_str:
  assumes "int n \<le> 9007199254740992"
  shows "parse_integer (num_to_str (Fin (of_nat n))) = Some (Fin (of_nat n))"
  using assms rnd_of_int [of "int n"] num_to_str_nat [OF assms]
  by (simp add: parse_integer_nat_digits del: num_to_str.simps)

end
