(* ===== verification/JsValue.thy ===== *)
theory JsValue
  imports JsNumber
begin

text \<open>
  The values of the \<open>${}\<close> language (JSON data and \<open>undefined\<close>), the coercions of
  \<open>engine/functions.ts\<close> that every part of the engine shares (\<open>toStr\<close>, \<open>typeName\<close>,
  \<open>matchesSig\<close>, \<open>deepEquals\<close>), and \<open>JSON.stringify\<close>. An object is its list of own
  properties in enumeration order; \<open>obj_put\<close> is an assignment \<open>o[k] = v\<close>.
\<close>

datatype jval =
    JUndef
  | JNull
  | JBool bool
  | JNum jnum
  | JStr jstr
  | JArr "jval list"
  | JObj "(jstr \<times> jval) list"

type_synonym jobj = "(jstr \<times> jval) list"

section \<open>Objects as property lists\<close>

definition is_array_index :: "jstr \<Rightarrow> bool" where
  "is_array_index k \<longleftrightarrow> k = nat_digits (digits_val k) \<and> digits_val k < 4294967295"

text \<open>A new property goes behind the smaller array indices, or at the end.\<close>

fun obj_insert :: "jstr \<Rightarrow> 'v \<Rightarrow> (jstr \<times> 'v) list \<Rightarrow> (jstr \<times> 'v) list" where
  "obj_insert k v [] = [(k, v)]"
| "obj_insert k v ((k', v') # ps) =
     (if is_array_index k \<and> (\<not> is_array_index k' \<or> digits_val k < digits_val k')
      then (k, v) # (k', v') # ps
      else (k', v') # obj_insert k v ps)"

fun obj_replace :: "jstr \<Rightarrow> 'v \<Rightarrow> (jstr \<times> 'v) list \<Rightarrow> (jstr \<times> 'v) list" where
  "obj_replace k v [] = []"
| "obj_replace k v ((k', v') # ps) =
     (if k = k' then (k, v) # ps else (k', v') # obj_replace k v ps)"

definition obj_put :: "jstr \<Rightarrow> 'v \<Rightarrow> (jstr \<times> 'v) list \<Rightarrow> (jstr \<times> 'v) list" where
  "obj_put k v ps = (if k \<in> fst ` set ps then obj_replace k v ps else obj_insert k v ps)"

definition has_own :: "(jstr \<times> 'v) list \<Rightarrow> jstr \<Rightarrow> bool" where
  "has_own ps k \<longleftrightarrow> map_of ps k \<noteq> None"

lemma obj_insert_map: "k \<notin> fst ` set ps \<Longrightarrow> map_of (obj_insert k v ps) = (map_of ps)(k \<mapsto> v)"
  by (induction k v ps rule: obj_insert.induct) (auto simp: fun_eq_iff)

lemma obj_replace_map: "k \<in> fst ` set ps \<Longrightarrow> map_of (obj_replace k v ps) = (map_of ps)(k \<mapsto> v)"
  by (induction k v ps rule: obj_replace.induct) (auto simp: fun_eq_iff rev_image_eqI)

lemma map_of_obj_put: "map_of (obj_put k v ps) = (map_of ps)(k \<mapsto> v)"
  by (simp add: obj_put_def obj_insert_map obj_replace_map)

interpretation js_object: keyed_store "map_of" "obj_put"
  by unfold_locales (simp_all add: map_of_obj_put)

lemma keys_obj_insert: "fst ` set (obj_insert k v ps) = insert k (fst ` set ps)"
  by (induction k v ps rule: obj_insert.induct) auto

lemma keys_obj_replace: "map fst (obj_replace k v ps) = map fst ps"
  by (induction k v ps rule: obj_replace.induct) auto

lemma distinct_obj_insert:
  "k \<notin> fst ` set ps \<Longrightarrow> distinct (map fst ps) \<Longrightarrow> distinct (map fst (obj_insert k v ps))"
proof (induction k v ps rule: obj_insert.induct)
  case (2 k v k' v' ps)
  then show ?case
    using keys_obj_insert [of k v ps] by (auto simp: image_iff)
qed simp

lemma distinct_obj_put: "distinct (map fst ps) \<Longrightarrow> distinct (map fst (obj_put k v ps))"
  by (simp add: obj_put_def keys_obj_replace distinct_obj_insert)

section \<open>Types of values\<close>

datatype sig_type = SString | SNumber | SBoolean | SArray | SAny

definition isAbsent :: "jval \<Rightarrow> bool" where
  "isAbsent v \<longleftrightarrow> v = JNull \<or> v = JUndef \<or> v = JStr [] \<or> v = JBool False"

definition typeof_js :: "jval \<Rightarrow> jstr" where
  "typeof_js v =
     (case v of
        JUndef \<Rightarrow> lit ''undefined''
      | JNull \<Rightarrow> lit ''object''
      | JBool _ \<Rightarrow> lit ''boolean''
      | JNum _ \<Rightarrow> lit ''number''
      | JStr _ \<Rightarrow> lit ''string''
      | JArr _ \<Rightarrow> lit ''object''
      | JObj _ \<Rightarrow> lit ''object'')"

definition typeName :: "jval \<Rightarrow> jstr" where
  "typeName v =
     (case v of
        JNull \<Rightarrow> lit ''null''
      | JArr _ \<Rightarrow> lit ''array''
      | JNum n \<Rightarrow> if is_finite n then lit ''number'' else num_to_str n
      | _ \<Rightarrow> typeof_js v)"

fun matchesSig :: "jval \<Rightarrow> sig_type \<Rightarrow> bool" where
  "matchesSig v SAny = True"
| "matchesSig v SString = (case v of JStr _ \<Rightarrow> True | _ \<Rightarrow> False)"
| "matchesSig v SNumber = (case v of JNum n \<Rightarrow> is_finite n | _ \<Rightarrow> False)"
| "matchesSig v SBoolean = (case v of JBool _ \<Rightarrow> True | _ \<Rightarrow> False)"
| "matchesSig v SArray = (case v of JArr _ \<Rightarrow> True | _ \<Rightarrow> False)"

definition assignableTo :: "sig_type \<Rightarrow> sig_type \<Rightarrow> bool" where
  "assignableTo actual expected \<longleftrightarrow> actual = SAny \<or> expected = SAny \<or> actual = expected"

definition isPlainObject :: "jval \<Rightarrow> bool" where
  "isPlainObject v \<longleftrightarrow> (case v of JObj _ \<Rightarrow> True | _ \<Rightarrow> False)"

text \<open>
  A value that has a concrete type and is assigned where that type is declared passes the
  run-time check, and only such values do.
\<close>

lemma matchesSig_assignable:
  "matchesSig v t \<Longrightarrow> assignableTo t e \<Longrightarrow> t \<noteq> SAny \<Longrightarrow> matchesSig v e"
  by (auto simp: assignableTo_def)

section \<open>Equality of values\<close>

lemma size_assoc_snd: "(k, v) \<in> set ps \<Longrightarrow> f v < Suc (size_list (\<lambda>p. Suc (g (fst p) + f (snd p))) ps)"
  by (induction ps) auto

lemma size_obj_member [termination_simp]:
  "(k, v) \<in> set ps \<Longrightarrow> size v < Suc (size_list (size_prod g size) ps)"
  by (induction ps) auto

text \<open>
  Values have no identity here. The source answers true at once for one and the same array or object
  (\<open>Object.is\<close>); the comparison by structure gives the same answer, except for an array or object that is
  compared with itself and holds \<open>NaN\<close>, which is not equal to itself.
\<close>

function (sequential) deepEquals :: "jval \<Rightarrow> jval \<Rightarrow> bool" where
  "deepEquals (JNum a) (JNum b) = jnum_eq a b"
| "deepEquals (JArr xs) (JArr ys) =
     (length xs = length ys \<and> list_all (\<lambda>(x, y). deepEquals x y) (zip xs ys))"
| "deepEquals (JObj ps) (JObj qs) =
     (length ps = length qs \<and> sort (map fst ps) = sort (map fst qs)
      \<and> list_all (\<lambda>(k, v). case map_of qs k of Some w \<Rightarrow> deepEquals v w | None \<Rightarrow> False) ps)"
| "deepEquals JUndef JUndef = True"
| "deepEquals JNull JNull = True"
| "deepEquals (JBool a) (JBool b) = (a = b)"
| "deepEquals (JStr a) (JStr b) = (a = b)"
| "deepEquals _ _ = False"
  by pat_completeness auto
termination
proof (relation "measure (\<lambda>(a, b). size a)", goal_cases)
  case (2 xs ys z x y)
  then have "x \<in> set xs" by (metis in_set_zipE prod.collapse)
  then show ?case by (simp add: less_Suc_eq_le size_list_estimation')
next
  case (3 ps qs z k v w)
  then show ?case by (auto dest: size_obj_member)
qed simp

text \<open>Values the language computes with: own keys are distinct and no number is \<open>NaN\<close>.\<close>

fun wf_val :: "jval \<Rightarrow> bool" where
  "wf_val (JNum n) = (n \<noteq> NaN)"
| "wf_val (JArr xs) = list_all wf_val xs"
| "wf_val (JObj ps) = (distinct (map fst ps) \<and> list_all (\<lambda>(k, v). wf_val v) ps)"
| "wf_val _ = True"

lemma deepEquals_refl: "wf_val a \<Longrightarrow> deepEquals a a"
proof (induction a rule: wf_val.induct)
  case (2 xs)
  then show ?case by (auto simp: list_all_iff zip_same_conv_map)
next
  case (3 ps)
  then show ?case by (fastforce simp: list_all_iff)
qed (auto intro: jnum_eq_refl)

lemma sort_eq_set: "sort xs = sort ys \<Longrightarrow> set xs = set (ys :: 'a::linorder list)"
  by (metis set_sort)

lemma deepEquals_sym: "wf_val a \<Longrightarrow> wf_val b \<Longrightarrow> deepEquals a b \<Longrightarrow> deepEquals b a"
proof (induction a b rule: deepEquals.induct)
  case (2 xs ys)
  then show ?case by (fastforce simp: list_all_iff set_zip)
next
  case (3 ps qs)
  have keys: "fst ` set ps = fst ` set qs"
    using 3 sort_eq_set [of "map fst ps" "map fst qs"] by simp
  have "case map_of ps k of Some v \<Rightarrow> deepEquals w v | None \<Rightarrow> False" if kw: "(k, w) \<in> set qs" for k w
  proof -
    from kw keys obtain v where kv: "(k, v) \<in> set ps" by force
    have mw: "map_of qs k = Some w" and mv: "map_of ps k = Some v" using 3 kw kv by auto
    from 3 kv mw have eq: "deepEquals v w" by (auto simp: list_all_iff)
    have "wf_val v" "wf_val w" using 3 kv kw by (auto simp: list_all_iff)
    with 3(1) [OF kv refl mw] eq have "deepEquals w v" by blast
    with mv show ?thesis by simp
  qed
  with 3 show ?case by (auto simp: list_all_iff)
qed (auto intro: jnum_eq_sym)

lemma deepEquals_trans:
  "wf_val a \<Longrightarrow> wf_val b \<Longrightarrow> wf_val c \<Longrightarrow> deepEquals a b \<Longrightarrow> deepEquals b c \<Longrightarrow> deepEquals a c"
proof (induction a b arbitrary: c rule: deepEquals.induct)
  case (1 a b)
  then show ?case by (cases c) (auto intro: jnum_eq_trans)
next
  case (2 xs ys)
  then show ?case by (cases c) (fastforce simp: list_all_iff set_zip)+
next
  case (3 ps qs)
  then obtain rs where c: "c = JObj rs" by (cases c) auto
  have "case map_of rs k of Some u \<Rightarrow> deepEquals v u | None \<Rightarrow> False" if kv: "(k, v) \<in> set ps" for k v
  proof -
    from 3 kv obtain w where mw: "map_of qs k = Some w" and vw: "deepEquals v w"
      by (auto simp: list_all_iff split: option.splits)
    then have kw: "(k, w) \<in> set qs" by (simp add: map_of_SomeD)
    from 3 c kw obtain u where mu: "map_of rs k = Some u" and wu: "deepEquals w u"
      by (auto simp: list_all_iff split: option.splits)
    then have ku: "(k, u) \<in> set rs" by (simp add: map_of_SomeD)
    have "wf_val v" "wf_val w" "wf_val u" using 3 c kv kw ku by (auto simp: list_all_iff)
    with 3(1) [OF kv refl mw] vw wu mu show ?thesis by simp
  qed
  with 3 c show ?case by (auto simp: list_all_iff)
qed (case_tac c; auto)+

end
