(* ===== verification/JsError.thy ===== *)
theory JsError
  imports JsString
begin

text \<open>
  What the code of the \<open>${}\<close> language can throw. \<open>SubstituteE\<close> is a \<open>SubstituteError\<close>
  (\<open>engine/types.ts\<close>), \<open>MissingE\<close> its subclass \<open>MissingValueError\<close> of
  \<open>engine/params.ts\<close>, which alone \<open>default()\<close> rescues, and \<open>HostE\<close> an error of the
  JavaScript host (a \<open>TypeError\<close>, \<open>RangeError\<close> or \<open>URIError\<close>). A message is
  represented by the site that throws it: one constructor for each \<open>throw\<close>.
\<close>

text \<open>The parser, \<open>engine/expr.ts\<close>.\<close>

datatype parse_reason =
    NestingTooDeep | EmptyExpression | NumberOverflow | UnterminatedString | TextAfterString
  | EmptySegment | MustStartWithName | EmptyIndex | UnexpectedChar | UnterminatedBracket
  | UnbalancedQuotes

text \<open>Roots of a reference that do not resolve, \<open>resolveRoot\<close> of \<open>engine/params.ts\<close>.\<close>

datatype root_reason =
    UnresolvableRef | PathTooDeep | ItemUnbound | UnknownParam jstr | UnknownVariable jstr
  | UnknownGlobal jstr | UnknownNode jstr | NodeNotSettled jstr | UnknownRunField jstr
  | UnknownTriggerField jstr | ToolUnbound | UnknownToolArg jstr | MissingOutput jstr jstr

text \<open>Steps along a path, and the evaluator's own refusals, \<open>engine/params.ts\<close>.\<close>

datatype eval_reason =
    FieldOnArray jstr | FieldOnScalar jstr | IndexNotKey | IndexNotFinite | BadArrayIndex
  | IndexIntoScalar | NoField jstr | NoFieldOnNull jstr | IndexOnNull | IndexPastEnd
  | UnknownFunction jstr | BadArity jstr | FunctionFailed jstr
  | TooManyElements | ConfigTooDeep | UnterminatedRef | NotAnExpression jstr | TextAround jstr
  | EmptyFilterField jstr

text \<open>The function catalog, \<open>engine/functions.ts\<close>.\<close>

datatype fn_reason =
    BadArgument | ValueOverflow | NotComparable | ArrayTooLarge | NegativeStart | NegativeLength
  | EmptyNeedle | NotSized | AverageOfNothing | CannotConvert | InvalidJson | BadPercentEncoding
  | DivisionByZero | BadCount | NotUtf8 | TruncatedUtf8 | NotBase64

text \<open>Its date functions.\<close>

datatype date_reason =
    NotTimestamp | BadMonth | BadTime | BadDay | BadOffset | TimeOutOfRange | ResultOutOfRange
  | FractionalInterval | UnknownUnit | UnknownFormatToken

datatype reason =
    ParseReason parse_reason
  | RootReason root_reason
  | EvalReason eval_reason
  | FnReason jstr fn_reason
  | DateReason jstr date_reason

datatype exn = SubstituteE reason | MissingE reason | HostE

type_synonym 'a jres = "(exn, 'a) result"

abbreviation throw :: "reason \<Rightarrow> 'a jres" where
  "throw r \<equiv> Inl (SubstituteE r)"

abbreviation throw_missing :: "reason \<Rightarrow> 'a jres" where
  "throw_missing r \<equiv> Inl (MissingE r)"

end
