(* ===== verification/Calendar.thy ===== *)
theory Calendar
  imports JsValue JsError
begin

text \<open>
  The date functions of \<open>engine/functions.ts\<close>: the UTC calendar of the host's \<open>Date\<close> as
  ECMA-262 defines it, and over it \<open>utcMs\<close>, \<open>parseTs\<close>, \<open>isoOf\<close>, \<open>addMonths\<close>,
  \<open>shiftBy\<close>, \<open>startOf\<close> and \<open>formatDateTime\<close>. An instant is its epoch milliseconds as
  an \<open>int\<close>; \<open>None\<close> is the \<open>NaN\<close> of an invalid date. Instants that come out of these
  functions lie far below \<open>2 ^ 53\<close>, and an intermediate value above it is refused by
  \<open>isoOf\<close> whatever its rounding, so unbounded integers compute what the doubles compute.
\<close>

section \<open>The calendar of the host\<close>

definition isLeapYear :: "int \<Rightarrow> bool" where
  "isLeapYear y \<longleftrightarrow> (y mod 4 = 0 \<and> y mod 100 \<noteq> 0) \<or> y mod 400 = 0"

definition DAYS_IN_MONTH :: "int list" where
  "DAYS_IN_MONTH = [31, 28, 31, 30, 31, 30, 31, 31, 30, 31, 30, 31]"

definition daysInMonth :: "int \<Rightarrow> int \<Rightarrow> int" where
  "daysInMonth y month0 = (if month0 = 1 \<and> isLeapYear y then 29 else DAYS_IN_MONTH ! nat month0)"

definition day_from_year :: "int \<Rightarrow> int" where
  "day_from_year y =
     365 * (y - 1970) + (y - 1969) div 4 - (y - 1901) div 100 + (y - 1601) div 400"

definition year_from_day :: "int \<Rightarrow> int" where
  "year_from_day d =
     (let y = 1970 + 400 * d div 146097
      in if d < day_from_year y then y - 1 else if day_from_year (y + 1) \<le> d then y + 1 else y)"

definition month_start :: "bool \<Rightarrow> int \<Rightarrow> int" where
  "month_start leap m =
     (if m \<le> 0 then 0 else if m = 1 then 31
      else (if m = 2 then 59 else if m = 3 then 90 else if m = 4 then 120 else if m = 5 then 151
            else if m = 6 then 181 else if m = 7 then 212 else if m = 8 then 243
            else if m = 9 then 273 else if m = 10 then 304 else if m = 11 then 334 else 365)
           + (if leap then 1 else 0))"

definition month_of :: "bool \<Rightarrow> int \<Rightarrow> int" where
  "month_of leap n =
     (if n < month_start leap 1 then 0 else if n < month_start leap 2 then 1
      else if n < month_start leap 3 then 2 else if n < month_start leap 4 then 3
      else if n < month_start leap 5 then 4 else if n < month_start leap 6 then 5
      else if n < month_start leap 7 then 6 else if n < month_start leap 8 then 7
      else if n < month_start leap 9 then 8 else if n < month_start leap 10 then 9
      else if n < month_start leap 11 then 10 else 11)"

definition ms_day :: "int \<Rightarrow> int" where "ms_day t = t div 86400000"

definition getUTCFullYear :: "int \<Rightarrow> int" where
  "getUTCFullYear t = year_from_day (ms_day t)"

definition day_in_year :: "int \<Rightarrow> int" where
  "day_in_year t = ms_day t - day_from_year (getUTCFullYear t)"

definition getUTCMonth :: "int \<Rightarrow> int" where
  "getUTCMonth t = month_of (isLeapYear (getUTCFullYear t)) (day_in_year t)"

definition getUTCDate :: "int \<Rightarrow> int" where
  "getUTCDate t = day_in_year t - month_start (isLeapYear (getUTCFullYear t)) (getUTCMonth t) + 1"

definition getUTCHours :: "int \<Rightarrow> int" where "getUTCHours t = t mod 86400000 div 3600000"
definition getUTCMinutes :: "int \<Rightarrow> int" where "getUTCMinutes t = t mod 3600000 div 60000"
definition getUTCSeconds :: "int \<Rightarrow> int" where "getUTCSeconds t = t mod 60000 div 1000"
definition getUTCMilliseconds :: "int \<Rightarrow> int" where "getUTCMilliseconds t = t mod 1000"
definition getUTCDay :: "int \<Rightarrow> int" where "getUTCDay t = (ms_day t + 4) mod 7"

definition make_day :: "int \<Rightarrow> int \<Rightarrow> int \<Rightarrow> int" where
  "make_day y m0 d =
     (let ym = y + m0 div 12; mn = m0 mod 12
      in day_from_year ym + month_start (isLeapYear ym) mn + d - 1)"

definition make_time :: "int \<Rightarrow> int \<Rightarrow> int \<Rightarrow> int \<Rightarrow> int" where
  "make_time h mi s ms = h * 3600000 + mi * 60000 + s * 1000 + ms"

definition time_clip :: "int \<Rightarrow> int option" where
  "time_clip t = (if \<bar>t\<bar> \<le> 8640000000000000 then Some t else None)"

text \<open>\<open>Date.UTC\<close>, with its reading of the years 0 to 99, and \<open>setUTCFullYear\<close>.\<close>

definition date_UTC :: "int \<Rightarrow> int \<Rightarrow> int \<Rightarrow> int \<Rightarrow> int \<Rightarrow> int \<Rightarrow> int \<Rightarrow> int option" where
  "date_UTC y m0 d h mi s ms =
     time_clip (make_day (if 0 \<le> y \<and> y \<le> 99 then 1900 + y else y) m0 d * 86400000
                + make_time h mi s ms)"

definition setUTCFullYear :: "int \<Rightarrow> int \<Rightarrow> int option" where
  "setUTCFullYear t y =
     time_clip (make_day y (getUTCMonth t) (getUTCDate t) * 86400000 + t mod 86400000)"

section \<open>Instants of the catalog\<close>

definition utcMs :: "int \<Rightarrow> int \<Rightarrow> int \<Rightarrow> int \<Rightarrow> int \<Rightarrow> int \<Rightarrow> int \<Rightarrow> int option" where
  "utcMs y month1 d h mi s ms =
     (let t = date_UTC y (month1 - 1) d h mi s ms
      in if 0 \<le> y \<and> y < 100
         then (case t of None \<Rightarrow> None | Some t \<Rightarrow> setUTCFullYear t y)
         else t)"

definition MIN_TIME_MS :: int where "MIN_TIME_MS = the (utcMs 1 1 1 0 0 0 0)"
definition MAX_TIME_MS :: int where "MAX_TIME_MS = the (utcMs 9999 12 31 23 59 59 999)"

text \<open>The match of \<open>ISO_TS_RE\<close>: its eight groups.\<close>

record iso_match =
  iso_year :: nat
  iso_month :: nat
  iso_day :: nat
  iso_hour :: nat
  iso_minute :: nat
  iso_second :: nat
  iso_fraction :: jstr
  iso_offset :: jstr

definition digits_at :: "nat \<Rightarrow> jstr \<Rightarrow> (nat \<times> jstr) option" where
  "digits_at n s =
     (if n \<le> length s \<and> list_all is_digit (take n s) then Some (digits_val (take n s), drop n s)
      else None)"

definition skip_char :: "nat \<Rightarrow> jstr \<Rightarrow> jstr option" where
  "skip_char u s = (case s of [] \<Rightarrow> None | v # t \<Rightarrow> if v = u then Some t else None)"

text \<open>The group \<open>(?:\.(\d+))?\<close>: a point without digits matches nothing and the offset fails on it.\<close>

definition iso_frac :: "jstr \<Rightarrow> jstr \<times> jstr" where
  "iso_frac s = scan_frac s"

text \<open>The group \<open>(Z|[+-]\d{2}:?\d{2})$\<close>.\<close>

definition is_iso_offset :: "jstr \<Rightarrow> bool" where
  "is_iso_offset s \<longleftrightarrow>
     s = lit ''Z'' \<or>
     (s \<noteq> [] \<and> (hd s = 43 \<or> hd s = 45) \<and>
      (case digits_at 2 (tl s) of
         None \<Rightarrow> False
       | Some (_, r) \<Rightarrow>
           let r' = (case skip_char 58 r of Some t \<Rightarrow> t | None \<Rightarrow> r)
           in length r' = 2 \<and> list_all is_digit r'))"

definition iso_exec :: "jstr \<Rightarrow> iso_match option" where
  "iso_exec s =
     Option.bind (digits_at 4 s) (\<lambda>(y, s). Option.bind (skip_char 45 s) (\<lambda>s.
     Option.bind (digits_at 2 s) (\<lambda>(mo, s). Option.bind (skip_char 45 s) (\<lambda>s.
     Option.bind (digits_at 2 s) (\<lambda>(d, s). Option.bind (skip_char 84 s) (\<lambda>s.
     Option.bind (digits_at 2 s) (\<lambda>(h, s). Option.bind (skip_char 58 s) (\<lambda>s.
     Option.bind (digits_at 2 s) (\<lambda>(mi, s). Option.bind (skip_char 58 s) (\<lambda>s.
     Option.bind (digits_at 2 s) (\<lambda>(s2, s).
       let fr = iso_frac s
       in if is_iso_offset (snd fr)
          then Some \<lparr>iso_year = y, iso_month = mo, iso_day = d, iso_hour = h, iso_minute = mi,
                     iso_second = s2, iso_fraction = fst fr, iso_offset = snd fr\<rparr>
          else None)))))))))))"

definition throw_date :: "jstr \<Rightarrow> date_reason \<Rightarrow> 'a jres" where
  "throw_date fn r = throw (DateReason fn r)"

definition str_arg :: "jstr \<Rightarrow> jval \<Rightarrow> jstr jres" where
  "str_arg fn v = (case v of JStr s \<Rightarrow> Inr s | _ \<Rightarrow> throw (FnReason fn BadArgument))"

text \<open>The signed offset in milliseconds, \<open>None\<close> when it lies outside \<open>23:59\<close>.\<close>

definition offset_ms :: "jstr \<Rightarrow> int option" where
  "offset_ms off =
     (if off = lit ''Z'' then Some 0
      else let sign = (if starts_with off (lit ''-'') then - 1 else 1);
               digits = filter (\<lambda>u. u \<noteq> 58) (drop 1 off);
               oh = int (digits_val (js_slice digits 0 2));
               om = int (digits_val (js_slice digits 2 4))
           in if 23 < oh \<or> 59 < om then None else Some (sign * (oh * 3600000 + om * 60000)))"

definition parseTs :: "jstr \<Rightarrow> jval \<Rightarrow> int jres" where
  "parseTs fn v =
     bindR (str_arg fn v) (\<lambda>s.
       case iso_exec s of
         None \<Rightarrow> throw_date fn NotTimestamp
       | Some m \<Rightarrow>
           let y = int (iso_year m); mo = int (iso_month m); d = int (iso_day m);
               h = int (iso_hour m); mi = int (iso_minute m); s2 = int (iso_second m);
               ms = int (digits_val (take 3 (iso_fraction m @ replicate (3 - length (iso_fraction m)) 48)))
           in if mo < 1 \<or> 12 < mo then throw_date fn BadMonth
              else if 23 < h \<or> 59 < mi \<or> 59 < s2 then throw_date fn BadTime
              else if d < 1 \<or> daysInMonth y (mo - 1) < d then throw_date fn BadDay
              else case offset_ms (iso_offset m) of
                     None \<Rightarrow> throw_date fn BadOffset
                   | Some off \<Rightarrow>
                       (case utcMs y mo d h mi s2 ms of
                          None \<Rightarrow> throw_date fn TimeOutOfRange
                        | Some t0 \<Rightarrow>
                            let t = t0 - off
                            in if t < MIN_TIME_MS \<or> MAX_TIME_MS < t then throw_date fn TimeOutOfRange
                               else Inr t))"

definition pad :: "int \<Rightarrow> nat \<Rightarrow> jstr" where
  "pad n width = pad_start (nat_digits (nat n)) width 48"

text \<open>\<open>Date.prototype.toISOString\<close> for the years 0 to 9999.\<close>

definition toISOString :: "int \<Rightarrow> jstr" where
  "toISOString t =
     pad (getUTCFullYear t) 4 @ [45] @ pad (getUTCMonth t + 1) 2 @ [45] @ pad (getUTCDate t) 2
     @ [84] @ pad (getUTCHours t) 2 @ [58] @ pad (getUTCMinutes t) 2 @ [58] @ pad (getUTCSeconds t) 2
     @ [46] @ pad (getUTCMilliseconds t) 3 @ [90]"

definition isoOf :: "jstr \<Rightarrow> int option \<Rightarrow> jval jres" where
  "isoOf fn ms =
     (case ms of
        None \<Rightarrow> throw_date fn ResultOutOfRange
      | Some t \<Rightarrow>
          if t < MIN_TIME_MS \<or> MAX_TIME_MS < t then throw_date fn ResultOutOfRange
          else Inr (JStr (toISOString t)))"

definition interval :: "jstr \<Rightarrow> jval \<Rightarrow> int jres" where
  "interval fn v =
     (if \<not> matchesSig v SNumber then throw (FnReason fn BadArgument)
      else case v of
             JNum n \<Rightarrow> if is_integer n then Inr (int_of_jnum n) else throw_date fn FractionalInterval
           | _ \<Rightarrow> throw (FnReason fn BadArgument))"

definition addFixed :: "jstr \<Rightarrow> jval list \<Rightarrow> int \<Rightarrow> jval jres" where
  "addFixed fn a unitMs =
     bindR (parseTs fn (a ! 0)) (\<lambda>ms. bindR (interval fn (a ! 1)) (\<lambda>n.
       isoOf fn (Some (ms + n * unitMs))))"

definition FIXED_UNIT_MS :: "(jstr \<times> int) list" where
  "FIXED_UNIT_MS =
     [(lit ''Second'', 1000), (lit ''Minute'', 60000), (lit ''Hour'', 3600000),
      (lit ''Day'', 86400000), (lit ''Week'', 604800000)]"

definition addMonths :: "int \<Rightarrow> int \<Rightarrow> int option" where
  "addMonths ms n =
     (let total = getUTCFullYear ms * 12 + getUTCMonth ms + n;
          y = total div 12;
          month0 = total - y * 12;
          day = min (getUTCDate ms) (daysInMonth y month0)
      in utcMs y (month0 + 1) day (getUTCHours ms) (getUTCMinutes ms) (getUTCSeconds ms)
           (getUTCMilliseconds ms))"

definition shiftBy :: "jstr \<Rightarrow> jval list \<Rightarrow> int \<Rightarrow> jval jres" where
  "shiftBy fn a sign =
     bindR (parseTs fn (a ! 0)) (\<lambda>ms. bindR (interval fn (a ! 1)) (\<lambda>k. bindR (str_arg fn (a ! 2)) (\<lambda>unit.
       let n = sign * k
       in if unit = lit ''Month'' then isoOf fn (addMonths ms n)
          else if unit = lit ''Year'' then isoOf fn (addMonths ms (n * 12))
          else case map_of FIXED_UNIT_MS unit of
                 None \<Rightarrow> throw_date fn UnknownUnit
               | Some w \<Rightarrow> isoOf fn (Some (ms + n * w)))))"

datatype start_unit = UMonth | UDay | UHour

definition startOf :: "jstr \<Rightarrow> jval list \<Rightarrow> start_unit \<Rightarrow> jval jres" where
  "startOf fn a unit =
     bindR (parseTs fn (a ! 0)) (\<lambda>t.
       isoOf fn (utcMs (getUTCFullYear t) (getUTCMonth t + 1)
         (if unit = UMonth then 1 else getUTCDate t) (if unit = UHour then getUTCHours t else 0) 0 0 0))"

definition FORMAT_TOKEN_NAMES :: "jstr list" where
  "FORMAT_TOKEN_NAMES =
     [lit ''yyyy'', lit ''MM'', lit ''dd'', lit ''HH'', lit ''mm'', lit ''ss'', lit ''fff'']"

definition isFormatToken :: "jstr \<Rightarrow> bool" where
  "isFormatToken r \<longleftrightarrow> r \<in> set FORMAT_TOKEN_NAMES"

definition FORMAT_TOKENS :: "jstr \<Rightarrow> int \<Rightarrow> jstr" where
  "FORMAT_TOKENS r d =
     (if r = lit ''yyyy'' then pad (getUTCFullYear d) 4
      else if r = lit ''MM'' then pad (getUTCMonth d + 1) 2
      else if r = lit ''dd'' then pad (getUTCDate d) 2
      else if r = lit ''HH'' then pad (getUTCHours d) 2
      else if r = lit ''mm'' then pad (getUTCMinutes d) 2
      else if r = lit ''ss'' then pad (getUTCSeconds d) 2
      else pad (getUTCMilliseconds d) 3)"

text \<open>The matches of \<open>([\s\S])\1*\<close>: the maximal runs of one character.\<close>

function char_runs :: "jstr \<Rightarrow> jstr list" where
  "char_runs [] = []"
| "char_runs (u # s) = (u # takeWhile (\<lambda>v. v = u) s) # char_runs (dropWhile (\<lambda>v. v = u) s)"
  by pat_completeness auto
termination
  by (relation "measure length") (auto simp: le_imp_less_Suc length_dropWhile_le)

definition format_run :: "jstr \<Rightarrow> int \<Rightarrow> jstr \<Rightarrow> jstr jres" where
  "format_run fn d r =
     (if \<not> is_letter (hd r) then Inr r
      else if \<not> isFormatToken r then throw_date fn UnknownFormatToken
      else Inr (FORMAT_TOKENS r d))"

definition formatDateTime :: "jstr \<Rightarrow> jval list \<Rightarrow> jval jres" where
  "formatDateTime fn a =
     bindR (parseTs fn (a ! 0)) (\<lambda>d. bindR (str_arg fn (a ! 1)) (\<lambda>format.
       bindR (mapR (format_run fn d) (char_runs format)) (\<lambda>rs. Inr (JStr (concat rs)))))"

section \<open>The calendar is a bijection\<close>

lemma floor_div_bounds: "0 < k \<Longrightarrow> k * (a div k) \<le> a \<and> a < k * (a div k) + k" for a k :: int
  by (metis add.commute add_le_cancel_right less_add_same_cancel1 mult_div_mod_eq pos_mod_bound pos_mod_sign
      add_strict_left_mono le_add_same_cancel1)

lemma day_from_year_bounds:
  "146097 * (y - 1970) - 506 \<le> 400 * day_from_year y"
  "400 * day_from_year y \<le> 146097 * (y - 1970) + 589"
  using floor_div_bounds [of 4 "y - 1969"] floor_div_bounds [of 100 "y - 1901"]
    floor_div_bounds [of 400 "y - 1601"]
  unfolding day_from_year_def by (simp_all add: algebra_simps)

lemma year_from_day_bounds:
  "day_from_year (year_from_day d) \<le> d \<and> d < day_from_year (year_from_day d + 1)"
proof -
  define y where "y = 1970 + 400 * d div 146097"
  have y: "146097 * (y - 1970) \<le> 400 * d" "400 * d < 146097 * (y - 1970) + 146097"
    using floor_div_bounds [of 146097 "400 * d"] by (auto simp: y_def)
  have lo: "day_from_year (y - 1) \<le> d" using y day_from_year_bounds(2) [of "y - 1"] by (simp add: algebra_simps)
  have hi: "d < day_from_year (y + 1 + 1)" using y day_from_year_bounds(1) [of "y + 2"] by (simp add: algebra_simps)
  with lo hi show ?thesis unfolding year_from_day_def y_def [symmetric] Let_def by simp
qed

lemma div_step: "0 < k \<Longrightarrow> (a + 1) div k = a div k + (if (a + 1) mod k = 0 then 1 else 0)" for a k :: int
proof -
  assume k: "0 < k"
  define q where "q = (a + 1) div k"
  define r where "r = (a + 1) mod k"
  have a: "a + 1 = k * q + r" by (simp add: q_def r_def)
  have r: "0 \<le> r" "r < k" using k by (simp_all add: r_def)
  show ?thesis
  proof (cases "r = 0")
    case True
    then have "a = k * (q - 1) + (k - 1)" using a by (simp add: algebra_simps)
    then have "a div k = q - 1" using k by (intro int_div_pos_eq [where r = "k - 1"]) auto
    then show ?thesis using True by (simp add: q_def r_def)
  next
    case False
    then have "a div k = q" using a r by (intro int_div_pos_eq [where r = "r - 1"]) auto
    then show ?thesis using False by (simp add: q_def r_def)
  qed
qed

lemma shift_mod_zero: "k dvd c \<Longrightarrow> (y - c) mod k = 0 \<longleftrightarrow> y mod k = 0" for y c k :: int
  by (metis dvd_diff_right_iff mod_0_imp_dvd dvd_imp_mod_0 dvd_diff_left_iff)

lemma div_step_shift:
  fixes y c k :: int
  assumes "0 < k" "k dvd c"
  shows "(y - c) div k = (y - (c + 1)) div k + (if y mod k = 0 then 1 else 0)"
proof -
  have e: "y - (c + 1) + 1 = y - c" by simp
  show ?thesis
    using div_step [OF assms(1), of "y - (c + 1)"] unfolding e shift_mod_zero [OF assms(2)] .
qed

lemma day_from_year_step:
  "day_from_year (y + 1) = day_from_year y + (if isLeapYear y then 366 else 365)"
proof -
  have s: "(y - 1968) div 4 = (y - 1969) div 4 + (if y mod 4 = 0 then 1 else 0)"
    "(y - 1900) div 100 = (y - 1901) div 100 + (if y mod 100 = 0 then 1 else 0)"
    "(y - 1600) div 400 = (y - 1601) div 400 + (if y mod 400 = 0 then 1 else 0)"
    by (rule div_step_shift [of 4 1968 y, unfolded numeral_plus_one add_num_simps]
        div_step_shift [of 100 1900 y, unfolded numeral_plus_one add_num_simps]
        div_step_shift [of 400 1600 y, unfolded numeral_plus_one add_num_simps]; simp)+
  have i: "y mod 400 = 0 \<Longrightarrow> y mod 100 = 0" "y mod 100 = 0 \<Longrightarrow> y mod 4 = 0"
    using mod_mod_cancel [of 100 400 y] mod_mod_cancel [of 4 100 y] by auto
  have n: "day_from_year (y + 1) =
      365 * (y - 1970) + 365 + (y - 1968) div 4 - (y - 1900) div 100 + (y - 1600) div 400"
    by (simp add: day_from_year_def)
  have o: "day_from_year y =
      365 * (y - 1970) + (y - 1969) div 4 - (y - 1901) div 100 + (y - 1601) div 400"
    by (simp add: day_from_year_def)
  show ?thesis unfolding n o s using i by (simp add: isLeapYear_def)
qed

lemma day_from_year_mono: "y < z \<Longrightarrow> day_from_year y < day_from_year z"
proof (induction "nat (z - y)" arbitrary: z)
  case (Suc n)
  show ?case
  proof (cases "y = z - 1")
    case True
    then show ?thesis using day_from_year_step [of y] by (simp split: if_splits)
  next
    case False
    with Suc have "day_from_year y < day_from_year (z - 1)" by (intro Suc.hyps(1)) auto
    then show ?thesis using day_from_year_step [of "z - 1"] by (simp split: if_splits)
  qed
qed simp

lemma day_from_year_mono_le: "y \<le> z \<Longrightarrow> day_from_year y \<le> day_from_year z"
  using day_from_year_mono [of y z] by (cases "y = z") auto

lemma year_from_day_unique:
  assumes "day_from_year y \<le> d" "d < day_from_year (y + 1)"
  shows "year_from_day d = y"
proof -
  have "\<not> year_from_day d < y"
    using day_from_year_mono_le [of "year_from_day d + 1" y] year_from_day_bounds [of d] assms by auto
  moreover have "\<not> y < year_from_day d"
    using day_from_year_mono_le [of "y + 1" "year_from_day d"] year_from_day_bounds [of d] assms by auto
  ultimately show ?thesis by simp
qed

definition year_length :: "bool \<Rightarrow> int" where
  "year_length leap = (if leap then 366 else 365)"

lemma month_start_numeral:
  "month_start leap 0 = 0" "month_start leap 1 = 31"
  "month_start leap 2 = 59 + of_bool leap" "month_start leap 3 = 90 + of_bool leap"
  "month_start leap 4 = 120 + of_bool leap" "month_start leap 5 = 151 + of_bool leap"
  "month_start leap 6 = 181 + of_bool leap" "month_start leap 7 = 212 + of_bool leap"
  "month_start leap 8 = 243 + of_bool leap" "month_start leap 9 = 273 + of_bool leap"
  "month_start leap 10 = 304 + of_bool leap" "month_start leap 11 = 334 + of_bool leap"
  "month_start leap 12 = 365 + of_bool leap"
  by (simp_all add: month_start_def)

lemma month_of_bounds:
  assumes "0 \<le> n" "n < year_length leap"
  shows "0 \<le> month_of leap n" "month_of leap n \<le> 11"
    "month_start leap (month_of leap n) \<le> n" "n < month_start leap (month_of leap n + 1)"
proof -
  show "0 \<le> month_of leap n" "month_of leap n \<le> 11" by (simp_all add: month_of_def)
  show "month_start leap (month_of leap n) \<le> n"
    using assms(1) by (simp add: month_of_def month_start_numeral)
  show "n < month_start leap (month_of leap n + 1)"
    using assms(2) by (simp add: month_of_def month_start_numeral year_length_def split: if_splits)
qed

lemma month_cases:
  fixes m :: int
  assumes "0 \<le> m" "m < 12"
  obtains "m = 0" | "m = 1" | "m = 2" | "m = 3" | "m = 4" | "m = 5" | "m = 6" | "m = 7"
  | "m = 8" | "m = 9" | "m = 10" | "m = 11"
proof -
  have "m \<in> set [0..11]" using assms by simp
  also have "[0..11] = [0, 1, 2, 3, 4, 5, 6, 7, 8, 9, 10, 11]" by (simp add: upto.simps)
  finally show ?thesis using that by auto
qed

lemma month_of_unique:
  assumes "0 \<le> m" "m < 12" "month_start leap m \<le> n" "n < month_start leap (m + 1)"
  shows "month_of leap n = m"
  using assms(1,2) by (cases rule: month_cases) (use assms(3,4) in \<open>simp_all add: month_of_def month_start_def split: if_splits\<close>)

lemma daysInMonth_start:
  assumes "0 \<le> m" "m < 12"
  shows "month_start (isLeapYear y) (m + 1) = month_start (isLeapYear y) m + daysInMonth y m"
  using assms by (cases rule: month_cases) (auto simp: month_start_def daysInMonth_def DAYS_IN_MONTH_def)

lemma daysInMonth_bounds: "0 \<le> m \<Longrightarrow> m < 12 \<Longrightarrow> 28 \<le> daysInMonth y m \<and> daysInMonth y m \<le> 31"
  by (cases m rule: month_cases) (auto simp: daysInMonth_def DAYS_IN_MONTH_def)

lemma month_start_mono:
  "0 \<le> m \<Longrightarrow> m < 12 \<Longrightarrow> 0 \<le> month_start leap m \<and> month_start leap (m + 1) \<le> year_length leap"
  by (cases m rule: month_cases) (auto simp: month_start_def year_length_def)

text \<open>A date of the calendar: a month and a day that exist.\<close>

definition valid_date :: "int \<Rightarrow> int \<Rightarrow> int \<Rightarrow> bool" where
  "valid_date y m0 d \<longleftrightarrow> 0 \<le> m0 \<and> m0 < 12 \<and> 1 \<le> d \<and> d \<le> daysInMonth y m0"

definition valid_time :: "int \<Rightarrow> int \<Rightarrow> int \<Rightarrow> int \<Rightarrow> bool" where
  "valid_time h mi s ms \<longleftrightarrow>
     0 \<le> h \<and> h < 24 \<and> 0 \<le> mi \<and> mi < 60 \<and> 0 \<le> s \<and> s < 60 \<and> 0 \<le> ms \<and> ms < 1000"

definition make_date :: "int \<Rightarrow> int \<Rightarrow> int \<Rightarrow> int \<Rightarrow> int \<Rightarrow> int \<Rightarrow> int \<Rightarrow> int" where
  "make_date y m0 d h mi s ms = make_day y m0 d * 86400000 + make_time h mi s ms"

lemma make_day_valid:
  assumes "valid_date y m0 d"
  shows "make_day y m0 d = day_from_year y + month_start (isLeapYear y) m0 + d - 1"
  using assms by (simp add: make_day_def Let_def valid_date_def)

lemma make_day_fields:
  assumes "valid_date y m0 d"
  defines "n \<equiv> make_day y m0 d"
  shows "year_from_day n = y" "month_of (isLeapYear y) (n - day_from_year y) = m0"
    "n - day_from_year y - month_start (isLeapYear y) m0 + 1 = d"
proof -
  have m: "0 \<le> m0" "m0 < 12" and d: "1 \<le> d" "d \<le> daysInMonth y m0"
    using assms(1) by (auto simp: valid_date_def)
  have n: "n = day_from_year y + (month_start (isLeapYear y) m0 + d - 1)"
    unfolding n_def make_day_valid [OF assms(1)] by simp
  have hi: "month_start (isLeapYear y) m0 + d - 1 < month_start (isLeapYear y) (m0 + 1)"
    using daysInMonth_start [OF m, of y] d by simp
  show y: "year_from_day n = y"
  proof (rule year_from_day_unique)
    show "day_from_year y \<le> n" using month_start_mono [OF m, of "isLeapYear y"] d n by simp
    show "n < day_from_year (y + 1)"
      using month_start_mono [OF m, of "isLeapYear y"] hi n
      by (simp add: day_from_year_step year_length_def split: if_splits)
  qed
  show "month_of (isLeapYear y) (n - day_from_year y) = m0"
    by (rule month_of_unique [OF m]) (use n hi d in simp_all)
  show "n - day_from_year y - month_start (isLeapYear y) m0 + 1 = d" by (simp add: n)
qed

lemma day_in_year_bounds:
  "0 \<le> day_in_year t \<and> day_in_year t < year_length (isLeapYear (getUTCFullYear t))"
  using year_from_day_bounds [of "ms_day t"]
  by (auto simp: day_in_year_def getUTCFullYear_def day_from_year_step year_length_def split: if_splits)

lemma fields_valid: "valid_date (getUTCFullYear t) (getUTCMonth t) (getUTCDate t)"
proof -
  let ?l = "isLeapYear (getUTCFullYear t)"
  note b = month_of_bounds [OF conjunct1 [OF day_in_year_bounds] conjunct2 [OF day_in_year_bounds], of t]
  have m: "0 \<le> getUTCMonth t" "getUTCMonth t < 12" using b(1,2) by (simp_all add: getUTCMonth_def)
  show ?thesis
    using b(3,4) m daysInMonth_start [OF m, of "getUTCFullYear t"]
    by (simp add: valid_date_def getUTCDate_def getUTCMonth_def)
qed

lemma make_day_of_fields: "make_day (getUTCFullYear t) (getUTCMonth t) (getUTCDate t) = ms_day t"
  using make_day_valid [OF fields_valid [of t]] by (simp add: getUTCDate_def day_in_year_def)

lemma ms_split: "t = ms_day t * 86400000 + t mod 86400000" "0 \<le> t mod 86400000" "t mod 86400000 < 86400000"
  by (simp_all add: ms_day_def)

lemma ms_day_make:
  assumes "0 \<le> r" "r < 86400000"
  shows "ms_day (n * 86400000 + r) = n" "(n * 86400000 + r) mod 86400000 = r"
  using assms by (simp_all add: ms_day_def)

lemma time_fields:
  assumes "valid_time h mi s ms"
  defines "r \<equiv> make_time h mi s ms"
  shows "0 \<le> r" "r < 86400000" "r div 3600000 = h" "r mod 3600000 div 60000 = mi"
    "r mod 60000 div 1000 = s" "r mod 1000 = ms"
proof -
  have b: "0 \<le> h" "h \<le> 23" "0 \<le> mi" "mi \<le> 59" "0 \<le> s" "s \<le> 59" "0 \<le> ms" "ms \<le> 999"
    using assms by (auto simp: valid_time_def)
  have r: "r = h * 3600000 + mi * 60000 + s * 1000 + ms" by (simp add: r_def make_time_def)
  show "0 \<le> r" "r < 86400000" using b unfolding r by linarith+
  show "r div 3600000 = h"
    by (rule int_div_pos_eq [where r = "mi * 60000 + s * 1000 + ms"]) (use b r in linarith)+
  have m1: "r mod 3600000 = mi * 60000 + s * 1000 + ms"
    by (rule int_mod_pos_eq [where q = h]) (use b r in linarith)+
  show "r mod 3600000 div 60000 = mi"
    unfolding m1 by (rule int_div_pos_eq [where r = "s * 1000 + ms"]) (use b in linarith)+
  have m2: "r mod 60000 = s * 1000 + ms"
    by (rule int_mod_pos_eq [where q = "h * 60 + mi"]) (use b in \<open>simp_all add: r algebra_simps\<close>)
  show "r mod 60000 div 1000 = s"
    unfolding m2 by (rule int_div_pos_eq [where r = ms]) (use b in linarith)+
  show "r mod 1000 = ms"
    by (rule int_mod_pos_eq [where q = "h * 3600 + mi * 60 + s"]) (use b in \<open>simp_all add: r algebra_simps\<close>)
qed

lemma mod_day_mod:
  "t mod 86400000 mod 3600000 = t mod 3600000" "t mod 86400000 mod 60000 = t mod 60000"
  "t mod 86400000 mod 1000 = t mod (1000 :: int)"
  by (simp_all add: mod_mod_cancel)

lemma make_date_fields:
  assumes d: "valid_date y m0 d" and h: "valid_time h mi s ms"
  defines "t \<equiv> make_date y m0 d h mi s ms"
  shows "getUTCFullYear t = y" "getUTCMonth t = m0" "getUTCDate t = d" "getUTCHours t = h"
    "getUTCMinutes t = mi" "getUTCSeconds t = s" "getUTCMilliseconds t = ms"
proof -
  note r = time_fields [OF h]
  have day: "ms_day t = make_day y m0 d" and time: "t mod 86400000 = make_time h mi s ms"
    using ms_day_make [OF r(1,2)] by (simp_all add: t_def make_date_def)
  show y: "getUTCFullYear t = y" by (simp add: getUTCFullYear_def day make_day_fields(1) [OF d])
  show m: "getUTCMonth t = m0"
    using make_day_fields(2) [OF d] by (simp add: getUTCMonth_def day_in_year_def day y)
  show "getUTCDate t = d"
    using make_day_fields(3) [OF d] by (simp add: getUTCDate_def day_in_year_def day y m)
  show "getUTCHours t = h" using r(3) by (simp add: getUTCHours_def time)
  show "getUTCMinutes t = mi" "getUTCSeconds t = s" "getUTCMilliseconds t = ms"
    using r(4,5,6) unfolding time [symmetric] mod_day_mod
    by (simp_all add: getUTCMinutes_def getUTCSeconds_def getUTCMilliseconds_def)
qed

lemma mod_div_bounds:
  fixes a j n k :: int
  assumes "0 < j" "0 < n" "k = j * n"
  shows "0 \<le> a mod k div j \<and> a mod k div j < n"
proof -
  have "0 < k" using assms by simp
  then have "0 \<le> a mod k" "a mod k < j * n" using assms(3) by simp_all
  moreover have "j * (a mod k div j) \<le> a mod k" using floor_div_bounds [OF assms(1)] by blast
  ultimately have "j * (a mod k div j) < j * n" "0 \<le> a mod k div j"
    using assms(1) by (linarith, simp only: pos_imp_zdiv_nonneg_iff)
  then show ?thesis using mult_less_cancel_left_pos [OF assms(1)] by blast
qed

lemma fields_time_valid:
  "valid_time (getUTCHours t) (getUTCMinutes t) (getUTCSeconds t) (getUTCMilliseconds t)"
proof -
  have "0 \<le> getUTCHours t \<and> getUTCHours t < 24"
    unfolding getUTCHours_def by (rule mod_div_bounds) simp_all
  moreover have "0 \<le> getUTCMinutes t \<and> getUTCMinutes t < 60"
    unfolding getUTCMinutes_def by (rule mod_div_bounds) simp_all
  moreover have "0 \<le> getUTCSeconds t \<and> getUTCSeconds t < 60"
    unfolding getUTCSeconds_def by (rule mod_div_bounds) simp_all
  moreover have "0 \<le> getUTCMilliseconds t \<and> getUTCMilliseconds t < 1000"
    unfolding getUTCMilliseconds_def by simp
  ultimately show ?thesis by (simp add: valid_time_def)
qed

lemma make_time_of_fields:
  "make_time (getUTCHours t) (getUTCMinutes t) (getUTCSeconds t) (getUTCMilliseconds t) = t mod 86400000"
proof -
  have "getUTCHours t * 3600000 + t mod 3600000 = t mod 86400000"
    using div_mult_mod_eq [of "t mod 86400000" 3600000] unfolding getUTCHours_def mod_day_mod .
  moreover have "getUTCMinutes t * 60000 + t mod 60000 = t mod 3600000"
    using div_mult_mod_eq [of "t mod 3600000" 60000] mod_mod_cancel [of 60000 3600000 t]
    unfolding getUTCMinutes_def by simp
  moreover have "getUTCSeconds t * 1000 + t mod 1000 = t mod 60000"
    using div_mult_mod_eq [of "t mod 60000" 1000] mod_mod_cancel [of 1000 60000 t]
    unfolding getUTCSeconds_def by simp
  ultimately show ?thesis unfolding make_time_def getUTCMilliseconds_def by linarith
qed

lemma make_date_of_fields:
  "make_date (getUTCFullYear t) (getUTCMonth t) (getUTCDate t) (getUTCHours t) (getUTCMinutes t)
     (getUTCSeconds t) (getUTCMilliseconds t) = t"
  using ms_split(1) [of t] by (simp add: make_date_def make_day_of_fields make_time_of_fields)

text \<open>
  For the dates the parser accepts in the years 1 to 9999, the correction of \<open>utcMs\<close> gives
  the proleptic date. In the year 0 the intermediate year 1900 is not a leap year, which
  only moves 29 February, and the year 0 is out of range.
\<close>

lemma make_day_range:
  assumes "valid_date y m0 d" "0 \<le> y" "y \<le> 9999"
  shows "-719530 \<le> make_day y m0 d \<and> make_day y m0 d \<le> 2932896"
proof -
  have m: "0 \<le> m0" "m0 < 12" using assms by (simp_all add: valid_date_def)
  have "day_from_year 0 \<le> day_from_year y" "day_from_year (y + 1) \<le> day_from_year 10000"
    using assms by (simp_all add: day_from_year_mono_le)
  moreover have "day_from_year 0 = - 719528" "day_from_year 10000 = 2932897"
    by (simp_all add: day_from_year_def)
  moreover have "day_from_year (y + 1) = day_from_year y + year_length (isLeapYear y)"
    by (simp add: day_from_year_step year_length_def)
  moreover have "1 \<le> d" "d \<le> daysInMonth y m0" using assms(1) by (simp_all add: valid_date_def)
  ultimately show ?thesis
    using make_day_valid [OF assms(1)] month_start_mono [OF m, of "isLeapYear y"]
      daysInMonth_start [OF m, of y]
    by linarith
qed

lemma make_date_clip:
  assumes "valid_date y m0 d" "valid_time h mi s ms" "0 \<le> y" "y \<le> 9999"
  shows "time_clip (make_date y m0 d h mi s ms) = Some (make_date y m0 d h mi s ms)"
  using make_day_range [OF assms(1,3,4)] time_fields(1,2) [OF assms(2)]
  by (auto simp: time_clip_def make_date_def abs_le_iff)

lemma leap_1900:
  assumes "0 < y" "y \<le> 99"
  shows "isLeapYear (1900 + y) = isLeapYear y"
proof -
  have "(1900 + y) mod 4 = y mod 4" by (simp add: mod_add_left_eq [of 1900 4 y, symmetric])
  moreover have "(1900 + y) mod 100 = y mod 100" by (simp add: mod_add_left_eq [of 1900 100 y, symmetric])
  moreover have "y mod 100 = y" "y mod 400 = y" using assms by simp_all
  moreover have "(1900 + y) mod 400 \<noteq> 0"
  proof -
    have "(1900 + y) mod 400 = 300 + y" if "y < 100"
      by (rule int_mod_pos_eq [where q = 4]) (use assms that in simp_all)
    then show ?thesis using assms by simp
  qed
  ultimately show ?thesis using assms by (simp add: isLeapYear_def)
qed

lemma utcMs_valid:
  assumes d: "valid_date y (mo - 1) d" and h: "valid_time h mi s ms" and y: "0 \<le> y" "y \<le> 9999"
    and feb: "y = 0 \<longrightarrow> \<not> (mo = 2 \<and> d = 29)"
  shows "utcMs y mo d h mi s ms = Some (make_date y (mo - 1) d h mi s ms)"
proof (cases "y \<le> 99")
  case True
  have d': "valid_date (1900 + y) (mo - 1) d"
  proof (cases "y = 0")
    case True
    have "daysInMonth 0 (mo - 1) = (if mo = 2 then 29 else daysInMonth 1900 (mo - 1))"
      by (auto simp: daysInMonth_def isLeapYear_def)
    moreover have "mo = 2 \<Longrightarrow> daysInMonth 1900 (mo - 1) = 28" by (simp add: daysInMonth_def isLeapYear_def DAYS_IN_MONTH_def)
    ultimately show ?thesis using d feb True by (cases "mo = 2") (auto simp: valid_date_def)
  next
    case False
    then have "isLeapYear (1900 + y) = isLeapYear y" using y True by (intro leap_1900) simp_all
    then show ?thesis using d by (simp add: valid_date_def daysInMonth_def)
  qed
  let ?t = "make_date (1900 + y) (mo - 1) d h mi s ms"
  have "date_UTC y (mo - 1) d h mi s ms = Some ?t"
    using make_date_clip [OF d' h] y True by (simp add: date_UTC_def make_date_def)
  moreover have "setUTCFullYear ?t y = Some (make_date y (mo - 1) d h mi s ms)"
    using make_date_fields(2,3) [OF d' h] make_date_clip [OF d h y] ms_day_make(2) [OF time_fields(1,2) [OF h]]
    by (simp add: setUTCFullYear_def make_date_def)
  ultimately show ?thesis using True y by (simp add: utcMs_def)
next
  case False
  then show ?thesis using make_date_clip [OF d h y] by (simp add: utcMs_def date_UTC_def make_date_def)
qed

section \<open>Timestamps\<close>

lemma time_bounds: "MIN_TIME_MS = - 62135596800000" "MAX_TIME_MS = 253402300799999"
  by code_simp+

definition in_range :: "int \<Rightarrow> bool" where
  "in_range t \<longleftrightarrow> MIN_TIME_MS \<le> t \<and> t \<le> MAX_TIME_MS"

lemma in_range_year:
  assumes "in_range t"
  shows "1 \<le> getUTCFullYear t" "getUTCFullYear t \<le> 9999"
proof -
  have day: "-719162 \<le> ms_day t" "ms_day t \<le> 2932896"
    using assms floor_div_bounds [of 86400000 t]
    by (auto simp: in_range_def time_bounds ms_day_def)
  have dfy: "day_from_year 1 = - 719162" "day_from_year 10000 = 2932897"
    by (simp_all add: day_from_year_def)
  note y = year_from_day_bounds [of "ms_day t", folded getUTCFullYear_def]
  have "\<not> getUTCFullYear t + 1 \<le> 1"
    using day_from_year_mono_le [of "getUTCFullYear t + 1" 1] y dfy day by linarith
  then show "1 \<le> getUTCFullYear t" by simp
  have "\<not> 10000 \<le> getUTCFullYear t"
    using day_from_year_mono_le [of 10000 "getUTCFullYear t"] y dfy day by linarith
  then show "getUTCFullYear t \<le> 9999" by simp
qed

lemma pad_width:
  assumes "0 \<le> n" "nat n < 10 ^ k" "0 < k"
  shows "length (pad n k) = k" "list_all is_digit (pad n k)"
proof -
  show "length (pad n k) = k"
    using length_nat_digits [OF assms(2,3)] by (simp add: pad_def length_pad)
  show "list_all is_digit (pad n k)"
    using nat_digits_all [of "nat n"] by (auto simp: pad_def pad_start_def is_digit_def list_all_iff)
qed

lemma digits_at_pad:
  assumes "0 \<le> n" "nat n < 10 ^ k" "0 < k"
  shows "digits_at k (pad n k @ s) = Some (nat n, s)"
  using pad_width [OF assms] by (simp add: digits_at_def pad_def digits_val_pad)

lemma skip_char_simps [simp]: "skip_char u (u # s) = Some s"
  by (simp add: skip_char_def)

lemma iso_frac_pad:
  assumes "0 \<le> n" "n < 1000"
  shows "iso_frac (46 # pad n 3 @ lit ''Z'') = (pad n 3, lit ''Z'')"
proof -
  have len: "length (pad n 3) = 3" and all: "\<forall>u \<in> set (pad n 3). is_digit u"
    using pad_width [of n 3] assms by (auto simp: list_all_iff)
  have "takeWhile is_digit (pad n 3 @ [90]) = pad n 3" "dropWhile is_digit (pad n 3 @ [90]) = [90]"
    using all by (simp_all add: is_digit_def [of 90])
  then show ?thesis using len by (auto simp: iso_frac_def scan_frac_def)
qed

lemma iso_exec_toISOString:
  assumes "in_range t"
  shows "iso_exec (toISOString t) =
    Some \<lparr>iso_year = nat (getUTCFullYear t), iso_month = nat (getUTCMonth t + 1),
          iso_day = nat (getUTCDate t), iso_hour = nat (getUTCHours t),
          iso_minute = nat (getUTCMinutes t), iso_second = nat (getUTCSeconds t),
          iso_fraction = pad (getUTCMilliseconds t) 3, iso_offset = lit ''Z''\<rparr>"
proof -
  note y = in_range_year [OF assms]
  have f: "0 \<le> getUTCMonth t" "getUTCMonth t < 12" "1 \<le> getUTCDate t" "getUTCDate t \<le> 31"
    using fields_valid [of t] daysInMonth_bounds [of "getUTCMonth t" "getUTCFullYear t"]
    by (auto simp: valid_date_def)
  note h = fields_time_valid [of t, unfolded valid_time_def]
  have two: "digits_at 2 (pad n 2 @ s) = Some (nat n, s)" if "0 \<le> n" "n < 100" for n s
    using that by (intro digits_at_pad) auto
  have four: "digits_at 4 (pad n 4 @ s) = Some (nat n, s)" if "0 \<le> n" "n < 10000" for n s
    using that by (intro digits_at_pad) auto
  have z: "is_iso_offset [90]" by (simp add: is_iso_offset_def)
  have frac: "iso_frac (46 # pad (getUTCMilliseconds t) 3 @ [90]) = (pad (getUTCMilliseconds t) 3, lit ''Z'')"
    using iso_frac_pad [of "getUTCMilliseconds t"] h by simp
  show ?thesis
    unfolding toISOString_def iso_exec_def
    using y f h by (simp add: two four frac z Let_def)
qed

lemma parseTs_toISOString:
  assumes "in_range t"
  shows "parseTs fn (JStr (toISOString t)) = Inr t"
proof -
  note y = in_range_year [OF assms]
  note v = fields_valid [of t] and h = fields_time_valid [of t]
  have len: "length (pad (getUTCMilliseconds t) 3) = 3"
    by (rule pad_width(1)) (use h in \<open>auto simp: valid_time_def\<close>)
  have ms: "digits_val (pad n w) = nat n" for n w
    by (simp add: pad_def digits_val_pad)
  have utc: "utcMs (getUTCFullYear t) (getUTCMonth t + 1) (getUTCDate t) (getUTCHours t)
      (getUTCMinutes t) (getUTCSeconds t) (getUTCMilliseconds t) = Some t"
    using utcMs_valid [of "getUTCFullYear t" "getUTCMonth t + 1" "getUTCDate t"] v h y
      make_date_of_fields [of t] by simp
  show ?thesis
    using v h y assms utc
    by (simp add: parseTs_def str_arg_def iso_exec_toISOString [OF assms] len ms Let_def offset_ms_def
        valid_date_def valid_time_def in_range_def)
qed

interpretation iso_timestamp: codec toISOString "\<lambda>s. parseTs fn (JStr s)" in_range
  by unfold_locales (rule parseTs_toISOString)

lemma if_throw: "(if c then Inl e else m) = Inr x \<longleftrightarrow> \<not> c \<and> m = Inr x"
  by simp

lemma parseTs_in_range:
  assumes "parseTs fn v = Inr t"
  shows "in_range t"
proof -
  from assms obtain s m where "iso_exec s = Some m"
    and m: "parseTs fn (JStr s) = Inr t"
    by (cases v) (auto simp: parseTs_def str_arg_def throw_date_def split: option.splits)
  then obtain off t0 where "offset_ms (iso_offset m) = Some off"
    and t: "(if t0 - off < MIN_TIME_MS \<or> MAX_TIME_MS < t0 - off then throw_date fn TimeOutOfRange
             else Inr (t0 - off)) = (Inr t :: int jres)"
    by (simp only: parseTs_def str_arg_def bindR.simps jval.case option.case Let_def throw_date_def if_throw)
      (auto simp only: if_throw split: option.split_asm)
  then show ?thesis by (auto simp: in_range_def throw_date_def split: if_splits)
qed

lemma isoOf_Inr: "isoOf fn ms = Inr v \<longleftrightarrow> (\<exists>t. ms = Some t \<and> in_range t \<and> v = JStr (toISOString t))"
  by (auto simp: isoOf_def in_range_def throw_date_def split: option.splits)

text \<open>Everything these functions return is a timestamp they accept.\<close>

lemma isoOf_reparse: "isoOf fn ms = Inr v \<Longrightarrow> \<exists>t. ms = Some t \<and> parseTs fn' v = Inr t"
  by (auto simp: isoOf_Inr parseTs_toISOString)

lemma addMonths_fields:
  assumes months: "months = getUTCFullYear t * 12 + getUTCMonth t + n" and y: "1 \<le> months div 12" "months div 12 \<le> 9999"
  obtains r where "addMonths t n = Some r" "getUTCFullYear r = months div 12"
    "getUTCMonth r = months mod 12"
    "getUTCDate r = min (getUTCDate t) (daysInMonth (months div 12) (months mod 12))"
    "r mod 86400000 = t mod 86400000"
proof -
  let ?y = "months div 12" and ?m = "months mod 12"
  let ?d = "min (getUTCDate t) (daysInMonth ?y ?m)"
  let ?r = "make_date ?y ?m ?d (getUTCHours t) (getUTCMinutes t) (getUTCSeconds t) (getUTCMilliseconds t)"
  have m: "0 \<le> ?m" "?m < 12" by simp_all
  have "1 \<le> getUTCDate t" using fields_valid [of t] by (simp add: valid_date_def)
  then have d: "valid_date ?y ?m ?d" using daysInMonth_bounds [OF m, of ?y] m by (simp add: valid_date_def)
  note h = fields_time_valid [of t]
  have rem: "months - ?y * 12 = ?m" using div_mult_mod_eq [of months 12] by linarith
  have "addMonths t n = Some ?r"
    unfolding addMonths_def Let_def months [symmetric] rem
    using utcMs_valid [of ?y "?m + 1" ?d] d h y by simp
  moreover have "?r mod 86400000 = t mod 86400000"
    using ms_day_make(2) [OF time_fields(1,2) [OF h]] make_time_of_fields [of t] by (simp add: make_date_def)
  ultimately show ?thesis using that make_date_fields(1-3) [OF d h] by blast
qed

text \<open>Zeroing the fields below a unit gives the last instant of that unit's grid not after \<open>t\<close>.\<close>

definition unit_start :: "start_unit \<Rightarrow> int \<Rightarrow> int" where
  "unit_start u t =
     make_date (getUTCFullYear t) (getUTCMonth t) (if u = UMonth then 1 else getUTCDate t)
       (if u = UHour then getUTCHours t else 0) 0 0 0"

lemma unit_start_le: "unit_start u t \<le> t"
proof -
  note v = fields_valid [of t] and h = fields_time_valid [of t]
  let ?d = "if u = UMonth then 1 else getUTCDate t"
  have d: "valid_date (getUTCFullYear t) (getUTCMonth t) ?d" using v by (auto simp: valid_date_def)
  have "make_day (getUTCFullYear t) (getUTCMonth t) ?d \<le> ms_day t"
    using make_day_valid [OF d] make_day_valid [OF v] make_day_of_fields [of t] v
    by (simp add: valid_date_def)
  moreover have "make_time (if u = UHour then getUTCHours t else 0) 0 0 0 \<le> t mod 86400000"
    using make_time_of_fields [of t] h by (simp add: make_time_def valid_time_def)
  ultimately show ?thesis unfolding unit_start_def make_date_def using ms_split(1) [of t] by linarith
qed

lemma startOf_eq:
  assumes "parseTs fn (a ! 0) = Inr t"
  shows "startOf fn a u = isoOf fn (Some (unit_start u t))"
proof -
  note v = fields_valid [of t] and h = fields_time_valid [of t]
    and y = in_range_year [OF parseTs_in_range [OF assms]]
  let ?d = "if u = UMonth then 1 else getUTCDate t" and ?h = "if u = UHour then getUTCHours t else 0"
  have "utcMs (getUTCFullYear t) (getUTCMonth t + 1) ?d ?h 0 0 0 = Some (unit_start u t)"
    unfolding unit_start_def using v h y
    by (subst utcMs_valid) (auto simp: valid_date_def valid_time_def)
  with assms show ?thesis by (simp add: startOf_def)
qed

lemma getUTCDay_bounds: "0 \<le> getUTCDay t \<and> getUTCDay t < 7"
  by (simp add: getUTCDay_def)

end
