(* ===== verification/Utf8Base64.thy ===== *)
theory Utf8Base64
  imports JsError "HOL-Library.Word"
begin

unbundle bit_operations_syntax

text \<open>
  The hand-written UTF-8 and base64 codecs of \<open>engine/functions.ts\<close>. Bytes and code
  points are natural numbers and the bit operations are those of the source. The
  accumulator of the base64 decoder is a 32-bit signed integer in JavaScript: every shift
  of it is cut to 32 bits with \<open>signed_take_bit 31\<close>.
\<close>

abbreviation throw_utf8 :: "fn_reason \<Rightarrow> 'a jres" where
  "throw_utf8 r \<equiv> throw (FnReason (lit ''base64ToString'') r)"

section \<open>UTF-8\<close>

definition is_high :: "nat \<Rightarrow> bool" where
  "is_high u \<longleftrightarrow> 55296 \<le> u \<and> u \<le> 56319"

definition is_low :: "nat \<Rightarrow> bool" where
  "is_low u \<longleftrightarrow> 56320 \<le> u \<and> u \<le> 57343"

text \<open>\<open>s.codePointAt(0)\<close> of the string \<open>u # s\<close>.\<close>

definition code_point_at :: "nat \<Rightarrow> jstr \<Rightarrow> nat" where
  "code_point_at u s =
     (case s of
        v # _ \<Rightarrow> if is_high u \<and> is_low v then (u - 55296) * 1024 + (v - 56320) + 65536 else u
      | [] \<Rightarrow> u)"

definition utf8_encode_cp :: "nat \<Rightarrow> nat list" where
  "utf8_encode_cp cp =
     (if cp < 128 then [cp]
      else if cp < 2048 then [192 OR drop_bit 6 cp, 128 OR (cp AND 63)]
      else if cp < 65536 then
        [224 OR drop_bit 12 cp, 128 OR (drop_bit 6 cp AND 63), 128 OR (cp AND 63)]
      else
        [240 OR drop_bit 18 cp, 128 OR (drop_bit 12 cp AND 63),
         128 OR (drop_bit 6 cp AND 63), 128 OR (cp AND 63)])"

fun utf8Bytes :: "jstr \<Rightarrow> nat list" where
  "utf8Bytes [] = []"
| "utf8Bytes (u # s) =
     (let cp = code_point_at u s
      in utf8_encode_cp cp @ utf8Bytes (if 65535 < cp then drop 1 s else s))"

fun utf8ByteLength :: "jstr \<Rightarrow> nat" where
  "utf8ByteLength [] = 0"
| "utf8ByteLength (u # s) =
     (let cp = code_point_at u s
      in (if cp < 128 then 1 else if cp < 2048 then 2 else if cp < 65536 then 3 else 4)
         + utf8ByteLength (if 65535 < cp then drop 1 s else s))"

definition MIN_CP :: "nat \<Rightarrow> nat" where
  "MIN_CP len = (if len = 2 then 128 else if len = 3 then 2048 else if len = 4 then 65536 else 0)"

text \<open>\<open>String.fromCodePoint\<close>: one code unit, or a surrogate pair above the basic plane.\<close>

definition from_code_point :: "nat \<Rightarrow> jstr" where
  "from_code_point cp =
     (if cp \<le> 65535 then [cp]
      else [55296 + (cp - 65536) div 1024, 56320 + (cp - 65536) mod 1024])"

text \<open>The lead byte: the payload bits and the length of the sequence it opens.\<close>

definition utf8_lead :: "nat \<Rightarrow> (nat \<times> nat) option" where
  "utf8_lead b0 =
     (if b0 < 128 then Some (b0, 1)
      else if b0 AND 224 = 192 then Some (b0 AND 31, 2)
      else if b0 AND 240 = 224 then Some (b0 AND 15, 3)
      else if b0 AND 248 = 240 then Some (b0 AND 7, 4)
      else None)"

fun utf8_tail :: "nat \<Rightarrow> nat list \<Rightarrow> nat jres" where
  "utf8_tail cp [] = Inr cp"
| "utf8_tail cp (b # bs) =
     (if b AND 192 \<noteq> 128 then throw_utf8 NotUtf8 else utf8_tail (push_bit 6 cp OR (b AND 63)) bs)"

function utf8Str :: "nat list \<Rightarrow> jstr jres" where
  "utf8Str [] = Inr []"
| "utf8Str (b0 # bs) =
     (case utf8_lead b0 of
        None \<Rightarrow> throw_utf8 NotUtf8
      | Some (p, len) \<Rightarrow>
          if length bs < len - 1 then throw_utf8 TruncatedUtf8
          else bindR (utf8_tail p (take (len - 1) bs)) (\<lambda>cp.
                 if 1114111 < cp \<or> (55296 \<le> cp \<and> cp \<le> 57343) \<or> cp < MIN_CP len
                 then throw_utf8 NotUtf8
                 else bindR (utf8Str (drop (len - 1) bs)) (\<lambda>out. Inr (from_code_point cp @ out))))"
  by pat_completeness auto
termination
  by (relation "measure length") auto

subsection \<open>Bit operations as arithmetic\<close>

lemma or_add_nat: "y < 2 ^ n \<Longrightarrow> push_bit n x OR y = x * 2 ^ n + (y :: nat)"
proof -
  assume y: "y < 2 ^ n"
  then have ty: "take_bit n (int y) = int y"
    by (metis of_nat_less_iff of_nat_numeral of_nat_power of_nat_0_le_iff take_bit_int_eq_self)
  have "push_bit n (int x) OR int y = push_bit n (int x) + int y"
    by (rule disjunctive_add [symmetric])
      (metis bit_push_bit_iff bit_take_bit_iff linorder_not_le ty)
  then have "int (push_bit n x OR y) = int (x * 2 ^ n + y)"
    by (simp add: of_nat_or_eq push_bit_eq_mult)
  then show ?thesis by (simp only: of_nat_eq_iff)
qed

lemma and_63 [simp]: "(x :: nat) AND 63 = x mod 64"
  using take_bit_eq_mask [of 6 x] by (simp add: take_bit_eq_mod mask_eq_exp_minus_1)

lemma or_lead:
  "x < 64 \<Longrightarrow> 128 OR x = 128 + (x :: nat)"
  "x < 32 \<Longrightarrow> 192 OR x = 192 + (x :: nat)"
  "x < 16 \<Longrightarrow> 224 OR x = 224 + (x :: nat)"
  "x < 8 \<Longrightarrow> 240 OR x = 240 + (x :: nat)"
  using or_add_nat [of x 6 2] or_add_nat [of x 5 6] or_add_nat [of x 4 14] or_add_nat [of x 3 30]
  by (simp_all add: push_bit_eq_mult)

lemma and_push_bit: "(b :: nat) AND push_bit n m = push_bit n (drop_bit n b AND m)"
  by (rule bit_eqI) (auto simp: bit_simps)

lemma and_low_mask: "(b :: nat) AND (2 ^ n - 1) = b mod 2 ^ n"
  by (metis mask_eq_exp_minus_1 take_bit_eq_mask take_bit_eq_mod)

lemma and_high_mask: "(b :: nat) AND ((2 ^ n - 1) * 2 ^ m) = b div 2 ^ m mod 2 ^ n * 2 ^ m"
  using and_push_bit [of b m "2 ^ n - 1"] and_low_mask [of "b div 2 ^ m" n]
  by (simp only: push_bit_eq_mult drop_bit_eq_div)

lemma and_low_masks:
  "(b :: nat) AND 31 = b mod 32"
  "b AND 15 = b mod 16"
  "b AND 7 = b mod 8"
  using and_low_mask [of b 5] and_low_mask [of b 4] and_low_mask [of b 3] by simp_all

lemma and_high_masks:
  "(b :: nat) AND 192 = b div 64 mod 4 * 64"
  "b AND 224 = b div 32 mod 8 * 32"
  "b AND 240 = b div 16 mod 16 * 16"
  "b AND 248 = b div 8 mod 32 * 8"
  using and_high_mask [of b 2 6] and_high_mask [of b 3 5] and_high_mask [of b 4 4]
    and_high_mask [of b 5 3]
  by simp_all

lemmas and_masks = and_low_masks and_high_masks

lemma utf8_lead_byte:
  assumes "b < 256"
  shows "utf8_lead b =
     (if b < 128 then Some (b, 1) else if b < 192 then None else if b < 224 then Some (b - 192, 2)
      else if b < 240 then Some (b - 224, 3) else if b < 248 then Some (b - 240, 4) else None)"
proof -
  have q: "b div 32 < 8" "b div 16 < 16" "b div 8 < 32"
    using assms by (simp_all add: less_mult_imp_div_less)
  have d: "b div 32 = 6 \<longleftrightarrow> 192 \<le> b \<and> b < 224" "b div 16 = 14 \<longleftrightarrow> 224 \<le> b \<and> b < 240"
    "b div 8 = 30 \<longleftrightarrow> 240 \<le> b \<and> b < 248"
    by linarith+
  have "b mod 32 = b - 192" if "b div 32 = 6" using that div_mult_mod_eq [of b 32] by linarith
  moreover have "b mod 16 = b - 224" if "b div 16 = 14"
    using that div_mult_mod_eq [of b 16] by linarith
  moreover have "b mod 8 = b - 240" if "b div 8 = 30"
    using that div_mult_mod_eq [of b 8] by linarith
  ultimately show ?thesis using q d by (auto simp: utf8_lead_def and_masks)
qed

lemma cont_byte [simp]: "x < 64 \<Longrightarrow> (128 + x) AND 192 = (128 :: nat)"
proof -
  assume "x < 64"
  then have "(128 + x) div 64 = 2" by linarith
  then show ?thesis by (simp add: and_masks)
qed

lemma utf8_tail_cont [simp]:
  "x < 64 \<Longrightarrow> utf8_tail cp ((128 + x) # bs) = utf8_tail (cp * 64 + x) bs"
proof -
  assume x: "x < 64"
  have "(128 + x) mod 64 = (x + 2 * 64) mod 64" by (simp add: add.commute)
  also have "\<dots> = x mod 64" by (rule mod_mult_self1)
  also have "\<dots> = x" using x by simp
  finally have m: "(128 + x) mod 64 = x" .
  have "utf8_tail cp ((128 + x) # bs) = utf8_tail (push_bit 6 cp OR x) bs"
    by (simp only: utf8_tail.simps(2) cont_byte [OF x] and_63 m not_True_eq_False if_False refl)
  moreover have "x < 2 ^ 6" using x by simp
  then have "push_bit 6 cp OR x = cp * 2 ^ 6 + x" by (rule or_add_nat)
  ultimately show ?thesis by simp
qed

declare utf8_tail.simps(2) [simp del]

lemma utf8_encode_cp_arith:
  "cp < 1114112 \<Longrightarrow> utf8_encode_cp cp =
     (if cp < 128 then [cp]
      else if cp < 2048 then [192 + cp div 64, 128 + cp mod 64]
      else if cp < 65536 then [224 + cp div 4096, 128 + cp div 64 mod 64, 128 + cp mod 64]
      else [240 + cp div 262144, 128 + cp div 4096 mod 64, 128 + cp div 64 mod 64, 128 + cp mod 64])"
  by (auto simp: utf8_encode_cp_def drop_bit_eq_div or_lead)

subsection \<open>The encoder, its length and its inverse\<close>

lemma code_point_at_bound: "u < 65536 \<Longrightarrow> wf_str s \<Longrightarrow> code_point_at u s < 1114112"
  by (auto simp: code_point_at_def is_high_def is_low_def split: list.split)

lemma length_utf8_encode_cp:
  "length (utf8_encode_cp cp) = (if cp < 128 then 1 else if cp < 2048 then 2 else if cp < 65536 then 3 else 4)"
  by (simp add: utf8_encode_cp_def)

lemma utf8ByteLength_eq: "utf8ByteLength s = length (utf8Bytes s)"
  by (induction s rule: utf8ByteLength.induct) (simp_all add: Let_def length_utf8_encode_cp)

lemma utf8_encode_cp_bytes: "cp < 1114112 \<Longrightarrow> list_all (\<lambda>b. b < 256) (utf8_encode_cp cp)"
  by (auto simp: utf8_encode_cp_arith)

lemma utf8Bytes_bytes: "wf_str s \<Longrightarrow> list_all (\<lambda>b. b < 256) (utf8Bytes s)"
proof (induction s rule: utf8Bytes.induct)
  case (2 u s)
  define cp where "cp = code_point_at u s"
  have "cp < 1114112" using 2 by (simp add: cp_def code_point_at_bound)
  moreover have "wf_str (if 65535 < cp then drop 1 s else s)"
    using 2 by (cases s) (auto simp: wf_str_def list_all_drop)
  ultimately show ?case using 2 utf8_encode_cp_bytes by (simp add: Let_def flip: cp_def)
qed simp

lemma regroup2: "(c div 4096 * 64 + c div 64 mod 64) * 64 + c mod 64 = (c :: nat)"
proof -
  have "c div 4096 = c div 64 div 64" by (simp flip: div_mult2_eq)
  then have "c div 4096 * 64 + c div 64 mod 64 = c div 64" by (simp only: div_mult_mod_eq)
  then show ?thesis by (simp only: div_mult_mod_eq)
qed

lemma regroup3:
  "((c div 262144 * 64 + c div 4096 mod 64) * 64 + c div 64 mod 64) * 64 + c mod 64 = (c :: nat)"
proof -
  have "c div 262144 = c div 64 div 4096" "c div 4096 = c div 64 div 64"
    by (simp_all flip: div_mult2_eq)
  then have "(c div 262144 * 64 + c div 4096 mod 64) * 64 + c div 64 mod 64 = c div 64"
    by (simp only: regroup2)
  then show ?thesis by (simp only: div_mult_mod_eq)
qed

lemma utf8Str_encode_cp:
  assumes "cp < 1114112" "\<not> (55296 \<le> cp \<and> cp \<le> 57343)"
  shows "utf8Str (utf8_encode_cp cp @ bs) = bindR (utf8Str bs) (\<lambda>out. Inr (from_code_point cp @ out))"
proof -
  consider "cp < 128" | "128 \<le> cp" "cp < 2048" | "2048 \<le> cp" "cp < 65536" | "65536 \<le> cp" by linarith
  then show ?thesis
  proof cases
    case 1
    then show ?thesis by (simp add: utf8_encode_cp_arith utf8_lead_byte MIN_CP_def)
  next
    case 2
    have "cp div 64 * 64 + cp mod 64 = cp" by (rule div_mult_mod_eq)
    moreover have "cp div 64 < 32" using 2 by (simp add: less_mult_imp_div_less)
    ultimately show ?thesis using 2 by (simp add: utf8_encode_cp_arith utf8_lead_byte MIN_CP_def)
  next
    case 3
    have "(cp div 4096 * 64 + cp div 64 mod 64) * 64 + cp mod 64 = cp"
      by (rule regroup2)
    moreover have "cp div 4096 < 16" using 3 by (simp add: less_mult_imp_div_less)
    ultimately show ?thesis
      using 3 assms by (auto simp: utf8_encode_cp_arith utf8_lead_byte MIN_CP_def)
  next
    case 4
    have "((cp div 262144 * 64 + cp div 4096 mod 64) * 64 + cp div 64 mod 64) * 64 + cp mod 64 = cp"
      by (rule regroup3)
    moreover have "cp div 262144 < 8" using assms by (simp add: less_mult_imp_div_less)
    ultimately show ?thesis using 4 assms by (simp add: utf8_encode_cp_arith utf8_lead_byte MIN_CP_def)
  qed
qed

text \<open>Strings without a lone surrogate, which are the ones UTF-8 can carry.\<close>

fun well_formed_utf16 :: "jstr \<Rightarrow> bool" where
  "well_formed_utf16 [] = True"
| "well_formed_utf16 [u] = (u < 65536 \<and> \<not> is_high u \<and> \<not> is_low u)"
| "well_formed_utf16 (u # v # s) =
     (if is_high u then is_low v \<and> well_formed_utf16 s
      else u < 65536 \<and> \<not> is_low u \<and> well_formed_utf16 (v # s))"

lemma wf16_wf: "well_formed_utf16 s \<Longrightarrow> wf_str s"
  by (induction s rule: well_formed_utf16.induct) (auto simp: is_high_def is_low_def split: if_splits)

lemma utf8_roundtrip: "well_formed_utf16 s \<Longrightarrow> utf8Str (utf8Bytes s) = Inr s"
proof (induction s rule: well_formed_utf16.induct)
  case (2 u)
  then have "utf8Str (utf8_encode_cp u @ []) = Inr [u]"
    by (subst utf8Str_encode_cp) (auto simp: is_high_def is_low_def from_code_point_def)
  with 2 show ?case by (simp add: code_point_at_def)
next
  case (3 u v s)
  show ?case
  proof (cases "is_high u")
    case True
    define cp where "cp = (u - 55296) * 1024 + (v - 56320) + 65536"
    have lv: "is_low v" using 3 True by simp
    have cp: "code_point_at u (v # s) = cp" using True lv by (simp add: code_point_at_def cp_def)
    have hi: "u - 55296 < 1024" and lo: "v - 56320 < 1024"
      using True lv by (auto simp: is_high_def is_low_def)
    have b: "65536 \<le> cp" "cp < 1114112" using hi lo by (auto simp: cp_def)
    have "(cp - 65536) div 1024 = u - 55296" "(cp - 65536) mod 1024 = v - 56320"
      using lo by (simp_all add: cp_def)
    then have "from_code_point cp = [u, v]"
      using b True lv by (simp add: from_code_point_def is_high_def is_low_def)
    moreover have "utf8Bytes (u # v # s) = utf8_encode_cp cp @ utf8Bytes s"
      using b by (subst utf8Bytes.simps(2)) (simp only: Let_def cp, simp)
    moreover have "utf8Str (utf8Bytes s) = Inr s" using 3 True by simp
    moreover have "\<not> (55296 \<le> cp \<and> cp \<le> 57343)" using b by linarith
    ultimately show ?thesis
      using b utf8Str_encode_cp [of cp "utf8Bytes s"] by (simp del: utf8Bytes.simps)
  next
    case False
    have cp: "code_point_at u (v # s) = u" using False by (simp add: code_point_at_def)
    have u: "u < 65536" "\<not> is_low u" and rest: "utf8Str (utf8Bytes (v # s)) = Inr (v # s)"
      using 3 False by auto
    have "utf8Bytes (u # v # s) = utf8_encode_cp u @ utf8Bytes (v # s)"
      using u by (subst utf8Bytes.simps(2)) (simp only: Let_def cp, simp)
    moreover have "u < 1114112" "\<not> (55296 \<le> u \<and> u \<le> 57343)"
      using u False by (auto simp: is_high_def is_low_def)
    ultimately show ?thesis
      using u rest utf8Str_encode_cp [of u "utf8Bytes (v # s)"]
      by (simp add: from_code_point_def del: utf8Bytes.simps)
  qed
qed simp

interpretation utf8: codec utf8Bytes utf8Str well_formed_utf16
  by unfold_locales (rule utf8_roundtrip)

section \<open>Base64\<close>

definition B64 :: jstr where
  "B64 = lit ''ABCDEFGHIJKLMNOPQRSTUVWXYZabcdefghijklmnopqrstuvwxyz0123456789+/''"

definition b64_char :: "nat \<Rightarrow> nat" where
  "b64_char i = B64 ! i"

definition b64_index :: "nat \<Rightarrow> int" where
  "b64_index u = (case index_of B64 [u] of Some k \<Rightarrow> int k | None \<Rightarrow> - 1)"

definition is_b64_char :: "nat \<Rightarrow> bool" where
  "is_b64_char u \<longleftrightarrow> is_letter u \<or> is_digit u \<or> u = 43 \<or> u = 47"

fun b64_groups :: "nat list \<Rightarrow> jstr" where
  "b64_groups [] = []"
| "b64_groups [b0] =
     [b64_char (drop_bit 2 b0), b64_char (push_bit 4 (b0 AND 3) OR drop_bit 4 0), 61, 61]"
| "b64_groups [b0, b1] =
     [b64_char (drop_bit 2 b0), b64_char (push_bit 4 (b0 AND 3) OR drop_bit 4 b1),
      b64_char (push_bit 2 (b1 AND 15) OR drop_bit 6 0), 61]"
| "b64_groups (b0 # b1 # b2 # bs) =
     [b64_char (drop_bit 2 b0), b64_char (push_bit 4 (b0 AND 3) OR drop_bit 4 b1),
      b64_char (push_bit 2 (b1 AND 15) OR drop_bit 6 b2), b64_char (b2 AND 63)] @ b64_groups bs"

definition base64Encode :: "jstr \<Rightarrow> jstr" where
  "base64Encode s = b64_groups (utf8Bytes s)"

text \<open>One character of the decoder loop: the new accumulator.\<close>

definition b64_shift :: "int \<Rightarrow> int \<Rightarrow> int" where
  "b64_shift acc v = signed_take_bit 31 (push_bit 6 acc OR v)"

fun b64_bytes :: "int \<Rightarrow> nat \<Rightarrow> jstr \<Rightarrow> nat list" where
  "b64_bytes acc bits [] = []"
| "b64_bytes acc bits (u # cs) =
     (let acc' = b64_shift acc (b64_index u)
      in if 8 \<le> bits + 6
         then nat (drop_bit (bits + 6 - 8) acc' AND 255) # b64_bytes acc' (bits + 6 - 8) cs
         else b64_bytes acc' (bits + 6) cs)"

definition strip_pad :: "jstr \<Rightarrow> jstr" where
  "strip_pad s = rev (dropWhile (\<lambda>u. u = 61) (rev s))"

definition base64Decode :: "jstr \<Rightarrow> jstr jres" where
  "base64Decode s =
     (let clean = strip_pad s
      in if \<not> list_all is_b64_char clean then throw_utf8 NotBase64
         else if length clean mod 4 = 1 then throw_utf8 NotBase64
         else utf8Str (b64_bytes 0 0 clean))"

subsection \<open>Decoding undoes encoding\<close>

lemma b64_shift_arith:
  assumes "0 \<le> v" "v < 64" "k \<le> 26"
  shows "b64_shift acc v mod 2 ^ (k + 6) = acc mod 2 ^ k * 64 + v"
proof -
  have tv: "take_bit 6 v = v" using assms by (simp add: take_bit_int_eq_self)
  have "push_bit 6 acc OR v = push_bit 6 acc + v"
    by (rule disjunctive_add [symmetric])
      (metis bit_push_bit_iff bit_take_bit_iff linorder_not_le tv)
  then have or: "push_bit 6 acc OR v = acc * 64 + v" by (simp add: push_bit_eq_mult)
  have "b64_shift acc v mod 2 ^ (k + 6) = take_bit (k + 6) (acc * 64 + v)"
    using assms by (simp add: b64_shift_def or take_bit_signed_take_bit flip: take_bit_eq_mod)
  also have "\<dots> = (acc * 64 + v) mod (2 ^ k * 64)"
    by (simp add: take_bit_eq_mod power_add)
  also have "\<dots> = acc mod 2 ^ k * 64 + v"
  proof -
    have "(a * p + b) * 64 + v = (b * 64 + v) + a * (p * 64)" for a b p :: int
      by (simp add: algebra_simps)
    from this [of "acc div 2 ^ k" "2 ^ k" "acc mod 2 ^ k"]
    have "acc * 64 + v = (acc mod 2 ^ k * 64 + v) + acc div 2 ^ k * (2 ^ k * 64)"
      by (simp only: div_mult_mod_eq)
    then have "(acc * 64 + v) mod (2 ^ k * 64) = (acc mod 2 ^ k * 64 + v) mod (2 ^ k * 64)"
      by (metis mod_mult_self1)
    moreover have "acc mod 2 ^ k < 2 ^ k" by simp
    then have "acc mod 2 ^ k + 1 \<le> 2 ^ k" by linarith
    then have "acc mod 2 ^ k * 64 + v < 2 ^ k * 64" using assms by linarith
    moreover have "0 \<le> acc mod 2 ^ k * 64 + v" using assms by simp
    ultimately show ?thesis by simp
  qed
  finally show ?thesis .
qed

lemma b64_byte: "drop_bit n x AND 255 = x mod 2 ^ (n + 8) div 2 ^ n" for x :: int
proof -
  have "drop_bit n x AND 255 = take_bit 8 (drop_bit n x)"
    by (simp add: take_bit_eq_mask mask_eq_exp_minus_1)
  also have "\<dots> = drop_bit n (take_bit (n + 8) x)" by (simp add: take_bit_drop_bit add.commute)
  finally show ?thesis by (simp add: drop_bit_eq_div take_bit_eq_mod)
qed

text \<open>What the loop emits for the second, third and fourth character of a group.\<close>

lemma b64_second:
  fixes acc :: int
  assumes "0 \<le> v1" "v1 < 64" "0 \<le> v2" "v2 < 64"
  defines "a \<equiv> b64_shift (b64_shift acc v1) v2"
  shows "a mod 4096 div 16 = v1 * 4 + v2 div 16" "a mod 16 = v2 mod 16"
proof -
  have "b64_shift acc v1 mod 2 ^ 6 = v1" using b64_shift_arith [of v1 0 acc] assms by simp
  then have a: "a mod 4096 = v1 * 64 + v2"
    using b64_shift_arith [of v2 6 "b64_shift acc v1"] assms(3,4) by (simp add: a_def)
  then show "a mod 4096 div 16 = v1 * 4 + v2 div 16" by simp
  have "a mod 4096 mod 16 = a mod 16" by (rule mod_mod_cancel) simp
  moreover have "(v1 * 64 + v2) mod 16 = (v2 + v1 * 4 * 16) mod 16"
    by (rule arg_cong [of _ _ "\<lambda>x. x mod 16"]) simp
  ultimately show "a mod 16 = v2 mod 16" using a by (simp only: mod_mult_self1)
qed

lemma b64_third:
  fixes acc :: int
  assumes "0 \<le> v3" "v3 < 64" "acc mod 16 = v2 mod 16"
  defines "a \<equiv> b64_shift acc v3"
  shows "a mod 1024 div 4 = v2 mod 16 * 16 + v3 div 4" "a mod 4 = v3 mod 4"
proof -
  have a: "a mod 1024 = v2 mod 16 * 64 + v3"
    using b64_shift_arith [of v3 4 acc] assms by (simp add: a_def)
  then show "a mod 1024 div 4 = v2 mod 16 * 16 + v3 div 4" by simp
  have "a mod 1024 mod 4 = a mod 4" by (rule mod_mod_cancel) simp
  moreover have "(v2 mod 16 * 64 + v3) mod 4 = (v3 + v2 mod 16 * 16 * 4) mod 4"
    by (rule arg_cong [of _ _ "\<lambda>x. x mod 4"]) simp
  ultimately show "a mod 4 = v3 mod 4" using a by (simp only: mod_mult_self1)
qed

lemma b64_fourth:
  assumes "0 \<le> v4" "v4 < 64" "acc mod 4 = v3 mod 4"
  shows "b64_shift acc v4 mod 256 = v3 mod 4 * 64 + v4"
  using b64_shift_arith [of v4 2 acc] assms by simp

lemma index_of_nth: "distinct s \<Longrightarrow> i < length s \<Longrightarrow> index_of s [s ! i] = Some i"
proof (induction s arbitrary: i)
  case (Cons u s)
  then show ?case by (cases i) (auto simp: starts_with_def)
qed simp

lemma b64_table: "length B64 = 64" "distinct B64" "list_all (\<lambda>u. is_b64_char u \<and> u \<noteq> 61) B64"
  by code_simp+

lemma b64_char_table:
  assumes "i < 64"
  shows "b64_index (b64_char i) = int i" "is_b64_char (b64_char i)" "b64_char i \<noteq> 61"
  using assms b64_table index_of_nth [of B64 i] nth_mem [of i B64]
  by (auto simp: b64_index_def b64_char_def list_all_iff)

text \<open>The characters of the encoding without the padding.\<close>

fun b64_body :: "nat list \<Rightarrow> jstr" where
  "b64_body [] = []"
| "b64_body [b0] = [b64_char (b0 div 4), b64_char (b0 mod 4 * 16)]"
| "b64_body [b0, b1] =
     [b64_char (b0 div 4), b64_char (b0 mod 4 * 16 + b1 div 16), b64_char (b1 mod 16 * 4)]"
| "b64_body (b0 # b1 # b2 # bs) =
     [b64_char (b0 div 4), b64_char (b0 mod 4 * 16 + b1 div 16),
      b64_char (b1 mod 16 * 4 + b2 div 64), b64_char (b2 mod 64)] @ b64_body bs"

lemma and_3: "(b :: nat) AND 3 = b mod 4"
  using and_low_mask [of b 2] by simp

lemma b64_second_value: "b1 < 256 \<Longrightarrow> push_bit 4 (b0 AND 3) OR drop_bit 4 b1 = b0 mod 4 * 16 + b1 div 16"
  for b0 :: nat
  using or_add_nat [of "b1 div 16" 4 "b0 mod 4"] less_mult_imp_div_less [of b1 16 16]
  by (simp add: and_3 drop_bit_eq_div)

lemma b64_third_value: "b2 < 256 \<Longrightarrow> push_bit 2 (b1 AND 15) OR drop_bit 6 b2 = b1 mod 16 * 4 + b2 div 64"
  for b1 :: nat
  using or_add_nat [of "b2 div 64" 2 "b1 mod 16"] less_mult_imp_div_less [of b2 4 64]
  by (simp add: and_low_masks drop_bit_eq_div)

lemma b64_groups_body:
  "list_all (\<lambda>b. b < 256) bs \<Longrightarrow> \<exists>p. b64_groups bs = b64_body bs @ replicate p 61"
proof (induction bs rule: b64_body.induct)
  case 1
  show ?case by (intro exI [of _ 0]) simp
next
  case (2 b0)
  then show ?case
    using b64_second_value [of 0 b0]
    by (intro exI [of _ 2]) (simp add: drop_bit_eq_div numeral_2_eq_2)
next
  case (3 b0 b1)
  then show ?case
    using b64_second_value [of b1 b0] b64_third_value [of 0 b1]
    by (intro exI [of _ 1]) (simp add: drop_bit_eq_div)
next
  case (4 b0 b1 b2 bs)
  then obtain p where "b64_groups bs = b64_body bs @ replicate p 61" by auto
  with 4 show ?case
    using b64_second_value [of b1 b0] b64_third_value [of b2 b1]
    by (intro exI [of _ p]) (simp add: drop_bit_eq_div)
qed

lemma six_bits:
  "b0 < 256 \<Longrightarrow> b0 div 4 < (64::nat)" "b0 mod 4 * 16 < (64::nat)"
  "b1 < 256 \<Longrightarrow> b0 mod 4 * 16 + b1 div 16 < (64::nat)" "b1 mod 16 * 4 < (64::nat)"
  "b2 < 256 \<Longrightarrow> b1 mod 16 * 4 + b2 div 64 < (64::nat)" "b2 mod 64 < (64::nat)"
  by linarith+

lemma b64_body_chars:
  "list_all (\<lambda>b. b < 256) bs \<Longrightarrow>
     list_all is_b64_char (b64_body bs) \<and> 61 \<notin> set (b64_body bs) \<and> length (b64_body bs) mod 4 \<noteq> 1"
proof (induction bs rule: b64_body.induct)
  case (4 b0 b1 b2 bs)
  then show ?case by (auto simp: six_bits b64_char_table)
qed (auto simp: six_bits b64_char_table)

lemma b64_loop_second:
  assumes "n1 < 64" "n2 < 64"
  shows "\<exists>a. b64_bytes acc 0 (b64_char n1 # b64_char n2 # cs) = (n1 * 4 + n2 div 16) # b64_bytes a 4 cs
           \<and> a mod 16 = int n2 mod 16"
proof -
  have "nat (int n1 * 4 + int n2 div 16) = n1 * 4 + n2 div 16" by linarith
  then have "b64_bytes acc 0 (b64_char n1 # b64_char n2 # cs)
               = (n1 * 4 + n2 div 16) # b64_bytes (b64_shift (b64_shift acc (int n1)) (int n2)) 4 cs"
    using b64_second(1) [of "int n1" "int n2" acc] assms
    by (simp add: Let_def b64_char_table b64_byte)
  then show ?thesis using b64_second(2) [of "int n1" "int n2" acc] assms by auto
qed

lemma b64_loop_third:
  assumes "n3 < 64" "acc mod 16 = int n2 mod 16"
  shows "\<exists>a. b64_bytes acc 4 (b64_char n3 # cs) = (n2 mod 16 * 16 + n3 div 4) # b64_bytes a 2 cs
           \<and> a mod 4 = int n3 mod 4"
proof -
  have "int n2 mod 16 * 16 + int n3 div 4 = int (n2 mod 16 * 16 + n3 div 4)"
    by (simp add: zmod_int zdiv_int)
  then have "nat (int n2 mod 16 * 16 + int n3 div 4) = n2 mod 16 * 16 + n3 div 4"
    by (simp only: nat_int)
  moreover have "drop_bit 2 (b64_shift acc (int n3)) AND 255 = int n2 mod 16 * 16 + int n3 div 4"
    using b64_third(1) [of "int n3" acc "int n2"] assms b64_byte [of 2] by simp
  moreover have "b64_bytes acc 4 (b64_char n3 # cs)
      = nat (drop_bit 2 (b64_shift acc (int n3)) AND 255) # b64_bytes (b64_shift acc (int n3)) 2 cs"
    using assms(1) by (simp add: Let_def b64_char_table)
  ultimately have "b64_bytes acc 4 (b64_char n3 # cs)
               = (n2 mod 16 * 16 + n3 div 4) # b64_bytes (b64_shift acc (int n3)) 2 cs"
    by simp
  moreover have "b64_shift acc (int n3) mod 4 = int n3 mod 4"
    using b64_third(2) [of "int n3" acc "int n2"] assms by simp
  ultimately show ?thesis by blast
qed

lemma b64_loop_fourth:
  assumes "n4 < 64" "acc mod 4 = int n3 mod 4"
  shows "\<exists>a. b64_bytes acc 2 (b64_char n4 # cs) = (n3 mod 4 * 64 + n4) # b64_bytes a 0 cs"
proof -
  have "int n3 mod 4 * 64 + int n4 = int (n3 mod 4 * 64 + n4)" by (simp add: zmod_int)
  then have "nat (int n3 mod 4 * 64 + int n4) = n3 mod 4 * 64 + n4" by (simp only: nat_int)
  then show ?thesis
    using b64_fourth [of "int n4" acc "int n3"] assms b64_byte [of 0 "b64_shift acc (int n4)"]
    by (auto simp: Let_def b64_char_table)
qed

lemma b64_join:
  assumes "b1 < (256 :: nat)"
  shows "b0 div 4 * 4 + (b0 mod 4 * 16 + b1 div 16) div 16 = b0"
    "b2 < 256 \<Longrightarrow> (b0 mod 4 * 16 + b1 div 16) mod 16 * 16 + (b1 mod 16 * 4 + b2 div 64) div 4 = b1"
    "b2 < 256 \<Longrightarrow> (b1 mod 16 * 4 + b2 div 64) mod 4 * 64 + b2 mod 64 = b2"
proof -
  have q: "b1 div 16 < 16" using assms by (simp add: less_mult_imp_div_less)
  then show "b0 div 4 * 4 + (b0 mod 4 * 16 + b1 div 16) div 16 = b0"
    using div_mult_mod_eq [of b0 4] by simp
  assume "b2 < 256"
  then have r: "b2 div 64 < 4" by (simp add: less_mult_imp_div_less)
  show "(b0 mod 4 * 16 + b1 div 16) mod 16 * 16 + (b1 mod 16 * 4 + b2 div 64) div 4 = b1"
    using q r div_mult_mod_eq [of b1 16] by simp
  show "(b1 mod 16 * 4 + b2 div 64) mod 4 * 64 + b2 mod 64 = b2"
    using r div_mult_mod_eq [of b2 64] by simp
qed

lemma b64_bytes_body: "list_all (\<lambda>b. b < 256) bs \<Longrightarrow> b64_bytes acc 0 (b64_body bs) = bs"
proof (induction bs arbitrary: acc rule: b64_body.induct)
  case (2 b0)
  then have b: "b0 < 256" by simp
  obtain a where "b64_bytes acc 0 (b64_body [b0])
      = (b0 div 4 * 4 + (b0 mod 4 * 16) div 16) # b64_bytes a 4 []"
    unfolding b64_body.simps using b64_loop_second [OF six_bits(1) [OF b] six_bits(2)] by blast
  then show ?case using b64_join(1) [of 0 b0] by simp
next
  case (3 b0 b1)
  then have b: "b0 < 256" "b1 < 256" by auto
  define n2 where "n2 = b0 mod 4 * 16 + b1 div 16"
  define n3 where "n3 = b1 mod 16 * 4"
  have n: "n2 < 64" "n3 < 64" using six_bits b by (simp_all add: n2_def n3_def)
  obtain a where a: "b64_bytes acc 0 (b64_body [b0, b1]) = (b0 div 4 * 4 + n2 div 16) # b64_bytes a 4 [b64_char n3]"
    "a mod 16 = int n2 mod 16"
    unfolding b64_body.simps n2_def [symmetric] n3_def [symmetric]
    using b64_loop_second [OF six_bits(1) [OF b(1)] n(1)] by blast
  obtain a' where a': "b64_bytes a 4 [b64_char n3] = (n2 mod 16 * 16 + n3 div 4) # b64_bytes a' 2 []"
    using b64_loop_third [OF n(2) a(2)] by blast
  have "b0 div 4 * 4 + n2 div 16 = b0" "n2 mod 16 * 16 + n3 div 4 = b1"
    using b64_join(1) [OF b(2), of b0] b64_join(2) [OF b(2), of 0 b0] by (simp_all add: n2_def n3_def)
  with a(1) a' show ?case by (simp only: b64_bytes.simps(1))
next
  case (4 b0 b1 b2 bs)
  then have b: "b0 < 256" "b1 < 256" "b2 < 256" and bs: "list_all (\<lambda>b. b < 256) bs" by auto
  define n2 where "n2 = b0 mod 4 * 16 + b1 div 16"
  define n3 where "n3 = b1 mod 16 * 4 + b2 div 64"
  let ?rest = "b64_char (b2 mod 64) # b64_body bs"
  have n: "n2 < 64" "n3 < 64" using six_bits b by (simp_all add: n2_def n3_def)
  have "b64_body (b0 # b1 # b2 # bs) = b64_char (b0 div 4) # b64_char n2 # b64_char n3 # ?rest"
    by (simp add: n2_def n3_def)
  then obtain a where a: "b64_bytes acc 0 (b64_body (b0 # b1 # b2 # bs))
      = (b0 div 4 * 4 + n2 div 16) # b64_bytes a 4 (b64_char n3 # ?rest)" "a mod 16 = int n2 mod 16"
    using b64_loop_second [OF six_bits(1) [OF b(1)] n(1)] by metis
  obtain a' where a': "b64_bytes a 4 (b64_char n3 # ?rest)
      = (n2 mod 16 * 16 + n3 div 4) # b64_bytes a' 2 ?rest" "a' mod 4 = int n3 mod 4"
    using b64_loop_third [OF n(2) a(2)] by blast
  obtain a'' where a'': "b64_bytes a' 2 ?rest = (n3 mod 4 * 64 + b2 mod 64) # b64_bytes a'' 0 (b64_body bs)"
    using b64_loop_fourth [OF six_bits(6) a'(2)] by blast
  have "b0 div 4 * 4 + n2 div 16 = b0" "n2 mod 16 * 16 + n3 div 4 = b1" "n3 mod 4 * 64 + b2 mod 64 = b2"
    unfolding n2_def n3_def
    by (rule b64_join(1) [OF b(2)] b64_join(2,3) [OF b(2,3)])+
  with a(1) a'(1) a'' "4.IH" [OF bs] show ?case by (simp only:)
qed simp

lemma strip_pad_append: "61 \<notin> set s \<Longrightarrow> strip_pad (s @ replicate p 61) = s"
proof -
  assume a: "61 \<notin> set s"
  have "dropWhile (\<lambda>u. u = 61) (replicate p 61 @ rev s) = rev s"
    using a by (cases s rule: rev_cases) (induction p; auto)+
  then show ?thesis by (simp add: strip_pad_def)
qed

lemma base64Decode_Encode:
  assumes "wf_str s"
  shows "base64Decode (base64Encode s) = utf8Str (utf8Bytes s)"
proof -
  define bs where "bs = utf8Bytes s"
  have bs: "list_all (\<lambda>b. b < 256) bs" using assms by (simp add: bs_def utf8Bytes_bytes)
  then obtain p where "b64_groups bs = b64_body bs @ replicate p 61" using b64_groups_body by blast
  then have "strip_pad (base64Encode s) = b64_body bs"
    using b64_body_chars [OF bs] by (simp add: base64Encode_def strip_pad_append flip: bs_def)
  then show ?thesis
    using b64_body_chars [OF bs] b64_bytes_body [OF bs] by (simp add: base64Decode_def Let_def bs_def)
qed

interpretation base64: codec base64Encode base64Decode well_formed_utf16
  by unfold_locales (simp add: base64Decode_Encode wf16_wf utf8_roundtrip)

end
