(* ===== verification/Json.thy ===== *)
theory Json
  imports JsValue
begin

text \<open>
  \<open>JSON.stringify\<close> and \<open>JSON.parse\<close> on the values of the language, and the coercion
  \<open>toStr\<close> of \<open>engine/functions.ts\<close> that rests on the first. The parser is the one of
  ECMA-404 as a tokeniser and a push-down automaton over its tokens, so that it needs no
  bound on the nesting. The last section shows that parsing undoes printing on the values
  whose numbers are whole.
\<close>

section \<open>Printing\<close>

definition hex_digit :: "nat \<Rightarrow> nat" where
  "hex_digit d = (if d < 10 then 48 + d else 87 + d)"

definition u_escape :: "nat \<Rightarrow> jstr" where
  "u_escape u =
     [92, 117, hex_digit (u div 4096 mod 16), hex_digit (u div 256 mod 16),
      hex_digit (u div 16 mod 16), hex_digit (u mod 16)]"

definition is_surrogate :: "nat \<Rightarrow> bool" where
  "is_surrogate u \<longleftrightarrow> 55296 \<le> u \<and> u \<le> 57343"

definition short_escape :: "nat \<Rightarrow> nat option" where
  "short_escape u =
     (if u = 34 then Some 34 else if u = 92 then Some 92 else if u = 8 then Some 98
      else if u = 9 then Some 116 else if u = 10 then Some 110 else if u = 12 then Some 102
      else if u = 13 then Some 114 else None)"

fun json_escape :: "jstr \<Rightarrow> jstr" where
  "json_escape [] = []"
| "json_escape [u] =
     (case short_escape u of
        Some e \<Rightarrow> [92, e]
      | None \<Rightarrow> if u < 32 \<or> is_surrogate u then u_escape u else [u])"
| "json_escape (u # v # s) =
     (case short_escape u of
        Some e \<Rightarrow> [92, e] @ json_escape (v # s)
      | None \<Rightarrow>
          if 55296 \<le> u \<and> u \<le> 56319 \<and> 56320 \<le> v \<and> v \<le> 57343 then [u, v] @ json_escape s
          else if u < 32 \<or> is_surrogate u then u_escape u @ json_escape (v # s)
          else [u] @ json_escape (v # s))"

definition json_quote :: "jstr \<Rightarrow> jstr" where
  "json_quote s = [34] @ json_escape s @ [34]"

text \<open>\<open>None\<close> is \<open>undefined\<close>: an element prints as \<open>null\<close> then, and a member is left out.\<close>

fun json_str :: "jval \<Rightarrow> jstr option" where
  "json_str JUndef = None"
| "json_str JNull = Some (lit ''null'')"
| "json_str (JBool b) = Some (if b then lit ''true'' else lit ''false'')"
| "json_str (JNum n) = Some (if is_finite n then num_to_str n else lit ''null'')"
| "json_str (JStr s) = Some (json_quote s)"
| "json_str (JArr xs) =
     Some ([91] @ joinS [44] (map (\<lambda>x. case json_str x of Some s \<Rightarrow> s | None \<Rightarrow> lit ''null'') xs)
           @ [93])"
| "json_str (JObj ps) =
     Some ([123] @ joinS [44] (concat (map (\<lambda>(k, v).
              case json_str v of Some s \<Rightarrow> [json_quote k @ [58] @ s] | None \<Rightarrow> []) ps)) @ [125])"

text \<open>\<open>toStr\<close> of \<open>engine/functions.ts\<close>; the values of the language hold no \<open>bigint\<close>.\<close>

definition toStr :: "jval \<Rightarrow> jstr" where
  "toStr v =
     (case v of
        JNull \<Rightarrow> []
      | JUndef \<Rightarrow> []
      | JBool b \<Rightarrow> if b then lit ''true'' else lit ''false''
      | JStr s \<Rightarrow> s
      | JNum n \<Rightarrow> num_to_str n
      | _ \<Rightarrow> (case json_str v of Some s \<Rightarrow> s | None \<Rightarrow> []))"

section \<open>Tokens\<close>

datatype jtok = TLBrack | TRBrack | TLBrace | TRBrace | TColon | TComma | TScalar jval

definition hex_val :: "nat \<Rightarrow> nat option" where
  "hex_val u =
     (if is_digit u then Some (u - 48)
      else if 97 \<le> u \<and> u \<le> 102 then Some (u - 87)
      else if 65 \<le> u \<and> u \<le> 70 then Some (u - 55) else None)"

definition hex4 :: "nat \<Rightarrow> nat \<Rightarrow> nat \<Rightarrow> nat \<Rightarrow> nat option" where
  "hex4 a b c d =
     (case (hex_val a, hex_val b, hex_val c, hex_val d) of
        (Some a, Some b, Some c, Some d) \<Rightarrow> Some (((a * 16 + b) * 16 + c) * 16 + d)
      | _ \<Rightarrow> None)"

definition short_unescape :: "nat \<Rightarrow> nat option" where
  "short_unescape e =
     (if e = 34 \<or> e = 92 \<or> e = 47 then Some e else if e = 98 then Some 8
      else if e = 116 then Some 9 else if e = 110 then Some 10 else if e = 102 then Some 12
      else if e = 114 then Some 13 else None)"

definition cons_fst :: "'a \<Rightarrow> ('a list \<times> 'b) option \<Rightarrow> ('a list \<times> 'b) option" where
  "cons_fst x = map_option (\<lambda>(xs, y). (x # xs, y))"

text \<open>The characters of a string literal behind its opening quote, and the text behind it.\<close>

fun json_chars :: "jstr \<Rightarrow> (jstr \<times> jstr) option" where
  "json_chars [] = None"
| "json_chars (u # s) =
     (if u = 34 then Some ([], s)
      else if u = 92 then
        (case s of
           [] \<Rightarrow> None
         | e # t \<Rightarrow>
             if e = 117 then
               (case t of
                  a # b # c # d # r \<Rightarrow>
                    (case hex4 a b c d of None \<Rightarrow> None | Some x \<Rightarrow> cons_fst x (json_chars r))
                | _ \<Rightarrow> None)
             else (case short_unescape e of None \<Rightarrow> None | Some x \<Rightarrow> cons_fst x (json_chars t)))
      else if u < 32 then None
      else cons_fst u (json_chars s))"

text \<open>A number: \<open>-?(0|[1-9]\d*)(\.\d+)?([eE][+-]?\d+)?\<close>.\<close>

definition json_number :: "jstr \<Rightarrow> (jnum \<times> jstr) option" where
  "json_number s =
     (let nd = neg_digits s;
          ds = takeWhile is_digit (snd nd);
          ip = (if ds \<noteq> [] \<and> hd ds = 48 then [48] else ds);
          fr = scan_frac (drop (length ip) (snd nd));
          ex = scan_exp (snd fr)
      in if ip = [] then None else Some (dec_value (fst nd) ip (fst fr) (fst ex), snd ex))"

lemma json_chars_shorter: "json_chars s = Some (c, r) \<Longrightarrow> length r < length s"
proof (induction s arbitrary: c rule: length_induct)
  case (1 s)
  have rec: "length r < length t" if "length t < length s" "json_chars t = Some (c', r)" for t c'
    using 1 that by blast
  show ?case
    using 1(2) rec
    by (cases s)
      (force simp: cons_fst_def intro: less_SucI split: if_splits list.splits option.splits)+
qed

lemma length_dropWhile_less: "takeWhile P s \<noteq> [] \<Longrightarrow> length (dropWhile P s) < length s"
  by (metis add_less_same_cancel2 length_0_conv length_append less_add_same_cancel2 neq0_conv
      takeWhile_dropWhile_id)

lemma scan_frac_le: "length (snd (scan_frac s)) \<le> length s"
  by (auto simp: scan_frac_def split: list.split dest: length_dropWhile_less intro: le_SucI length_dropWhile_le)

lemma scan_exp_le: "length (snd (scan_exp s)) \<le> length s"
proof (cases s)
  case (Cons u t)
  have "length (dropWhile is_digit (tl t)) \<le> Suc (length t)"
    using length_dropWhile_le [of is_digit "tl t"] by simp
  moreover have "length (dropWhile is_digit t) \<le> Suc (length t)"
    using length_dropWhile_le [of is_digit t] by simp
  ultimately show ?thesis using Cons by (auto simp: scan_exp_def Let_def)
qed (simp add: scan_exp_def)

lemma json_number_shorter: "json_number s = Some (n, r) \<Longrightarrow> length r < length s"
proof -
  assume a: "json_number s = Some (n, r)"
  define t where "t = snd (neg_digits s)"
  define ds where "ds = takeWhile is_digit t"
  define ip where "ip = (if ds \<noteq> [] \<and> hd ds = 48 then [48] else ds)"
  have t: "length t \<le> length s" by (auto simp: t_def neg_digits_def split: list.split)
  from a have ip: "ip \<noteq> []" and r: "r = snd (scan_exp (snd (scan_frac (drop (length ip) t))))"
    by (auto simp: json_number_def Let_def t_def ds_def ip_def split: if_splits)
  have "ds \<noteq> []" using ip by (auto simp: ip_def split: if_splits)
  then have "t \<noteq> []" by (auto simp: ds_def)
  with ip have "length (drop (length ip) t) < length t" by simp
  with t scan_exp_le [of "snd (scan_frac (drop (length ip) t))"]
    scan_frac_le [of "drop (length ip) t"] show ?thesis unfolding r by linarith
qed

definition is_json_space :: "nat \<Rightarrow> bool" where
  "is_json_space u \<longleftrightarrow> u = 32 \<or> u = 9 \<or> u = 10 \<or> u = 13"

definition punctuation :: "nat \<Rightarrow> jtok option" where
  "punctuation u =
     (if u = 91 then Some TLBrack else if u = 93 then Some TRBrack
      else if u = 123 then Some TLBrace else if u = 125 then Some TRBrace
      else if u = 58 then Some TColon else if u = 44 then Some TComma else None)"

text \<open>One token that is not white space, and the text behind it.\<close>

definition json_token :: "jstr \<Rightarrow> (jtok \<times> jstr) option" where
  "json_token s =
     (case s of
        [] \<Rightarrow> None
      | u # t \<Rightarrow>
          (case punctuation u of
             Some p \<Rightarrow> Some (p, t)
           | None \<Rightarrow>
               if u = 34 then map_option (\<lambda>(c, r). (TScalar (JStr c), r)) (json_chars t)
               else if starts_with s (lit ''null'') then Some (TScalar JNull, drop 4 s)
               else if starts_with s (lit ''true'') then Some (TScalar (JBool True), drop 4 s)
               else if starts_with s (lit ''false'') then Some (TScalar (JBool False), drop 5 s)
               else map_option (\<lambda>(n, r). (TScalar (JNum n), r)) (json_number s)))"

lemma json_token_shorter: "json_token s = Some (x, r) \<Longrightarrow> length r < length s"
  by (auto simp: json_token_def less_Suc_eq split: list.splits option.splits if_splits
      dest: json_chars_shorter json_number_shorter)

function json_lex :: "jstr \<Rightarrow> jtok list option" where
  "json_lex [] = Some []"
| "json_lex (u # s) =
     (if is_json_space u then json_lex s
      else case json_token (u # s) of
             None \<Rightarrow> None
           | Some (x, r) \<Rightarrow> map_option ((#) x) (json_lex r))"
  by pat_completeness auto
termination
  by (relation "measure length") (auto dest: json_token_shorter)

section \<open>The automaton\<close>

datatype jframe = FArr "jval list" | FObj jobj jstr

datatype jmode = MValue | MFirst | MKey jobj | MFirstKey | MColon jobj jstr | MAfter jval

fun json_open :: "jframe list \<Rightarrow> jtok \<Rightarrow> (jframe list \<times> jmode) option" where
  "json_open st (TScalar v) = Some (st, MAfter v)"
| "json_open st TLBrack = Some (FArr [] # st, MFirst)"
| "json_open st TLBrace = Some (st, MFirstKey)"
| "json_open st _ = None"

fun json_key :: "jframe list \<Rightarrow> jobj \<Rightarrow> jtok \<Rightarrow> (jframe list \<times> jmode) option" where
  "json_key st ps (TScalar (JStr k)) = Some (st, MColon ps k)"
| "json_key st ps _ = None"

fun json_step :: "jframe list \<Rightarrow> jmode \<Rightarrow> jtok \<Rightarrow> (jframe list \<times> jmode) option" where
  "json_step st MValue x = json_open st x"
| "json_step st MFirst x =
     (if x = TRBrack then (case st of FArr xs # st' \<Rightarrow> Some (st', MAfter (JArr (rev xs))) | _ \<Rightarrow> None)
      else json_open st x)"
| "json_step st (MKey ps) x = json_key st ps x"
| "json_step st MFirstKey x = (if x = TRBrace then Some (st, MAfter (JObj [])) else json_key st [] x)"
| "json_step st (MColon ps k) x = (if x = TColon then Some (FObj ps k # st, MValue) else None)"
| "json_step (FArr xs # st) (MAfter v) x =
     (if x = TComma then Some (FArr (v # xs) # st, MValue)
      else if x = TRBrack then Some (st, MAfter (JArr (rev (v # xs)))) else None)"
| "json_step (FObj ps k # st) (MAfter v) x =
     (if x = TComma then Some (st, MKey (obj_put k v ps))
      else if x = TRBrace then Some (st, MAfter (JObj (obj_put k v ps))) else None)"
| "json_step [] (MAfter v) x = None"

fun json_run :: "jframe list \<Rightarrow> jmode \<Rightarrow> jtok list \<Rightarrow> jval option" where
  "json_run st m [] = (case (st, m) of ([], MAfter v) \<Rightarrow> Some v | _ \<Rightarrow> None)"
| "json_run st m (x # xs) =
     (case json_step st m x of None \<Rightarrow> None | Some (st', m') \<Rightarrow> json_run st' m' xs)"

definition json_parse :: "jstr \<Rightarrow> jval option" where
  "json_parse s = (case json_lex s of None \<Rightarrow> None | Some xs \<Rightarrow> json_run [] MValue xs)"

section \<open>Parsing undoes printing\<close>

text \<open>Keys in the order an object enumerates them: the array indices first, ascending.\<close>

fun enum_ordered :: "jstr list \<Rightarrow> bool" where
  "enum_ordered [] = True"
| "enum_ordered (k # ks) =
     (list_all (\<lambda>k'. k \<noteq> k' \<and> (is_array_index k' \<longrightarrow> is_array_index k \<and> digits_val k < digits_val k')) ks
      \<and> enum_ordered ks)"

definition json_int :: "jnum \<Rightarrow> bool" where
  "json_int n = (case n of Fin q \<Rightarrow> q = of_int \<lfloor>q\<rfloor> \<and> \<bar>q\<bar> \<le> 2 ^ 53 | _ \<Rightarrow> False)"

text \<open>Data that survives the trip: no \<open>undefined\<close>, whole numbers, objects in enumeration order.\<close>

fun json_data :: "jval \<Rightarrow> bool" where
  "json_data JUndef = False"
| "json_data JNull = True"
| "json_data (JBool b) = True"
| "json_data (JNum n) = json_int n"
| "json_data (JStr s) = wf_str s"
| "json_data (JArr xs) = list_all json_data xs"
| "json_data (JObj ps) = (enum_ordered (map fst ps) \<and> list_all (\<lambda>(k, v). wf_str k \<and> json_data v) ps)"

lemma hex_val_digit [simp]: "d < 16 \<Longrightarrow> hex_val (hex_digit d) = Some d"
  by (auto simp: hex_val_def hex_digit_def is_digit_def)

lemma hex_regroup: "((u div 4096 mod 16 * 16 + u div 256 mod 16) * 16 + u div 16 mod 16) * 16 + u mod 16
    = u" if "u < 65536" for u :: nat
proof -
  have "u div 4096 < 16" using that by (intro less_mult_imp_div_less) simp
  then have a: "u div 4096 mod 16 = u div 4096" by simp
  have "u div 4096 = u div 256 div 16" "u div 256 = u div 16 div 16" by (simp_all flip: div_mult2_eq)
  then have "u div 4096 * 16 + u div 256 mod 16 = u div 256"
    and "u div 256 * 16 + u div 16 mod 16 = u div 16"
    by (simp_all only: div_mult_mod_eq)
  then show ?thesis by (simp only: a div_mult_mod_eq)
qed

lemma json_chars_u_escape:
  "u < 65536 \<Longrightarrow> json_chars (u_escape u @ s) = cons_fst u (json_chars s)"
  using hex_regroup [of u] by (simp add: u_escape_def hex4_def)

lemma json_chars_short: "short_escape u = Some e \<Longrightarrow> json_chars (92 # e # s) = cons_fst u (json_chars s)"
  by (auto simp: short_escape_def short_unescape_def split: if_splits)

lemma json_chars_plain:
  "short_escape u = None \<Longrightarrow> 32 \<le> u \<Longrightarrow> json_chars (u # s) = cons_fst u (json_chars s)"
  by (auto simp: short_escape_def split: if_splits)

lemma json_chars_escape:
  "wf_str s \<Longrightarrow> json_chars (json_escape s @ 34 # rest) = Some (s, rest)"
proof (induction s rule: json_escape.induct)
  case (2 u)
  then show ?case
    by (auto simp: json_chars_short json_chars_u_escape json_chars_plain cons_fst_def
        simp del: json_chars.simps(2) split: option.split) (simp_all add: short_escape_def)
next
  case (3 u v s)
  show ?case
  proof (cases "short_escape u")
    case (Some e)
    with 3 show ?thesis by (simp add: json_chars_short cons_fst_def del: json_chars.simps(2))
  next
    case None
    show ?thesis
    proof (cases "55296 \<le> u \<and> u \<le> 56319 \<and> 56320 \<le> v \<and> v \<le> 57343")
      case True
      then have "short_escape v = None" "32 \<le> u" "32 \<le> v" by (auto simp: short_escape_def)
      with 3 None True show ?thesis by (simp add: json_chars_plain cons_fst_def del: json_chars.simps(2))
    next
      case False
      show ?thesis
      proof (cases "u < 32 \<or> is_surrogate u")
        case True
        with 3 None False show ?thesis
          by (auto simp: json_chars_u_escape cons_fst_def simp del: json_chars.simps(2))
      next
        case F: False
        with 3 None False show ?thesis
          by (auto simp: json_chars_plain cons_fst_def simp del: json_chars.simps(2))
      qed
    qed
  qed
qed simp

text \<open>Text behind a number at which its tokeniser stops.\<close>

definition delimited :: "jstr \<Rightarrow> bool" where
  "delimited s \<longleftrightarrow> (case s of [] \<Rightarrow> True | u # _ \<Rightarrow> \<not> is_digit u \<and> u \<notin> {46, 69, 101})"

lemma nat_digits_hd: "0 < n \<Longrightarrow> hd (nat_digits n) \<noteq> 48"
proof (induction n rule: nat_digits.induct)
  case (1 n)
  then show ?case
    by (cases "n < 10") (auto simp: nat_digits.simps [of n] hd_append)
qed

lemma digits_delimited:
  assumes "delimited s"
  shows "takeWhile is_digit (nat_digits n @ s) = nat_digits n"
    "dropWhile is_digit (nat_digits n @ s) = s"
  using assms nat_digits_all [of n]
  by (auto simp: delimited_def list_all_iff takeWhile_eq_Nil_iff dropWhile_eq_self_iff
      split: list.splits)

lemma json_number_digits:
  assumes "delimited s"
  shows "json_number (nat_digits n @ s) = Some (dec_value False (nat_digits n) [] 0, s)"
    "json_number (45 # nat_digits n @ s) = Some (dec_value True (nat_digits n) [] 0, s)"
proof -
  have neg: "neg_digits (nat_digits n @ s) = (False, nat_digits n @ s)"
    using nat_digits_all [of n] nat_digits_nonempty [of n]
    by (cases "nat_digits n") (auto simp: neg_digits_def is_digit_def)
  have neg': "neg_digits (45 # nat_digits n @ s) = (True, nat_digits n @ s)"
    by (simp add: neg_digits_def)
  have ip: "n = 0 \<and> nat_digits n = [48] \<or> hd (nat_digits n) \<noteq> 48"
    using nat_digits_hd [of n] by (cases "n = 0") (auto simp: nat_digits.simps [of 0])
  have fr: "scan_frac s = ([], s)" and ex: "scan_exp s = (0, s)"
    using assms by (auto simp: scan_frac_def scan_exp_def delimited_def split: list.splits)
  show "json_number (nat_digits n @ s) = Some (dec_value False (nat_digits n) [] 0, s)"
    "json_number (45 # nat_digits n @ s) = Some (dec_value True (nat_digits n) [] 0, s)"
    using ip
    by (auto simp: json_number_def neg neg' Let_def digits_delimited [OF assms] fr ex)
qed

lemma json_int_cases:
  assumes "json_int n"
  obtains m where "n = Fin (of_nat m)" "int m \<le> 2 ^ 53"
  | m where "n = Fin (- of_nat m)" "int m \<le> 2 ^ 53" "0 < m"
proof -
  from assms obtain q where n: "n = Fin q" and q: "q = of_int \<lfloor>q\<rfloor>" "\<bar>q\<bar> \<le> 2 ^ 53"
    by (auto simp: json_int_def split: jnum.splits)
  define i where "i = \<lfloor>q\<rfloor>"
  have qi: "q = of_int i" using q by (simp add: i_def)
  have "\<bar>i\<bar> \<le> 2 ^ 53"
    using q(2) unfolding qi by (metis of_int_abs of_int_le_numeral_power_cancel_iff)
  show ?thesis
  proof (cases "0 \<le> i")
    case True
    then show ?thesis using that(1) [of "nat i"] n qi \<open>\<bar>i\<bar> \<le> 2 ^ 53\<close> by simp
  next
    case False
    then show ?thesis using that(2) [of "nat (- i)"] n qi \<open>\<bar>i\<bar> \<le> 2 ^ 53\<close> by simp
  qed
qed

lemma dec_value_nat: "int m \<le> 2 ^ 53 \<Longrightarrow> dec_value False (nat_digits m) [] 0 = Fin (of_nat m)"
  using rnd_of_int [of "int m"] by (auto simp: dec_value_def Let_def digits_val_nat_digits)

lemma dec_value_neg:
  "int m \<le> 2 ^ 53 \<Longrightarrow> 0 < m \<Longrightarrow> dec_value True (nat_digits m) [] 0 = Fin (- of_nat m)"
  using rnd_of_int [of "- int m"] by (auto simp: dec_value_def Let_def digits_val_nat_digits)

lemma json_number_to_str:
  assumes "json_int n" "delimited s"
  shows "json_number (num_to_str n @ s) = Some (n, s)"
  using assms(1)
proof (cases rule: json_int_cases)
  case (1 m)
  then show ?thesis
    using json_number_digits(1) [OF assms(2), of m] num_to_str_nat [of m] dec_value_nat [of m] by simp
next
  case (2 m)
  then have "num_to_str n = 45 # nat_digits m"
    using num_to_str_nat [of m] by simp
  with 2 show ?thesis
    using json_number_digits(2) [OF assms(2), of m] dec_value_neg [of m] by simp
qed

text \<open>The automaton run on the rest of a text.\<close>

definition json_from :: "jframe list \<Rightarrow> jmode \<Rightarrow> jstr \<Rightarrow> jval option" where
  "json_from st m s = (case json_lex s of None \<Rightarrow> None | Some xs \<Rightarrow> json_run st m xs)"

lemma json_from_token:
  assumes "s \<noteq> []" "\<not> is_json_space (hd s)" "json_token s = Some (x, r)"
    "json_step st m x = Some (st', m')"
  shows "json_from st m s = json_from st' m' r"
  using assms by (cases s) (auto simp: json_from_def split: option.split)

lemma json_from_punct:
  assumes "punctuation u = Some x" "json_step st m x = Some (st', m')"
  shows "json_from st m (u # s) = json_from st' m' s"
proof (rule json_from_token)
  show "\<not> is_json_space (hd (u # s))"
    using assms(1) by (auto simp: punctuation_def is_json_space_def)
  show "json_token (u # s) = Some (x, s)" using assms(1) by (simp add: json_token_def)
qed (use assms in auto)

lemma json_from_quote:
  assumes "wf_str k" "json_step st m (TScalar (JStr k)) = Some (st', m')"
  shows "json_from st m (json_quote k @ s) = json_from st' m' s"
proof (rule json_from_token)
  show "json_token (json_quote k @ s) = Some (TScalar (JStr k), s)"
    using assms(1) by (simp add: json_token_def json_quote_def punctuation_def json_chars_escape)
qed (use assms in \<open>auto simp: json_quote_def is_json_space_def\<close>)

lemma json_token_number:
  assumes "json_int n" "delimited s"
  shows "json_token (num_to_str n @ s) = Some (TScalar (JNum n), s)"
    "num_to_str n \<noteq> []" "\<not> is_json_space (hd (num_to_str n))"
proof -
  have "\<exists>u t. num_to_str n = u # t \<and> (is_digit u \<or> u = 45)"
    using assms(1)
  proof (cases rule: json_int_cases)
    case (1 m)
    then show ?thesis
      using num_to_str_nat [of m] nat_digits_all [of m] nat_digits_nonempty [of m]
      by (cases "nat_digits m") auto
  next
    case (2 m)
    then show ?thesis using num_to_str_nat [of m] by simp
  qed
  then obtain u t where ut: "num_to_str n = u # t" "is_digit u \<or> u = 45" by blast
  then show "num_to_str n \<noteq> []" "\<not> is_json_space (hd (num_to_str n))"
    by (auto simp: is_json_space_def is_digit_def)
  have "punctuation u = None" "u \<noteq> 34"
    "\<not> starts_with (num_to_str n @ s) (lit ''null'')"
    "\<not> starts_with (num_to_str n @ s) (lit ''true'')"
    "\<not> starts_with (num_to_str n @ s) (lit ''false'')"
    using ut by (auto simp: punctuation_def starts_with_def is_digit_def)
  then show "json_token (num_to_str n @ s) = Some (TScalar (JNum n), s)"
    using json_number_to_str [OF assms] ut(1) by (simp add: json_token_def)
qed

lemma json_from_scalar:
  assumes "json_token t = Some (TScalar v, r)" "t \<noteq> []" "\<not> is_json_space (hd t)"
    "m = MValue \<or> m = MFirst"
  shows "json_from st m t = json_from st (MAfter v) r"
  by (rule json_from_token [OF assms(2,3,1)]) (use assms(4) in auto)

lemma obj_insert_last:
  "list_all (\<lambda>k'. is_array_index k \<longrightarrow> is_array_index k' \<and> digits_val k' < digits_val k) (map fst ps)
     \<Longrightarrow> obj_insert k v ps = ps @ [(k, v)]"
  by (induction k v ps rule: obj_insert.induct) auto

lemma enum_ordered_append:
  "enum_ordered (ks @ k # ks') \<Longrightarrow>
     k \<notin> set ks \<and> list_all (\<lambda>k'. is_array_index k \<longrightarrow> is_array_index k' \<and> digits_val k' < digits_val k) ks"
  by (induction ks) auto

lemma obj_put_last: "enum_ordered (map fst (ps @ (k, v) # qs)) \<Longrightarrow> obj_put k v ps = ps @ [(k, v)]"
  using enum_ordered_append [of "map fst ps" k "map fst qs"] obj_insert_last [of k ps v]
  by (auto simp: obj_put_def)

definition jtext :: "jval \<Rightarrow> jstr" where
  "jtext v = (case json_str v of Some s \<Rightarrow> s | None \<Rightarrow> lit ''null'')"

definition jmember :: "jstr \<times> jval \<Rightarrow> jstr" where
  "jmember p = json_quote (fst p) @ [58] @ jtext (snd p)"

lemma json_data_defined: "json_data v \<Longrightarrow> json_str v = Some (jtext v)"
  by (cases v) (auto simp: jtext_def)

lemma jtext_arr: "jtext (JArr xs) = [91] @ joinS [44] (map jtext xs) @ [93]"
  by (simp add: jtext_def cong: map_cong)

lemma jtext_obj:
  assumes "list_all (\<lambda>(k, v). json_data v) ps"
  shows "jtext (JObj ps) = [123] @ joinS [44] (map jmember ps) @ [125]"
proof -
  have "concat (map (\<lambda>(k, v). case json_str v of Some s \<Rightarrow> [json_quote k @ [58] @ s] | None \<Rightarrow> []) ps)
      = map jmember ps"
    using assms by (induction ps) (auto simp: json_data_defined jmember_def)
  then show ?thesis by (simp add: jtext_def)
qed

definition parses :: "jval \<Rightarrow> bool" where
  "parses v \<longleftrightarrow> (\<forall>st m s. m = MValue \<or> m = MFirst \<longrightarrow> delimited s \<longrightarrow>
     json_from st m (jtext v @ s) = json_from st (MAfter v) s)"

lemma parsesD: "parses v \<Longrightarrow> m = MValue \<or> m = MFirst \<Longrightarrow> delimited s \<Longrightarrow>
     json_from st m (jtext v @ s) = json_from st (MAfter v) s"
  by (auto simp: parses_def)

lemma parse_elements:
  "list_all parses (x # xs) \<Longrightarrow> m = MValue \<or> m = MFirst \<Longrightarrow>
     json_from (FArr acc # st) m (joinS [44] (map jtext (x # xs)) @ 93 # s)
       = json_from st (MAfter (JArr (rev acc @ x # xs))) s"
proof (induction xs arbitrary: x acc m)
  case Nil
  then have "json_from (FArr acc # st) m (jtext x @ 93 # s) = json_from (FArr acc # st) (MAfter x) (93 # s)"
    by (intro parsesD) (auto simp: delimited_def is_digit_def)
  also have "\<dots> = json_from st (MAfter (JArr (rev acc @ [x]))) s"
    by (rule json_from_punct [where x = TRBrack]) (simp_all add: punctuation_def)
  finally show ?case by simp
next
  case (Cons y ys)
  let ?t = "joinS [44] (map jtext (y # ys)) @ 93 # s"
  have "json_from (FArr acc # st) m (jtext x @ 44 # ?t) = json_from (FArr acc # st) (MAfter x) (44 # ?t)"
    using Cons.prems by (intro parsesD) (auto simp: delimited_def is_digit_def)
  also have "\<dots> = json_from (FArr (x # acc) # st) MValue ?t"
    by (rule json_from_punct [where x = TComma]) (simp_all add: punctuation_def)
  also have "\<dots> = json_from st (MAfter (JArr (rev (x # acc) @ y # ys))) s"
    using Cons.prems by (intro Cons.IH) auto
  finally show ?case by simp
qed

lemma parse_member:
  assumes "wf_str k" "parses v" "delimited s" "m = MKey ps \<or> m = MFirstKey \<and> ps = []"
  shows "json_from st m (jmember (k, v) @ s) = json_from (FObj ps k # st) (MAfter v) s"
proof -
  have "json_from st m (json_quote k @ 58 # jtext v @ s) = json_from st (MColon ps k) (58 # jtext v @ s)"
    using assms by (intro json_from_quote) auto
  also have "\<dots> = json_from (FObj ps k # st) MValue (jtext v @ s)"
    by (rule json_from_punct [where x = TColon]) (simp_all add: punctuation_def)
  also have "\<dots> = json_from (FObj ps k # st) (MAfter v) s"
    using assms by (intro parsesD) auto
  finally show ?thesis by (simp add: jmember_def)
qed

lemma parse_members:
  "list_all (\<lambda>(k, v). wf_str k \<and> parses v) (p # qs) \<Longrightarrow> enum_ordered (map fst (ps @ p # qs)) \<Longrightarrow>
     m = MKey ps \<or> m = MFirstKey \<and> ps = [] \<Longrightarrow>
     json_from st m (joinS [44] (map jmember (p # qs)) @ 125 # s)
       = json_from st (MAfter (JObj (ps @ p # qs))) s"
proof (induction qs arbitrary: p ps m)
  case Nil
  obtain k v where p: "p = (k, v)" by fastforce
  have "json_from st m (jmember (k, v) @ 125 # s) = json_from (FObj ps k # st) (MAfter v) (125 # s)"
    using Nil p by (intro parse_member) (auto simp: delimited_def is_digit_def)
  also have "\<dots> = json_from st (MAfter (JObj (obj_put k v ps))) s"
    by (rule json_from_punct [where x = TRBrace]) (simp_all add: punctuation_def)
  finally show ?case using obj_put_last [of ps k v "[]"] Nil.prems p by simp
next
  case (Cons q qs)
  obtain k v where p: "p = (k, v)" by fastforce
  let ?t = "joinS [44] (map jmember (q # qs)) @ 125 # s"
  have "json_from st m (jmember (k, v) @ 44 # ?t) = json_from (FObj ps k # st) (MAfter v) (44 # ?t)"
    using Cons.prems p by (intro parse_member) (auto simp: delimited_def is_digit_def)
  also have "\<dots> = json_from st (MKey (obj_put k v ps)) ?t"
    by (rule json_from_punct [where x = TComma]) (simp_all add: punctuation_def)
  also have "obj_put k v ps = ps @ [p]"
    using obj_put_last [of ps k v "q # qs"] Cons.prems p by simp
  also have "json_from st (MKey (ps @ [p])) ?t = json_from st (MAfter (JObj ((ps @ [p]) @ q # qs))) s"
    using Cons.prems by (intro Cons.IH) auto
  finally show ?case using p by simp
qed

lemma parses_data: "json_data v \<Longrightarrow> parses v"
proof (induction v rule: json_data.induct)
  case 2
  show ?case
    by (auto simp: parses_def jtext_def json_token_def punctuation_def starts_with_def
        is_json_space_def intro!: json_from_scalar)
next
  case (3 b)
  show ?case
    by (auto simp: parses_def jtext_def json_token_def punctuation_def starts_with_def
        is_json_space_def intro!: json_from_scalar)
next
  case (4 n)
  then have "json_int n" by simp
  moreover have "is_finite n" using \<open>json_int n\<close> by (auto simp: json_int_def split: jnum.splits)
  ultimately show ?case
    by (auto simp: parses_def jtext_def hd_append json_token_number intro!: json_from_scalar)
next
  case (5 t)
  then show ?case by (auto simp: parses_def jtext_def intro!: json_from_quote)
next
  case (6 xs)
  have open_: "json_from st m (91 # s) = json_from (FArr [] # st) MFirst s"
    if "m = MValue \<or> m = MFirst" for st m s
    using that by (intro json_from_punct [where x = TLBrack]) (auto simp: punctuation_def)
  have empty: "json_from (FArr [] # st) MFirst (93 # s) = json_from st (MAfter (JArr [])) s" for st s
    by (rule json_from_punct [where x = TRBrack]) (simp_all add: punctuation_def)
  have all: "list_all parses xs" using 6 by (auto simp: list_all_iff)
  show ?case
  proof (cases xs)
    case Nil
    then show ?thesis by (simp add: parses_def jtext_arr open_ empty)
  next
    case (Cons x ys)
    show ?thesis
      using all parse_elements [of x ys MFirst "[]"] unfolding Cons
      by (simp add: parses_def jtext_arr open_ del: joinS.simps list.map)
  qed
next
  case (7 ps)
  have open_: "json_from st m (123 # s) = json_from st MFirstKey s"
    if "m = MValue \<or> m = MFirst" for st m s
    using that by (intro json_from_punct [where x = TLBrace]) (auto simp: punctuation_def)
  have empty: "json_from st MFirstKey (125 # s) = json_from st (MAfter (JObj [])) s" for st s
    by (rule json_from_punct [where x = TRBrace]) (simp_all add: punctuation_def)
  have all: "list_all (\<lambda>(k, v). wf_str k \<and> parses v) ps" and data: "list_all (\<lambda>(k, v). json_data v) ps"
    and ord: "enum_ordered (map fst ps)"
    using 7 by (fastforce simp: list_all_iff)+
  show ?case
  proof (cases ps)
    case Nil
    then show ?thesis by (simp add: parses_def jtext_obj open_ empty)
  next
    case (Cons p qs)
    show ?thesis
      using all ord data parse_members [of p qs "[]" MFirstKey] unfolding Cons
      by (simp add: parses_def jtext_obj open_ del: joinS.simps list.map)
  qed
qed auto

lemma json_parse_str: "json_data v \<Longrightarrow> json_parse (jtext v) = Some v"
  using parsesD [OF parses_data, of v MValue "[]" "[]"]
  by (simp add: json_from_def json_parse_def delimited_def)

end
