(* ===== verification/UriComponent.thy ===== *)
theory UriComponent
  imports Utf8Base64 Json
begin

text \<open>
  The host functions \<open>encodeURIComponent\<close> and \<open>decodeURIComponent\<close> that two functions of
  the catalog of \<open>engine/functions.ts\<close> call, as ECMA-262 defines them: percent-encoding
  of the UTF-8 bytes of every character outside the unreserved set, \<open>HostE\<close> for the
  \<open>URIError\<close>. The last section shows that decoding undoes encoding on well-formed text.
\<close>

definition uri_unreserved :: "nat \<Rightarrow> bool" where
  "uri_unreserved u \<longleftrightarrow> is_letter u \<or> is_digit u \<or> u \<in> {45, 95, 46, 33, 126, 42, 39, 40, 41}"

definition upper_hex :: "nat \<Rightarrow> nat" where
  "upper_hex d = (if d < 10 then 48 + d else 55 + d)"

definition pct :: "nat \<Rightarrow> jstr" where
  "pct b = [37, upper_hex (b div 16), upper_hex (b mod 16)]"

fun uri_encode :: "jstr \<Rightarrow> jstr jres" where
  "uri_encode [] = Inr []"
| "uri_encode (u # s) =
     (if uri_unreserved u then bindR (uri_encode s) (\<lambda>t. Inr (u # t))
      else let cp = code_point_at u s
           in if is_surrogate cp then Inl HostE
              else bindR (uri_encode (if 65535 < cp then drop 1 s else s)) (\<lambda>t.
                     Inr (concat (map pct (utf8_encode_cp cp)) @ t)))"

text \<open>The bytes of \<open>n\<close> percent-escapes and the text behind them.\<close>

fun pct_bytes :: "nat \<Rightarrow> jstr \<Rightarrow> (nat list \<times> jstr) option" where
  "pct_bytes 0 s = Some ([], s)"
| "pct_bytes (Suc n) s =
     (case s of
        p # a # b # t \<Rightarrow>
          if p \<noteq> 37 then None
          else (case (hex_val a, hex_val b) of
                  (Some x, Some y) \<Rightarrow>
                    map_option (\<lambda>(bs, r). ((x * 16 + y) # bs, r)) (pct_bytes n t)
                | _ \<Rightarrow> None)
      | _ \<Rightarrow> None)"

lemma pct_bytes_shorter: "pct_bytes n s = Some (bs, r) \<Longrightarrow> length r \<le> length s \<and> (0 < n \<longrightarrow> length r < length s)"
proof (induction n s arbitrary: bs rule: pct_bytes.induct)
  case (2 n s)
  then show ?case by (fastforce split: list.splits option.splits if_splits)
qed simp

function uri_decode :: "jstr \<Rightarrow> jstr jres" where
  "uri_decode [] = Inr []"
| "uri_decode (u # s) =
     (if u \<noteq> 37 then bindR (uri_decode s) (\<lambda>t. Inr (u # t))
      else case pct_bytes 1 (u # s) of
             None \<Rightarrow> Inl HostE
           | Some (bs, r) \<Rightarrow>
               (case utf8_lead (hd bs) of
                  None \<Rightarrow> Inl HostE
                | Some (_, len) \<Rightarrow>
                    (case pct_bytes (len - 1) r of
                       None \<Rightarrow> Inl HostE
                     | Some (bs', r') \<Rightarrow>
                         (case utf8Str (hd bs # bs') of
                            Inl _ \<Rightarrow> Inl HostE
                          | Inr c \<Rightarrow> bindR (uri_decode r') (\<lambda>t. Inr (c @ t))))))"
  by pat_completeness auto
termination
proof (relation "measure length", goal_cases)
  case (3 u s x bs r y p len z bs' r' c)
  then show ?case using pct_bytes_shorter [of 1 "u # s" bs r] pct_bytes_shorter [of "len - 1" r bs' r']
    by (simp del: pct_bytes.simps)
qed simp_all

section \<open>Decoding undoes encoding\<close>

lemma hex_val_upper [simp]: "d < 16 \<Longrightarrow> hex_val (upper_hex d) = Some d"
  by (auto simp: hex_val_def upper_hex_def is_digit_def)

lemma pct_bytes_pct:
  "list_all (\<lambda>b. b < 256) bs \<Longrightarrow> pct_bytes (length bs) (concat (map pct bs) @ r) = Some (bs, r)"
proof (induction bs)
  case (Cons b bs)
  then have "b div 16 < 16" by (intro less_mult_imp_div_less) simp
  with Cons show ?case by (simp add: pct_def)
qed simp

lemma utf8_encode_cp_lead:
  assumes "cp < 1114112"
  obtains b bs p where "utf8_encode_cp cp = b # bs" "b < 256" "utf8_lead b = Some (p, Suc (length bs))"
proof -
  have d: "cp < 2048 \<Longrightarrow> cp div 64 < 32" "cp < 65536 \<Longrightarrow> cp div 4096 < 16" "cp div 262144 < 8"
    using assms by (intro less_mult_imp_div_less; simp)+
  obtain b bs where e: "utf8_encode_cp cp = b # bs"
    using length_utf8_encode_cp [of cp] by (cases "utf8_encode_cp cp") (auto split: if_splits)
  have "b < 256" using utf8_encode_cp_bytes [OF assms] e by simp
  moreover have "\<exists>p. utf8_lead b = Some (p, Suc (length bs))"
    using e d \<open>b < 256\<close> by (auto simp: utf8_encode_cp_arith [OF assms] utf8_lead_byte split: if_splits)
  ultimately show ?thesis using that e by blast
qed

lemma uri_decode_cp:
  assumes "cp < 1114112" "\<not> is_surrogate cp"
  shows "uri_decode (concat (map pct (utf8_encode_cp cp)) @ s)
           = bindR (uri_decode s) (\<lambda>t. Inr (from_code_point cp @ t))"
proof -
  obtain b bs p where e: "utf8_encode_cp cp = b # bs" and b: "b < 256"
    and lead: "utf8_lead b = Some (p, Suc (length bs))"
    using utf8_encode_cp_lead [OF assms(1)] by blast
  have bytes: "list_all (\<lambda>b. b < 256) bs" using utf8_encode_cp_bytes [OF assms(1)] e by simp
  have one: "pct_bytes 1 (pct b @ t) = Some ([b], t)" for t
    using pct_bytes_pct [of "[b]" t] b by simp
  have str: "utf8Str (b # bs) = Inr (from_code_point cp)"
    using utf8Str_encode_cp [of cp "[]"] assms e by (simp add: is_surrogate_def)
  have head: "\<exists>t'. pct b @ t = 37 # t'" for t by (simp add: pct_def)
  then obtain t' where t': "pct b @ concat (map pct bs) @ s = 37 # t'" by blast
  then have "uri_decode (37 # t') = bindR (uri_decode s) (\<lambda>t. Inr (from_code_point cp @ t))"
    using one [of "concat (map pct bs) @ s"] lead str pct_bytes_pct [OF bytes, of s]
    by (simp del: pct_bytes.simps)
  with t' e show ?thesis by simp
qed

lemma uri_roundtrip: "well_formed_utf16 s \<Longrightarrow> \<exists>t. uri_encode s = Inr t \<and> uri_decode t = Inr s"
proof (induction s rule: well_formed_utf16.induct)
  case (2 u)
  then show ?case
    using uri_decode_cp [of u "[]"]
    by (auto simp: is_surrogate_def is_high_def is_low_def code_point_at_def from_code_point_def
        uri_unreserved_def is_letter_def is_upper_def is_lower_def is_digit_def)
next
  case (3 u v s)
  show ?case
  proof (cases "is_high u")
    case True
    let ?cp = "(u - 55296) * 1024 + (v - 56320) + 65536"
    from True 3 obtain t where t: "uri_encode s = Inr t" "uri_decode t = Inr s" by auto
    have low: "is_low v" using True 3 by simp
    have cp: "code_point_at u (v # s) = ?cp" using True low by (simp add: code_point_at_def)
    have bounds: "?cp < 1114112" "\<not> is_surrogate ?cp" "\<not> uri_unreserved u"
      using True low
      by (auto simp: is_high_def is_low_def is_surrogate_def uri_unreserved_def is_letter_def
          is_upper_def is_lower_def is_digit_def)
    obtain j k where jk: "u = 55296 + j" "v = 56320 + k" "j < 1024" "k < 1024"
      using True low that [of "u - 55296" "v - 56320"] by (auto simp: is_high_def is_low_def)
    then have pair: "from_code_point ?cp = [u, v]" by (simp add: from_code_point_def)
    show ?thesis
      using t cp bounds pair uri_decode_cp [OF bounds(1,2), of t] by (simp add: Let_def)
  next
    case False
    with 3 obtain t where t: "uri_encode (v # s) = Inr t" "uri_decode t = Inr (v # s)" by auto
    have u: "u < 65536" "\<not> is_low u" using False 3 by simp_all
    have cp: "code_point_at u (v # s) = u" using False by (simp add: code_point_at_def)
    have "\<not> is_surrogate u" using False u by (auto simp: is_surrogate_def is_high_def is_low_def)
    then have escape: "uri_decode (concat (map pct (utf8_encode_cp u)) @ t) = Inr (u # v # s)"
      using t u uri_decode_cp [of u t] by (simp add: from_code_point_def)
    show ?thesis
    proof (cases "uri_unreserved u")
      case True
      then have "u \<noteq> 37"
        by (auto simp: uri_unreserved_def is_letter_def is_upper_def is_lower_def is_digit_def)
      then show ?thesis using True t by simp
    next
      case F: False
      then show ?thesis using t cp u \<open>\<not> is_surrogate u\<close> escape by (simp add: Let_def)
    qed
  qed
qed simp

end
