(* ===== verification/Catalog.thy ===== *)
theory Catalog
  imports Calendar UriComponent
begin

text \<open>
  The closed function catalog of \<open>engine/functions.ts\<close>: the calling convention (\<open>FnSpec\<close>
  with its eager and special forms), the run-time checks of arguments, and one definition
  per entry of \<open>FUNCTIONS\<close>. A special function gets its arguments unevaluated, as values
  of a type \<open>'x\<close> that only the injected evaluator can read, exactly as the code passes
  syntax trees with an \<open>EvalIn\<close>. The Unicode case mapping of the host is a parameter.
\<close>

section \<open>The host and the evaluator's effects\<close>

text \<open>
  \<open>h_lower\<close> and \<open>h_upper\<close> are \<open>toLowerCase\<close> and \<open>toUpperCase\<close>. \<open>h_inherited m k\<close> is the
  own property \<open>k\<close> of the member \<open>m\<close> of \<open>Object.prototype\<close>, which the evaluator can reach.
\<close>

record host =
  h_lower :: "jstr \<Rightarrow> jstr"
  h_upper :: "jstr \<Rightarrow> jstr"
  h_inherited :: "jstr \<Rightarrow> jstr \<Rightarrow> jval option"

text \<open>
  A computation of the evaluator reads and writes the number of array elements spent so
  far. An exception keeps the count reached, since the counter is a shared object.
\<close>

type_synonym 'a ev = "nat \<Rightarrow> 'a jres \<times> nat"

definition retE :: "'a \<Rightarrow> 'a ev" where
  "retE x = (\<lambda>b. (Inr x, b))"

definition liftE :: "'a jres \<Rightarrow> 'a ev" where
  "liftE m = (\<lambda>b. (m, b))"

definition bindE :: "'a ev \<Rightarrow> ('a \<Rightarrow> 'b ev) \<Rightarrow> 'b ev" where
  "bindE m f = (\<lambda>b. case m b of (Inl e, b') \<Rightarrow> (Inl e, b') | (Inr x, b') \<Rightarrow> f x b')"

lemma bindE_cong [fundef_cong]:
  "\<lbrakk>m = m'; b = b'; \<And>x b''. m' b' = (Inr x, b'') \<Longrightarrow> f x b'' = g x b''\<rbrakk> \<Longrightarrow> bindE m f b = bindE m' g b'"
  by (auto simp: bindE_def split: prod.split sum.split)

lemma bindE_ret [simp]: "bindE (retE x) f = f x"
  by (simp add: bindE_def retE_def)

lemma bindE_lift [simp]: "bindE (liftE (Inr x)) f = f x" "bindE (liftE (Inl e)) f = liftE (Inl e)"
  by (simp_all add: bindE_def liftE_def)

fun mapE :: "('a \<Rightarrow> 'b ev) \<Rightarrow> 'a list \<Rightarrow> 'b list ev" where
  "mapE f [] = retE []"
| "mapE f (x # xs) = bindE (f x) (\<lambda>y. bindE (mapE f xs) (\<lambda>ys. retE (y # ys)))"

fun filterE :: "('a \<Rightarrow> bool ev) \<Rightarrow> 'a list \<Rightarrow> 'a list ev" where
  "filterE p [] = retE []"
| "filterE p (x # xs) = bindE (p x) (\<lambda>b. bindE (filterE p xs) (\<lambda>ys. retE (if b then x # ys else ys)))"

section \<open>The calling convention\<close>

datatype param_type = PString | PNumber | PBoolean | PJson | PSecret

definition sigOfDeclared :: "param_type \<Rightarrow> sig_type" where
  "sigOfDeclared t =
     (case t of PString \<Rightarrow> SString | PNumber \<Rightarrow> SNumber | PBoolean \<Rightarrow> SBoolean
      | PJson \<Rightarrow> SAny | PSecret \<Rightarrow> SAny)"

record 'x eval_in =
  ev_eval :: "'x \<Rightarrow> jval ev"
  ev_soft :: "'x \<Rightarrow> jval option ev"
  ev_withItem :: "'x \<Rightarrow> jval \<Rightarrow> jval ev"

datatype 'x fn_call =
    Eager "jval list \<Rightarrow> jval jres"
  | Special "'x list \<Rightarrow> 'x eval_in \<Rightarrow> jval ev"

record 'x fnspec =
  fs_args :: "sig_type list"
  fs_variadic :: bool
  fs_minArgs :: nat
  fs_ret :: sig_type
  fs_lambdaArgs :: "nat list"
  fs_staticSoftArg :: "nat option"
  fs_call :: "'x fn_call"

definition MAX_ARRAY_ELEMENTS :: nat where "MAX_ARRAY_ELEMENTS = 10000"
definition MAX_ARRAY_ELEMENTS_TOTAL :: nat where "MAX_ARRAY_ELEMENTS_TOTAL = 100000"
definition MAX_PATH_DEPTH :: nat where "MAX_PATH_DEPTH = 64"

abbreviation throw_fn :: "jstr \<Rightarrow> fn_reason \<Rightarrow> 'a jres" where
  "throw_fn f r \<equiv> throw (FnReason f r)"

section \<open>Checks of arguments and results\<close>

definition expect :: "jstr \<Rightarrow> jval \<Rightarrow> sig_type \<Rightarrow> jval jres" where
  "expect f v t = (if \<not> matchesSig v t then throw_fn f BadArgument else Inr v)"

definition argSigAt :: "'x fnspec \<Rightarrow> nat \<Rightarrow> sig_type" where
  "argSigAt spec i =
     (let args = fs_args spec;
          j = (if fs_variadic spec then min i (length args - 1) else i)
      in if j < length args then args ! j else SAny)"

fun check_types_from :: "jstr \<Rightarrow> 'x fnspec \<Rightarrow> nat \<Rightarrow> jval list \<Rightarrow> unit jres" where
  "check_types_from f spec i [] = Inr ()"
| "check_types_from f spec i (v # vs) =
     bindR (expect f v (argSigAt spec i)) (\<lambda>_. check_types_from f spec (i + 1) vs)"

definition checkArgTypes :: "jstr \<Rightarrow> 'x fnspec \<Rightarrow> jval list \<Rightarrow> unit jres" where
  "checkArgTypes f spec vs = check_types_from f spec 0 vs"

text \<open>The casts \<open>v as string\<close>, \<open>v as number\<close>, \<open>v as boolean\<close>, \<open>v as unknown[]\<close>, behind a check.\<close>

definition as_str :: "jval \<Rightarrow> jstr" where
  "as_str v = (case v of JStr s \<Rightarrow> s | _ \<Rightarrow> [])"

definition as_num :: "jval \<Rightarrow> jnum" where
  "as_num v = (case v of JNum n \<Rightarrow> n | _ \<Rightarrow> NaN)"

definition as_bool :: "jval \<Rightarrow> bool" where
  "as_bool v = (case v of JBool b \<Rightarrow> b | _ \<Rightarrow> False)"

definition as_arr :: "jval \<Rightarrow> jval list" where
  "as_arr v = (case v of JArr xs \<Rightarrow> xs | _ \<Rightarrow> [])"

definition expectBool :: "jstr \<Rightarrow> jval \<Rightarrow> bool jres" where
  "expectBool f v = bindR (expect f v SBoolean) (\<lambda>v. Inr (as_bool v))"

definition num :: "jstr \<Rightarrow> jval \<Rightarrow> jnum jres" where
  "num f v = bindR (expect f v SNumber) (\<lambda>v. Inr (as_num v))"

definition finite_num :: "jstr \<Rightarrow> jnum \<Rightarrow> jval jres" where
  "finite_num f n = (if \<not> is_finite n then throw_fn f ValueOverflow else Inr (JNum n))"

definition str :: "jstr \<Rightarrow> jval \<Rightarrow> jstr jres" where
  "str f v = bindR (expect f v SString) (\<lambda>v. Inr (as_str v))"

definition arr :: "jstr \<Rightarrow> jval \<Rightarrow> jval list jres" where
  "arr f v = bindR (expect f v SArray) (\<lambda>v. Inr (as_arr v))"

definition cap :: "jstr \<Rightarrow> nat \<Rightarrow> nat jres" where
  "cap f n = (if MAX_ARRAY_ELEMENTS < n then throw_fn f ArrayTooLarge else Inr n)"

definition capped :: "jstr \<Rightarrow> jval list \<Rightarrow> jval list jres" where
  "capped f a = bindR (cap f (length a)) (\<lambda>_. Inr a)"

definition loopArr :: "jstr \<Rightarrow> jval \<Rightarrow> jval list jres" where
  "loopArr f v = bindR (arr f v) (\<lambda>a. capped f a)"

text \<open>The loop of \<open>occurrences\<close> on the text from the current index on.\<close>

function occurrences :: "jstr \<Rightarrow> jstr \<Rightarrow> nat" where
  "occurrences s sep =
     (if sep = [] then 0
      else case index_of s sep of
             None \<Rightarrow> 0
           | Some k \<Rightarrow> 1 + occurrences (drop (k + length sep) s) sep)"
  by pat_completeness auto
termination
proof (relation "measure (\<lambda>(s, sep). length s)", goal_cases)
  case (2 s sep k)
  then show ?case by (cases sep) (auto dest: index_of_Some)
qed simp

declare occurrences.simps [simp del]

definition arity :: "'x fnspec \<Rightarrow> nat \<times> nat option" where
  "arity spec = (fs_minArgs spec, if fs_variadic spec then None else Some (length (fs_args spec)))"

text \<open>\<open>order\<close>: negative, zero or positive.\<close>

definition order :: "jstr \<Rightarrow> jval \<Rightarrow> jval \<Rightarrow> int jres" where
  "order f a b =
     (case (a, b) of
        (JNum x, JNum y) \<Rightarrow>
          if is_finite x \<and> is_finite y
          then Inr (if jlt x y then - 1 else if jlt y x then 1 else 0)
          else throw_fn f NotComparable
      | (JStr x, JStr y) \<Rightarrow> Inr (if x < y then - 1 else if y < x then 1 else 0)
      | _ \<Rightarrow> throw_fn f NotComparable)"

section \<open>Helpers of the collection functions\<close>

definition jlen :: "'a list \<Rightarrow> jval" where
  "jlen xs = JNum (Fin (of_nat (length xs)))"

text \<open>\<open>sized\<close> gives the \<open>length\<close> of a string or an array.\<close>

definition sized :: "jstr \<Rightarrow> jval \<Rightarrow> jval jres" where
  "sized f v =
     (case v of JStr s \<Rightarrow> Inr (jlen s) | JArr xs \<Rightarrow> Inr (jlen xs) | _ \<Rightarrow> throw_fn f NotSized)"

definition at_end :: "jstr \<Rightarrow> jval \<Rightarrow> bool \<Rightarrow> jval jres" where
  "at_end f v isFirst =
     (case v of
        JStr s \<Rightarrow> Inr (if s = [] then JNull else JStr [if isFirst then hd s else last s])
      | _ \<Rightarrow> bindR (arr f v) (\<lambda>a. Inr (if a = [] then JNull else if isFirst then hd a else last a)))"

definition numbers :: "jstr \<Rightarrow> jval \<Rightarrow> jnum list jres" where
  "numbers f v = bindR (arr f v) (\<lambda>a. bindR (capped f a) (\<lambda>a. mapR (num f) a))"

definition count0 :: "jstr \<Rightarrow> jval \<Rightarrow> nat jres" where
  "count0 f v =
     bindR (num f v) (\<lambda>n.
       if \<not> is_integer n \<or> jlt n (Fin 0) then throw_fn f BadCount else Inr (nat (int_of_jnum n)))"

text \<open>An index argument of \<open>slice\<close> that is not negative, cut to the length.\<close>

definition slice_index :: "jnum \<Rightarrow> nat \<Rightarrow> nat" where
  "slice_index n len = (if is_finite n then min len (nat \<lfloor>num_val n\<rfloor>) else len)"

fun hyphenate :: "jstr \<Rightarrow> jstr" where
  "hyphenate [] = []"
| "hyphenate [u] = (if is_lower u \<or> is_digit u then [u] else [45])"
| "hyphenate (u # v # s) =
     (if is_lower u \<or> is_digit u then u # hyphenate (v # s)
      else if is_lower v \<or> is_digit v then 45 # hyphenate (v # s)
      else hyphenate (v # s))"

definition strip_hyphens :: "jstr \<Rightarrow> jstr" where
  "strip_hyphens s = rev (dropWhile (\<lambda>u. u = 45) (rev (dropWhile (\<lambda>u. u = 45) s)))"

definition slug :: "host \<Rightarrow> jval \<Rightarrow> jstr" where
  "slug h v =
     (let s = strip_hyphens (hyphenate (h_lower h (toStr v))) in if s = [] then lit ''x'' else s)"

section \<open>Logical functions and comparisons\<close>

definition eager :: "sig_type list \<Rightarrow> nat \<Rightarrow> sig_type \<Rightarrow> (jval list \<Rightarrow> jval jres) \<Rightarrow> 'x fnspec" where
  "eager args minArgs ret impl =
     \<lparr>fs_args = args, fs_variadic = False, fs_minArgs = minArgs, fs_ret = ret,
      fs_lambdaArgs = [], fs_staticSoftArg = None, fs_call = Eager impl\<rparr>"

definition special :: "sig_type list \<Rightarrow> nat \<Rightarrow> sig_type \<Rightarrow> ('x list \<Rightarrow> 'x eval_in \<Rightarrow> jval ev) \<Rightarrow> 'x fnspec" where
  "special args minArgs ret run =
     \<lparr>fs_args = args, fs_variadic = False, fs_minArgs = minArgs, fs_ret = ret,
      fs_lambdaArgs = [], fs_staticSoftArg = None, fs_call = Special run\<rparr>"

fun run_and :: "'x list \<Rightarrow> 'x eval_in \<Rightarrow> jval ev" where
  "run_and [] ev = retE (JBool True)"
| "run_and (a # as) ev =
     bindE (ev_eval ev a) (\<lambda>v. bindE (liftE (expectBool (lit ''and'') v)) (\<lambda>b.
       if \<not> b then retE (JBool False) else run_and as ev))"

definition fn_and :: "'x fnspec" where
  "fn_and = (special [SBoolean] 2 SBoolean run_and)\<lparr>fs_variadic := True\<rparr>"

fun run_or :: "'x list \<Rightarrow> 'x eval_in \<Rightarrow> jval ev" where
  "run_or [] ev = retE (JBool False)"
| "run_or (a # as) ev =
     bindE (ev_eval ev a) (\<lambda>v. bindE (liftE (expectBool (lit ''or'') v)) (\<lambda>b.
       if b then retE (JBool True) else run_or as ev))"

definition fn_or :: "'x fnspec" where
  "fn_or = (special [SBoolean] 2 SBoolean run_or)\<lparr>fs_variadic := True\<rparr>"

definition fn_if :: "'x fnspec" where
  "fn_if = special [SBoolean, SAny, SAny] 3 SAny
     (\<lambda>args ev. bindE (ev_eval ev (args ! 0)) (\<lambda>v. bindE (liftE (expectBool (lit ''if'') v)) (\<lambda>cond.
        ev_eval ev (args ! (if cond then 1 else 2)))))"

definition fn_not :: "'x fnspec" where
  "fn_not = eager [SBoolean] 1 SBoolean (\<lambda>a. Inr (JBool (\<not> as_bool (a ! 0))))"

definition fn_equals :: "'x fnspec" where
  "fn_equals = eager [SAny, SAny] 2 SBoolean (\<lambda>a. Inr (JBool (deepEquals (a ! 0) (a ! 1))))"

definition fn_greater :: "'x fnspec" where
  "fn_greater = eager [SAny, SAny] 2 SBoolean
     (\<lambda>a. bindR (order (lit ''greater'') (a ! 0) (a ! 1)) (\<lambda>r. Inr (JBool (r > 0))))"

definition fn_greaterOrEquals :: "'x fnspec" where
  "fn_greaterOrEquals = eager [SAny, SAny] 2 SBoolean
     (\<lambda>a. bindR (order (lit ''greaterOrEquals'') (a ! 0) (a ! 1)) (\<lambda>r. Inr (JBool (r \<ge> 0))))"

definition fn_less :: "'x fnspec" where
  "fn_less = eager [SAny, SAny] 2 SBoolean
     (\<lambda>a. bindR (order (lit ''less'') (a ! 0) (a ! 1)) (\<lambda>r. Inr (JBool (r < 0))))"

definition fn_lessOrEquals :: "'x fnspec" where
  "fn_lessOrEquals = eager [SAny, SAny] 2 SBoolean
     (\<lambda>a. bindR (order (lit ''lessOrEquals'') (a ! 0) (a ! 1)) (\<lambda>r. Inr (JBool (r \<le> 0))))"

definition fn_default :: "'x fnspec" where
  "fn_default = (special [SAny, SAny] 2 SAny
     (\<lambda>args ev. bindE (ev_soft ev (args ! 0)) (\<lambda>first.
        case first of
          None \<Rightarrow> ev_eval ev (args ! 1)
        | Some v \<Rightarrow> if isAbsent v then ev_eval ev (args ! 1) else retE v)))
     \<lparr>fs_staticSoftArg := Some 0\<rparr>"

section \<open>Strings\<close>

definition fn_concat :: "'x fnspec" where
  "fn_concat = (eager [SAny] 1 SString (\<lambda>a. Inr (JStr (concat (map toStr a)))))\<lparr>fs_variadic := True\<rparr>"

definition fn_substring :: "'x fnspec" where
  "fn_substring = eager [SString, SNumber, SNumber] 2 SString
     (\<lambda>a. let s = as_str (a ! 0); start = as_num (a ! 1) in
        if jlt start (Fin 0) then throw_fn (lit ''substring'') NegativeStart
        else if length a = 2 then Inr (JStr (drop (slice_index start (length s)) s))
        else let len = as_num (a ! 2) in
             if jlt len (Fin 0) then throw_fn (lit ''substring'') NegativeLength
             else Inr (JStr (js_slice s (slice_index start (length s)) (slice_index (jadd start len) (length s)))))"

definition fn_replace :: "'x fnspec" where
  "fn_replace = eager [SString, SString, SString] 3 SString
     (\<lambda>a. let needle = as_str (a ! 1) in
        if needle = [] then throw_fn (lit ''replace'') EmptyNeedle
        else Inr (JStr (joinS (as_str (a ! 2)) (js_split (as_str (a ! 0)) needle))))"

definition fn_split :: "'x fnspec" where
  "fn_split = eager [SString, SString] 2 SArray
     (\<lambda>a. let s = as_str (a ! 0); sep = as_str (a ! 1) in
        bindR (cap (lit ''split'') (if sep = [] then length s else occurrences s sep + 1)) (\<lambda>_.
          Inr (JArr (map JStr (js_split s sep)))))"

definition fn_trim :: "'x fnspec" where
  "fn_trim = eager [SString] 1 SString (\<lambda>a. Inr (JStr (trim (as_str (a ! 0)))))"

definition fn_toLower :: "host \<Rightarrow> 'x fnspec" where
  "fn_toLower h = eager [SString] 1 SString (\<lambda>a. Inr (JStr (h_lower h (as_str (a ! 0)))))"

definition fn_toUpper :: "host \<Rightarrow> 'x fnspec" where
  "fn_toUpper h = eager [SString] 1 SString (\<lambda>a. Inr (JStr (h_upper h (as_str (a ! 0)))))"

definition fn_startsWith :: "'x fnspec" where
  "fn_startsWith = eager [SString, SString] 2 SBoolean
     (\<lambda>a. Inr (JBool (starts_with (as_str (a ! 0)) (as_str (a ! 1)))))"

definition fn_endsWith :: "'x fnspec" where
  "fn_endsWith = eager [SString, SString] 2 SBoolean
     (\<lambda>a. Inr (JBool (ends_with (as_str (a ! 0)) (as_str (a ! 1)))))"

definition index_num :: "nat option \<Rightarrow> jval" where
  "index_num r = JNum (Fin (case r of None \<Rightarrow> - 1 | Some k \<Rightarrow> of_nat k))"

definition fn_indexOf :: "'x fnspec" where
  "fn_indexOf = eager [SString, SString] 2 SNumber
     (\<lambda>a. Inr (index_num (index_of (as_str (a ! 0)) (as_str (a ! 1)))))"

definition fn_lastIndexOf :: "'x fnspec" where
  "fn_lastIndexOf = eager [SString, SString] 2 SNumber
     (\<lambda>a. Inr (index_num (last_index_of (as_str (a ! 0)) (as_str (a ! 1)))))"

definition fn_slug :: "host \<Rightarrow> 'x fnspec" where
  "fn_slug h = eager [SAny] 1 SString (\<lambda>a. Inr (JStr (slug h (a ! 0))))"

section \<open>Collections\<close>

definition fn_length :: "'x fnspec" where
  "fn_length = eager [SAny] 1 SNumber (\<lambda>a. sized (lit ''length'') (a ! 0))"

definition fn_empty :: "'x fnspec" where
  "fn_empty = eager [SAny] 1 SBoolean
     (\<lambda>a. bindR (sized (lit ''empty'') (a ! 0)) (\<lambda>n. Inr (JBool (as_num n = Fin 0))))"

definition fn_contains :: "'x fnspec" where
  "fn_contains = eager [SAny, SAny] 2 SBoolean
     (\<lambda>a. case a ! 0 of
        JStr c \<Rightarrow> bindR (str (lit ''contains'') (a ! 1)) (\<lambda>p. Inr (JBool (index_of c p \<noteq> None)))
      | c \<Rightarrow> bindR (loopArr (lit ''contains'') c) (\<lambda>xs. Inr (JBool (list_ex (\<lambda>x. deepEquals x (a ! 1)) xs))))"

definition fn_first :: "'x fnspec" where
  "fn_first = eager [SAny] 1 SAny (\<lambda>a. at_end (lit ''first'') (a ! 0) True)"

definition fn_last :: "'x fnspec" where
  "fn_last = eager [SAny] 1 SAny (\<lambda>a. at_end (lit ''last'') (a ! 0) False)"

definition fn_take :: "'x fnspec" where
  "fn_take = eager [SArray, SNumber] 2 SArray
     (\<lambda>a. bindR (arr (lit ''take'') (a ! 0)) (\<lambda>xs. bindR (count0 (lit ''take'') (a ! 1)) (\<lambda>n.
        Inr (JArr (take n xs)))))"

definition fn_skip :: "'x fnspec" where
  "fn_skip = eager [SArray, SNumber] 2 SArray
     (\<lambda>a. bindR (arr (lit ''skip'') (a ! 0)) (\<lambda>xs. bindR (count0 (lit ''skip'') (a ! 1)) (\<lambda>n.
        Inr (JArr (drop n xs)))))"

definition fn_join :: "'x fnspec" where
  "fn_join = eager [SArray, SString] 2 SString
     (\<lambda>a. bindR (loopArr (lit ''join'') (a ! 0)) (\<lambda>xs.
        Inr (JStr (joinS (as_str (a ! 1)) (map toStr xs)))))"

definition fn_intersection :: "'x fnspec" where
  "fn_intersection = (eager [SArray] 2 SArray
     (\<lambda>a. bindR (mapR (loopArr (lit ''intersection'')) a) (\<lambda>xss.
        bindR (capped (lit ''intersection'')
                 (filter (\<lambda>x. list_all (\<lambda>o'. list_ex (\<lambda>y. deepEquals x y) o') (tl xss)) (hd xss)))
          (\<lambda>r. Inr (JArr r)))))\<lparr>fs_variadic := True\<rparr>"

text \<open>The loops of \<open>union\<close>, with the elements kept so far.\<close>

fun union_elems :: "jval list \<Rightarrow> jval list \<Rightarrow> jval list jres" where
  "union_elems out [] = Inr out"
| "union_elems out (el # els) =
     (let out' = (if \<not> list_ex (\<lambda>y. deepEquals el y) out then out @ [el] else out)
      in bindR (cap (lit ''union'') (length out')) (\<lambda>_. union_elems out' els))"

fun union_args :: "jval list \<Rightarrow> jval list \<Rightarrow> jval list jres" where
  "union_args out [] = Inr out"
| "union_args out (x # xs) =
     bindR (loopArr (lit ''union'') x) (\<lambda>els. bindR (union_elems out els) (\<lambda>out'. union_args out' xs))"

definition fn_union :: "'x fnspec" where
  "fn_union = (eager [SArray] 2 SArray (\<lambda>a. bindR (union_args [] a) (\<lambda>r. Inr (JArr r))))
     \<lparr>fs_variadic := True\<rparr>"

definition fn_createArray :: "'x fnspec" where
  "fn_createArray = (eager [SAny] 1 SArray
     (\<lambda>a. bindR (capped (lit ''createArray'') a) (\<lambda>r. Inr (JArr r))))\<lparr>fs_variadic := True\<rparr>"

definition fn_range :: "'x fnspec" where
  "fn_range = eager [SNumber, SNumber] 2 SArray
     (\<lambda>a. let start = as_num (a ! 0) in
        bindR (count0 (lit ''range'') (a ! 1)) (\<lambda>n.
          if MAX_ARRAY_ELEMENTS < n then throw_fn (lit ''range'') ArrayTooLarge
          else Inr (JArr (map (\<lambda>i. JNum (jadd start (Fin (of_nat i)))) [0..<n]))))"

section \<open>Array forms\<close>

definition fn_filter :: "'x fnspec" where
  "fn_filter = (special [SArray, SBoolean] 2 SArray
     (\<lambda>args ev. bindE (ev_eval ev (args ! 0)) (\<lambda>v. bindE (liftE (loopArr (lit ''filter'') v)) (\<lambda>xs.
        bindE (filterE (\<lambda>el. bindE (ev_withItem ev (args ! 1) el) (\<lambda>r.
                 liftE (expectBool (lit ''filter'') r))) xs)
          (\<lambda>ys. retE (JArr ys))))))\<lparr>fs_lambdaArgs := [1]\<rparr>"

definition fn_map :: "'x fnspec" where
  "fn_map = (special [SArray, SAny] 2 SArray
     (\<lambda>args ev. bindE (ev_eval ev (args ! 0)) (\<lambda>v. bindE (liftE (loopArr (lit ''map'') v)) (\<lambda>xs.
        bindE (mapE (\<lambda>el. ev_withItem ev (args ! 1) el) xs) (\<lambda>ys. retE (JArr ys))))))
     \<lparr>fs_lambdaArgs := [1]\<rparr>"

definition fn_count :: "'x fnspec" where
  "fn_count = (special [SArray, SBoolean] 1 SNumber
     (\<lambda>args ev. bindE (ev_eval ev (args ! 0)) (\<lambda>v. bindE (liftE (loopArr (lit ''count'') v)) (\<lambda>xs.
        if length args = 1 then retE (jlen xs)
        else bindE (filterE (\<lambda>el. bindE (ev_withItem ev (args ! 1) el) (\<lambda>r.
                      liftE (expectBool (lit ''count'') r))) xs)
               (\<lambda>ys. retE (jlen ys))))))\<lparr>fs_lambdaArgs := [1]\<rparr>"

definition fn_sum :: "'x fnspec" where
  "fn_sum = eager [SArray] 1 SNumber
     (\<lambda>a. bindR (numbers (lit ''sum'') (a ! 0)) (\<lambda>ns. finite_num (lit ''sum'') (foldl jadd (Fin 0) ns)))"

definition fn_avg :: "'x fnspec" where
  "fn_avg = eager [SArray] 1 SNumber
     (\<lambda>a. bindR (numbers (lit ''avg'') (a ! 0)) (\<lambda>ns.
        if ns = [] then throw_fn (lit ''avg'') AverageOfNothing
        else bindR (finite_num (lit ''avg'') (foldl jadd (Fin 0) ns)) (\<lambda>total.
               finite_num (lit ''avg'') (jdiv (as_num total) (Fin (of_nat (length ns)))))))"

section \<open>Conversions\<close>

definition fn_string :: "'x fnspec" where
  "fn_string = eager [SAny] 1 SString (\<lambda>a. Inr (JStr (toStr (a ! 0))))"

definition fn_int :: "'x fnspec" where
  "fn_int = eager [SAny] 1 SNumber
     (\<lambda>a. case a ! 0 of
        JNum n \<Rightarrow> if is_finite n then Inr (JNum (jtrunc n)) else throw_fn (lit ''int'') CannotConvert
      | JStr s \<Rightarrow> (case parse_integer (trim s) of
                    Some n \<Rightarrow> finite_num (lit ''int'') n
                  | None \<Rightarrow> throw_fn (lit ''int'') CannotConvert)
      | _ \<Rightarrow> throw_fn (lit ''int'') CannotConvert)"

definition fn_float :: "'x fnspec" where
  "fn_float = eager [SAny] 1 SNumber
     (\<lambda>a. case a ! 0 of
        JNum n \<Rightarrow> if is_finite n then Inr (JNum n) else throw_fn (lit ''float'') CannotConvert
      | JStr s \<Rightarrow> (case parse_decimal True (trim s) of
                    Some n \<Rightarrow> finite_num (lit ''float'') n
                  | None \<Rightarrow> throw_fn (lit ''float'') CannotConvert)
      | _ \<Rightarrow> throw_fn (lit ''float'') CannotConvert)"

definition fn_bool :: "'x fnspec" where
  "fn_bool = eager [SAny] 1 SBoolean
     (\<lambda>a. case a ! 0 of
        JBool b \<Rightarrow> Inr (JBool b)
      | JStr s \<Rightarrow> if s = lit ''true'' then Inr (JBool True)
                  else if s = lit ''false'' then Inr (JBool False)
                  else throw_fn (lit ''bool'') CannotConvert
      | JNum n \<Rightarrow> if is_finite n then Inr (JBool (\<not> is_zero n)) else throw_fn (lit ''bool'') CannotConvert
      | _ \<Rightarrow> throw_fn (lit ''bool'') CannotConvert)"

definition fn_array :: "'x fnspec" where
  "fn_array = eager [SAny] 1 SArray (\<lambda>a. Inr (case a ! 0 of JArr xs \<Rightarrow> JArr xs | v \<Rightarrow> JArr [v]))"

definition parse_json :: "jstr \<Rightarrow> jval jres" where
  "parse_json s = (case json_parse s of Some v \<Rightarrow> Inr v | None \<Rightarrow> throw_fn (lit ''json'') InvalidJson)"

definition fn_json :: "'x fnspec" where
  "fn_json = eager [SAny] 1 SAny (\<lambda>a. case a ! 0 of JStr s \<Rightarrow> parse_json s | v \<Rightarrow> Inr v)"

definition fn_coalesce :: "'x fnspec" where
  "fn_coalesce = (eager [SAny] 1 SAny
     (\<lambda>a. Inr (case find (\<lambda>v. v \<noteq> JNull \<and> v \<noteq> JUndef) a of Some v \<Rightarrow> v | None \<Rightarrow> JNull)))
     \<lparr>fs_variadic := True\<rparr>"

definition fn_base64 :: "'x fnspec" where
  "fn_base64 = eager [SString] 1 SString (\<lambda>a. Inr (JStr (base64Encode (as_str (a ! 0)))))"

definition fn_base64ToString :: "'x fnspec" where
  "fn_base64ToString = eager [SString] 1 SString
     (\<lambda>a. bindR (base64Decode (as_str (a ! 0))) (\<lambda>s. Inr (JStr s)))"

definition fn_encodeUriComponent :: "'x fnspec" where
  "fn_encodeUriComponent = eager [SString] 1 SString
     (\<lambda>a. bindR (uri_encode (as_str (a ! 0))) (\<lambda>s. Inr (JStr s)))"

definition fn_decodeUriComponent :: "'x fnspec" where
  "fn_decodeUriComponent = eager [SString] 1 SString
     (\<lambda>a. case uri_decode (as_str (a ! 0)) of
        Inl _ \<Rightarrow> throw_fn (lit ''decodeUriComponent'') BadPercentEncoding
      | Inr s \<Rightarrow> Inr (JStr s))"

section \<open>Arithmetic\<close>

definition fn_add :: "'x fnspec" where
  "fn_add = eager [SNumber, SNumber] 2 SNumber
     (\<lambda>a. finite_num (lit ''add'') (jadd (as_num (a ! 0)) (as_num (a ! 1))))"

definition fn_sub :: "'x fnspec" where
  "fn_sub = eager [SNumber, SNumber] 2 SNumber
     (\<lambda>a. finite_num (lit ''sub'') (jsub (as_num (a ! 0)) (as_num (a ! 1))))"

definition fn_mul :: "'x fnspec" where
  "fn_mul = eager [SNumber, SNumber] 2 SNumber
     (\<lambda>a. finite_num (lit ''mul'') (jmul (as_num (a ! 0)) (as_num (a ! 1))))"

definition fn_div :: "'x fnspec" where
  "fn_div = eager [SNumber, SNumber] 2 SNumber
     (\<lambda>a. if is_zero (as_num (a ! 1)) then throw_fn (lit ''div'') DivisionByZero
          else finite_num (lit ''div'') (jdiv (as_num (a ! 0)) (as_num (a ! 1))))"

definition fn_mod :: "'x fnspec" where
  "fn_mod = eager [SNumber, SNumber] 2 SNumber
     (\<lambda>a. if is_zero (as_num (a ! 1)) then throw_fn (lit ''mod'') DivisionByZero
          else Inr (JNum (jmod (as_num (a ! 0)) (as_num (a ! 1)))))"

definition fn_min :: "'x fnspec" where
  "fn_min = (eager [SNumber] 1 SNumber
     (\<lambda>a. Inr (JNum (foldl jmin (Infty False) (map as_num a)))))\<lparr>fs_variadic := True\<rparr>"

definition fn_max :: "'x fnspec" where
  "fn_max = (eager [SNumber] 1 SNumber
     (\<lambda>a. Inr (JNum (foldl jmax (Infty True) (map as_num a)))))\<lparr>fs_variadic := True\<rparr>"

section \<open>Dates\<close>

definition fn_formatDateTime :: "'x fnspec" where
  "fn_formatDateTime = eager [SString, SString] 2 SString (formatDateTime (lit ''formatDateTime''))"

definition fn_addDays :: "'x fnspec" where
  "fn_addDays = eager [SString, SNumber] 2 SString (\<lambda>a. addFixed (lit ''addDays'') a 86400000)"

definition fn_addHours :: "'x fnspec" where
  "fn_addHours = eager [SString, SNumber] 2 SString (\<lambda>a. addFixed (lit ''addHours'') a 3600000)"

definition fn_addMinutes :: "'x fnspec" where
  "fn_addMinutes = eager [SString, SNumber] 2 SString (\<lambda>a. addFixed (lit ''addMinutes'') a 60000)"

definition fn_addSeconds :: "'x fnspec" where
  "fn_addSeconds = eager [SString, SNumber] 2 SString (\<lambda>a. addFixed (lit ''addSeconds'') a 1000)"

definition fn_addToTime :: "'x fnspec" where
  "fn_addToTime = eager [SString, SNumber, SString] 3 SString (\<lambda>a. shiftBy (lit ''addToTime'') a 1)"

definition fn_subtractFromTime :: "'x fnspec" where
  "fn_subtractFromTime = eager [SString, SNumber, SString] 3 SString
     (\<lambda>a. shiftBy (lit ''subtractFromTime'') a (- 1))"

definition fn_startOfDay :: "'x fnspec" where
  "fn_startOfDay = eager [SString] 1 SString (\<lambda>a. startOf (lit ''startOfDay'') a UDay)"

definition fn_startOfHour :: "'x fnspec" where
  "fn_startOfHour = eager [SString] 1 SString (\<lambda>a. startOf (lit ''startOfHour'') a UHour)"

definition fn_startOfMonth :: "'x fnspec" where
  "fn_startOfMonth = eager [SString] 1 SString (\<lambda>a. startOf (lit ''startOfMonth'') a UMonth)"

definition fn_dayOfWeek :: "'x fnspec" where
  "fn_dayOfWeek = eager [SString] 1 SNumber
     (\<lambda>a. bindR (parseTs (lit ''dayOfWeek'') (a ! 0)) (\<lambda>t. Inr (JNum (Fin (of_int (getUTCDay t))))))"

definition fn_dayOfMonth :: "'x fnspec" where
  "fn_dayOfMonth = eager [SString] 1 SNumber
     (\<lambda>a. bindR (parseTs (lit ''dayOfMonth'') (a ! 0)) (\<lambda>t. Inr (JNum (Fin (of_int (getUTCDate t))))))"

section \<open>The catalog\<close>

definition FUNCTIONS :: "host \<Rightarrow> (jstr \<times> 'x fnspec) list" where
  "FUNCTIONS h =
     [(lit ''and'', fn_and), (lit ''or'', fn_or), (lit ''if'', fn_if), (lit ''not'', fn_not),
      (lit ''equals'', fn_equals), (lit ''greater'', fn_greater),
      (lit ''greaterOrEquals'', fn_greaterOrEquals), (lit ''less'', fn_less),
      (lit ''lessOrEquals'', fn_lessOrEquals), (lit ''default'', fn_default),
      (lit ''concat'', fn_concat), (lit ''substring'', fn_substring), (lit ''replace'', fn_replace),
      (lit ''split'', fn_split), (lit ''trim'', fn_trim), (lit ''toLower'', fn_toLower h),
      (lit ''toUpper'', fn_toUpper h), (lit ''startsWith'', fn_startsWith),
      (lit ''endsWith'', fn_endsWith), (lit ''indexOf'', fn_indexOf),
      (lit ''lastIndexOf'', fn_lastIndexOf), (lit ''slug'', fn_slug h),
      (lit ''length'', fn_length), (lit ''empty'', fn_empty), (lit ''contains'', fn_contains),
      (lit ''first'', fn_first), (lit ''last'', fn_last), (lit ''take'', fn_take),
      (lit ''skip'', fn_skip), (lit ''join'', fn_join), (lit ''intersection'', fn_intersection),
      (lit ''union'', fn_union), (lit ''createArray'', fn_createArray), (lit ''range'', fn_range),
      (lit ''filter'', fn_filter), (lit ''map'', fn_map), (lit ''count'', fn_count),
      (lit ''sum'', fn_sum), (lit ''avg'', fn_avg), (lit ''string'', fn_string),
      (lit ''int'', fn_int), (lit ''float'', fn_float), (lit ''bool'', fn_bool),
      (lit ''array'', fn_array), (lit ''json'', fn_json), (lit ''coalesce'', fn_coalesce),
      (lit ''base64'', fn_base64), (lit ''base64ToString'', fn_base64ToString),
      (lit ''encodeUriComponent'', fn_encodeUriComponent),
      (lit ''decodeUriComponent'', fn_decodeUriComponent), (lit ''add'', fn_add),
      (lit ''sub'', fn_sub), (lit ''mul'', fn_mul), (lit ''div'', fn_div), (lit ''mod'', fn_mod),
      (lit ''min'', fn_min), (lit ''max'', fn_max), (lit ''formatDateTime'', fn_formatDateTime),
      (lit ''addDays'', fn_addDays), (lit ''addHours'', fn_addHours),
      (lit ''addMinutes'', fn_addMinutes), (lit ''addSeconds'', fn_addSeconds),
      (lit ''addToTime'', fn_addToTime), (lit ''subtractFromTime'', fn_subtractFromTime),
      (lit ''startOfDay'', fn_startOfDay), (lit ''startOfHour'', fn_startOfHour),
      (lit ''startOfMonth'', fn_startOfMonth), (lit ''dayOfWeek'', fn_dayOfWeek),
      (lit ''dayOfMonth'', fn_dayOfMonth)]"

text \<open>
  What \<open>FUNCTIONS[name]\<close> can be: an entry, nothing, or a member the object inherits from
  \<open>Object.prototype\<close>, which has neither \<open>args\<close> nor \<open>minArgs\<close>.
\<close>

datatype 'x fn_lookup = Entry "'x fnspec" | Inherited | Absent

definition OBJECT_PROTOTYPE :: "jstr list" where
  "OBJECT_PROTOTYPE =
     [lit ''constructor'', lit ''__defineGetter__'', lit ''__defineSetter__'', lit ''hasOwnProperty'',
      lit ''__lookupGetter__'', lit ''__lookupSetter__'', lit ''isPrototypeOf'',
      lit ''propertyIsEnumerable'', lit ''toString'', lit ''valueOf'', lit ''__proto__'',
      lit ''toLocaleString'']"

definition fn_lookup :: "host \<Rightarrow> jstr \<Rightarrow> 'x fn_lookup" where
  "fn_lookup h name =
     (case map_of (FUNCTIONS h) name of
        Some spec \<Rightarrow> Entry spec
      | None \<Rightarrow> if name \<in> set OBJECT_PROTOTYPE then Inherited else Absent)"

definition listFunctions :: "host \<Rightarrow> jstr list" where
  "listFunctions h = sort (map fst (FUNCTIONS h :: (jstr \<times> unit fnspec) list))"

definition sig_name :: "sig_type \<Rightarrow> jstr" where
  "sig_name t =
     (case t of SString \<Rightarrow> lit ''string'' | SNumber \<Rightarrow> lit ''number'' | SBoolean \<Rightarrow> lit ''boolean''
      | SArray \<Rightarrow> lit ''array'' | SAny \<Rightarrow> lit ''any'')"

text \<open>\<open>formatSignature\<close> of an entry; a name outside the catalog throws a plain error.\<close>

definition sig_arg :: "'x fnspec \<Rightarrow> jstr list option \<Rightarrow> nat \<Rightarrow> bool \<Rightarrow> jstr" where
  "sig_arg spec labels i opt =
     (let t = sig_name (fs_args spec ! i); mark = (if opt then lit ''?'' else [])
      in case labels of
           None \<Rightarrow> t @ mark
         | Some ls \<Rightarrow> (if i < length ls then ls ! i else lit ''undefined'') @ mark @ lit '': '' @ t)"

definition sig_parts :: "'x fnspec \<Rightarrow> jstr list option \<Rightarrow> jstr list" where
  "sig_parts spec labels =
     (let final = length (fs_args spec) - 1;
          fixed = (if fs_variadic spec then final else length (fs_args spec))
      in map (\<lambda>i. sig_arg spec labels i (fs_minArgs spec \<le> i)) [0..<fixed]
         @ (if fs_variadic spec
            then map (\<lambda>i. sig_arg spec labels final False) [fixed..<fs_minArgs spec]
                 @ [lit ''...'' @ sig_arg spec labels final False]
            else []))"

definition formatSignature :: "host \<Rightarrow> jstr \<Rightarrow> jstr list option \<Rightarrow> jstr jres" where
  "formatSignature h name labels =
     (case fn_lookup h name of
        Entry spec \<Rightarrow>
          Inr (name @ lit ''('' @ joinS (lit '', '') (sig_parts (spec :: unit fnspec) labels) @ lit '') ''
               @ [8594] @ lit '' '' @ sig_name (fs_ret spec))
      | _ \<Rightarrow> Inl HostE)"

definition fnSignature :: "host \<Rightarrow> jstr \<Rightarrow> jstr jres" where
  "fnSignature h name = formatSignature h name None"

section \<open>The size checks\<close>

text \<open>\<open>split\<close> counts its result before it makes it: the count is the result's length.\<close>

lemma occurrences_split: "sep \<noteq> [] \<Longrightarrow> length (js_split s sep) = occurrences s sep + 1"
  unfolding js_split_def
proof (induction s sep rule: occurrences.induct)
  case (1 s sep)
  then show ?case
    by (subst split_sep.simps, subst occurrences.simps) (auto split: option.split)
qed

lemma capped_Inr: "capped f a = Inr b \<longleftrightarrow> b = a \<and> length a \<le> MAX_ARRAY_ELEMENTS"
  by (auto simp: capped_def cap_def)

lemma arr_Inr: "arr f v = Inr xs \<longleftrightarrow> v = JArr xs"
  by (cases v) (auto simp: arr_def expect_def as_arr_def)

lemma loopArr_Inr: "loopArr f v = Inr xs \<longleftrightarrow> v = JArr xs \<and> length xs \<le> MAX_ARRAY_ELEMENTS"
  by (auto simp: loopArr_def bindR_Inr_iff arr_Inr capped_Inr)

lemma num_Inr: "num f v = Inr n \<longleftrightarrow> v = JNum n \<and> is_finite n"
  by (cases v) (auto simp: num_def expect_def as_num_def)

lemma expectBool_Inr: "expectBool f v = Inr b \<longleftrightarrow> v = JBool b"
  by (cases v) (auto simp: expectBool_def expect_def as_bool_def)

section \<open>Slugs\<close>

definition slug_char :: "nat \<Rightarrow> bool" where
  "slug_char u \<longleftrightarrow> is_lower u \<or> is_digit u \<or> u = 45"

fun no_double :: "jstr \<Rightarrow> bool" where
  "no_double (u # v # s) = (\<not> (u = 45 \<and> v = 45) \<and> no_double (v # s))"
| "no_double s = True"

lemma hyphenate_chars: "list_all slug_char (hyphenate s)"
  by (induction s rule: hyphenate.induct) (auto simp: slug_char_def)

lemma hyphenate_hd:
  "s \<noteq> [] \<Longrightarrow> hyphenate s \<noteq> [] \<and> (is_lower (hd s) \<or> is_digit (hd s) \<longrightarrow> hd (hyphenate s) = hd s)"
  by (induction s rule: hyphenate.induct) auto

lemma no_double_Cons: "no_double s \<Longrightarrow> u \<noteq> 45 \<or> s = [] \<or> hd s \<noteq> 45 \<Longrightarrow> no_double (u # s)"
  by (cases s) auto

lemma hyphenate_no_double: "no_double (hyphenate s)"
proof (induction s rule: hyphenate.induct)
  case (3 u v s)
  have "is_lower v \<or> is_digit v \<Longrightarrow> hd (hyphenate (v # s)) \<noteq> 45"
    using hyphenate_hd [of "v # s"] by (auto simp: is_lower_def is_digit_def)
  moreover have "is_lower u \<or> is_digit u \<Longrightarrow> u \<noteq> 45" by (auto simp: is_lower_def is_digit_def)
  ultimately show ?case using 3 by (auto intro!: no_double_Cons)
qed auto

lemma no_double_suffix: "no_double (p @ s) \<Longrightarrow> no_double s"
proof (induction p)
  case (Cons u p)
  then show ?case by (cases "p @ s") auto
qed simp

lemma no_double_prefix: "no_double (p @ s) \<Longrightarrow> no_double p"
proof (induction p)
  case (Cons u p)
  then show ?case by (cases p) auto
qed simp

lemma strip_hyphens_sub: "\<exists>p q. s = p @ strip_hyphens s @ q"
proof -
  let ?t = "dropWhile (\<lambda>u. u = 45) s"
  obtain q where "rev ?t = q @ dropWhile (\<lambda>u. u = 45) (rev ?t)" by (metis takeWhile_dropWhile_id)
  then have "?t = strip_hyphens s @ rev q" by (metis rev_append rev_rev_ident strip_hyphens_def)
  then show ?thesis by (metis takeWhile_dropWhile_id append.assoc)
qed

lemma strip_hyphens_ends: "strip_hyphens s \<noteq> [] \<Longrightarrow> hd (strip_hyphens s) \<noteq> 45 \<and> last (strip_hyphens s) \<noteq> 45"
proof -
  assume ne: "strip_hyphens s \<noteq> []"
  define t where "t = dropWhile (\<lambda>u. u = 45) s"
  define r where "r = dropWhile (\<lambda>u. u = 45) (rev t)"
  have sr: "strip_hyphens s = rev r" by (simp add: strip_hyphens_def t_def r_def)
  with ne have "r \<noteq> []" by simp
  then have "hd r \<noteq> 45" using hd_dropWhile [of "\<lambda>u. u = 45" "rev t"] by (simp add: r_def)
  moreover have "hd (rev r) = hd t"
  proof -
    obtain q where "rev t = q @ r" unfolding r_def by (metis takeWhile_dropWhile_id)
    then have "t = rev r @ rev q" by (metis rev_append rev_rev_ident)
    with \<open>r \<noteq> []\<close> show ?thesis by (simp add: hd_append)
  qed
  moreover have "hd t \<noteq> 45"
  proof -
    have "t \<noteq> []" using \<open>r \<noteq> []\<close> by (auto simp: r_def)
    then show ?thesis using hd_dropWhile [of "\<lambda>u. u = 45" s] by (simp add: t_def)
  qed
  ultimately show ?thesis using sr \<open>r \<noteq> []\<close> by (simp add: last_rev)
qed

text \<open>A non-empty text of lower-case letters, digits and single inner hyphens.\<close>

definition is_slug :: "jstr \<Rightarrow> bool" where
  "is_slug s \<longleftrightarrow> s \<noteq> [] \<and> list_all slug_char s \<and> hd s \<noteq> 45 \<and> last s \<noteq> 45 \<and> no_double s"

lemma slug_is_slug: "is_slug (slug h v)"
proof -
  define t where "t = hyphenate (h_lower h (toStr v))"
  show ?thesis
  proof (cases "strip_hyphens t = []")
    case True
    then have "slug h v = [120]" by (simp add: slug_def t_def)
    then show ?thesis by (simp add: is_slug_def slug_char_def is_lower_def)
  next
    case False
    then have s: "slug h v = strip_hyphens t" by (simp add: slug_def t_def Let_def)
    obtain p q where pq: "t = p @ strip_hyphens t @ q" using strip_hyphens_sub by blast
    have "list_all slug_char (p @ strip_hyphens t @ q)" using hyphenate_chars pq t_def by metis
    moreover have "no_double (strip_hyphens t @ q)"
      using hyphenate_no_double [of "h_lower h (toStr v)"] pq no_double_suffix t_def by metis
    ultimately show ?thesis
      using strip_hyphens_ends [OF False] False no_double_prefix by (auto simp: is_slug_def s)
  qed
qed

section \<open>Sets of values\<close>

lemma union_elems_bound:
  "union_elems out els = Inr r \<Longrightarrow> length out \<le> MAX_ARRAY_ELEMENTS \<Longrightarrow> length r \<le> MAX_ARRAY_ELEMENTS"
  by (induction out els rule: union_elems.induct)
    (auto simp: Let_def bindR_Inr_iff cap_def split: if_splits)

lemma union_args_bound:
  "union_args out a = Inr r \<Longrightarrow> length out \<le> MAX_ARRAY_ELEMENTS \<Longrightarrow> length r \<le> MAX_ARRAY_ELEMENTS"
  by (induction out a rule: union_args.induct) (auto simp: bindR_Inr_iff dest: union_elems_bound)

text \<open>No element of the result equals a later one.\<close>

fun no_repeats :: "jval list \<Rightarrow> bool" where
  "no_repeats [] = True"
| "no_repeats (x # xs) = (list_all (\<lambda>y. \<not> deepEquals y x) xs \<and> no_repeats xs)"

lemma no_repeats_snoc:
  "no_repeats xs \<Longrightarrow> \<not> list_ex (\<lambda>y. deepEquals el y) xs \<Longrightarrow> no_repeats (xs @ [el])"
  by (induction xs) auto

lemma union_elems_facts:
  "union_elems out els = Inr r \<Longrightarrow> no_repeats out \<Longrightarrow> list_all wf_val els \<Longrightarrow>
     no_repeats r \<and> set out \<subseteq> set r \<and> set r \<subseteq> set out \<union> set els \<and> (\<forall>x \<in> set els. list_ex (\<lambda>y. deepEquals x y) r)"
proof (induction out els arbitrary: r rule: union_elems.induct)
  case (2 out el els)
  let ?out = "if \<not> list_ex (\<lambda>y. deepEquals el y) out then out @ [el] else out"
  from 2(2) have rest: "union_elems ?out els = Inr r" by (auto simp: Let_def bindR_Inr_iff)
  have nr: "no_repeats ?out" using 2(3) no_repeats_snoc [of out el] by simp
  have c: "\<exists>x. cap (lit ''union'') (length ?out) = Inr x"
    using 2(2) by (auto simp: Let_def bindR_Inr_iff)
  then obtain x where x: "cap (lit ''union'') (length ?out) = Inr x" by blast
  have ih: "no_repeats r \<and> set ?out \<subseteq> set r \<and> set r \<subseteq> set ?out \<union> set els \<and>
      (\<forall>x \<in> set els. list_ex (\<lambda>y. deepEquals x y) r)"
    using 2(1) [OF refl x rest nr] 2(4) by simp
  have "list_ex (\<lambda>y. deepEquals el y) ?out"
    using deepEquals_refl [of el] 2(4) by (auto simp: list_ex_iff)
  then have "list_ex (\<lambda>y. deepEquals el y) r" using ih by (auto simp: list_ex_iff)
  then show ?case using ih by (auto split: if_splits)
qed simp

section \<open>Declared result types\<close>

definition arity_ok :: "'x fnspec \<Rightarrow> nat \<Rightarrow> bool" where
  "arity_ok spec got \<longleftrightarrow>
     fst (arity spec) \<le> got \<and> (case snd (arity spec) of None \<Rightarrow> True | Some m \<Rightarrow> got \<le> m)"

text \<open>Checked arguments of an eager function, and the type its result must have.\<close>

definition ret_ok :: "jstr \<Rightarrow> 'x fnspec \<Rightarrow> bool" where
  "ret_ok f spec \<longleftrightarrow>
     (case fs_call spec of
        Special run \<Rightarrow> True
      | Eager impl \<Rightarrow>
          \<forall>vs v. arity_ok spec (length vs) \<longrightarrow> checkArgTypes f spec vs = Inr () \<longrightarrow> impl vs = Inr v
                 \<longrightarrow> matchesSig v (fs_ret spec))"

lemma eager_simps [simp]:
  "fs_call (eager args k ret impl) = Eager impl" "fs_ret (eager args k ret impl) = ret"
  "fs_args (eager args k ret impl) = args" "fs_variadic (eager args k ret impl) = False"
  "fs_minArgs (eager args k ret impl) = k" "fs_lambdaArgs (eager args k ret impl) = []"
  by (simp_all add: eager_def)

lemma special_simps [simp]:
  "fs_call (special args k ret run) = Special run" "fs_ret (special args k ret run) = ret"
  "fs_args (special args k ret run) = args" "fs_variadic (special args k ret run) = False"
  "fs_minArgs (special args k ret run) = k"
  by (simp_all add: special_def)

lemma check_types_nth:
  "check_types_from f spec i vs = Inr () \<Longrightarrow> j < length vs \<Longrightarrow> matchesSig (vs ! j) (argSigAt spec (i + j))"
proof (induction f spec i vs arbitrary: j rule: check_types_from.induct)
  case (2 f spec i v vs)
  then show ?case
    by (cases j) (auto simp: bindR_Inr_iff expect_def split: if_splits)
qed simp

lemma checkArgTypes_nth:
  "checkArgTypes f spec vs = Inr () \<Longrightarrow> j < length vs \<Longrightarrow> matchesSig (vs ! j) (argSigAt spec j)"
  using check_types_nth [of f spec 0 vs j] by (simp add: checkArgTypes_def)

lemma ret_okI:
  assumes "fs_call spec = Eager impl"
    and "\<And>vs v. fs_minArgs spec \<le> length vs \<Longrightarrow>
           (\<And>j. j < length vs \<Longrightarrow> matchesSig (vs ! j) (argSigAt spec j)) \<Longrightarrow> impl vs = Inr v \<Longrightarrow>
           matchesSig v (fs_ret spec)"
  shows "ret_ok f spec"
  using assms checkArgTypes_nth [of f spec] by (auto simp: ret_ok_def arity_ok_def arity_def)

text \<open>When the type of the result follows from the implementation alone.\<close>

lemma ret_ok_impl:
  assumes "\<And>vs v. impl vs = Inr v \<Longrightarrow> matchesSig v ret"
  shows "ret_ok f (eager args k ret impl)" "ret_ok f ((eager args k ret impl)\<lparr>fs_variadic := True\<rparr>)"
  using assms by (auto simp: ret_ok_def)

lemma ret_ok_special: "fs_call spec = Special run \<Longrightarrow> ret_ok f spec"
  by (simp add: ret_ok_def)

lemma finite_num_Inr: "finite_num f n = Inr v \<longleftrightarrow> is_finite n \<and> v = JNum n"
  by (auto simp: finite_num_def)

lemma isoOf_string: "isoOf f ms = Inr v \<Longrightarrow> matchesSig v SString"
  by (auto simp: isoOf_Inr)

lemma fold_jmin_finite:
  "list_all is_finite ns \<Longrightarrow> is_finite n \<Longrightarrow> is_finite (foldl jmin n ns)"
  by (induction ns arbitrary: n) (auto simp: jmin_finite)

lemma fold_jmax_finite:
  "list_all is_finite ns \<Longrightarrow> is_finite n \<Longrightarrow> is_finite (foldl jmax n ns)"
  by (induction ns arbitrary: n) (auto simp: jmax_finite)

lemma jmin_top: "is_finite n \<Longrightarrow> is_finite (jmin (Infty False) n)"
  by (cases n) (auto simp: jmin_def)

lemma jmax_bottom: "is_finite n \<Longrightarrow> is_finite (jmax (Infty True) n)"
  by (cases n) (auto simp: jmax_def)

lemma argSig_variadic_number:
  "argSigAt ((eager [SNumber] k ret impl)\<lparr>fs_variadic := True\<rparr>) j = SNumber"
  by (simp add: argSigAt_def eager_def)

lemma ret_ok_min: "ret_ok f fn_min"
proof (rule ret_okI)
  show "fs_call fn_min = Eager (\<lambda>a. Inr (JNum (foldl jmin (Infty False) (map as_num a))))"
    by (simp add: fn_min_def)
next
  fix vs v
  assume a: "fs_minArgs fn_min \<le> length vs"
    and t: "\<And>j. j < length vs \<Longrightarrow> matchesSig (vs ! j) (argSigAt fn_min j)"
    and v: "Inr (JNum (foldl jmin (Infty False) (map as_num vs))) = (Inr v :: jval jres)"
  have all: "list_all is_finite (map as_num vs)"
    using t by (fastforce simp: fn_min_def argSig_variadic_number list_all_iff in_set_conv_nth as_num_def
        split: jval.splits)
  obtain w ws where "vs = w # ws" using a by (cases vs) (auto simp: fn_min_def)
  then show "matchesSig v (fs_ret fn_min)"
    using v all fold_jmin_finite jmin_top by (auto simp: fn_min_def)
qed

lemma ret_ok_max: "ret_ok f fn_max"
proof (rule ret_okI)
  show "fs_call fn_max = Eager (\<lambda>a. Inr (JNum (foldl jmax (Infty True) (map as_num a))))"
    by (simp add: fn_max_def)
next
  fix vs v
  assume a: "fs_minArgs fn_max \<le> length vs"
    and t: "\<And>j. j < length vs \<Longrightarrow> matchesSig (vs ! j) (argSigAt fn_max j)"
    and v: "Inr (JNum (foldl jmax (Infty True) (map as_num vs))) = (Inr v :: jval jres)"
  have all: "list_all is_finite (map as_num vs)"
    using t by (fastforce simp: fn_max_def argSig_variadic_number list_all_iff in_set_conv_nth as_num_def
        split: jval.splits)
  obtain w ws where "vs = w # ws" using a by (cases vs) (auto simp: fn_max_def)
  then show "matchesSig v (fs_ret fn_max)"
    using v all fold_jmax_finite jmax_bottom by (auto simp: fn_max_def)
qed

lemma ret_ok_mod: "ret_ok f fn_mod"
proof (rule ret_okI)
  show "fs_call fn_mod = Eager (\<lambda>a. if is_zero (as_num (a ! 1)) then throw_fn (lit ''mod'') DivisionByZero
          else Inr (JNum (jmod (as_num (a ! 0)) (as_num (a ! 1)))))"
    by (simp add: fn_mod_def)
next
  fix vs v
  assume a: "fs_minArgs fn_mod \<le> length vs"
    and t: "\<And>j. j < length vs \<Longrightarrow> matchesSig (vs ! j) (argSigAt fn_mod j)"
    and v: "(if is_zero (as_num (vs ! 1)) then throw_fn (lit ''mod'') DivisionByZero
          else Inr (JNum (jmod (as_num (vs ! 0)) (as_num (vs ! 1))))) = Inr v"
  have n: "0 < length vs" "1 < length vs" using a by (auto simp: fn_mod_def)
  have "is_finite (as_num (vs ! 0))" "is_finite (as_num (vs ! 1))"
    using t [of 0] t [of 1] n
    by (auto simp: fn_mod_def argSigAt_def as_num_def split: jval.splits)
  then show "matchesSig v (fs_ret fn_mod)"
    using v jmod_finite by (auto simp: fn_mod_def split: if_splits)
qed

lemma ret_ok_dates:
  "ret_ok f fn_formatDateTime" "ret_ok f fn_addDays" "ret_ok f fn_addHours" "ret_ok f fn_addMinutes"
  "ret_ok f fn_addSeconds" "ret_ok f fn_addToTime" "ret_ok f fn_subtractFromTime"
  "ret_ok f fn_startOfDay" "ret_ok f fn_startOfHour" "ret_ok f fn_startOfMonth"
  "ret_ok f fn_dayOfWeek" "ret_ok f fn_dayOfMonth"
  unfolding fn_formatDateTime_def fn_addDays_def fn_addHours_def fn_addMinutes_def fn_addSeconds_def
    fn_addToTime_def fn_subtractFromTime_def fn_startOfDay_def fn_startOfHour_def fn_startOfMonth_def
    fn_dayOfWeek_def fn_dayOfMonth_def
  by (rule ret_ok_impl; auto simp: formatDateTime_def addFixed_def shiftBy_def startOf_def Let_def
      bindR_Inr_iff throw_date_def dest!: isoOf_string split: if_splits option.splits)+

lemma ret_ok_logic:
  "ret_ok f fn_and" "ret_ok f fn_or" "ret_ok f fn_if" "ret_ok f fn_default" "ret_ok f fn_filter"
  "ret_ok f fn_map" "ret_ok f fn_count"
  unfolding fn_and_def fn_or_def fn_if_def fn_default_def fn_filter_def fn_map_def fn_count_def
  by (rule ret_ok_special, simp)+

lemma ret_ok_compare:
  "ret_ok f fn_not" "ret_ok f fn_equals" "ret_ok f fn_greater" "ret_ok f fn_greaterOrEquals"
  "ret_ok f fn_less" "ret_ok f fn_lessOrEquals"
  unfolding fn_not_def fn_equals_def fn_greater_def fn_greaterOrEquals_def fn_less_def fn_lessOrEquals_def
  by (rule ret_ok_impl; auto simp: bindR_Inr_iff)+

lemma ret_ok_strings:
  "ret_ok f fn_concat" "ret_ok f fn_substring" "ret_ok f fn_replace" "ret_ok f fn_split"
  "ret_ok f fn_trim" "ret_ok f (fn_toLower h)" "ret_ok f (fn_toUpper h)" "ret_ok f fn_startsWith"
  "ret_ok f fn_endsWith" "ret_ok f fn_indexOf" "ret_ok f fn_lastIndexOf" "ret_ok f (fn_slug h)"
  unfolding fn_concat_def fn_substring_def fn_replace_def fn_split_def fn_trim_def fn_toLower_def
    fn_toUpper_def fn_startsWith_def fn_endsWith_def fn_indexOf_def fn_lastIndexOf_def fn_slug_def
  by (rule ret_ok_impl; auto simp: bindR_Inr_iff Let_def index_num_def split: if_splits)+

lemma ret_ok_collections:
  "ret_ok f fn_length" "ret_ok f fn_empty" "ret_ok f fn_contains" "ret_ok f fn_first" "ret_ok f fn_last"
  "ret_ok f fn_take" "ret_ok f fn_skip" "ret_ok f fn_join" "ret_ok f fn_intersection" "ret_ok f fn_union"
  "ret_ok f fn_createArray" "ret_ok f fn_range" "ret_ok f fn_sum" "ret_ok f fn_avg"
  unfolding fn_length_def fn_empty_def fn_contains_def fn_first_def fn_last_def fn_take_def fn_skip_def
    fn_join_def fn_intersection_def fn_union_def fn_createArray_def fn_range_def fn_sum_def fn_avg_def
  by (rule ret_ok_impl; auto simp: bindR_Inr_iff Let_def sized_def jlen_def finite_num_Inr
      split: if_splits jval.splits)+

lemma ret_ok_conversions:
  "ret_ok f fn_string" "ret_ok f fn_int" "ret_ok f fn_float" "ret_ok f fn_bool" "ret_ok f fn_array"
  "ret_ok f fn_json" "ret_ok f fn_coalesce" "ret_ok f fn_base64" "ret_ok f fn_base64ToString"
  "ret_ok f fn_encodeUriComponent" "ret_ok f fn_decodeUriComponent"
  unfolding fn_string_def fn_int_def fn_float_def fn_bool_def fn_array_def fn_json_def fn_coalesce_def
    fn_base64_def fn_base64ToString_def fn_encodeUriComponent_def fn_decodeUriComponent_def
  by (rule ret_ok_impl; auto simp: bindR_Inr_iff finite_num_Inr jtrunc_finite
      split: if_splits jval.splits option.splits sum.splits)+

lemma ret_ok_arithmetic:
  "ret_ok f fn_add" "ret_ok f fn_sub" "ret_ok f fn_mul" "ret_ok f fn_div"
  unfolding fn_add_def fn_sub_def fn_mul_def fn_div_def
  by (rule ret_ok_impl; auto simp: finite_num_Inr split: if_splits)+

lemmas ret_ok_entries = ret_ok_logic ret_ok_compare ret_ok_strings ret_ok_collections
  ret_ok_conversions ret_ok_arithmetic ret_ok_dates ret_ok_min ret_ok_max ret_ok_mod

lemma catalog_ret_ok: "(f, spec) \<in> set (FUNCTIONS h) \<Longrightarrow> ret_ok f spec"
proof -
  have "list_all (\<lambda>(f, spec). ret_ok f spec) (FUNCTIONS h)"
    unfolding FUNCTIONS_def by (simp only: list.pred_inject prod.case ret_ok_entries simp_thms)
  then show "(f, spec) \<in> set (FUNCTIONS h) \<Longrightarrow> ret_ok f spec" by (auto simp: list_all_iff)
qed

text \<open>The definitions of the entries, and the lookup of each name.\<close>

lemmas catalog_defs =
  fn_and_def fn_or_def fn_if_def fn_not_def fn_equals_def fn_greater_def fn_greaterOrEquals_def
  fn_less_def fn_lessOrEquals_def fn_default_def fn_concat_def fn_substring_def fn_replace_def
  fn_split_def fn_trim_def fn_toLower_def fn_toUpper_def fn_startsWith_def fn_endsWith_def
  fn_indexOf_def fn_lastIndexOf_def fn_slug_def fn_length_def fn_empty_def fn_contains_def
  fn_first_def fn_last_def fn_take_def fn_skip_def fn_join_def fn_intersection_def fn_union_def
  fn_createArray_def fn_range_def fn_filter_def fn_map_def fn_count_def fn_sum_def fn_avg_def
  fn_string_def fn_int_def fn_float_def fn_bool_def fn_array_def fn_json_def fn_coalesce_def
  fn_base64_def fn_base64ToString_def fn_encodeUriComponent_def fn_decodeUriComponent_def
  fn_add_def fn_sub_def fn_mul_def fn_div_def fn_mod_def fn_min_def fn_max_def
  fn_formatDateTime_def fn_addDays_def fn_addHours_def fn_addMinutes_def fn_addSeconds_def
  fn_addToTime_def fn_subtractFromTime_def fn_startOfDay_def fn_startOfHour_def
  fn_startOfMonth_def fn_dayOfWeek_def fn_dayOfMonth_def

lemma lookup_names:
  "fn_lookup h (lit ''and'') = Entry fn_and"
  "fn_lookup h (lit ''or'') = Entry fn_or"
  "fn_lookup h (lit ''if'') = Entry fn_if"
  "fn_lookup h (lit ''not'') = Entry fn_not"
  "fn_lookup h (lit ''equals'') = Entry fn_equals"
  "fn_lookup h (lit ''greater'') = Entry fn_greater"
  "fn_lookup h (lit ''greaterOrEquals'') = Entry fn_greaterOrEquals"
  "fn_lookup h (lit ''less'') = Entry fn_less"
  "fn_lookup h (lit ''lessOrEquals'') = Entry fn_lessOrEquals"
  "fn_lookup h (lit ''default'') = Entry fn_default"
  "fn_lookup h (lit ''concat'') = Entry fn_concat"
  "fn_lookup h (lit ''substring'') = Entry fn_substring"
  "fn_lookup h (lit ''replace'') = Entry fn_replace"
  "fn_lookup h (lit ''split'') = Entry fn_split"
  "fn_lookup h (lit ''trim'') = Entry fn_trim"
  "fn_lookup h (lit ''toLower'') = Entry (fn_toLower h)"
  "fn_lookup h (lit ''toUpper'') = Entry (fn_toUpper h)"
  "fn_lookup h (lit ''startsWith'') = Entry fn_startsWith"
  "fn_lookup h (lit ''endsWith'') = Entry fn_endsWith"
  "fn_lookup h (lit ''indexOf'') = Entry fn_indexOf"
  "fn_lookup h (lit ''lastIndexOf'') = Entry fn_lastIndexOf"
  "fn_lookup h (lit ''slug'') = Entry (fn_slug h)"
  "fn_lookup h (lit ''length'') = Entry fn_length"
  "fn_lookup h (lit ''empty'') = Entry fn_empty"
  "fn_lookup h (lit ''contains'') = Entry fn_contains"
  "fn_lookup h (lit ''first'') = Entry fn_first"
  "fn_lookup h (lit ''last'') = Entry fn_last"
  "fn_lookup h (lit ''take'') = Entry fn_take"
  "fn_lookup h (lit ''skip'') = Entry fn_skip"
  "fn_lookup h (lit ''join'') = Entry fn_join"
  "fn_lookup h (lit ''intersection'') = Entry fn_intersection"
  "fn_lookup h (lit ''union'') = Entry fn_union"
  "fn_lookup h (lit ''createArray'') = Entry fn_createArray"
  "fn_lookup h (lit ''range'') = Entry fn_range"
  "fn_lookup h (lit ''filter'') = Entry fn_filter"
  "fn_lookup h (lit ''map'') = Entry fn_map"
  "fn_lookup h (lit ''count'') = Entry fn_count"
  "fn_lookup h (lit ''sum'') = Entry fn_sum"
  "fn_lookup h (lit ''avg'') = Entry fn_avg"
  "fn_lookup h (lit ''string'') = Entry fn_string"
  "fn_lookup h (lit ''int'') = Entry fn_int"
  "fn_lookup h (lit ''float'') = Entry fn_float"
  "fn_lookup h (lit ''bool'') = Entry fn_bool"
  "fn_lookup h (lit ''array'') = Entry fn_array"
  "fn_lookup h (lit ''json'') = Entry fn_json"
  "fn_lookup h (lit ''coalesce'') = Entry fn_coalesce"
  "fn_lookup h (lit ''base64'') = Entry fn_base64"
  "fn_lookup h (lit ''base64ToString'') = Entry fn_base64ToString"
  "fn_lookup h (lit ''encodeUriComponent'') = Entry fn_encodeUriComponent"
  "fn_lookup h (lit ''decodeUriComponent'') = Entry fn_decodeUriComponent"
  "fn_lookup h (lit ''add'') = Entry fn_add"
  "fn_lookup h (lit ''sub'') = Entry fn_sub"
  "fn_lookup h (lit ''mul'') = Entry fn_mul"
  "fn_lookup h (lit ''div'') = Entry fn_div"
  "fn_lookup h (lit ''mod'') = Entry fn_mod"
  "fn_lookup h (lit ''min'') = Entry fn_min"
  "fn_lookup h (lit ''max'') = Entry fn_max"
  "fn_lookup h (lit ''formatDateTime'') = Entry fn_formatDateTime"
  "fn_lookup h (lit ''addDays'') = Entry fn_addDays"
  "fn_lookup h (lit ''addHours'') = Entry fn_addHours"
  "fn_lookup h (lit ''addMinutes'') = Entry fn_addMinutes"
  "fn_lookup h (lit ''addSeconds'') = Entry fn_addSeconds"
  "fn_lookup h (lit ''addToTime'') = Entry fn_addToTime"
  "fn_lookup h (lit ''subtractFromTime'') = Entry fn_subtractFromTime"
  "fn_lookup h (lit ''startOfDay'') = Entry fn_startOfDay"
  "fn_lookup h (lit ''startOfHour'') = Entry fn_startOfHour"
  "fn_lookup h (lit ''startOfMonth'') = Entry fn_startOfMonth"
  "fn_lookup h (lit ''dayOfWeek'') = Entry fn_dayOfWeek"
  "fn_lookup h (lit ''dayOfMonth'') = Entry fn_dayOfMonth"
  by (simp_all add: fn_lookup_def FUNCTIONS_def lit_inj del: lit_simps)

lemma special_entries:
  "list_all (\<lambda>(f, spec). case fs_call spec of
       Special run \<Rightarrow> spec \<in> {fn_and, fn_or, fn_if, fn_default, fn_filter, fn_map, fn_count}
     | Eager impl \<Rightarrow> True) (FUNCTIONS h)"
  unfolding FUNCTIONS_def catalog_defs
  by (simp only: list.pred_inject prod.case eager_simps fn_call.case simp_thms insert_iff)
    (simp add: fnspec.defs)

lemma fn_lookup_entry: "fn_lookup h f = Entry spec \<Longrightarrow> (f, spec) \<in> set (FUNCTIONS h)"
  by (auto simp: fn_lookup_def dest: map_of_SomeD split: option.splits if_splits)

section \<open>Codecs of the catalog\<close>

text \<open>\<open>json\<close> reads back what \<open>string\<close> prints of an array or an object.\<close>

definition json_container :: "jval \<Rightarrow> bool" where
  "json_container v \<longleftrightarrow> json_data v \<and> (case v of JArr _ \<Rightarrow> True | JObj _ \<Rightarrow> True | _ \<Rightarrow> False)"

lemma toStr_container: "json_container v \<Longrightarrow> toStr v = jtext v"
  by (auto simp: json_container_def toStr_def jtext_def split: jval.splits)

interpretation json: codec toStr parse_json json_container
  by unfold_locales
    (simp add: toStr_container parse_json_def json_parse_str json_container_def)

definition uri_text :: "jstr \<Rightarrow> jstr" where
  "uri_text s = (case uri_encode s of Inr t \<Rightarrow> t | Inl _ \<Rightarrow> [])"

interpretation uri: codec uri_text uri_decode well_formed_utf16
  by unfold_locales (use uri_roundtrip in \<open>fastforce simp: uri_text_def\<close>)

end
