(* ===== verification/Expr.thy ===== *)
theory Expr
  imports JsNumber JsError
begin

text \<open>
  The grammar of the \<open>${}\<close> language, \<open>engine/expr.ts\<close>: the quoting rule, the parser
  \<open>parseExpr\<close> with its cap on the nesting, the scanner of \<open>${...}\<close> boundaries and the
  classifier of a field's interpolation mode. The last sections show the cap on every
  expression the parser builds, and that the located expressions lie in the text, in
  order and without overlap.
\<close>

datatype expr =
    ECall jstr "expr list"
  | ERef jstr "segment list"
  | EStr jstr
  | ENum jnum
  | EBool bool
and segment = SField jstr | SIndex expr

definition MAX_EXPR_DEPTH :: nat where "MAX_EXPR_DEPTH = 64"

abbreviation throw_parse :: "parse_reason \<Rightarrow> 'a jres" where
  "throw_parse r \<equiv> throw (ParseReason r)"

section \<open>Escapes and quotes\<close>

definition ESC :: jstr where
  "ESC = [0] @ lit ''AE_DOLLAR_BRACE'' @ [0]"

definition protectEscapes :: "jstr \<Rightarrow> jstr" where
  "protectEscapes s = joinS ESC (js_split s (lit ''$${''))"

definition restoreEscapes :: "jstr \<Rightarrow> jstr" where
  "restoreEscapes s = joinS (lit ''${'') (js_split s ESC)"

definition quotedSpanEnd :: "jstr \<Rightarrow> nat \<Rightarrow> nat option" where
  "quotedSpanEnd s openIdx = index_from s [s ! openIdx] (openIdx + 1)"

definition isQuote :: "nat \<Rightarrow> bool" where
  "isQuote ch \<longleftrightarrow> ch = 39 \<or> ch = 34"

lemma quotedSpanEnd_bounds: "quotedSpanEnd s i = Some c \<Longrightarrow> i < c \<and> c < length s \<and> s ! c = s ! i"
proof -
  assume a: "quotedSpanEnd s i = Some c"
  then have b: "i + 1 \<le> c" "c < length s"
    using index_from_bounds [of s "[s ! i]" "i + 1" c] by (auto simp: quotedSpanEnd_def)
  with a have "take 1 (drop c s) = [s ! i]"
    using index_from_Some [of s "[s ! i]" "i + 1" c] by (simp add: quotedSpanEnd_def)
  then have "s ! c = s ! i" using b by (simp add: take_Suc hd_drop_conv_nth)
  with b show ?thesis by simp
qed

section \<open>Tokenizers\<close>

text \<open>The characters of an identifier: \<open>[A-Za-z_][A-Za-z0-9_]*\<close>.\<close>

definition is_name_start :: "nat \<Rightarrow> bool" where
  "is_name_start u \<longleftrightarrow> is_letter u \<or> u = 95"

definition is_name_char :: "nat \<Rightarrow> bool" where
  "is_name_char u \<longleftrightarrow> is_letter u \<or> is_digit u \<or> u = 95"

text \<open>The match of \<open>CALL_RE\<close>: the function's name and the text between the parentheses.\<close>

definition call_match :: "jstr \<Rightarrow> (jstr \<times> jstr) option" where
  "call_match s =
     (let name = takeWhile is_name_char s; rest = dropWhile is_name_char s
      in if name \<noteq> [] \<and> is_name_start (hd name) \<and> 2 \<le> length rest \<and> hd rest = 40 \<and> last rest = 41
         then Some (name, butlast (tl rest)) else None)"

definition parseStringLiteral :: "jstr \<Rightarrow> expr jres" where
  "parseStringLiteral body =
     (case quotedSpanEnd body 0 of
        None \<Rightarrow> throw_parse UnterminatedString
      | Some close \<Rightarrow>
          if close \<noteq> length body - 1 then throw_parse TextAfterString
          else Inr (EStr (js_slice body 1 close)))"

text \<open>\<open>matchingBracket\<close> from index \<open>i\<close> at nesting \<open>depth\<close>.\<close>

function match_bracket :: "jstr \<Rightarrow> nat \<Rightarrow> int \<Rightarrow> nat jres" where
  "match_bracket s i depth =
     (if length s \<le> i then throw_parse UnterminatedBracket
      else let ch = s ! i in
        if isQuote ch then
          (case quotedSpanEnd s i of
             None \<Rightarrow> throw_parse UnterminatedBracket
           | Some close \<Rightarrow> match_bracket s (close + 1) depth)
        else if ch = 91 then match_bracket s (i + 1) (depth + 1)
        else if ch = 93 then
          (if depth - 1 = 0 then Inr i else match_bracket s (i + 1) (depth - 1))
        else match_bracket s (i + 1) depth)"
  by pat_completeness auto
termination
  by (relation "measure (\<lambda>(s, i, d). length s - i)") (auto dest: quotedSpanEnd_bounds)

declare match_bracket.simps [simp del]

definition matchingBracket :: "jstr \<Rightarrow> nat \<Rightarrow> nat jres" where
  "matchingBracket s openIdx = match_bracket s openIdx 0"

lemma match_bracket_bounds: "match_bracket s i d = Inr c \<Longrightarrow> i \<le> c \<and> c < length s"
proof (induction s i d rule: match_bracket.induct)
  case (1 s i d)
  show ?case
    using 1(5) 1(1) 1(2-4)
    by (subst (asm) match_bracket.simps)
      (fastforce simp: Let_def split: if_splits option.splits dest: quotedSpanEnd_bounds)
qed

text \<open>The loop of \<open>splitArgs\<close>: the arguments so far, the buffer, and the two nesting counters.\<close>

function split_args :: "jstr \<Rightarrow> nat \<Rightarrow> jstr list \<Rightarrow> jstr \<Rightarrow> int \<Rightarrow> int \<Rightarrow> jstr list jres" where
  "split_args s i args buf parens brackets =
     (if length s \<le> i then
        (if parens \<noteq> 0 \<or> brackets \<noteq> 0 then throw_parse UnbalancedQuotes
         else let tl = trim buf
              in Inr (if tl \<noteq> [] \<or> args \<noteq> [] then args @ [tl] else args))
      else let ch = s ! i in
        if isQuote ch then
          (case quotedSpanEnd s i of
             None \<Rightarrow> throw_parse UnbalancedQuotes
           | Some close \<Rightarrow> split_args s (close + 1) args (buf @ js_slice s i (close + 1)) parens brackets)
        else if ch = 40 then split_args s (i + 1) args (buf @ [ch]) (parens + 1) brackets
        else if ch = 41 then split_args s (i + 1) args (buf @ [ch]) (parens - 1) brackets
        else if ch = 91 then split_args s (i + 1) args (buf @ [ch]) parens (brackets + 1)
        else if ch = 93 then split_args s (i + 1) args (buf @ [ch]) parens (brackets - 1)
        else if ch = 44 \<and> parens = 0 \<and> brackets = 0
          then split_args s (i + 1) (args @ [trim buf]) [] parens brackets
        else split_args s (i + 1) args (buf @ [ch]) parens brackets)"
  by pat_completeness auto
termination
  by (relation "measure (\<lambda>(s, i, _). length s - i)") (auto dest: quotedSpanEnd_bounds)

declare split_args.simps [simp del]

definition splitArgs :: "jstr \<Rightarrow> jstr list jres" where
  "splitArgs s = split_args s 0 [] [] 0 0"

section \<open>The parser\<close>

text \<open>\<open>readField\<close> from index \<open>i\<close>: the index behind the field.\<close>

definition is_path_delim :: "nat \<Rightarrow> bool" where
  "is_path_delim u \<longleftrightarrow> u = 46 \<or> u = 91 \<or> u = 93"

definition field_end :: "jstr \<Rightarrow> nat \<Rightarrow> nat" where
  "field_end s i = i + length (takeWhile (\<lambda>u. \<not> is_path_delim u) (drop i s))"

definition readField :: "jstr \<Rightarrow> nat \<Rightarrow> (segment \<times> nat) jres" where
  "readField s i =
     (let j = field_end s i; name = js_slice s i j
      in if name = [] then throw_parse EmptySegment else Inr (SField name, j))"

text \<open>The number of levels left below nesting \<open>depth\<close>; the parser recurses while it is not 0.\<close>

definition levels :: "nat \<Rightarrow> nat" where
  "levels depth = MAX_EXPR_DEPTH + 1 - depth"

text \<open>
  \<open>ref_tail pe s i\<close> is the loop of \<open>parseRefAt\<close> from index \<open>i\<close>, with \<open>pe\<close> the parser of
  an index body one level deeper.
\<close>

function ref_tail :: "(jstr \<Rightarrow> expr jres) \<Rightarrow> jstr \<Rightarrow> nat \<Rightarrow> segment list jres" where
  "ref_tail pe s i =
     (if length s \<le> i then Inr []
      else let ch = s ! i in
        if ch = 46 then
          (case readField s (i + 1) of
             Inl e \<Rightarrow> Inl e
           | Inr (seg, j) \<Rightarrow> bindR (ref_tail pe s j) (\<lambda>segs. Inr (seg # segs)))
        else if ch = 91 then
          (case matchingBracket s i of
             Inl e \<Rightarrow> Inl e
           | Inr close \<Rightarrow>
               let inner = js_slice s (i + 1) close
               in if trim inner = [] then throw_parse EmptyIndex
                  else bindR (pe inner) (\<lambda>e.
                         bindR (ref_tail pe s (close + 1)) (\<lambda>segs. Inr (SIndex e # segs))))
        else throw_parse UnexpectedChar)"
  by pat_completeness auto
termination
  by (relation "measure (\<lambda>(pe, s, i). length s - i)")
    (auto simp: readField_def field_end_def Let_def matchingBracket_def
      dest: match_bracket_bounds split: if_splits)

declare ref_tail.simps [simp del]

definition parse_ref :: "(jstr \<Rightarrow> expr jres) \<Rightarrow> jstr \<Rightarrow> expr jres" where
  "parse_ref pe source =
     (if is_path_delim (hd source) then throw_parse MustStartWithName
      else bindR (readField source 0) (\<lambda>(seg, j).
             bindR (ref_tail pe source j) (\<lambda>segs. Inr (ERef source (seg # segs)))))"

text \<open>
  \<open>parseExprAt\<close>, by the levels left: \<open>parse_at n\<close> is a call at nesting \<open>depth\<close> where
  \<open>n = levels depth\<close>. A call past the cap (\<open>n = 0\<close>) throws, as the code does.
\<close>

fun parse_at :: "nat \<Rightarrow> jstr \<Rightarrow> expr jres" where
  "parse_at 0 bodyRaw = throw_parse NestingTooDeep"
| "parse_at (Suc n) bodyRaw =
     (let body = trim bodyRaw
      in if body = [] then throw_parse EmptyExpression
         else if isQuote (hd body) then parseStringLiteral body
         else if body = lit ''true'' then Inr (EBool True)
         else if body = lit ''false'' then Inr (EBool False)
         else case call_match body of
                Some (name, inner) \<Rightarrow>
                  bindR (splitArgs inner) (\<lambda>args.
                    bindR (mapR (parse_at n) args) (\<lambda>es. Inr (ECall name es)))
              | None \<Rightarrow>
                  (case parse_decimal False body of
                     Some v \<Rightarrow> if is_finite v then Inr (ENum v) else throw_parse NumberOverflow
                   | None \<Rightarrow> parse_ref (parse_at n) body))"

definition parseExprAt :: "jstr \<Rightarrow> nat \<Rightarrow> expr jres" where
  "parseExprAt bodyRaw depth = parse_at (levels depth) bodyRaw"

definition parseExpr :: "jstr \<Rightarrow> expr jres" where
  "parseExpr bodyRaw = parseExprAt bodyRaw 0"

section \<open>The scanner\<close>

record refmatch =
  m_start :: nat
  m_end :: nat
  m_body :: jstr

function findRefEnd :: "jstr \<Rightarrow> nat \<Rightarrow> nat option" where
  "findRefEnd s i =
     (if length s \<le> i then None
      else let ch = s ! i in
        if isQuote ch then
          (case quotedSpanEnd s i of None \<Rightarrow> None | Some close \<Rightarrow> findRefEnd s (close + 1))
        else if ch = 125 then Some i
        else findRefEnd s (i + 1))"
  by pat_completeness auto
termination
  by (relation "measure (\<lambda>(s, i). length s - i)") (auto dest: quotedSpanEnd_bounds)

declare findRefEnd.simps [simp del]

lemma findRefEnd_bounds: "findRefEnd s i = Some c \<Longrightarrow> i \<le> c \<and> c < length s \<and> s ! c = 125"
proof (induction s i rule: findRefEnd.induct)
  case (1 s i)
  show ?case
    using 1(3) 1(1,2)
    by (subst (asm) findRefEnd.simps)
      (fastforce simp: Let_def split: if_splits option.splits dest: quotedSpanEnd_bounds)
qed

definition REF_OPEN :: jstr where "REF_OPEN = lit ''${''"

lemma ref_open_bounds: "index_from s REF_OPEN i = Some k \<Longrightarrow> i \<le> k \<and> k < length s"
  using index_from_bounds [of s REF_OPEN i k] by (simp add: REF_OPEN_def)

function scan_refs :: "jstr \<Rightarrow> nat \<Rightarrow> refmatch list \<times> nat option" where
  "scan_refs s i =
     (if length s \<le> i then ([], None)
      else case index_from s REF_OPEN i of
             None \<Rightarrow> ([], None)
           | Some opn \<Rightarrow>
               (case findRefEnd s (opn + 2) of
                  None \<Rightarrow> ([], Some opn)
                | Some en \<Rightarrow>
                    let r = scan_refs s (en + 1)
                    in (\<lparr>m_start = opn, m_end = en, m_body = js_slice s (opn + 2) en\<rparr> # fst r, snd r)))"
  by pat_completeness auto
termination
  by (relation "measure (\<lambda>(s, i). length s - i)")
    (auto dest!: findRefEnd_bounds ref_open_bounds)

declare scan_refs.simps [simp del]

definition scanTemplateRefs :: "jstr \<Rightarrow> refmatch list \<times> nat option" where
  "scanTemplateRefs s = scan_refs s 0"

definition refAt :: "jstr \<Rightarrow> nat \<Rightarrow> nat \<Rightarrow> refmatch option" where
  "refAt s from to =
     (let scanned = protectEscapes s;
          grow = length ESC - 3;
          toRaw = (\<lambda>pos. pos - grow * (length (js_split (js_slice scanned 0 pos) ESC) - 1));
          locate = (\<lambda>m. (toRaw (m_start m), toRaw (m_end m)))
      in case find (\<lambda>m. fst (locate m) \<le> from \<and> to \<le> snd (locate m) + 1) (fst (scanTemplateRefs scanned)) of
           None \<Rightarrow> None
         | Some m \<Rightarrow> Some \<lparr>m_start = fst (locate m), m_end = snd (locate m),
                           m_body = js_slice s (fst (locate m) + 2) (snd (locate m))\<rparr>)"

text \<open>The loop of \<open>inQuotedText\<close> from index \<open>i\<close>.\<close>

function in_quoted :: "jstr \<Rightarrow> nat \<Rightarrow> nat \<Rightarrow> bool" where
  "in_quoted body pos i =
     (if \<not> (i < length body \<and> i < pos) then False
      else if \<not> isQuote (body ! i) then in_quoted body pos (i + 1)
      else case quotedSpanEnd body i of
             None \<Rightarrow> True
           | Some close \<Rightarrow> if pos \<le> close then True else in_quoted body pos (close + 1))"
  by pat_completeness auto
termination
  by (relation "measure (\<lambda>(body, pos, i). length body - i)") (auto dest: quotedSpanEnd_bounds)

declare in_quoted.simps [simp del]

definition inQuotedText :: "jstr \<Rightarrow> nat \<Rightarrow> bool" where
  "inQuotedText body pos = in_quoted body pos 0"

datatype template_mode =
    Literal jstr "refmatch list" "nat option"
  | Whole jstr "refmatch list" "nat option" jstr
  | Interpolated jstr "refmatch list" "nat option"

definition interpolationMode :: "jstr \<Rightarrow> template_mode" where
  "interpolationMode s =
     (let scanned = protectEscapes s; (matches, unterminatedAt) = scanTemplateRefs scanned
      in if unterminatedAt \<noteq> None then Interpolated scanned matches unterminatedAt
         else if matches = [] then Literal scanned matches None
         else if length matches = 1 \<and> m_start (hd matches) = 0 \<and> m_end (hd matches) = length scanned - 1
              then Whole scanned matches None (m_body (hd matches))
         else Interpolated scanned matches None)"

section \<open>The operator hint\<close>

text \<open>The regular expressions of \<open>INFIX_HINTS\<close>: a fixed text, or a sign between spaces.\<close>

datatype infix_test = Contains jstr | Spaced nat

definition INFIX_HINTS :: "(infix_test \<times> jstr \<times> jstr) list" where
  "INFIX_HINTS =
     [(Contains (lit ''>=''), lit ''>='', lit ''greaterOrEquals(a, b)''),
      (Contains (lit ''<=''), lit ''<='', lit ''lessOrEquals(a, b)''),
      (Contains (lit ''==''), lit ''=='', lit ''equals(a, b)''),
      (Contains (lit ''!=''), lit ''!='', lit ''not(equals(a, b))''),
      (Contains (lit ''&&''), lit ''&&'', lit ''and(x, y)''),
      (Contains (lit ''||''), lit ''||'', lit ''or(x, y)''),
      (Contains (lit ''>''), lit ''>'', lit ''greater(a, b)''),
      (Contains (lit ''<''), lit ''<'', lit ''less(a, b)''),
      (Spaced 43, lit ''+'', lit ''add(a, b)''),
      (Spaced 45, lit ''-'', lit ''sub(a, b)''),
      (Spaced 42, lit ''*'', lit ''mul(a, b)''),
      (Spaced 47, lit ''/'', lit ''div(a, b)'')]"

fun has_spaced :: "nat \<Rightarrow> jstr \<Rightarrow> bool" where
  "has_spaced u (a # b # c # s) =
     ((is_js_space a \<and> b = u \<and> is_js_space c) \<or> has_spaced u (b # c # s))"
| "has_spaced u s = False"

fun infix_hit :: "infix_test \<Rightarrow> jstr \<Rightarrow> bool" where
  "infix_hit (Contains p) s = (index_of s p \<noteq> None)"
| "infix_hit (Spaced u) s = has_spaced u s"

text \<open>The body with each closed string literal replaced by a space; it ends at an open quote.\<close>

function bare_text :: "jstr \<Rightarrow> nat \<Rightarrow> jstr" where
  "bare_text body i =
     (if length body \<le> i then []
      else if isQuote (body ! i) then
        (case quotedSpanEnd body i of None \<Rightarrow> [] | Some close \<Rightarrow> 32 # bare_text body (close + 1))
      else body ! i # bare_text body (i + 1))"
  by pat_completeness auto
termination
  by (relation "measure (\<lambda>(body, i). length body - i)") (auto dest: quotedSpanEnd_bounds)

declare bare_text.simps [simp del]

fun strip_arrows :: "jstr \<Rightarrow> jstr" where
  "strip_arrows (u # v # s) =
     (if (u = 61 \<or> u = 45) \<and> v = 62 then 32 # strip_arrows s else u # strip_arrows (v # s))"
| "strip_arrows s = s"

text \<open>The function and the operator of the hint.\<close>

definition infixOperatorHint :: "jstr \<Rightarrow> (jstr \<times> jstr) option" where
  "infixOperatorHint body =
     (let bare = strip_arrows (bare_text body 0)
      in case find (\<lambda>(t, _). infix_hit t bare) INFIX_HINTS of
           None \<Rightarrow> None
         | Some (_, oper, f) \<Rightarrow> Some (f, oper))"

section \<open>The nesting of what the parser builds\<close>

text \<open>A literal or a plain reference has one level; calls and indices add one.\<close>

fun expr_levels :: "expr \<Rightarrow> nat" and segment_levels :: "segment \<Rightarrow> nat" where
  "expr_levels (ECall f args) = Suc (foldr max (map expr_levels args) 0)"
| "expr_levels (ERef src segs) = Suc (foldr max (map segment_levels segs) 0)"
| "expr_levels (EStr s) = 1"
| "expr_levels (ENum n) = 1"
| "expr_levels (EBool b) = 1"
| "segment_levels (SField f) = 0"
| "segment_levels (SIndex e) = expr_levels e"

lemma foldr_max_le: "foldr max xs 0 \<le> (n :: nat) \<longleftrightarrow> (\<forall>x \<in> set xs. x \<le> n)"
  by (induction xs) auto

lemma ref_tail_levels:
  "ref_tail pe s i = Inr segs \<Longrightarrow> (\<And>t e. pe t = Inr e \<Longrightarrow> expr_levels e \<le> n) \<Longrightarrow>
     \<forall>seg \<in> set segs. segment_levels seg \<le> n"
proof (induction pe s i arbitrary: segs rule: ref_tail.induct)
  case (1 pe s i)
  have rf: "readField s j = Inr (seg, k) \<Longrightarrow> segment_levels seg = 0" for j seg k
    by (auto simp: readField_def Let_def split: if_splits)
  show ?case
    using 1(3) 1(1,2) 1(4)
    by (subst (asm) ref_tail.simps)
      (fastforce simp: Let_def bindR_Inr_iff split: if_splits sum.splits prod.splits dest: rf)
qed

lemma parse_at_levels: "parse_at n s = Inr e \<Longrightarrow> expr_levels e \<le> n"
proof (induction n arbitrary: s e)
  case (Suc n)
  have ref: "parse_ref (parse_at n) t = Inr e' \<Longrightarrow> expr_levels e' \<le> Suc n" for t e'
    using ref_tail_levels [of "parse_at n" t _ _ n] Suc.IH
    by (fastforce simp: parse_ref_def bindR_Inr_iff foldr_max_le readField_def Let_def
        split: if_splits prod.splits)
  have args: "mapR (parse_at n) as = Inr es \<Longrightarrow> foldr max (map expr_levels es) 0 \<le> n" for as es
    unfolding foldr_max_le using mapR_Inr_set [of "parse_at n" as es] Suc.IH by fastforce
  from Suc.prems show ?case
    by (auto simp: Let_def parseStringLiteral_def bindR_Inr_iff dest!: ref args
        split: if_splits option.splits)
qed simp

section \<open>The located expressions\<close>

text \<open>In bounds, in order and disjoint, from index \<open>i\<close> on, each one the text of a \<open>${...}\<close>.\<close>

fun refs_from :: "jstr \<Rightarrow> nat \<Rightarrow> refmatch list \<Rightarrow> bool" where
  "refs_from s i [] = True"
| "refs_from s i (m # ms) =
     (i \<le> m_start m \<and> m_start m + 2 \<le> m_end m \<and> m_end m < length s
      \<and> js_slice s (m_start m) (m_start m + 2) = REF_OPEN \<and> s ! m_end m = 125
      \<and> m_body m = js_slice s (m_start m + 2) (m_end m) \<and> refs_from s (m_end m + 1) ms)"

lemma scan_refs_from: "refs_from s i (fst (scan_refs s i))"
proof (induction s i rule: scan_refs.induct)
  case (1 s i)
  have op: "js_slice s k (k + 2) = REF_OPEN" if "index_from s REF_OPEN i = Some k" "\<not> length s \<le> i" for k
    using index_from_Some [OF that(1)] that(2) by (auto simp: js_slice_def REF_OPEN_def numeral_2_eq_2)
  show ?case
    by (subst scan_refs.simps)
      (use 1 op in \<open>auto simp: Let_def split: option.splits dest: ref_open_bounds findRefEnd_bounds\<close>)
qed

lemma scan_refs_unterminated:
  "snd (scan_refs s i) = Some k \<Longrightarrow>
     i \<le> k \<and> k < length s \<and> findRefEnd s (k + 2) = None \<and> (\<forall>m \<in> set (fst (scan_refs s i)). m_end m < k)"
proof (induction s i rule: scan_refs.induct)
  case (1 s i)
  show ?case
    using 1(2)
    by (subst (asm) scan_refs.simps, subst scan_refs.simps)
      (use 1(1) in \<open>fastforce simp: Let_def split: if_splits option.splits
        dest: ref_open_bounds findRefEnd_bounds\<close>)
qed

text \<open>The text between and behind the located expressions, with each one put back.\<close>

fun splice :: "(refmatch \<Rightarrow> jstr) \<Rightarrow> jstr \<Rightarrow> nat \<Rightarrow> refmatch list \<Rightarrow> jstr" where
  "splice f s i [] = drop i s"
| "splice f s i (m # ms) = js_slice s i (m_start m) @ f m @ splice f s (m_end m + 1) ms"

lemma slice_append: "a \<le> b \<Longrightarrow> b \<le> c \<Longrightarrow> js_slice s a b @ js_slice s b c = js_slice s a c"
proof -
  assume "a \<le> b" "b \<le> c"
  then have "c - a = (b - a) + (c - b)" "drop b s = drop (b - a) (drop a s)" by simp_all
  then show ?thesis unfolding js_slice_def by (simp only: take_add)
qed

lemma slice_drop: "a \<le> b \<Longrightarrow> js_slice s a b @ drop b s = drop a s"
  by (metis append_take_drop_id drop_drop le_add_diff_inverse2 js_slice_def)

lemma splice_identity:
  "refs_from s i ms \<Longrightarrow> splice (\<lambda>m. REF_OPEN @ m_body m @ [125]) s i ms = drop i s"
proof (induction ms arbitrary: i)
  case (Cons m ms)
  let ?a = "m_start m" and ?b = "m_end m"
  have b: "i \<le> ?a" "?a + 2 \<le> ?b" "?b < length s" and o: "js_slice s ?a (?a + 2) = REF_OPEN"
    and c: "s ! ?b = 125" and body: "m_body m = js_slice s (?a + 2) ?b"
    and rest: "refs_from s (?b + 1) ms"
    using Cons.prems by simp_all
  have "[125] @ drop (?b + 1) s = drop ?b s" using Cons_nth_drop_Suc [OF b(3)] c by simp
  moreover have "splice (\<lambda>m. REF_OPEN @ m_body m @ [125]) s i (m # ms)
      = js_slice s i ?a @ js_slice s ?a (?a + 2) @ js_slice s (?a + 2) ?b @ [125] @ drop (?b + 1) s"
    using Cons.IH [OF rest] o body by simp
  ultimately show ?case using b by (simp add: slice_drop del: append_Cons)
qed simp

lemma scan_splice: "splice (\<lambda>m. REF_OPEN @ m_body m @ [125]) s 0 (fst (scanTemplateRefs s)) = s"
  using splice_identity [OF scan_refs_from [of s 0]] by (simp add: scanTemplateRefs_def)

section \<open>Literals\<close>

lemma quoted_literal:
  assumes "isQuote q" "q \<notin> set t"
  shows "quotedSpanEnd (q # t @ [q]) 0 = Some (length t + 1)"
proof -
  have "index_of (t @ [q]) [q] = Some (length t)"
    using assms(2) by (induction t) (auto simp: starts_with_def)
  then show ?thesis by (simp add: quotedSpanEnd_def index_from_def)
qed

lemma parse_string_literal:
  assumes "isQuote q" "q \<notin> set t"
  shows "parseExpr (q # t @ [q]) = Inr (EStr t)"
proof -
  have "\<not> is_js_space q" using assms(1) by (auto simp: isQuote_def is_js_space_def)
  then have "trim (q # t @ [q]) = q # t @ [q]" by (intro trim_id) simp
  moreover have "js_slice (q # t @ [q]) 1 (length t + 1) = t" by (simp add: js_slice_def)
  ultimately show ?thesis
    using assms quoted_literal [OF assms]
    by (simp add: parseExpr_def parseExprAt_def levels_def MAX_EXPR_DEPTH_def numeral_eq_Suc
        parseStringLiteral_def Let_def)
qed

end
