(* ===== verification/RunTypes.thy ===== *)
theory RunTypes
  imports JsString
begin

text \<open>
  The status vocabularies of \<open>engine/types.ts\<close> that the expression language and the
  reducer share, with their terminal subsets.
\<close>

datatype node_status =
    Pending | Ready | Dispatched | Success | Failure | Skipped | Waiting
  | RetryPending | WaitPending | ExternalWaitPending

definition status_name :: "node_status \<Rightarrow> jstr" where
  "status_name s =
     (case s of
        Pending \<Rightarrow> lit ''pending'' | Ready \<Rightarrow> lit ''ready'' | Dispatched \<Rightarrow> lit ''dispatched''
      | Success \<Rightarrow> lit ''success'' | Failure \<Rightarrow> lit ''failure'' | Skipped \<Rightarrow> lit ''skipped''
      | Waiting \<Rightarrow> lit ''waiting'' | RetryPending \<Rightarrow> lit ''retry_pending''
      | WaitPending \<Rightarrow> lit ''wait_pending'' | ExternalWaitPending \<Rightarrow> lit ''external_wait_pending'')"

definition TERMINAL_NODE :: "node_status \<Rightarrow> bool" where
  "TERMINAL_NODE s \<longleftrightarrow> s = Success \<or> s = Failure \<or> s = Skipped"

datatype container_status = CPending | CActive | CSuccess | CFailure | CSkipped

definition TERMINAL_CONTAINER :: "container_status \<Rightarrow> bool" where
  "TERMINAL_CONTAINER s \<longleftrightarrow> s = CSuccess \<or> s = CFailure \<or> s = CSkipped"

end
