(* ===== verification/Evaluator.thy ===== *)
theory Evaluator
  imports Catalog Expr RunTypes
begin

text \<open>
  The evaluator of the \<open>${}\<close> language, \<open>engine/params.ts\<close>: references and their roots,
  the deep walk, calls with the per-field budget of array elements, and \<open>substitute\<close>, the
  single inert pass over a node's configuration.
\<close>

abbreviation throw_eval :: "eval_reason \<Rightarrow> 'a jres" where
  "throw_eval r \<equiv> throw (EvalReason r)"

abbreviation throw_root :: "root_reason \<Rightarrow> 'a jres" where
  "throw_root r \<equiv> throw (RootReason r)"

section \<open>References\<close>

fun leadingFields :: "segment list \<Rightarrow> jstr list" where
  "leadingFields (SField f # segs) = f # leadingFields segs"
| "leadingFields segs = []"

datatype ref_root =
    RItem
  | RParams jstr
  | RVars jstr
  | RGlobal jstr
  | RNodeOutput jstr jstr
  | RNodeStatus jstr
  | RRun jstr
  | RTrigger jstr
  | RTool jstr

definition root_arity :: "ref_root \<Rightarrow> nat" where
  "root_arity r =
     (case r of RItem \<Rightarrow> 1 | RParams _ \<Rightarrow> 2 | RVars _ \<Rightarrow> 2 | RGlobal _ \<Rightarrow> 2 | RNodeOutput _ _ \<Rightarrow> 4
      | RNodeStatus _ \<Rightarrow> 3 | RRun _ \<Rightarrow> 2 | RTrigger _ \<Rightarrow> 2 | RTool _ \<Rightarrow> 3)"

definition refRoot :: "jstr list \<Rightarrow> ref_root option" where
  "refRoot flds =
     (let n = length flds; ns = flds ! 0; a = flds ! 1; b = flds ! 2; c = flds ! 3
      in if n = 0 then None
         else if ns = lit ''item'' then Some RItem
         else if ns = lit ''params'' \<and> 2 \<le> n then Some (RParams a)
         else if ns = lit ''vars'' \<and> 2 \<le> n then Some (RVars a)
         else if ns = lit ''global'' \<and> 2 \<le> n then Some (RGlobal a)
         else if ns = lit ''nodes'' \<and> 4 \<le> n \<and> b = lit ''output'' then Some (RNodeOutput a c)
         else if ns = lit ''nodes'' \<and> 3 \<le> n \<and> b = lit ''status'' then Some (RNodeStatus a)
         else if ns = lit ''run'' \<and> 2 \<le> n then Some (RRun a)
         else if ns = lit ''trigger'' \<and> 2 \<le> n then Some (RTrigger a)
         else if ns = lit ''tool'' \<and> 3 \<le> n \<and> a = lit ''args'' then Some (RTool b)
         else None)"

text \<open>\<open>SubstitutionContext\<close>: everything an expression can see.\<close>

record sub_ctx =
  cx_params :: jobj
  cx_nodeOutputs :: "(jstr \<times> jobj) list"
  cx_nodeStatuses :: "(jstr \<times> node_status) list"
  cx_run :: jobj
  cx_trigger :: jobj
  cx_variables :: jobj
  cx_globals :: jobj

text \<open>\<open>Env\<close> without the budget, which the computation threads.\<close>

record scope =
  sc_ctx :: sub_ctx
  sc_item :: "jval option"
  sc_toolArgs :: "jobj option"

definition newEnv :: "sub_ctx \<Rightarrow> jval option \<Rightarrow> scope" where
  "newEnv ctx item = \<lparr>sc_ctx = ctx, sc_item = item, sc_toolArgs = None\<rparr>"

definition own :: "jobj \<Rightarrow> jstr \<Rightarrow> root_reason \<Rightarrow> jval jres" where
  "own ps k r = (case map_of ps k of Some v \<Rightarrow> Inr v | None \<Rightarrow> throw_root r)"

text \<open>
  The maps of node outputs and statuses are read by \<open>m[id]\<close>, which also finds the members
  of \<open>Object.prototype\<close>: none of those is \<open>undefined\<close>, and none is a terminal status.
\<close>

definition resolveRoot :: "host \<Rightarrow> scope \<Rightarrow> ref_root \<Rightarrow> jval jres" where
  "resolveRoot h sc rt =
     (let ctx = sc_ctx sc in
      case rt of
        RItem \<Rightarrow> (case sc_item sc of None \<Rightarrow> throw_root ItemUnbound | Some v \<Rightarrow> Inr v)
      | RParams k \<Rightarrow> own (cx_params ctx) k (UnknownParam k)
      | RVars k \<Rightarrow> own (cx_variables ctx) k (UnknownVariable k)
      | RGlobal k \<Rightarrow> own (cx_globals ctx) k (UnknownGlobal k)
      | RNodeOutput i k \<Rightarrow>
          (case map_of (cx_nodeOutputs ctx) i of
             Some outs \<Rightarrow>
               (case map_of outs k of
                  Some v \<Rightarrow> Inr v
                | None \<Rightarrow> throw_missing (RootReason (MissingOutput i k)))
           | None \<Rightarrow>
               if i \<in> set OBJECT_PROTOTYPE
               then (case h_inherited h i k of
                       Some v \<Rightarrow> Inr v
                     | None \<Rightarrow> throw_missing (RootReason (MissingOutput i k)))
               else throw_missing (RootReason (MissingOutput i k)))
      | RNodeStatus i \<Rightarrow>
          (case map_of (cx_nodeStatuses ctx) i of
             Some s \<Rightarrow> if TERMINAL_NODE s then Inr (JStr (status_name s))
                       else throw_root (NodeNotSettled i)
           | None \<Rightarrow> if i \<in> set OBJECT_PROTOTYPE then throw_root (NodeNotSettled i)
                     else throw_root (UnknownNode i))
      | RRun k \<Rightarrow> own (cx_run ctx) k (UnknownRunField k)
      | RTrigger k \<Rightarrow> own (cx_trigger ctx) k (UnknownTriggerField k)
      | RTool k \<Rightarrow>
          (case sc_toolArgs sc of
             None \<Rightarrow> throw_root ToolUnbound
           | Some args \<Rightarrow> own args k (UnknownToolArg k)))"

section \<open>The deep walk\<close>

definition stepField :: "jval \<Rightarrow> jstr \<Rightarrow> jval jres" where
  "stepField cur name =
     (case cur of
        JNull \<Rightarrow> throw_missing (EvalReason (NoFieldOnNull name))
      | JUndef \<Rightarrow> throw_missing (EvalReason (NoFieldOnNull name))
      | JArr _ \<Rightarrow> throw_eval (FieldOnArray name)
      | JObj ps \<Rightarrow> (case map_of ps name of
                      Some v \<Rightarrow> Inr v
                    | None \<Rightarrow> throw_missing (EvalReason (NoField name)))
      | _ \<Rightarrow> throw_eval (FieldOnScalar name))"

definition index_object :: "jobj \<Rightarrow> jstr \<Rightarrow> jval jres" where
  "index_object ps k =
     (case map_of ps k of Some v \<Rightarrow> Inr v | None \<Rightarrow> throw_missing (EvalReason (NoField k)))"

definition stepIndex :: "jval \<Rightarrow> jval \<Rightarrow> jval jres" where
  "stepIndex cur idx =
     (if cur = JNull \<or> cur = JUndef then throw_missing (EvalReason IndexOnNull)
      else case idx of
             JNum n \<Rightarrow>
               if \<not> is_finite n then throw_eval IndexNotFinite
               else (case cur of
                       JArr xs \<Rightarrow>
                         if \<not> is_integer n \<or> jlt n (Fin 0) then throw_eval BadArrayIndex
                         else let i = nat (int_of_jnum n) in
                              if length xs \<le> i then throw_missing (EvalReason IndexPastEnd)
                              else Inr (xs ! i)
                     | JObj ps \<Rightarrow> index_object ps (num_to_str n)
                     | _ \<Rightarrow> throw_eval IndexIntoScalar)
           | JStr k \<Rightarrow>
               (case cur of
                  JArr xs \<Rightarrow> throw_eval BadArrayIndex
                | JObj ps \<Rightarrow> index_object ps k
                | _ \<Rightarrow> throw_eval IndexIntoScalar)
           | _ \<Rightarrow> throw_eval IndexNotKey)"

section \<open>Calls and the budget\<close>

text \<open>A part of an expression waiting for its scope.\<close>

type_synonym thunk = "scope \<Rightarrow> jval ev"

datatype step = StField jstr | StIndex thunk

fun walkPath :: "jval \<Rightarrow> step list \<Rightarrow> scope \<Rightarrow> jval ev" where
  "walkPath cur [] sc = retE cur"
| "walkPath cur (StField f # steps) sc =
     bindE (liftE (stepField cur f)) (\<lambda>v. walkPath v steps sc)"
| "walkPath cur (StIndex t # steps) sc =
     bindE (t sc) (\<lambda>idx. bindE (liftE (stepIndex cur idx)) (\<lambda>v. walkPath v steps sc))"

definition charge :: "jval \<Rightarrow> unit ev" where
  "charge out =
     (\<lambda>b. case out of
            JArr xs \<Rightarrow>
              (let b' = b + length xs
               in if MAX_ARRAY_ELEMENTS_TOTAL < b' then (throw_eval TooManyElements, b') else (Inr (), b'))
          | _ \<Rightarrow> (Inr (), b))"

definition charged :: "jval ev \<Rightarrow> jval ev" where
  "charged m = bindE m (\<lambda>out. bindE (charge out) (\<lambda>_. retE out))"

definition resolveRef :: "host \<Rightarrow> segment list \<Rightarrow> step list \<Rightarrow> scope \<Rightarrow> jval ev" where
  "resolveRef h segs steps sc =
     (case refRoot (leadingFields segs) of
        None \<Rightarrow> liftE (throw_root UnresolvableRef)
      | Some rt \<Rightarrow>
          if MAX_PATH_DEPTH < length segs then liftE (throw_root PathTooDeep)
          else bindE (liftE (resolveRoot h sc rt)) (\<lambda>v. walkPath v (drop (root_arity rt) steps) sc))"

definition soft :: "jval ev \<Rightarrow> jval option ev" where
  "soft m =
     (\<lambda>b. case m b of
            (Inr v, b') \<Rightarrow> (Inr (Some v), b')
          | (Inl (MissingE r), b') \<Rightarrow> (Inr None, b')
          | (Inl e, b') \<Rightarrow> (Inl e, b'))"

definition evalIn :: "scope \<Rightarrow> thunk eval_in" where
  "evalIn sc =
     \<lparr>ev_eval = (\<lambda>t. t sc), ev_soft = (\<lambda>t. soft (t sc)),
      ev_withItem = (\<lambda>t x. t (sc\<lparr>sc_item := Some x\<rparr>))\<rparr>"

definition callEager :: "jstr \<Rightarrow> thunk fnspec \<Rightarrow> (jval list \<Rightarrow> jval jres) \<Rightarrow> thunk list \<Rightarrow> scope \<Rightarrow> jval ev" where
  "callEager name spec impl args sc =
     bindE (mapE (\<lambda>t. t sc) args) (\<lambda>vs.
       bindE (liftE (checkArgTypes name spec vs)) (\<lambda>_. liftE (impl vs)))"

definition checkArity :: "jstr \<Rightarrow> 'x fnspec \<Rightarrow> nat \<Rightarrow> unit jres" where
  "checkArity name spec got = (if \<not> arity_ok spec got then throw_eval (BadArity name) else Inr ())"

text \<open>The \<open>catch\<close> of a call: an error of the host becomes a \<open>SubstituteError\<close>.\<close>

definition wrap_host :: "jstr \<Rightarrow> jval ev \<Rightarrow> jval ev" where
  "wrap_host name m =
     (\<lambda>b. case m b of
            (Inl HostE, b') \<Rightarrow> (throw_eval (FunctionFailed name), b')
          | r \<Rightarrow> r)"

definition eval_call :: "host \<Rightarrow> jstr \<Rightarrow> thunk list \<Rightarrow> scope \<Rightarrow> jval ev" where
  "eval_call h name args sc =
     (case fn_lookup h name of
        Absent \<Rightarrow> liftE (throw_eval (UnknownFunction name))
      | Inherited \<Rightarrow> liftE (Inl HostE)
      | Entry spec \<Rightarrow>
          bindE (liftE (checkArity name spec (length args))) (\<lambda>_.
            wrap_host name
              (case fs_call spec of
                 Special run \<Rightarrow> run args (evalIn sc)
               | Eager impl \<Rightarrow> callEager name spec impl args sc)))"

fun evalExpr :: "host \<Rightarrow> expr \<Rightarrow> scope \<Rightarrow> jval ev" and eval_segment :: "host \<Rightarrow> segment \<Rightarrow> step" where
  "evalExpr h (EStr s) = (\<lambda>sc. charged (retE (JStr s)))"
| "evalExpr h (ENum n) = (\<lambda>sc. charged (retE (JNum n)))"
| "evalExpr h (EBool b) = (\<lambda>sc. charged (retE (JBool b)))"
| "evalExpr h (ERef src segs) = (\<lambda>sc. charged (resolveRef h segs (map (eval_segment h) segs) sc))"
| "evalExpr h (ECall name args) = (\<lambda>sc. charged (eval_call h name (map (evalExpr h) args) sc))"
| "eval_segment h (SField f) = StField f"
| "eval_segment h (SIndex e) = StIndex (evalExpr h e)"

section \<open>Substitution\<close>

definition MAX_CONFIG_DEPTH :: nat where "MAX_CONFIG_DEPTH = 64"

text \<open>The splice of an interpolated field, from index \<open>cursor\<close> of the scanned text.\<close>

fun interpolate :: "host \<Rightarrow> scope \<Rightarrow> jstr \<Rightarrow> nat \<Rightarrow> refmatch list \<Rightarrow> jstr ev" where
  "interpolate h sc scanned cursor [] = retE (drop cursor scanned)"
| "interpolate h sc scanned cursor (m # ms) =
     bindE (liftE (parseExpr (m_body m))) (\<lambda>e.
       bindE (evalExpr h e sc) (\<lambda>v.
         bindE (interpolate h sc scanned (m_end m + 1) ms) (\<lambda>rest.
           retE (js_slice scanned cursor (m_start m) @ toStr v @ rest))))"

definition restore_value :: "jval \<Rightarrow> jval" where
  "restore_value v = (case v of JStr s \<Rightarrow> JStr (restoreEscapes s) | _ \<Rightarrow> v)"

text \<open>The branch of \<open>substitute\<close> for a string: one field, one budget.\<close>

definition substitute_field :: "host \<Rightarrow> sub_ctx \<Rightarrow> jval option \<Rightarrow> jstr \<Rightarrow> jval jres" where
  "substitute_field h ctx item value =
     (case interpolationMode value of
        Literal scanned matches unterminatedAt \<Rightarrow> Inr (JStr (restoreEscapes scanned))
      | Whole scanned matches unterminatedAt body \<Rightarrow>
          bindR (parseExpr body) (\<lambda>e.
            bindR (fst (evalExpr h e (newEnv ctx item) 0)) (\<lambda>out. Inr (restore_value out)))
      | Interpolated scanned matches unterminatedAt \<Rightarrow>
          if unterminatedAt \<noteq> None then throw_eval UnterminatedRef
          else bindR (fst (interpolate h (newEnv ctx item) scanned 0 matches 0)) (\<lambda>r.
                 Inr (JStr (restoreEscapes r))))"

text \<open>\<open>out[key] = v\<close> on a new object: the key \<open>__proto__\<close> sets the prototype instead.\<close>

definition assign_key :: "jobj \<Rightarrow> jstr \<times> jval \<Rightarrow> jobj" where
  "assign_key out kv = (if fst kv = lit ''__proto__'' then out else obj_put (fst kv) (snd kv) out)"

fun substitute :: "host \<Rightarrow> sub_ctx \<Rightarrow> jval option \<Rightarrow> nat \<Rightarrow> jval \<Rightarrow> jval jres" where
  "substitute h ctx item depth (JArr xs) =
     (if MAX_CONFIG_DEPTH < depth then throw_eval ConfigTooDeep
      else bindR (mapR (substitute h ctx item (depth + 1)) xs) (\<lambda>ys. Inr (JArr ys)))"
| "substitute h ctx item depth (JObj ps) =
     (if MAX_CONFIG_DEPTH < depth then throw_eval ConfigTooDeep
      else bindR (mapR (\<lambda>(k, v). bindR (substitute h ctx item (depth + 1) v) (\<lambda>w. Inr (k, w)))
                       (sort_key fst ps))
             (\<lambda>qs. Inr (JObj (foldl assign_key [] qs))))"
| "substitute h ctx item depth (JStr s) =
     (if MAX_CONFIG_DEPTH < depth then throw_eval ConfigTooDeep else substitute_field h ctx item s)"
| "substitute h ctx item depth v =
     (if MAX_CONFIG_DEPTH < depth then throw_eval ConfigTooDeep else Inr v)"

section \<open>Fields that must be one expression\<close>

definition wholeValueDefect :: "jstr \<Rightarrow> jstr \<Rightarrow> eval_reason option" where
  "wholeValueDefect value noun =
     (case interpolationMode (trim value) of
        Literal _ _ _ \<Rightarrow> Some (NotAnExpression noun)
      | Interpolated _ _ unterminatedAt \<Rightarrow> if unterminatedAt \<noteq> None then None else Some (TextAround noun)
      | Whole _ _ _ _ \<Rightarrow> None)"

text \<open>The body of such a field; the field is refused when it is not one expression.\<close>

definition whole_body :: "jstr \<Rightarrow> jstr \<Rightarrow> jstr jres" where
  "whole_body value noun =
     (case wholeValueDefect value noun of
        Some d \<Rightarrow> throw_eval d
      | None \<Rightarrow>
          (case interpolationMode (trim value) of
             Whole _ _ _ body \<Rightarrow> Inr body
           | _ \<Rightarrow> throw_eval UnterminatedRef))"

definition empty_ctx :: sub_ctx where
  "empty_ctx = \<lparr>cx_params = [], cx_nodeOutputs = [], cx_nodeStatuses = [], cx_run = [],
                cx_trigger = [], cx_variables = [], cx_globals = []\<rparr>"

definition evalToolExpression :: "host \<Rightarrow> jstr \<Rightarrow> jobj \<Rightarrow> jval jres" where
  "evalToolExpression h expression args =
     bindR (whole_body expression (lit ''tool expression'')) (\<lambda>body.
       bindR (parseExpr body) (\<lambda>e.
         fst (evalExpr h e \<lparr>sc_ctx = empty_ctx, sc_item = None, sc_toolArgs = Some args\<rparr> 0)))"

definition filterFieldBody :: "jval option \<Rightarrow> jstr \<Rightarrow> jstr jres" where
  "filterFieldBody value noun =
     (case value of
        Some (JStr s) \<Rightarrow>
          if trim s = [] then throw_eval (EmptyFilterField noun) else whole_body s noun
      | _ \<Rightarrow> throw_eval (EmptyFilterField noun))"

definition FILTER_FIELDS :: "jstr list" where
  "FILTER_FIELDS = [lit ''items'', lit ''predicate'']"

definition composeFilterExpr :: "jobj \<Rightarrow> jstr jres" where
  "composeFilterExpr config =
     bindR (mapR (\<lambda>noun. filterFieldBody (map_of config noun) noun) FILTER_FIELDS) (\<lambda>args.
       Inr (lit ''${filter('' @ joinS (lit '', '') args @ lit '')}''))"

definition filterFieldBindsItem :: "host \<Rightarrow> jstr \<Rightarrow> bool" where
  "filterFieldBindsItem h field =
     (case List.extract (\<lambda>f. f = field) FILTER_FIELDS of
        None \<Rightarrow> False
      | Some (before, _, _) \<Rightarrow>
          (case map_of (FUNCTIONS h :: (jstr \<times> unit fnspec) list) (lit ''filter'') of
             Some spec \<Rightarrow> length before \<in> set (fs_lambdaArgs spec)
           | None \<Rightarrow> False))"

section \<open>Invariants of an evaluation\<close>

text \<open>
  How a computation ended: it returned, it threw a \<open>MissingValueError\<close>, it threw another
  \<open>SubstituteError\<close>, or an error of the host escaped. \<open>keeps I m\<close> says that \<open>I\<close> relates
  the count before, the end, and the count after every run of \<open>m\<close>.
\<close>

datatype ev_end = Returned | RaisedMissing | Raised | Crashed

fun ended :: "'a jres \<Rightarrow> ev_end" where
  "ended (Inr v) = Returned"
| "ended (Inl (MissingE r)) = RaisedMissing"
| "ended (Inl (SubstituteE r)) = Raised"
| "ended (Inl HostE) = Crashed"

definition keeps :: "(nat \<Rightarrow> ev_end \<Rightarrow> nat \<Rightarrow> bool) \<Rightarrow> 'a ev \<Rightarrow> bool" where
  "keeps I m \<longleftrightarrow> (\<forall>b. I b (ended (fst (m b))) (snd (m b)))"

lemma keepsD: "keeps I m \<Longrightarrow> m b = (r, b') \<Longrightarrow> I b (ended r) b'"
  by (metis fst_conv keeps_def snd_conv)

text \<open>What \<open>I\<close> becomes below the \<open>catch\<close> of a call, which turns a crash into a throw.\<close>

definition caught :: "(nat \<Rightarrow> ev_end \<Rightarrow> nat \<Rightarrow> bool) \<Rightarrow> nat \<Rightarrow> ev_end \<Rightarrow> nat \<Rightarrow> bool" where
  "caught I b e b' = I b (if e = Crashed then Raised else e) b'"

text \<open>The laws an invariant obeys so that every evaluation keeps it.\<close>

locale ev_invariant =
  fixes I :: "nat \<Rightarrow> ev_end \<Rightarrow> nat \<Rightarrow> bool"
  assumes stay: "e \<noteq> Crashed \<Longrightarrow> I b e b"
    and seq: "I b Returned b1 \<Longrightarrow> I b1 e b2 \<Longrightarrow> I b e b2"
    and rescue: "I b RaisedMissing b' \<Longrightarrow> I b Returned b'"
    and crash: "I b Crashed b' \<Longrightarrow> I b Raised b'"
    and spend: "b + n \<le> MAX_ARRAY_ELEMENTS_TOTAL \<Longrightarrow> I b Returned (b + n)"
    and overspend: "MAX_ARRAY_ELEMENTS_TOTAL < b + n \<Longrightarrow> I b Raised (b + n)"
begin

lemma keeps_ret: "keeps I (retE x)"
  by (simp add: keeps_def retE_def stay)

lemma keeps_lift: "m \<noteq> Inl HostE \<Longrightarrow> keeps I (liftE m)"
  by (cases m rule: ended.cases) (simp_all add: keeps_def liftE_def stay)

lemma keeps_bind:
  assumes "keeps I m" "\<And>x. keeps I (f x)"
  shows "keeps I (bindE m f)"
  unfolding keeps_def
proof
  fix b
  show "I b (ended (fst (bindE m f b))) (snd (bindE m f b))"
  proof (cases "m b")
    case (Pair r b1)
    note first = keepsD [OF assms(1) Pair]
    show ?thesis
    proof (cases r)
      case (Inl e)
      then show ?thesis using first Pair by (cases e) (simp_all add: bindE_def)
    next
      case (Inr x)
      then show ?thesis
        using first Pair assms(2) [of x] by (auto simp: bindE_def keeps_def intro: seq)
    qed
  qed
qed

lemma keeps_charge: "keeps I (charge v)"
  using spend overspend by (cases v) (auto simp: keeps_def charge_def Let_def stay)

lemma keeps_charged: "keeps I m \<Longrightarrow> keeps I (charged m)"
  unfolding charged_def by (intro keeps_bind keeps_ret keeps_charge)

lemma keeps_mapE: "(\<And>x. keeps I (f x)) \<Longrightarrow> keeps I (mapE f xs)"
  by (induction xs) (auto intro: keeps_bind keeps_ret)

lemma keeps_mapE_set: "(\<And>x. x \<in> set xs \<Longrightarrow> keeps I (f x)) \<Longrightarrow> keeps I (mapE f xs)"
  by (induction xs) (auto intro: keeps_bind keeps_ret)

lemma keeps_filterE: "(\<And>x. keeps I (f x)) \<Longrightarrow> keeps I (filterE f xs)"
  by (induction xs) (auto intro: keeps_bind keeps_ret)

lemma keeps_soft:
  assumes "keeps I m"
  shows "keeps I (soft m)"
  unfolding keeps_def
proof
  fix b
  show "I b (ended (fst (soft m b))) (snd (soft m b))"
  proof (cases "m b")
    case (Pair r b1)
    note first = keepsD [OF assms Pair]
    show ?thesis
      using first Pair rescue by (cases r rule: ended.cases) (auto simp: soft_def)
  qed
qed

lemma keeps_wrap_host: "keeps (caught I) m \<Longrightarrow> keeps I (wrap_host f m)"
  unfolding keeps_def
proof
  fix b
  assume "\<forall>b. caught I b (ended (fst (m b))) (snd (m b))"
  then have "caught I b (ended (fst (m b))) (snd (m b))" by blast
  then show "I b (ended (fst (wrap_host f m b))) (snd (wrap_host f m b))"
    by (cases "m b"; cases "fst (m b)" rule: ended.cases) (auto simp: wrap_host_def caught_def)
qed

lemma caught_weaker: "keeps I m \<Longrightarrow> keeps (caught I) m"
  using crash by (auto simp: keeps_def caught_def) (metis crash)

lemma keeps_bind_lift_caught: "keeps I m \<Longrightarrow> keeps (caught I) (bindE m (\<lambda>x. liftE (f x)))"
  unfolding keeps_def
proof
  fix b
  assume a: "\<forall>b. I b (ended (fst (m b))) (snd (m b))"
  show "caught I b (ended (fst (bindE m (\<lambda>x. liftE (f x)) b))) (snd (bindE m (\<lambda>x. liftE (f x)) b))"
  proof (cases "m b")
    case (Pair r b1)
    with a have first: "I b (ended r) b1" by (metis fst_conv snd_conv)
    show ?thesis
    proof (cases r)
      case (Inl e)
      with first Pair show ?thesis
        by (cases e) (auto simp: bindE_def caught_def crash)
    next
      case (Inr x)
      with first Pair show ?thesis
        by (cases "f x" rule: ended.cases) (auto simp: bindE_def caught_def liftE_def intro: seq stay)
    qed
  qed
qed

text \<open>The special functions keep the invariant when their injected evaluator does.\<close>

definition ev_ok :: "'x list \<Rightarrow> 'x eval_in \<Rightarrow> bool" where
  "ev_ok args ev \<longleftrightarrow>
     (\<forall>t \<in> set args. keeps I (ev_eval ev t) \<and> keeps I (ev_soft ev t) \<and> (\<forall>x. keeps I (ev_withItem ev t x)))"

lemma expectBool_no_host: "expectBool f v \<noteq> Inl HostE"
  by (cases v) (simp_all add: expectBool_def expect_def)

lemma loopArr_no_host: "loopArr f v \<noteq> Inl HostE"
  by (cases v) (simp_all add: loopArr_def arr_def expect_def capped_def cap_def)

lemma keeps_run_and: "ev_ok args ev \<Longrightarrow> keeps I (run_and args ev)"
  by (induction args) (auto simp: ev_ok_def keeps_ret expectBool_no_host intro!: keeps_bind keeps_lift)

lemma keeps_run_or: "ev_ok args ev \<Longrightarrow> keeps I (run_or args ev)"
  by (induction args) (auto simp: ev_ok_def keeps_ret expectBool_no_host intro!: keeps_bind keeps_lift)

lemma keeps_special:
  assumes "(f, spec) \<in> set (FUNCTIONS h)" "fs_call spec = Special run" "arity_ok spec (length args)"
    "ev_ok args ev"
  shows "keeps I (run args ev)"
proof -
  have spec: "spec \<in> {fn_and, fn_or, fn_if, fn_default, fn_filter, fn_map, fn_count}"
    using special_entries [of h] assms(1,2) by (fastforce simp: list_all_iff)
  have nth: "args ! i \<in> set args" if "i < fs_minArgs spec" for i
    using assms(3) that by (auto simp: arity_ok_def arity_def)
  have second: "length args \<noteq> 1 \<Longrightarrow> args ! Suc 0 \<in> set args" if "spec = fn_count"
    using assms(3) that by (auto simp: arity_ok_def arity_def fn_count_def intro!: nth_mem split: option.splits)
  show ?thesis
    using spec assms(2,4) nth second
    by (auto simp: fn_and_def fn_or_def fn_if_def fn_default_def fn_filter_def fn_map_def fn_count_def
        ev_ok_def keeps_run_and keeps_run_or keeps_ret loopArr_no_host expectBool_no_host
        intro!: keeps_bind keeps_lift keeps_filterE keeps_mapE keeps_run_and keeps_run_or
        split: option.split)
qed

end

section \<open>What every evaluation keeps\<close>

text \<open>No call of the expression names a member that \<open>FUNCTIONS\<close> inherits.\<close>

fun plain_calls :: "host \<Rightarrow> expr \<Rightarrow> bool" and plain_segment :: "host \<Rightarrow> segment \<Rightarrow> bool" where
  "plain_calls h (ECall f args) =
     (f \<notin> set OBJECT_PROTOTYPE \<and> list_all (plain_calls h) args)"
| "plain_calls h (ERef src segs) = list_all (plain_segment h) segs"
| "plain_calls h (EStr s) = True"
| "plain_calls h (ENum n) = True"
| "plain_calls h (EBool b) = True"
| "plain_segment h (SField f) = True"
| "plain_segment h (SIndex e) = plain_calls h e"

lemma resolveRoot_no_host: "resolveRoot h sc rt \<noteq> Inl HostE"
  by (cases rt) (auto simp: resolveRoot_def own_def Let_def split: option.splits)

lemma stepField_no_host: "stepField v f \<noteq> Inl HostE"
  by (cases v) (auto simp: stepField_def split: option.splits)

lemma stepIndex_no_host: "stepIndex v idx \<noteq> Inl HostE"
  by (cases idx; cases v) (auto simp: stepIndex_def index_object_def Let_def split: option.splits)

lemma check_types_no_host: "check_types_from f spec i vs \<noteq> Inl HostE"
  by (induction f spec i vs rule: check_types_from.induct) (auto simp: bindR_Inl_iff expect_def)

lemma not_inherited: "f \<notin> set OBJECT_PROTOTYPE \<Longrightarrow> fn_lookup h f \<noteq> Inherited"
  by (auto simp: fn_lookup_def split: option.splits)

context ev_invariant
begin

lemma keeps_walk:
  "list_all (\<lambda>s. case s of StField f \<Rightarrow> True | StIndex t \<Rightarrow> \<forall>sc. keeps I (t sc)) steps \<Longrightarrow>
     keeps I (walkPath v steps sc)"
proof (induction v steps sc rule: walkPath.induct)
  case (2 cur f steps sc)
  then show ?case by (auto intro!: keeps_bind keeps_lift simp: stepField_no_host)
next
  case (3 cur t steps sc)
  then show ?case by (auto intro!: keeps_bind keeps_lift simp: stepIndex_no_host)
qed (simp add: keeps_ret)

lemma keeps_resolveRef:
  "list_all (\<lambda>s. case s of StField f \<Rightarrow> True | StIndex t \<Rightarrow> \<forall>sc. keeps I (t sc)) steps \<Longrightarrow>
     keeps I (resolveRef h segs steps sc)"
  by (auto simp: resolveRef_def resolveRoot_no_host
      intro!: keeps_lift keeps_bind keeps_walk list_all_drop split: option.split)

lemma keeps_callEager: "\<forall>t \<in> set args. keeps I (t sc) \<Longrightarrow> keeps (caught I) (callEager f spec impl args sc)"
proof -
  assume a: "\<forall>t \<in> set args. keeps I (t sc)"
  have "callEager f spec impl args sc =
      bindE (bindE (mapE (\<lambda>t. t sc) args) (\<lambda>vs. bindE (liftE (checkArgTypes f spec vs)) (\<lambda>_. retE vs)))
        (\<lambda>vs. liftE (impl vs))"
    by (rule ext) (auto simp: callEager_def bindE_def liftE_def retE_def split: prod.splits sum.splits)
  moreover have "keeps I (bindE (mapE (\<lambda>t. t sc) args)
      (\<lambda>vs. bindE (liftE (checkArgTypes f spec vs)) (\<lambda>_. retE vs)))"
    using a by (intro keeps_bind keeps_mapE_set keeps_lift keeps_ret)
      (auto simp: checkArgTypes_def check_types_no_host)
  ultimately show ?thesis by (simp add: keeps_bind_lift_caught)
qed

lemma keeps_call:
  assumes "\<forall>t \<in> set args. \<forall>sc. keeps I (t sc)"
    "(fn_lookup h f :: thunk fn_lookup) \<noteq> Inherited \<or> (\<forall>b. I b Crashed b)"
  shows "keeps I (eval_call h f args sc)"
proof (cases "fn_lookup h f :: thunk fn_lookup")
  case (Entry spec)
  have "keeps I (wrap_host f (case fs_call spec of
      Special run \<Rightarrow> run args (evalIn sc) | Eager impl \<Rightarrow> callEager f spec impl args sc))"
    if "arity_ok spec (length args)"
  proof (cases "fs_call spec")
    case (Eager impl)
    then show ?thesis using assms(1) by (auto intro!: keeps_wrap_host keeps_callEager)
  next
    case (Special run)
    have "ev_ok args (evalIn sc)"
      using assms(1) by (auto simp: ev_ok_def evalIn_def keeps_soft)
    then show ?thesis
      using keeps_special [OF fn_lookup_entry [OF Entry] Special that]
      by (auto simp: Special intro!: keeps_wrap_host caught_weaker)
  qed
  then show ?thesis
    unfolding eval_call_def Entry checkArity_def
    by (cases "arity_ok spec (length args)") (auto intro!: keeps_lift)
next
  case Inherited
  then show ?thesis using assms(2) by (simp add: eval_call_def keeps_def liftE_def)
next
  case Absent
  then show ?thesis by (auto simp: eval_call_def intro: keeps_lift)
qed

lemma keeps_eval:
  fixes e :: expr and seg :: segment
  shows "plain_calls h e \<or> (\<forall>b. I b Crashed b) \<Longrightarrow> keeps I (evalExpr h e sc)"
    and "plain_segment h seg \<or> (\<forall>b. I b Crashed b) \<Longrightarrow>
           (case eval_segment h seg of StField f \<Rightarrow> True | StIndex t \<Rightarrow> \<forall>sc. keeps I (t sc))"
proof (induction h e and h seg arbitrary: sc and sc rule: evalExpr_eval_segment.induct)
  case (4 h src segs)
  then show ?case
    by (auto simp: list_all_iff intro!: keeps_charged keeps_resolveRef)
next
  case (5 h name args)
  then show ?case
    by (auto simp: list_all_iff intro!: keeps_charged keeps_call not_inherited)
qed (auto intro: keeps_charged keeps_ret)

end

subsection \<open>The budget\<close>

text \<open>
  The count never goes down, and an evaluation that ends in anything but a
  \<open>SubstituteError\<close> has not passed the cap. A \<open>MissingValueError\<close> that \<open>default\<close> rescues
  is of that kind, so no rescue can hide an overrun.
\<close>

definition within_budget :: "nat \<Rightarrow> ev_end \<Rightarrow> nat \<Rightarrow> bool" where
  "within_budget b e b' \<longleftrightarrow>
     b \<le> b' \<and> (e \<noteq> Raised \<longrightarrow> b \<le> MAX_ARRAY_ELEMENTS_TOTAL \<longrightarrow> b' \<le> MAX_ARRAY_ELEMENTS_TOTAL)"

interpretation budget: ev_invariant within_budget
  by unfold_locales (auto simp: within_budget_def)

lemma eval_within_budget: "keeps within_budget (evalExpr h e sc)"
  by (rule budget.keeps_eval) (simp add: within_budget_def)

lemma charged_Inr_array:
  assumes "charged m b = (Inr (JArr xs), b')"
  shows "\<exists>b0. m b = (Inr (JArr xs), b0) \<and> b' = b0 + length xs"
  using assms
  by (auto simp: charged_def bindE_def charge_def retE_def Let_def
      split: prod.splits sum.splits jval.splits if_splits)

lemma evalExpr_charged: "\<exists>m. evalExpr h e sc = charged m \<and> keeps within_budget m"
proof -
  have segs: "list_all (\<lambda>s. case s of StField f \<Rightarrow> True | StIndex t \<Rightarrow> \<forall>sc. keeps within_budget (t sc))
      (map (eval_segment h) segs)" for segs
    using budget.keeps_eval(2) [of h] by (auto simp: list_all_iff within_budget_def)
  show ?thesis
    by (cases e)
      (auto intro!: exI conjI budget.keeps_ret budget.keeps_call budget.keeps_resolveRef segs
        eval_within_budget simp: within_budget_def)
qed

lemma eval_result_bound:
  assumes "evalExpr h e sc b = (Inr v, b')" "b \<le> MAX_ARRAY_ELEMENTS_TOTAL"
  shows "b \<le> b'" "b' \<le> MAX_ARRAY_ELEMENTS_TOTAL" "v = JArr xs \<Longrightarrow> b + length xs \<le> b'"
proof -
  show "b \<le> b'" "b' \<le> MAX_ARRAY_ELEMENTS_TOTAL"
    using keepsD [OF eval_within_budget assms(1)] assms(2) by (auto simp: within_budget_def)
  obtain m where m: "evalExpr h e sc = charged m" "keeps within_budget m"
    using evalExpr_charged by blast
  show "b + length xs \<le> b'" if "v = JArr xs"
  proof -
    from assms(1) that m(1) have "charged m b = (Inr (JArr xs), b')" by simp
    then obtain b0 where b0: "m b = (Inr (JArr xs), b0)" "b' = b0 + length xs"
      using charged_Inr_array by blast
    then show ?thesis using keepsD [OF m(2) b0(1)] by (simp add: within_budget_def)
  qed
qed

subsection \<open>Only language errors escape\<close>

definition no_crash :: "nat \<Rightarrow> ev_end \<Rightarrow> nat \<Rightarrow> bool" where
  "no_crash b e b' \<longleftrightarrow> e \<noteq> Crashed"

interpretation contained: ev_invariant no_crash
  by unfold_locales (auto simp: no_crash_def)

lemma eval_no_crash: "plain_calls h e \<Longrightarrow> fst (evalExpr h e sc b) \<noteq> Inl HostE"
proof
  assume p: "plain_calls h e" and c: "fst (evalExpr h e sc b) = Inl HostE"
  have "keeps no_crash (evalExpr h e sc)" using p by (intro contained.keeps_eval(1)) simp
  then have "no_crash b (ended (fst (evalExpr h e sc b))) (snd (evalExpr h e sc b))"
    by (simp add: keeps_def)
  with c show False by (simp add: no_crash_def)
qed

section \<open>Calls\<close>

lemma bindE_Inr: "bindE m f b = (Inr y, b') \<longleftrightarrow> (\<exists>x b1. m b = (Inr x, b1) \<and> f x b1 = (Inr y, b'))"
  by (auto simp: bindE_def split: prod.split sum.split)

lemma liftE_Inr: "liftE m b = (Inr y, b') \<longleftrightarrow> m = Inr y \<and> b' = b"
  by (auto simp: liftE_def)

lemma retE_Inr: "retE x b = (Inr y, b') \<longleftrightarrow> y = x \<and> b' = b"
  by (auto simp: retE_def)

lemma charged_Inr: "charged m b = (Inr v, b') \<Longrightarrow> \<exists>b1. m b = (Inr v, b1)"
  by (auto simp: charged_def bindE_Inr retE_Inr)

lemma wrap_host_Inr: "wrap_host f m b = (Inr v, b') \<longleftrightarrow> m b = (Inr v, b')"
  by (auto simp: wrap_host_def split: prod.splits sum.splits exn.splits)

lemma mapE_length: "mapE f xs b = (Inr ys, b') \<Longrightarrow> length ys = length xs"
  by (induction xs arbitrary: b ys b') (auto simp: bindE_Inr retE_Inr)

lemma run_and_bool: "run_and args ev b = (Inr v, b') \<Longrightarrow> matchesSig v SBoolean"
  by (induction args arbitrary: b) (auto simp: bindE_Inr retE_Inr split: if_splits)

lemma run_or_bool: "run_or args ev b = (Inr v, b') \<Longrightarrow> matchesSig v SBoolean"
  by (induction args arbitrary: b) (auto simp: bindE_Inr retE_Inr split: if_splits)

lemma special_ret:
  assumes "spec \<in> {fn_and, fn_or, fn_if, fn_default, fn_filter, fn_map, fn_count}"
    "fs_call spec = Special run" "run args ev b = (Inr v, b')"
  shows "matchesSig v (fs_ret spec)"
  using assms
  by (auto simp: fn_and_def fn_or_def fn_if_def fn_default_def fn_filter_def fn_map_def fn_count_def
      bindE_Inr retE_Inr jlen_def dest!: run_and_bool run_or_bool split: if_splits)

text \<open>A call that returns gives a value of the type its entry declares.\<close>

lemma call_ret_type:
  assumes "evalExpr h (ECall f args) sc b = (Inr v, b')"
    "(fn_lookup h f :: thunk fn_lookup) = Entry spec"
  shows "matchesSig v (fs_ret spec)"
proof -
  from assms obtain b1 where call: "eval_call h f (map (evalExpr h) args) sc b = (Inr v, b1)"
    using charged_Inr by fastforce
  then have ar: "arity_ok spec (length args)"
    by (auto simp: eval_call_def assms(2) bindE_Inr liftE_Inr checkArity_def split: if_splits)
  have entry: "(f, spec) \<in> set (FUNCTIONS h)" using fn_lookup_entry [OF assms(2)] .
  show ?thesis
  proof (cases "fs_call spec")
    case (Special run)
    with call obtain b2 b3 where "run (map (evalExpr h) args) (evalIn sc) b2 = (Inr v, b3)"
      by (auto simp: eval_call_def assms(2) bindE_Inr wrap_host_Inr)
    moreover have "spec \<in> {fn_and, fn_or, fn_if, fn_default, fn_filter, fn_map, fn_count}"
      using special_entries [of h] entry Special by (fastforce simp: list_all_iff)
    ultimately show ?thesis using special_ret Special by blast
  next
    case (Eager impl)
    with call obtain vs where vs: "length vs = length args" "checkArgTypes f spec vs = Inr ()" "impl vs = Inr v"
      by (auto simp: eval_call_def assms(2) bindE_Inr wrap_host_Inr callEager_def liftE_Inr dest!: mapE_length)
    moreover from ar vs(1) have "arity_ok spec (length vs)" by simp
    moreover have "arity_ok spec (length vs) \<Longrightarrow> checkArgTypes f spec vs = Inr () \<Longrightarrow>
        impl vs = Inr v \<Longrightarrow> matchesSig v (fs_ret spec)"
      using catalog_ret_ok [OF entry] by (simp add: ret_ok_def Eager)
    ultimately show ?thesis by blast
  qed
qed

text \<open>\<open>and\<close> stops at its first false argument: the ones behind it are not evaluated.\<close>

lemma run_and_append:
  "run_and (xs @ ys) ev =
     bindE (run_and xs ev) (\<lambda>v. if v = JBool False then retE (JBool False) else run_and ys ev)"
proof (induction xs)
  case (Cons x xs)
  then show ?case
    by (auto simp: fun_eq_iff bindE_def liftE_def retE_def split: prod.splits sum.splits)
qed simp

lemma run_or_append:
  "run_or (xs @ ys) ev =
     bindE (run_or xs ev) (\<lambda>v. if v = JBool True then retE (JBool True) else run_or ys ev)"
proof (induction xs)
  case (Cons x xs)
  then show ?case
    by (auto simp: fun_eq_iff bindE_def liftE_def retE_def split: prod.splits sum.splits)
qed simp

lemma eval_and:
  assumes "2 \<le> length args"
  shows "evalExpr h (ECall (lit ''and'') args) sc =
    charged (wrap_host (lit ''and'') (run_and (map (evalExpr h) args) (evalIn sc)))"
  using assms
  by (simp add: eval_call_def lookup_names checkArity_def arity_ok_def arity_def fn_and_def del: lit_simps)

lemma charged_bool: "m b = (Inr (JBool x), b') \<Longrightarrow> charged m b = (Inr (JBool x), b')"
  by (simp add: charged_def bindE_def charge_def retE_def)

lemma wrap_host_pass: "m b = (Inr v, b') \<Longrightarrow> wrap_host f m b = (Inr v, b')"
  by (simp add: wrap_host_def)

lemma and_short_circuit:
  assumes "run_and (map (evalExpr h) as) (evalIn sc) b = (Inr (JBool True), b1)"
    and "evalExpr h e sc b1 = (Inr (JBool False), b2)" and "bs \<noteq> []"
  shows "evalExpr h (ECall (lit ''and'') (as @ e # bs)) sc b = (Inr (JBool False), b2)"
proof -
  have "run_and (map (evalExpr h) (as @ e # bs)) (evalIn sc) b = (Inr (JBool False), b2)"
    using assms(1,2)
    by (simp add: run_and_append bindE_def liftE_def retE_def expectBool_def expect_def as_bool_def evalIn_def)
  moreover have "2 \<le> length (as @ e # bs)" using assms(3) by (cases bs) auto
  ultimately show ?thesis
    by (simp add: eval_and charged_bool wrap_host_pass del: map_append lit_simps evalExpr.simps)
qed

text \<open>\<open>default\<close> rescues a missing value and nothing else.\<close>

lemma eval_default:
  "evalExpr h (ECall (lit ''default'') [e, d]) sc =
    charged (wrap_host (lit ''default'')
      (bindE (soft (evalExpr h e sc)) (\<lambda>first.
         case first of
           None \<Rightarrow> evalExpr h d sc
         | Some v \<Rightarrow> if isAbsent v then evalExpr h d sc else retE v)))"
  by (simp add: eval_call_def lookup_names checkArity_def arity_ok_def arity_def fn_default_def evalIn_def
      del: lit_simps cong: option.case_cong if_cong)

section \<open>Substitution is one inert pass\<close>

lemma index_of_append_None: "index_of (s @ t) p = None \<Longrightarrow> index_of t p = None"
proof (induction s)
  case (Cons u s)
  then show ?case by (auto split: if_splits)
qed simp

text \<open>Text without an opening brace and without the sentinel is its own template.\<close>

lemma no_brace_no_escape: "index_of s REF_OPEN = None \<Longrightarrow> index_of s (lit ''$${'') = None"
proof (rule ccontr)
  assume n: "index_of s REF_OPEN = None" and e: "index_of s (lit ''$${'') \<noteq> None"
  then obtain k where "index_of s (lit ''$${'') = Some k" by auto
  then have t: "take 3 (drop k s) = [36, 36, 123]" by (auto dest!: index_of_Some simp: numeral_3_eq_3)
  have "take 2 (drop (Suc k) s) = take 2 (drop 1 (take 3 (drop k s)))"
    by (simp add: drop_take numeral_3_eq_3 numeral_2_eq_2 add.commute)
  also have "\<dots> = REF_OPEN" unfolding t by (simp add: REF_OPEN_def)
  finally show False using index_of_None [OF n, of "Suc k"] by (simp add: REF_OPEN_def numeral_2_eq_2)
qed

lemma protect_id: "index_of s (lit ''$${'') = None \<Longrightarrow> protectEscapes s = s"
proof -
  assume "index_of s (lit ''$${'') = None"
  then have "split_sep (lit ''$${'') s = [s]" by (intro split_sep_absent) simp_all
  then show ?thesis by (simp add: protectEscapes_def js_split_def del: lit_simps)
qed

lemma restore_id: "index_of s ESC = None \<Longrightarrow> restoreEscapes s = s"
  by (simp add: restoreEscapes_def js_split_def split_sep_absent ESC_def)

lemma scan_none: "index_of s REF_OPEN = None \<Longrightarrow> scanTemplateRefs s = ([], None)"
  by (simp add: scanTemplateRefs_def scan_refs.simps [of s 0] index_from_def)

lemma substitute_literal:
  assumes "index_of s REF_OPEN = None" "index_of s ESC = None" "depth \<le> MAX_CONFIG_DEPTH"
  shows "substitute h ctx item depth (JStr s) = Inr (JStr s)"
proof -
  have "protectEscapes s = s" using assms(1) by (intro protect_id no_brace_no_escape)
  then have "interpolationMode s = Literal s [] None"
    using scan_none [OF assms(1)] by (simp add: interpolationMode_def Let_def)
  then show ?thesis using assms(2,3) by (simp add: substitute_field_def restore_id)
qed

text \<open>The replacement text of each match, in order.\<close>

fun splice_texts :: "jstr list \<Rightarrow> jstr \<Rightarrow> nat \<Rightarrow> refmatch list \<Rightarrow> jstr" where
  "splice_texts (t # ts) s i (m # ms) = js_slice s i (m_start m) @ t @ splice_texts ts s (m_end m + 1) ms"
| "splice_texts ts s i ms = drop i s"

text \<open>The values of the expressions, evaluated from left to right with one budget.\<close>

fun match_values :: "host \<Rightarrow> scope \<Rightarrow> refmatch list \<Rightarrow> jval list ev" where
  "match_values h sc [] = retE []"
| "match_values h sc (m # ms) =
     bindE (liftE (parseExpr (m_body m))) (\<lambda>e. bindE (evalExpr h e sc) (\<lambda>v.
       bindE (match_values h sc ms) (\<lambda>vs. retE (v # vs))))"

lemma interpolate_values:
  "interpolate h sc s c ms b =
     bindE (match_values h sc ms) (\<lambda>vs. retE (splice_texts (map toStr vs) s c ms)) b"
proof (induction h sc s c ms arbitrary: b rule: interpolate.induct)
  case (2 h sc s c m ms)
  then show ?case
    by (auto simp: bindE_def liftE_def retE_def split: prod.splits sum.splits)
qed (simp add: bindE_def retE_def)

section \<open>The shape of a resolved configuration\<close>

text \<open>Levels of arrays and objects above the deepest value.\<close>

fun nesting :: "jval \<Rightarrow> nat" where
  "nesting (JArr xs) = foldr max (map (\<lambda>x. Suc (nesting x)) xs) 0"
| "nesting (JObj ps) = foldr max (map (\<lambda>(k, v). Suc (nesting v)) ps) 0"
| "nesting v = 0"

lemma mapR_Inr_all: "mapR f xs = Inr ys \<Longrightarrow> x \<in> set xs \<Longrightarrow> \<exists>y. f x = Inr y"
  by (metis in_set_conv_nth mapR_Inr_nth)

lemma nesting_le:
  assumes "d \<le> n" "\<And>x. x \<in> set xs \<Longrightarrow> d + f x \<le> n"
  shows "d + foldr max (map f xs) 0 \<le> (n :: nat)"
  using assms(2) by (induction xs) (auto simp: assms(1) max_def)

lemma substitute_nesting:
  "substitute h ctx item d v = Inr w \<Longrightarrow> d + nesting v \<le> MAX_CONFIG_DEPTH"
proof (induction h ctx item d v arbitrary: w rule: substitute.induct)
  case (1 h ctx item d xs)
  then obtain ys where d: "\<not> MAX_CONFIG_DEPTH < d" and ys: "mapR (substitute h ctx item (d + 1)) xs = Inr ys"
    by (auto simp: bindR_Inr_iff split: if_splits)
  have "d + 1 + nesting x \<le> MAX_CONFIG_DEPTH" if "x \<in> set xs" for x
    using mapR_Inr_all [OF ys that] 1(1) [OF d that] by blast
  then show ?case using d unfolding nesting.simps by (intro nesting_le) auto
next
  case (2 h ctx item d ps)
  then obtain qs where d: "\<not> MAX_CONFIG_DEPTH < d"
    and qs: "mapR (\<lambda>(k, v). bindR (substitute h ctx item (d + 1) v) (\<lambda>w. Inr (k, w))) (sort_key fst ps) = Inr qs"
    by (auto simp: bindR_Inr_iff split: if_splits)
  have "d + 1 + nesting v \<le> MAX_CONFIG_DEPTH" if "(k, v) \<in> set ps" for k v
  proof -
    have mem: "(k, v) \<in> set (sort_key fst ps)" using that by simp
    obtain y where "bindR (substitute h ctx item (d + 1) v) (\<lambda>w. Inr (k, w)) = Inr y"
      using mapR_Inr_all [OF qs mem] by auto
    then show ?thesis using 2(1) [OF d mem refl] by (auto simp: bindR_Inr_iff)
  qed
  then show ?case using d unfolding nesting.simps by (intro nesting_le) auto
qed (auto split: if_splits)

text \<open>A configuration without strings and without the key \<open>__proto__\<close> keeps every own property.\<close>

lemma assign_keys_get:
  "map_of (foldl assign_key out qs) k =
     (if k = lit ''__proto__'' then map_of out k
      else case map_of (rev qs) k of Some v \<Rightarrow> Some v | None \<Rightarrow> map_of out k)"
  by (induction qs arbitrary: out)
    (auto simp: assign_key_def js_object.get_put map_add_def split: option.splits simp del: lit_simps)

lemma substitute_object_keys:
  assumes "substitute h ctx item d (JObj ps) = Inr (JObj qs)" "distinct (map fst ps)"
  shows "k \<in> fst ` set qs \<longleftrightarrow> k \<in> fst ` set ps \<and> k \<noteq> lit ''__proto__''"
proof -
  obtain rs where rs: "mapR (\<lambda>(k, v). bindR (substitute h ctx item (d + 1) v) (\<lambda>w. Inr (k, w)))
      (sort_key fst ps) = Inr rs" and qs: "qs = foldl assign_key [] rs"
    using assms by (auto simp: bindR_Inr_iff split: if_splits)
  have "map fst rs = map fst (sort_key fst ps)"
  proof (rule nth_equalityI)
    show len: "length (map fst rs) = length (map fst (sort_key fst ps))" using mapR_length [OF rs] by simp
    show "map fst rs ! i = map fst (sort_key fst ps) ! i" if "i < length (map fst rs)" for i
      using that len mapR_Inr_nth [OF rs, of i] by (auto simp: bindR_Inr_iff split: prod.splits)
        (metis fst_conv)
  qed
  then have keys: "fst ` set rs = fst ` set ps" by (metis list.set_map set_sort)
  have "k \<in> fst ` set qs \<longleftrightarrow> map_of qs k \<noteq> None" by (simp add: map_of_eq_None_iff)
  also have "\<dots> \<longleftrightarrow> k \<noteq> lit ''__proto__'' \<and> k \<in> fst ` set rs"
    unfolding qs assign_keys_get
    by (auto simp: map_of_eq_None_iff simp del: lit_simps split: option.splits dest: map_of_SomeD)
      (metis (no_types, lifting) fst_conv image_eqI map_of_eq_None_iff option.distinct(1) set_rev)+
  finally show ?thesis using keys by blast
qed

end
