(* ===== verification/RunParams.thy ===== *)
theory RunParams
  imports Evaluator
begin

text \<open>
  The values a run starts with and the values it writes, \<open>engine/params.ts\<close>: the
  resolution of run parameters (\<open>resolveRunParams\<close>), the coercion to a declared type that
  parameters, variables and return values share, and the check that a value survives the
  event log (\<open>jsonReplaySafetyErrors\<close>). A \<open>ParamResolveError\<close> is a \<open>param_error\<close>.
\<close>

section \<open>Coercion to a declared type\<close>

datatype param_error =
    UndeclaredOverride jstr | RequiredUnset jstr | BadSecretLabel jstr | ExpectedNumber jstr
  | ExpectedBoolean jstr | ExpectedString jstr | SecretCoerced jstr

definition coerce_value :: "jstr \<Rightarrow> param_type \<Rightarrow> jval \<Rightarrow> (param_error, jval) result" where
  "coerce_value name t v =
     (case t of
        PNumber \<Rightarrow>
          (case v of
             JNum n \<Rightarrow> if is_finite n then Inr (JNum n) else Inl (ExpectedNumber name)
           | JStr s \<Rightarrow>
               (case parse_decimal False (trim s) of
                  Some n \<Rightarrow> if is_finite n then Inr (JNum n) else Inl (ExpectedNumber name)
                | None \<Rightarrow> Inl (ExpectedNumber name))
           | _ \<Rightarrow> Inl (ExpectedNumber name))
      | PBoolean \<Rightarrow>
          (case v of
             JBool b \<Rightarrow> Inr (JBool b)
           | JStr s \<Rightarrow> if s = lit ''true'' then Inr (JBool True)
                       else if s = lit ''false'' then Inr (JBool False)
                       else Inl (ExpectedBoolean name)
           | _ \<Rightarrow> Inl (ExpectedBoolean name))
      | PString \<Rightarrow> (case v of JStr s \<Rightarrow> Inr (JStr s) | _ \<Rightarrow> Inl (ExpectedString name))
      | PJson \<Rightarrow> Inr v
      | PSecret \<Rightarrow> Inl (SecretCoerced name))"

lemma coerce_value_type: "coerce_value name t v = Inr w \<Longrightarrow> matchesSig w (sigOfDeclared t)"
  by (auto simp: coerce_value_def sigOfDeclared_def split: param_type.splits jval.splits option.splits if_splits)

lemma coerce_value_idem:
  "coerce_value name t v = Inr w \<Longrightarrow> coerce_value name' t w = Inr w"
  by (auto simp: coerce_value_def split: param_type.splits jval.splits option.splits if_splits)

section \<open>Run parameters\<close>

record param =
  p_name :: jstr
  p_type :: param_type
  p_required :: bool
  p_default :: "jval option"

text \<open>\<open>Map.set\<close>: a key that is present keeps its place.\<close>

fun map_set :: "'k \<Rightarrow> 'v \<Rightarrow> ('k \<times> 'v) list \<Rightarrow> ('k \<times> 'v) list" where
  "map_set k v [] = [(k, v)]"
| "map_set k v ((k', v') # ps) = (if k' = k then (k, v) # ps else (k', v') # map_set k v ps)"

definition params_by_name :: "param list \<Rightarrow> (jstr \<times> param) list" where
  "params_by_name ps = foldl (\<lambda>m p. map_set (p_name p) p m) [] ps"

definition is_secret_label :: "jval \<Rightarrow> bool" where
  "is_secret_label v \<longleftrightarrow>
     (case v of
        JStr s \<Rightarrow> s \<noteq> [] \<and> length s \<le> 64
                  \<and> list_all (\<lambda>u. is_letter u \<or> is_digit u \<or> u = 46 \<or> u = 95 \<or> u = 45) s
      | _ \<Rightarrow> False)"

text \<open>One round of the loop: the value to store, or nothing.\<close>

definition resolve_param :: "jobj \<Rightarrow> jstr \<times> param \<Rightarrow> (param_error, jval option) result" where
  "resolve_param overrides np =
     (let name = fst np; p = snd np;
          value = (case map_of overrides name of Some v \<Rightarrow> Some v | None \<Rightarrow> p_default p)
      in case value of
           None \<Rightarrow> if p_required p then Inl (RequiredUnset name) else Inr None
         | Some v \<Rightarrow>
             if p_type p = PSecret
             then (if \<not> is_secret_label v then Inl (BadSecretLabel name) else Inr None)
             else bindR (coerce_value name (p_type p) v) (\<lambda>w. Inr (Some w)))"

fun resolve_params :: "jobj \<Rightarrow> jobj \<Rightarrow> (jstr \<times> param) list \<Rightarrow> (param_error, jobj) result" where
  "resolve_params overrides out [] = Inr out"
| "resolve_params overrides out (np # nps) =
     bindR (resolve_param overrides np) (\<lambda>r.
       resolve_params overrides
         (case r of None \<Rightarrow> out | Some w \<Rightarrow> assign_key out (fst np, w)) nps)"

definition resolveRunParams :: "param list \<Rightarrow> jobj \<Rightarrow> (param_error, jobj) result" where
  "resolveRunParams ps overrides =
     (let byName = params_by_name ps
      in case find (\<lambda>k. k \<notin> fst ` set byName) (map fst overrides) of
           Some k \<Rightarrow> Inl (UndeclaredOverride k)
         | None \<Rightarrow> resolve_params overrides [] byName)"

definition paramDefaultDefect :: "param \<Rightarrow> param_error option" where
  "paramDefaultDefect p =
     (if p_default p = None then None
      else case resolveRunParams [p] [] of Inl e \<Rightarrow> Some e | Inr _ \<Rightarrow> None)"

lemma map_of_map_set: "map_of (map_set k v ps) = (map_of ps)(k \<mapsto> v)"
  by (induction k v ps rule: map_set.induct) (auto simp: fun_eq_iff)

interpretation js_map: keyed_store map_of map_set
  by unfold_locales (simp_all add: map_of_map_set)

lemma keys_map_set: "fst ` set (map_set k v ps) = insert k (fst ` set ps)"
  by (induction k v ps rule: map_set.induct) auto

lemma distinct_map_set: "distinct (map fst ps) \<Longrightarrow> distinct (map fst (map_set k v ps))"
proof (induction k v ps rule: map_set.induct)
  case (2 k v k' v' ps)
  then show ?case using keys_map_set [of k v ps] by (auto simp: image_iff)
qed simp

lemma params_by_name_snoc: "params_by_name (ps @ [p]) = map_set (p_name p) p (params_by_name ps)"
  by (simp add: params_by_name_def)

lemma params_by_name_facts:
  "distinct (map fst (params_by_name ps))"
  "(k, p) \<in> set (params_by_name ps) \<Longrightarrow> p \<in> set ps \<and> p_name p = k"
  "p \<in> set ps \<Longrightarrow> p_name p \<in> fst ` set (params_by_name ps)"
proof -
  show d: "distinct (map fst (params_by_name ps))"
    by (induction ps rule: rev_induct) (simp_all add: params_by_name_def distinct_map_set)
  have sub: "set (map_set k v qs) \<subseteq> insert (k, v) (set qs)" for k :: jstr and v :: param and qs
    by (induction k v qs rule: map_set.induct) auto
  show "(k, p) \<in> set (params_by_name ps) \<Longrightarrow> p \<in> set ps \<and> p_name p = k"
  proof (induction ps rule: rev_induct)
    case (snoc q ps)
    then show ?case
      using sub [of "p_name q" q "params_by_name ps"] by (auto simp: params_by_name_snoc)
  qed (simp add: params_by_name_def)
  show "p \<in> set ps \<Longrightarrow> p_name p \<in> fst ` set (params_by_name ps)"
    by (induction ps rule: rev_induct) (auto simp: params_by_name_snoc keys_map_set)
qed

text \<open>What one stored value is: coerced from the override if there is one, else from the default.\<close>

definition param_value :: "jobj \<Rightarrow> jstr \<Rightarrow> param \<Rightarrow> jval option" where
  "param_value overrides k p =
     (case map_of overrides k of Some v \<Rightarrow> Some v | None \<Rightarrow> p_default p)"

lemma resolve_params_get:
  "resolve_params overrides out nps = Inr r \<Longrightarrow> distinct (map fst nps) \<Longrightarrow>
     map_of r k =
       (if k = lit ''__proto__'' then map_of out k
        else case map_of nps k of
               None \<Rightarrow> map_of out k
             | Some p \<Rightarrow> (case resolve_param overrides (k, p) of Inr (Some w) \<Rightarrow> Some w | _ \<Rightarrow> map_of out k))"
proof (induction overrides out nps rule: resolve_params.induct)
  case (2 overrides out np nps)
  obtain n p where np: "np = (n, p)" by fastforce
  from 2(2) obtain x where x: "resolve_param overrides np = Inr x"
    and rest: "resolve_params overrides (case x of None \<Rightarrow> out | Some w \<Rightarrow> assign_key out (fst np, w)) nps = Inr r"
    by (auto simp: bindR_Inr_iff)
  have ih: "map_of r k =
       (if k = lit ''__proto__'' then map_of (case x of None \<Rightarrow> out | Some w \<Rightarrow> assign_key out (fst np, w)) k
        else case map_of nps k of
               None \<Rightarrow> map_of (case x of None \<Rightarrow> out | Some w \<Rightarrow> assign_key out (fst np, w)) k
             | Some p \<Rightarrow> (case resolve_param overrides (k, p) of Inr (Some w) \<Rightarrow> Some w
                          | _ \<Rightarrow> map_of (case x of None \<Rightarrow> out | Some w \<Rightarrow> assign_key out (fst np, w)) k))"
    using 2(1) [OF x rest] 2(3) by simp
  have out: "map_of (case x of None \<Rightarrow> out | Some w \<Rightarrow> assign_key out (n, w)) k =
      (if k = n \<and> k \<noteq> lit ''__proto__'' then (case x of None \<Rightarrow> map_of out k | Some w \<Rightarrow> Some w) else map_of out k)"
    by (auto simp: assign_key_def js_object.get_put split: option.split simp del: lit_simps)
  have absent: "map_of nps n = None" using 2(3) np by (simp add: map_of_eq_None_iff)
  show ?case
    unfolding ih np fst_conv out
    using absent x np by (auto split: option.split sum.split simp del: lit_simps)
qed (auto split: option.split)

lemma resolve_param_Some:
  "resolve_param overrides (k, p) = Inr (Some w) \<longleftrightarrow>
     (\<exists>v. param_value overrides k p = Some v \<and> p_type p \<noteq> PSecret \<and> coerce_value k (p_type p) v = Inr w)"
  by (auto simp: resolve_param_def param_value_def Let_def bindR_Inr_iff split: option.splits)

lemma resolved_params:
  assumes "resolveRunParams ps overrides = Inr r"
  shows "map_of r k = Some w \<longleftrightarrow>
    k \<noteq> lit ''__proto__'' \<and>
    (\<exists>p v. map_of (params_by_name ps) k = Some p \<and> param_value overrides k p = Some v
       \<and> p_type p \<noteq> PSecret \<and> coerce_value k (p_type p) v = Inr w)"
proof -
  have r: "resolve_params overrides [] (params_by_name ps) = Inr r"
    using assms by (auto simp: resolveRunParams_def Let_def split: option.splits)
  show ?thesis
    unfolding resolve_params_get [OF r params_by_name_facts(1)]
    by (auto simp: resolve_param_Some split: option.splits sum.splits simp del: lit_simps)
      (metis (no_types, lifting) resolve_param_Some option.inject sum.inject(2) option.distinct(1) Inr_Inl_False)+
qed

section \<open>Values of variables and return values\<close>

datatype value_mode = VLiteral | VWhole | VInterpolated

definition variableValueMode :: "jstr \<Rightarrow> value_mode option" where
  "variableValueMode raw =
     (case interpolationMode raw of
        Literal _ _ _ \<Rightarrow> Some VLiteral
      | Whole _ _ _ _ \<Rightarrow> Some VWhole
      | Interpolated _ _ unterminatedAt \<Rightarrow> if unterminatedAt \<noteq> None then None else Some VInterpolated)"

fun mode_scanned :: "template_mode \<Rightarrow> jstr" where
  "mode_scanned (Literal scanned _ _) = scanned"
| "mode_scanned (Whole scanned _ _ _) = scanned"
| "mode_scanned (Interpolated scanned _ _) = scanned"

definition variableLiteralText :: "jstr \<Rightarrow> jstr" where
  "variableLiteralText raw = restoreEscapes (mode_scanned (interpolationMode raw))"

datatype variable_type = VString | VNumber | VBoolean | VArray

definition sig_of_variable :: "variable_type \<Rightarrow> sig_type" where
  "sig_of_variable t =
     (case t of VString \<Rightarrow> SString | VNumber \<Rightarrow> SNumber | VBoolean \<Rightarrow> SBoolean | VArray \<Rightarrow> SArray)"

definition param_of_variable :: "variable_type \<Rightarrow> param_type" where
  "param_of_variable t =
     (case t of VString \<Rightarrow> PString | VNumber \<Rightarrow> PNumber | VBoolean \<Rightarrow> PBoolean | VArray \<Rightarrow> PJson)"

datatype write_error =
    WrongValueType | TemplateIsString | NoArrayLiteral | LiteralMismatch param_error | NotJsonOfKind

definition coerceVariableValue :: "jstr \<Rightarrow> variable_type \<Rightarrow> value_mode \<Rightarrow> jval \<Rightarrow> (write_error, jval) result" where
  "coerceVariableValue name t mode resolved =
     (case mode of
        VWhole \<Rightarrow> if matchesSig resolved (sig_of_variable t) then Inr resolved else Inl WrongValueType
      | VInterpolated \<Rightarrow> if t = VString then Inr resolved else Inl TemplateIsString
      | VLiteral \<Rightarrow>
          if t = VArray then Inl NoArrayLiteral
          else (case coerce_value name (param_of_variable t) resolved of
                  Inr v \<Rightarrow> Inr v
                | Inl e \<Rightarrow> Inl (LiteralMismatch e)))"

datatype return_type = RetString | RetNumber | RetBoolean | RetArray | RetObject | RetNull

definition variable_of_return :: "return_type \<Rightarrow> variable_type" where
  "variable_of_return t =
     (case t of RetNumber \<Rightarrow> VNumber | RetBoolean \<Rightarrow> VBoolean | _ \<Rightarrow> VString)"

definition is_return_kind :: "return_type \<Rightarrow> jval \<Rightarrow> bool" where
  "is_return_kind t v = (if t = RetArray then matchesSig v SArray else isPlainObject v)"

text \<open>In literal mode \<open>resolved\<close> is the text of the field, a string.\<close>

definition coerceReturnValue :: "jstr \<Rightarrow> return_type \<Rightarrow> value_mode \<Rightarrow> jval \<Rightarrow> (write_error, jval) result" where
  "coerceReturnValue key t mode resolved =
     (if t = RetNull then Inr JNull
      else if t \<noteq> RetArray \<and> t \<noteq> RetObject
      then coerceVariableValue key (variable_of_return t) mode resolved
      else case mode of
             VWhole \<Rightarrow> if is_return_kind t resolved then Inr resolved else Inl WrongValueType
           | VInterpolated \<Rightarrow> Inl TemplateIsString
           | VLiteral \<Rightarrow>
               (case json_parse (as_str resolved) of
                  Some v \<Rightarrow> if is_return_kind t v then Inr v else Inl NotJsonOfKind
                | None \<Rightarrow> Inl NotJsonOfKind))"

text \<open>Whatever the mode, a value that is written has the declared type.\<close>

lemma coerceVariableValue_type:
  "coerceVariableValue name t mode v = Inr w \<Longrightarrow> mode = VInterpolated \<longrightarrow> matchesSig v SString \<Longrightarrow>
     matchesSig w (sig_of_variable t)"
  by (auto simp: coerceVariableValue_def sig_of_variable_def param_of_variable_def sigOfDeclared_def
      split: value_mode.splits if_splits sum.splits variable_type.splits dest!: coerce_value_type)

definition matches_return :: "return_type \<Rightarrow> jval \<Rightarrow> bool" where
  "matches_return t v =
     (case t of
        RetNull \<Rightarrow> v = JNull
      | RetObject \<Rightarrow> isPlainObject v
      | RetArray \<Rightarrow> matchesSig v SArray
      | _ \<Rightarrow> matchesSig v (sig_of_variable (variable_of_return t)))"

lemma coerceReturnValue_type:
  "coerceReturnValue k t mode v = Inr w \<Longrightarrow> mode = VInterpolated \<longrightarrow> matchesSig v SString \<Longrightarrow>
     matches_return t w"
proof (cases "t = RetNull \<or> t = RetArray \<or> t = RetObject")
  case True
  moreover assume "coerceReturnValue k t mode v = Inr w"
  ultimately show ?thesis
    by (auto simp: coerceReturnValue_def matches_return_def is_return_kind_def
        split: value_mode.splits if_splits option.splits)
next
  case False
  moreover assume a: "coerceReturnValue k t mode v = Inr w" "mode = VInterpolated \<longrightarrow> matchesSig v SString"
  ultimately have "coerceVariableValue k (variable_of_return t) mode v = Inr w"
    by (simp add: coerceReturnValue_def)
  then have "matchesSig w (sig_of_variable (variable_of_return t))"
    using a(2) by (rule coerceVariableValue_type)
  then show ?thesis using False by (cases t) (simp_all add: matches_return_def)
qed

section \<open>Values the event log can keep\<close>

datatype replay_error = ReplayTooDeep jstr | NonFinite jstr

lemma zip_upt_member [termination_simp]: "(i, v) \<in> set (zip [0..<n] xs) \<Longrightarrow> size v < Suc (size_list size xs)"
  using size_list_estimation' [of v xs "size v" size] by (auto dest!: set_zip_rightD simp: less_Suc_eq_le)

fun walkReplaySafe :: "jstr \<Rightarrow> nat \<Rightarrow> jval \<Rightarrow> replay_error list" where
  "walkReplaySafe loc depth (JNum n) =
     (if MAX_CONFIG_DEPTH < depth then [ReplayTooDeep loc]
      else if \<not> is_finite n then [NonFinite loc] else [])"
| "walkReplaySafe loc depth (JArr xs) =
     (if MAX_CONFIG_DEPTH < depth then [ReplayTooDeep loc]
      else concat (map (\<lambda>(i, v). walkReplaySafe (loc @ [91] @ nat_digits i @ [93]) (depth + 1) v)
                       (zip [0..<length xs] xs)))"
| "walkReplaySafe loc depth (JObj ps) =
     (if MAX_CONFIG_DEPTH < depth then [ReplayTooDeep loc]
      else concat (map (\<lambda>(k, v). walkReplaySafe (loc @ [46] @ k) (depth + 1) v) (sort_key fst ps)))"
| "walkReplaySafe loc depth v = (if MAX_CONFIG_DEPTH < depth then [ReplayTooDeep loc] else [])"

definition jsonReplaySafetyErrors :: "jstr \<Rightarrow> jval \<Rightarrow> replay_error list" where
  "jsonReplaySafetyErrors loc v = walkReplaySafe loc 0 v"

text \<open>The numbers inside a value.\<close>

fun all_finite :: "jval \<Rightarrow> bool" where
  "all_finite (JNum n) = is_finite n"
| "all_finite (JArr xs) = list_all all_finite xs"
| "all_finite (JObj ps) = list_all (\<lambda>(k, v). all_finite v) ps"
| "all_finite v = True"

lemma nesting_le_iff:
  "d + foldr max (map f xs) 0 \<le> n \<longleftrightarrow> d \<le> n \<and> (\<forall>x \<in> set xs. d + f x \<le> (n :: nat))"
  by (induction xs) (auto simp: max_def)

lemma zip_upt_Ball: "(\<forall>(i, v) \<in> set (zip [0..<length xs] xs). P v) \<longleftrightarrow> (\<forall>v \<in> set xs. P v)"
proof -
  have "snd ` set (zip [0..<length xs] xs) = set xs" by (simp flip: set_map)
  then show ?thesis by (auto simp: case_prod_beta') (metis imageE imageI)
qed

lemma walkReplaySafe_iff:
  "walkReplaySafe loc d v = [] \<longleftrightarrow> d + nesting v \<le> MAX_CONFIG_DEPTH \<and> all_finite v"
proof (induction loc d v rule: walkReplaySafe.induct)
  case (2 loc d xs)
  have ih: "walkReplaySafe (loc @ [91] @ nat_digits i @ [93]) (d + 1) v = [] \<longleftrightarrow>
      d + 1 + nesting v \<le> MAX_CONFIG_DEPTH \<and> all_finite v"
    if "\<not> MAX_CONFIG_DEPTH < d" "(i, v) \<in> set (zip [0..<length xs] xs)" for i v
    using 2 [OF that refl] .
  have "walkReplaySafe loc d (JArr xs) = [] \<longleftrightarrow>
      d \<le> MAX_CONFIG_DEPTH \<and> (\<forall>(i, v) \<in> set (zip [0..<length xs] xs). d + 1 + nesting v \<le> MAX_CONFIG_DEPTH \<and> all_finite v)"
    using ih by (cases "MAX_CONFIG_DEPTH < d") (simp, fastforce)
  also have "\<dots> \<longleftrightarrow> d \<le> MAX_CONFIG_DEPTH \<and> (\<forall>v \<in> set xs. d + Suc (nesting v) \<le> MAX_CONFIG_DEPTH \<and> all_finite v)"
    unfolding zip_upt_Ball by simp
  also have "\<dots> \<longleftrightarrow> d + nesting (JArr xs) \<le> MAX_CONFIG_DEPTH \<and> all_finite (JArr xs)"
    unfolding nesting.simps nesting_le_iff by (auto simp: list_all_iff)
  finally show ?case .
next
  case (3 loc d ps)
  have ih: "walkReplaySafe (loc @ [46] @ k) (d + 1) v = [] \<longleftrightarrow>
      d + 1 + nesting v \<le> MAX_CONFIG_DEPTH \<and> all_finite v"
    if "\<not> MAX_CONFIG_DEPTH < d" "(k, v) \<in> set (sort_key fst ps)" for k v
    using 3 [OF that refl] .
  have "walkReplaySafe loc d (JObj ps) = [] \<longleftrightarrow>
      d \<le> MAX_CONFIG_DEPTH \<and> (\<forall>(k, v) \<in> set ps. d + 1 + nesting v \<le> MAX_CONFIG_DEPTH \<and> all_finite v)"
    using ih by (cases "MAX_CONFIG_DEPTH < d") (simp, fastforce)
  also have "\<dots> \<longleftrightarrow> d + nesting (JObj ps) \<le> MAX_CONFIG_DEPTH \<and> all_finite (JObj ps)"
    unfolding nesting.simps nesting_le_iff by (auto simp: list_all_iff)
  finally show ?case .
qed auto

end
