(* ===== verification/InstanceKey.thy ===== *)
theory InstanceKey
  imports JsNumber
begin

text \<open>
  The keys of per-item instances of a parallel foreach, \<open>engine/instance-key.ts\<close>: a body
  node's state for item \<open>i\<close> lives under \<open><docNodeId>@<i>\<close>.
\<close>

definition instanceKey :: "jstr \<Rightarrow> nat \<Rightarrow> jstr" where
  "instanceKey docId itemIndex = docId @ [64] @ nat_digits itemIndex"

text \<open>The characters the \<open>.\<close> of a regular expression without the \<open>s\<close> flag does not match.\<close>

definition is_line_end :: "nat \<Rightarrow> bool" where
  "is_line_end u \<longleftrightarrow> u = 10 \<or> u = 13 \<or> u = 8232 \<or> u = 8233"

text \<open>The match of \<open>/^(.+)@(\d+)$/\<close>: the digits at the end, an \<open>@\<close>, and a line in front of it.\<close>

definition parseInstanceKey :: "jstr \<Rightarrow> (jstr \<times> jnum) option" where
  "parseInstanceKey s =
     (let ds = rev (takeWhile is_digit (rev s)); rest = rev (dropWhile is_digit (rev s))
      in if ds \<noteq> [] \<and> rest \<noteq> [] \<and> last rest = 64 \<and> butlast rest \<noteq> []
            \<and> list_all (\<lambda>u. \<not> is_line_end u) (butlast rest)
         then Some (butlast rest, jnum_of_nat (digits_val ds)) else None)"

definition docNodeIdOf :: "jstr \<Rightarrow> jstr" where
  "docNodeIdOf s = (case parseInstanceKey s of Some (d, _) \<Rightarrow> d | None \<Rightarrow> s)"

definition resolveDocNode :: "('n \<Rightarrow> jstr) \<Rightarrow> 'n list \<Rightarrow> jstr \<Rightarrow> 'n option" where
  "resolveDocNode idOf nodes s =
     (case find (\<lambda>n. idOf n = s) nodes of
        Some n \<Rightarrow> Some n
      | None \<Rightarrow> find (\<lambda>n. idOf n = docNodeIdOf s) nodes)"

text \<open>Document ids that make instance keys: a line that is not empty.\<close>

definition doc_id :: "jstr \<Rightarrow> bool" where
  "doc_id d \<longleftrightarrow> d \<noteq> [] \<and> list_all (\<lambda>u. \<not> is_line_end u) d"

lemma key_parts:
  "takeWhile is_digit (rev (d @ [64] @ nat_digits i)) = rev (nat_digits i)"
  "dropWhile is_digit (rev (d @ [64] @ nat_digits i)) = 64 # rev d"
proof -
  have all: "\<forall>u \<in> set (rev (nat_digits i)). is_digit u"
    using nat_digits_all [of i] by (simp add: list_all_iff)
  have "\<not> is_digit 64" by (simp add: is_digit_def)
  then have stop: "takeWhile is_digit (64 # rev d) = []" "dropWhile is_digit (64 # rev d) = 64 # rev d"
    by simp_all
  have swap: "rev (d @ [64] @ nat_digits i) = rev (nat_digits i) @ 64 # rev d" by simp
  show "takeWhile is_digit (rev (d @ [64] @ nat_digits i)) = rev (nat_digits i)"
    "dropWhile is_digit (rev (d @ [64] @ nat_digits i)) = 64 # rev d"
    unfolding swap using all stop by (simp_all only: takeWhile_append2 dropWhile_append2 append_Nil2)
qed

lemma parse_instanceKey:
  assumes "doc_id d" "int i \<le> 2 ^ 53"
  shows "parseInstanceKey (instanceKey d i) = Some (d, Fin (of_nat i))"
proof -
  have "jnum_of_nat i = Fin (of_nat i)" using jnum_of_int_exact [of "int i"] assms(2) by simp
  then show ?thesis
    using assms(1) key_parts [of d i]
    by (simp add: parseInstanceKey_def instanceKey_def Let_def digits_val_nat_digits doc_id_def)
qed

lemma parse_other: "\<not> doc_id d \<Longrightarrow> parseInstanceKey (instanceKey d i) = None"
  using key_parts [of d i] by (auto simp: parseInstanceKey_def instanceKey_def Let_def doc_id_def)

definition key_decode :: "jstr \<Rightarrow> (unit, jstr \<times> jnum) result" where
  "key_decode s = (case parseInstanceKey s of Some p \<Rightarrow> Inr p | None \<Rightarrow> Inl ())"

text \<open>The item index of a key, as the number the parser gives.\<close>

definition key_index :: "jnum \<Rightarrow> bool" where
  "key_index n \<longleftrightarrow> (case n of Fin q \<Rightarrow> q = of_nat (nat \<lfloor>q\<rfloor>) \<and> q \<le> 2 ^ 53 | _ \<Rightarrow> False)"

interpretation instance_key: codec "\<lambda>(d, n). instanceKey d (nat (int_of_jnum n))" key_decode
  "\<lambda>(d, n). doc_id d \<and> key_index n"
proof
  fix x :: "jstr \<times> jnum"
  assume a: "case x of (d, n) \<Rightarrow> doc_id d \<and> key_index n"
  obtain d n where x: "x = (d, n)" by fastforce
  have k: "key_index n" using a x by simp
  then obtain q where n: "n = Fin q" by (cases n) (simp_all add: key_index_def)
  have q: "q = of_nat (nat \<lfloor>q\<rfloor>)" "q \<le> 2 ^ 53"
    using k unfolding key_index_def n jnum.case by blast+
  define i where "i = nat \<lfloor>q\<rfloor>"
  have qi: "q = of_nat i" using q by (simp add: i_def)
  have "int i \<le> 2 ^ 53" using q(2) unfolding qi by (metis of_int_of_nat_eq of_int_le_numeral_power_cancel_iff)
  then show "key_decode (case x of (d, n) \<Rightarrow> instanceKey d (nat (int_of_jnum n))) = Inr x"
    using parse_instanceKey [of d i] a x n qi by (simp add: key_decode_def int_of_jnum_def)
qed

lemma docNodeIdOf_key: "doc_id d \<Longrightarrow> docNodeIdOf (instanceKey d i) = d"
  using key_parts [of d i]
  by (simp add: docNodeIdOf_def parseInstanceKey_def instanceKey_def Let_def doc_id_def)

lemma instanceKey_inj:
  assumes "instanceKey d i = instanceKey e j"
  shows "d = e \<and> i = j"
proof -
  have "rev (nat_digits i) = rev (nat_digits j)" "64 # rev d = 64 # rev e"
    using key_parts [of d i] key_parts [of e j] assms unfolding instanceKey_def by metis+
  then show ?thesis by (metis digits_val_nat_digits list.inject rev_rev_ident)
qed

text \<open>
  An instance key resolves to its document node, unless a node literally carries the key
  as its id: then that node wins.
\<close>

lemma resolveDocNode_key:
  assumes "doc_id d" "\<forall>n \<in> set nodes. idOf n \<noteq> instanceKey d i"
  shows "resolveDocNode idOf nodes (instanceKey d i) = find (\<lambda>n. idOf n = d) nodes"
proof -
  have "find (\<lambda>n. idOf n = instanceKey d i) nodes = None" using assms(2) by (simp add: find_None_iff)
  then show ?thesis by (simp add: resolveDocNode_def docNodeIdOf_key [OF assms(1)])
qed

lemma resolveDocNode_exact:
  "find (\<lambda>n. idOf n = s) nodes = Some n \<Longrightarrow> resolveDocNode idOf nodes s = Some n"
  by (simp add: resolveDocNode_def)

end
