(* ===== verification/LanguageProperties.thy ===== *)
theory LanguageProperties
  imports RunParams InstanceKey
begin

text \<open>
  The properties of the \<open>${}\<close> language and of the values a run starts with. Each statement is
  over the definitions of the components below and is proved from their lemmas; a property
  with a hypothesis has a witness at a concrete input.
\<close>

text \<open>A host for the witnesses: case mapping is the identity, nothing is inherited.\<close>

definition plain_host :: host where
  "plain_host = \<lparr>h_lower = id, h_upper = id, h_inherited = \<lambda>_ _. None\<rparr>"

section \<open>Substitution\<close>

text \<open>
  C37: an interpolated field is resolved in one inert pass: its expressions are evaluated from
  left to right in one budget, their texts are spliced between the literal parts of the scanned
  template, and nothing in a spliced text is scanned again.
\<close>

theorem substitute_one_pass:
  assumes "interpolationMode s = Interpolated scanned ms None" "depth \<le> MAX_CONFIG_DEPTH"
    and "fst (match_values h (newEnv ctx item) ms 0) = Inr vs"
  shows "substitute h ctx item depth (JStr s) =
    Inr (JStr (restoreEscapes (splice_texts (map toStr vs) scanned 0 ms)))"
proof -
  have "fst (interpolate h (newEnv ctx item) scanned 0 ms 0) = Inr (splice_texts (map toStr vs) scanned 0 ms)"
    unfolding interpolate_values using assms(3)
    by (cases "match_values h (newEnv ctx item) ms 0") (simp add: bindE_def retE_def)
  then show ?thesis using assms(1,2) by (simp add: substitute_field_def)
qed

lemma one_ref_mode:
  "interpolationMode (lit ''a${true}b'') =
     Interpolated (lit ''a${true}b'') [\<lparr>m_start = 1, m_end = 7, m_body = lit ''true''\<rparr>] None"
  by code_simp

theorem substitute_one_pass_witness:
  "substitute plain_host empty_ctx None 0 (JStr (lit ''a${true}b'')) = Inr (JStr (lit ''atrueb''))"
proof -
  have p: "parseExpr (lit ''true'') = Inr (EBool True)" by code_simp
  have "fst (match_values plain_host (newEnv empty_ctx None)
      [\<lparr>m_start = 1, m_end = 7, m_body = lit ''true''\<rparr>] 0) = Inr [JBool True]"
    by (simp add: p charged_def charge_def bindE_def retE_def liftE_def del: lit_simps)
  from substitute_one_pass [OF one_ref_mode le0 this]
  have "substitute plain_host empty_ctx None 0 (JStr (lit ''a${true}b'')) =
    Inr (JStr (restoreEscapes (splice_texts (map toStr [JBool True]) (lit ''a${true}b'') 0
      [\<lparr>m_start = 1, m_end = 7, m_body = lit ''true''\<rparr>])))" .
  also have "restoreEscapes (splice_texts (map toStr [JBool True]) (lit ''a${true}b'') 0
      [\<lparr>m_start = 1, m_end = 7, m_body = lit ''true''\<rparr>]) = lit ''atrueb''"
    by code_simp
  finally show ?thesis .
qed

text \<open>
  Text without an opening \<open>${\<close> and without the sentinel is returned unchanged.
\<close>

theorem substitute_plain_text:
  assumes "index_of s REF_OPEN = None" "index_of s ESC = None" "depth \<le> MAX_CONFIG_DEPTH"
  shows "substitute h ctx item depth (JStr s) = Inr (JStr s)"
  using substitute_literal [OF assms] .

theorem substitute_plain_text_witness:
  "substitute plain_host empty_ctx None 3 (JStr (lit ''no refs'')) = Inr (JStr (lit ''no refs''))"
  by (rule substitute_plain_text) code_simp+

text \<open>
  Whatever is substituted was nested at most \<open>MAX_CONFIG_DEPTH\<close> levels deep: the recursion
  over a configuration never goes past its cap.
\<close>

theorem substitute_depth:
  "substitute h ctx item 0 v = Inr w \<Longrightarrow> nesting v \<le> MAX_CONFIG_DEPTH"
  using substitute_nesting [of h ctx item 0 v w] by simp

theorem substitute_depth_witness:
  "nesting (JArr [JNull]) \<le> MAX_CONFIG_DEPTH"
  by (rule substitute_depth [of plain_host empty_ctx None _ "JArr [JNull]"])
    (simp add: MAX_CONFIG_DEPTH_def)

text \<open>
  A resolved object has exactly the keys of the configured one, except \<open>__proto__\<close>, which
  the assignment \<open>out[k] = v\<close> never stores.
\<close>

theorem substitute_keys:
  assumes "substitute h ctx item d (JObj ps) = Inr (JObj qs)" "distinct (map fst ps)"
  shows "k \<in> fst ` set qs \<longleftrightarrow> k \<in> fst ` set ps \<and> k \<noteq> lit ''__proto__''"
  using substitute_object_keys [OF assms] .

theorem substitute_keys_witness:
  "(lit ''a'' \<in> fst ` set [(lit ''a'', JNull)]) \<longleftrightarrow>
     lit ''a'' \<in> fst ` set [(lit ''__proto__'', JNull), (lit ''a'', JNull)] \<and> lit ''a'' \<noteq> lit ''__proto__''"
  by (rule substitute_keys [of plain_host empty_ctx None 0]) code_simp+

section \<open>Evaluation\<close>

text \<open>
  C38: the budget of array elements only grows, an evaluation that returns has kept it within
  \<open>MAX_ARRAY_ELEMENTS_TOTAL\<close>, and an array it returns was charged its whole length.
\<close>

theorem eval_budget:
  assumes "evalExpr h e sc b = (Inr (JArr xs), b')" "b \<le> MAX_ARRAY_ELEMENTS_TOTAL"
  shows "b + length xs \<le> b' \<and> b' \<le> MAX_ARRAY_ELEMENTS_TOTAL"
  using eval_result_bound [OF assms] by blast

theorem eval_budget_witness:
  "1 + length [JNull] \<le> (2 :: nat) \<and> 2 \<le> MAX_ARRAY_ELEMENTS_TOTAL"
proof -
  have root: "refRoot (leadingFields [SField (lit ''item'')]) = Some RItem" by code_simp
  have "evalExpr plain_host (ERef (lit ''item'') [SField (lit ''item'')])
      (newEnv empty_ctx (Some (JArr [JNull]))) 1 = (Inr (JArr [JNull]), 2)"
    by (simp add: root resolveRef_def resolveRoot_def newEnv_def root_arity_def charged_def charge_def
        bindE_def retE_def liftE_def MAX_ARRAY_ELEMENTS_TOTAL_def MAX_PATH_DEPTH_def
        del: lit_simps leadingFields.simps)
  from eval_budget [OF this] show ?thesis by (simp add: MAX_ARRAY_ELEMENTS_TOTAL_def)
qed

text \<open>
  Unless a call names a member of \<open>Object.prototype\<close>, an evaluation either returns or throws
  a \<open>SubstituteError\<close>: no error of the host escapes it.
\<close>

theorem eval_throws_only_language_errors:
  "plain_calls h e \<Longrightarrow> fst (evalExpr h e sc b) \<noteq> Inl HostE"
  by (rule eval_no_crash)

theorem eval_throws_only_language_errors_witness:
  "fst (evalExpr plain_host (ECall (lit ''add'') [EStr (lit ''x'')]) (newEnv empty_ctx None) 0) \<noteq> Inl HostE"
  by (rule eval_throws_only_language_errors) code_simp

text \<open>
  C39: a call of a name that the catalog object inherits (such as \<open>constructor\<close>) is not reported
  as an unknown function: the lookup finds the inherited member and a raw \<open>TypeError\<close> escapes.
\<close>

theorem inherited_name_crashes:
  assumes "f \<in> set OBJECT_PROTOTYPE"
  shows "fst (evalExpr h (ECall f args) sc b) = Inl HostE"
proof -
  have "\<forall>g \<in> set OBJECT_PROTOTYPE. (fn_lookup h g :: thunk fn_lookup) = Inherited"
    by (simp add: OBJECT_PROTOTYPE_def fn_lookup_def FUNCTIONS_def lit_inj del: lit_simps)
  then have "(fn_lookup h f :: thunk fn_lookup) = Inherited" using assms by blast
  then show ?thesis by (simp add: eval_call_def charged_def bindE_def liftE_def)
qed

theorem inherited_name_crashes_witness:
  "fst (evalExpr plain_host (ECall (lit ''constructor'') []) (newEnv empty_ctx None) 0) = Inl HostE"
  by (rule inherited_name_crashes) code_simp

text \<open>
  A call that returns gives a value of the type its catalog entry declares.
\<close>

theorem call_result_type:
  assumes "evalExpr h (ECall f args) sc b = (Inr v, b')"
    and "(fn_lookup h f :: thunk fn_lookup) = Entry spec"
  shows "matchesSig v (fs_ret spec)"
  using call_ret_type [OF assms] .

theorem call_result_type_witness: "matchesSig (JBool False) (fs_ret (fn_not :: thunk fnspec))"
proof (rule call_result_type)
  show "evalExpr plain_host (ECall (lit ''not'') [EBool True]) (newEnv empty_ctx None) 0 = (Inr (JBool False), 0)"
    by (simp add: eval_call_def lookup_names checkArity_def arity_ok_def arity_def fn_not_def callEager_def
        checkArgTypes_def expect_def argSigAt_def eager_def charged_def charge_def bindE_def retE_def liftE_def
        wrap_host_def as_bool_def del: lit_simps)
  show "(fn_lookup plain_host (lit ''not'') :: thunk fn_lookup) = Entry fn_not"
    by (simp add: lookup_names del: lit_simps)
qed

text \<open>
  \<open>and\<close> stops at its first false argument: the arguments behind it are not evaluated, so
  they can neither throw nor spend the budget.
\<close>

theorem and_stops_early:
  assumes "run_and (map (evalExpr h) as) (evalIn sc) b = (Inr (JBool True), b1)"
    and "evalExpr h e sc b1 = (Inr (JBool False), b2)" and "bs \<noteq> []"
  shows "evalExpr h (ECall (lit ''and'') (as @ e # bs)) sc b = (Inr (JBool False), b2)"
  using and_short_circuit [OF assms] .

theorem and_stops_early_witness:
  "evalExpr plain_host (ECall (lit ''and'') ([] @ EBool False # [ECall (lit ''constructor'') []]))
     (newEnv empty_ctx None) 0 = (Inr (JBool False), 0)"
  by (rule and_stops_early)
    (simp_all add: charged_def charge_def bindE_def retE_def)

text \<open>
  \<open>default(e, d)\<close> gives \<open>d\<close> when the evaluation of \<open>e\<close> meets a missing value; any other
  error of \<open>e\<close> is not rescued.
\<close>

theorem default_rescues_missing:
  assumes "evalExpr h e sc b = (Inl x, b1)"
  shows "fst (evalExpr h (ECall (lit ''default'') [e, d]) sc b) =
    (case x of MissingE r \<Rightarrow> fst (charged (wrap_host (lit ''default'') (evalExpr h d sc)) b1)
     | SubstituteE r \<Rightarrow> Inl (SubstituteE r)
     | HostE \<Rightarrow> throw_eval (FunctionFailed (lit ''default'')))"
  unfolding eval_default using assms
  by (cases x) (simp_all add: soft_def charged_def wrap_host_def bindE_def del: lit_simps)

theorem default_rescues_missing_witness:
  "fst (evalExpr plain_host (ECall (lit ''default'')
       [ERef (lit ''nodes.a.output.x'') [SField (lit ''nodes''), SField (lit ''a''), SField (lit ''output''), SField (lit ''x'')],
        EBool True]) (newEnv empty_ctx None) 0) = Inr (JBool True)"
proof -
  have root: "refRoot (leadingFields [SField (lit ''nodes''), SField (lit ''a''), SField (lit ''output''), SField (lit ''x'')])
      = Some (RNodeOutput (lit ''a'') (lit ''x''))" by code_simp
  have "evalExpr plain_host (ERef (lit ''nodes.a.output.x'')
      [SField (lit ''nodes''), SField (lit ''a''), SField (lit ''output''), SField (lit ''x'')]) (newEnv empty_ctx None) 0 =
    (throw_missing (RootReason (MissingOutput (lit ''a'') (lit ''x''))), 0)"
    by (simp add: root resolveRef_def resolveRoot_def newEnv_def empty_ctx_def charged_def
        OBJECT_PROTOTYPE_def lit_inj bindE_def liftE_def MAX_PATH_DEPTH_def del: leadingFields.simps lit_simps)
  from default_rescues_missing [OF this, of "EBool True"] show ?thesis
    by (simp add: charged_def charge_def wrap_host_def bindE_def retE_def del: lit_simps)
qed

end
