(* ===== verification/ValueProperties.thy ===== *)
theory ValueProperties
  imports RunParams InstanceKey
begin

text \<open>
  The properties of the values of the language and of a run: the scanner and the parser, the
  text encodings, value equality, the calendar, the collections of the catalog, run parameters,
  return values, the event log's value check and the instance keys.
\<close>

section \<open>Templates and expressions\<close>

text \<open>
  The expressions located in a template are in bounds, in order and disjoint, each one
  spans from its \<open>${\<close> to its closing brace, and the template is its literal parts with those
  expressions in between: nothing of the text is lost or read twice.
\<close>

theorem scan_partitions_template:
  "refs_from s 0 (fst (scanTemplateRefs s)) \<and>
   splice (\<lambda>m. REF_OPEN @ m_body m @ [125]) s 0 (fst (scanTemplateRefs s)) = s"
  using scan_refs_from [of s 0] scan_splice [of s] by (simp add: scanTemplateRefs_def)

text \<open>A parsed expression is nested at most \<open>MAX_EXPR_DEPTH + 1\<close> levels.\<close>

theorem parse_depth:
  "parseExpr s = Inr e \<Longrightarrow> expr_levels e \<le> MAX_EXPR_DEPTH + 1"
  using parse_at_levels [of "levels 0" s e] by (simp add: parseExpr_def parseExprAt_def levels_def)

theorem parse_depth_witness:
  "expr_levels (ECall (lit ''not'') [EBool True]) \<le> MAX_EXPR_DEPTH + 1"
  by (rule parse_depth [of "lit ''not(true)''"]) code_simp

section \<open>Text encodings\<close>

text \<open>The byte length of a text is computed without encoding it.\<close>

theorem byte_length: "utf8ByteLength s = length (utf8Bytes s)"
  by (rule utf8ByteLength_eq)

text \<open>\<open>base64ToString\<close> reads back what \<open>base64\<close> writes of a well-formed text.\<close>

theorem base64_roundtrip: "well_formed_utf16 s \<Longrightarrow> base64Decode (base64Encode s) = Inr s"
  by (rule base64.dec_enc)

theorem base64_roundtrip_witness: "base64Decode (base64Encode [104, 233, 55357, 56832]) = Inr [104, 233, 55357, 56832]"
  by (rule base64_roundtrip) code_simp

text \<open>
  C40: \<open>json\<close> reads back what \<open>string\<close> prints of an array or object in which every string and key is
  well-formed UTF-16, every number is a whole number of magnitude at most \<open>2 ^ 53\<close>, nothing is undefined, and
  the keys of each object are distinct and in the order in which the host enumerates them. Fractions, infinities
  and numbers beyond that magnitude are outside the statement.
\<close>

theorem json_roundtrip: "json_container v \<Longrightarrow> parse_json (toStr v) = Inr v"
  by (rule json.dec_enc)

theorem json_roundtrip_witness:
  "parse_json (toStr (JArr [JNull, JBool True, JStr [34, 10]])) = Inr (JArr [JNull, JBool True, JStr [34, 10]])"
  by (rule json_roundtrip) code_simp

text \<open>Percent encoding accepts every well-formed text and its decoder reads it back.\<close>

theorem uri_component_roundtrip:
  "well_formed_utf16 s \<Longrightarrow> \<exists>t. uri_encode s = Inr t \<and> uri_decode t = Inr s"
  by (rule uri_roundtrip)

theorem uri_component_roundtrip_witness:
  "\<exists>t. uri_encode [97, 32, 8364] = Inr t \<and> uri_decode t = Inr [97, 32, 8364]"
  by (rule uri_component_roundtrip) code_simp

section \<open>Equality\<close>

text \<open>
  \<open>equals\<close> is an equivalence relation on values without \<open>NaN\<close>: structural comparison of
  arrays and objects keeps reflexivity, symmetry and transitivity.
\<close>

theorem deepEquals_equivalence:
  assumes "wf_val a" "wf_val b" "wf_val c"
  shows "deepEquals a a \<and> (deepEquals a b = deepEquals b a)
    \<and> (deepEquals a b \<longrightarrow> deepEquals b c \<longrightarrow> deepEquals a c)"
  using assms deepEquals_refl deepEquals_sym deepEquals_trans by blast

theorem deepEquals_equivalence_witness:
  "deepEquals (JArr [JNum (Fin 0)]) (JArr [JNum NegZero]) = deepEquals (JArr [JNum NegZero]) (JArr [JNum (Fin 0)])"
  using deepEquals_equivalence [of "JArr [JNum (Fin 0)]" "JArr [JNum NegZero]" JNull] by simp

section \<open>Timestamps\<close>

text \<open>
  A timestamp between the years 1 and 9999 prints to a text that parses back to the same
  instant.
\<close>

theorem timestamp_roundtrip: "in_range t \<Longrightarrow> parseTs fn (JStr (toISOString t)) = Inr t"
  by (rule iso_timestamp.dec_enc)

theorem timestamp_roundtrip_witness:
  "parseTs (lit ''addDays'') (JStr (toISOString 951782400123)) = Inr 951782400123"
  by (rule timestamp_roundtrip) (simp add: in_range_def time_bounds)

text \<open>
  Adding months keeps the time of day and clamps the day to the length of the target
  month: January 31 plus one month is the last day of February, never a day of March.
\<close>

theorem addMonths_clamps:
  assumes "months = getUTCFullYear t * 12 + getUTCMonth t + n"
    and "1 \<le> months div 12" "months div 12 \<le> 9999"
  shows "\<exists>r. addMonths t n = Some r \<and> getUTCFullYear r = months div 12 \<and> getUTCMonth r = months mod 12
    \<and> getUTCDate r = min (getUTCDate t) (daysInMonth (months div 12) (months mod 12))
    \<and> r mod 86400000 = t mod 86400000"
  using addMonths_fields [OF assms] by metis

theorem addMonths_clamps_witness:
  "\<exists>r. addMonths 949276800000 1 = Some r \<and> getUTCFullYear r = 2000 \<and> getUTCMonth r = 1 \<and> getUTCDate r = 29"
proof -
  have f: "getUTCFullYear 949276800000 = 2000" "getUTCMonth 949276800000 = 0" "getUTCDate 949276800000 = 31"
    by code_simp+
  have d: "daysInMonth 2000 1 = 29" by code_simp
  from addMonths_clamps [of "2000 * 12 + 1" "949276800000" 1] show ?thesis by (auto simp: f d)
qed

text \<open>
  \<open>startOfMonth\<close>, \<open>startOfDay\<close> and \<open>startOfHour\<close> give the instant at which the unit of
  their argument began, which is not after it.
\<close>

theorem startOf_begins_unit:
  assumes "parseTs fn (a ! 0) = Inr t"
  shows "startOf fn a u = isoOf fn (Some (unit_start u t)) \<and> unit_start u t \<le> t"
  using startOf_eq [OF assms] unit_start_le by blast

theorem startOf_begins_unit_witness:
  "startOf (lit ''startOfDay'') [JStr (lit ''2024-02-29T10:20:30.400Z'')] UDay =
     isoOf (lit ''startOfDay'') (Some (unit_start UDay 1709202030400)) \<and> unit_start UDay 1709202030400 \<le> 1709202030400"
  by (rule startOf_begins_unit) code_simp

section \<open>Collections\<close>

text \<open>
  A slug is a non-empty text of lower-case letters, digits and hyphens that neither begins
  nor ends with a hyphen and has no two of them in a row, whatever the host's case mapping.
\<close>

theorem slug_shape: "is_slug (slug h v)"
  by (rule slug_is_slug)

text \<open>
  A union has no two equal elements, holds an equal of every element of its arguments and
  nothing else, and never exceeds the cap on array elements.
\<close>

theorem union_set:
  assumes "union_args [] [JArr xs, JArr ys] = Inr r" "wf_val (JArr xs)" "wf_val (JArr ys)"
  shows "no_repeats r \<and> set r \<subseteq> set xs \<union> set ys \<and> length r \<le> MAX_ARRAY_ELEMENTS
    \<and> (\<forall>x \<in> set xs \<union> set ys. list_ex (deepEquals x) r)"
proof -
  from assms(1) obtain o1 where o1: "union_elems [] xs = Inr o1" "union_elems o1 ys = Inr r"
    by (auto simp: bindR_Inr_iff loopArr_Inr)
  note f1 = union_elems_facts [OF o1(1)] and f2 = union_elems_facts [OF o1(2)]
  have 1: "no_repeats o1" "set o1 \<subseteq> set xs" "\<forall>x \<in> set xs. list_ex (\<lambda>y. deepEquals x y) o1"
    using f1 assms(2) by auto
  have 2: "no_repeats r" "set o1 \<subseteq> set r" "set r \<subseteq> set o1 \<union> set ys" "\<forall>x \<in> set ys. list_ex (\<lambda>y. deepEquals x y) r"
    using f2 assms(3) 1(1) by auto
  have "length r \<le> MAX_ARRAY_ELEMENTS" using union_args_bound [OF assms(1)] by simp
  moreover have "\<forall>x \<in> set xs. list_ex (deepEquals x) r" using 1(3) 2(2) unfolding list_ex_iff by blast
  moreover have "\<forall>x \<in> set ys. list_ex (deepEquals x) r" using 2(4) by simp
  ultimately show ?thesis using 1(2) 2(1,3) by blast
qed

theorem union_set_witness:
  "no_repeats [JNull, JBool True] \<and> set [JNull, JBool True] \<subseteq> set [JNull, JNull] \<union> set [JBool True, JNull]"
  using union_set [of "[JNull, JNull]" "[JBool True, JNull]" "[JNull, JBool True]"]
  by (simp add: loopArr_def arr_def expect_def as_arr_def capped_def cap_def MAX_ARRAY_ELEMENTS_def)

text \<open>
  The number of pieces \<open>split\<close> checks against its cap before it splits is the number it then
  produces.
\<close>

theorem split_count: "sep \<noteq> [] \<Longrightarrow> length (js_split s sep) = occurrences s sep + 1"
  by (rule occurrences_split)

theorem split_count_witness: "length (js_split (lit ''a,b,,c'') (lit '','')) = 4"
proof -
  have "occurrences (lit ''a,b,,c'') (lit '','') = 3" by code_simp
  then show ?thesis using split_count [of "lit '',''" "lit ''a,b,,c''"] by simp
qed

section \<open>Parameters, return values, replay\<close>

text \<open>
  The resolved parameters of a run are exactly the declared ones that have a value, an
  override before a default, coerced to the declared type; secrets are never among them, and
  neither is a parameter called \<open>__proto__\<close>.
\<close>

theorem run_params_resolved:
  assumes "resolveRunParams ps overrides = Inr r"
  shows "map_of r k = Some w \<longleftrightarrow>
    k \<noteq> lit ''__proto__'' \<and>
    (\<exists>p v. map_of (params_by_name ps) k = Some p \<and> param_value overrides k p = Some v
       \<and> p_type p \<noteq> PSecret \<and> coerce_value k (p_type p) v = Inr w)"
  using resolved_params [OF assms] .

theorem run_params_resolved_witness:
  "\<exists>p v. map_of (params_by_name [\<lparr>p_name = lit ''n'', p_type = PNumber, p_required = True, p_default = None\<rparr>])
        (lit ''n'') = Some p \<and> param_value [(lit ''n'', JStr (lit ''7''))] (lit ''n'') p = Some v
      \<and> p_type p \<noteq> PSecret \<and> coerce_value (lit ''n'') (p_type p) v = Inr (JNum (Fin 7))"
proof -
  have "resolveRunParams [\<lparr>p_name = lit ''n'', p_type = PNumber, p_required = True, p_default = None\<rparr>]
      [(lit ''n'', JStr (lit ''7''))] = Inr [(lit ''n'', JNum (Fin 7))]"
    by code_simp
  from run_params_resolved [OF this, of "lit ''n''" "JNum (Fin 7)"] show ?thesis by simp
qed

text \<open>
  Whatever its mode, a return value that is accepted has the type its row declares.
\<close>

theorem return_value_typed:
  assumes "coerceReturnValue k t mode v = Inr w" "mode = VInterpolated \<longrightarrow> matchesSig v SString"
  shows "matches_return t w"
  using coerceReturnValue_type [OF assms] .

theorem return_value_typed_witness: "matches_return RetArray (JArr [JBool True])"
  by (rule return_value_typed [of "lit ''rows''" _ VLiteral "JStr (lit ''[true]'')"]) code_simp+

text \<open>
  The replay check accepts exactly the values the event log gives back: nested at most
  \<open>MAX_CONFIG_DEPTH\<close> levels and without a number that JSON prints as \<open>null\<close>.
\<close>

theorem replay_safe_exact:
  "jsonReplaySafetyErrors loc v = [] \<longleftrightarrow> nesting v \<le> MAX_CONFIG_DEPTH \<and> all_finite v"
  using walkReplaySafe_iff [of loc 0 v] by (simp add: jsonReplaySafetyErrors_def)

text \<open>
  The key of an instance parses back to its document node and item, so two instances never
  share a key.
\<close>

theorem instance_keys:
  assumes "doc_id d" "int i \<le> 2 ^ 53"
  shows "parseInstanceKey (instanceKey d i) = Some (d, Fin (of_nat i))
    \<and> (instanceKey d i = instanceKey e j \<longrightarrow> d = e \<and> i = j)"
  using parse_instanceKey [OF assms] instanceKey_inj by blast

theorem instance_keys_witness:
  "parseInstanceKey (instanceKey (lit ''a@2'') 5) = Some (lit ''a@2'', Fin (of_nat 5))"
proof -
  have "doc_id (lit ''a@2'')" by code_simp
  from instance_keys [OF this, of 5] show ?thesis by simp
qed

end
