(* ===== verification/GraphSearch.thy ===== *)
theory GraphSearch
  imports Prelude
begin

text \<open>
  The three loops over a graph that the engine writes out at several places, over adjacency
  lists in the order the code inserts them: a \<open>Set\<close> is a list without repetition in insertion
  order, a \<open>Map\<close> of lists an association list. \<open>visit\<close> is the loop with a stack and a \<open>seen\<close> set,
  \<open>search\<close> the same loop that stops at its first hit, \<open>kahn\<close> the topological sweep.
\<close>

section \<open>Sets and maps in insertion order\<close>

definition js_set :: "'a list \<Rightarrow> 'a list" where
  "js_set xs = foldl (\<lambda>s x. if x \<in> set s then s else s @ [x]) [] xs"

lemma js_set_snoc: "js_set (xs @ [x]) = (if x \<in> set (js_set xs) then js_set xs else js_set xs @ [x])"
  by (simp add: js_set_def)

lemma js_set_simps [simp]: "set (js_set xs) = set xs" "distinct (js_set xs)"
proof -
  show "set (js_set xs) = set xs"
    by (induction xs rule: rev_induct) (auto simp: js_set_snoc, simp_all add: js_set_def)
  show "distinct (js_set xs)"
    by (induction xs rule: rev_induct) (simp_all add: js_set_snoc, simp_all add: js_set_def)
qed

text \<open>\<open>m.get(k) ?? []\<close>.\<close>

definition entries :: "('a \<times> 'e list) list \<Rightarrow> 'a \<Rightarrow> 'e list" where
  "entries m k = (case map_of m k of Some es \<Rightarrow> es | None \<Rightarrow> [])"

definition keys :: "('a \<times> 'e list) list \<Rightarrow> 'a set" where
  "keys m = fst ` set m"

lemma finite_keys [simp]: "finite (keys m)"
  by (simp add: keys_def)

lemma entries_outside: "x \<notin> keys m \<Longrightarrow> entries m x = []"
  by (force simp: keys_def entries_def dest: map_of_SomeD split: option.splits)

lemma entries_table: "entries (map (\<lambda>k. (k, f k)) ks) x = (if x \<in> set ks then f x else [])"
  by (simp add: entries_def map_of_map_restrict restrict_map_def comp_def)

lemma keys_table [simp]: "keys (map (\<lambda>k. (k, f k)) ks) = set ks"
  by (force simp: keys_def)

section \<open>Depth-first search\<close>

text \<open>
  \<open>pushes\<close> turns the edges of a popped vertex into the vertices to push, given with the one to
  be popped next in front.
\<close>

definition pushed :: "('a \<Rightarrow> 'e list \<Rightarrow> 'a list) \<Rightarrow> ('a \<times> 'e list) list \<Rightarrow> 'a \<Rightarrow> 'a list" where
  "pushed pushes m x = (case map_of m x of None \<Rightarrow> [] | Some es \<Rightarrow> pushes x es)"

lemma pushed_outside: "x \<notin> keys m \<Longrightarrow> pushed pushes m x = []"
  by (force simp: keys_def pushed_def dest: map_of_SomeD split: option.splits)

lemma search_decreases:
  assumes "x \<notin> set seen"
  shows "card (keys m - insert x (set seen)) < card (keys m - set seen) \<or>
    keys m - insert x (set seen) = keys m - set seen \<and> pushed f m x = []"
proof (cases "x \<in> keys m")
  case True
  with assms have "keys m - insert x (set seen) \<subset> keys m - set seen" by auto
  then show ?thesis by (simp add: psubset_card_mono)
next
  case False
  then show ?thesis by (auto simp: pushed_outside)
qed

text \<open>The vertices in the order they are marked as seen.\<close>

function visit :: "('a \<Rightarrow> 'e list \<Rightarrow> 'a list) \<Rightarrow> ('a \<times> 'e list) list \<Rightarrow> 'a list \<Rightarrow> 'a list \<Rightarrow> 'a list" where
  "visit f m [] seen = []"
| "visit f m (x # stack) seen =
     (if x \<in> set seen then visit f m stack seen
      else x # visit f m (pushed f m x @ stack) (x # seen))"
  by pat_completeness auto
termination
proof (relation "measures [\<lambda>(f, m, stack, seen). card (keys m - set seen), \<lambda>(f, m, stack, seen). length stack]")
qed (use search_decreases in \<open>fastforce+\<close>)

text \<open>The first vertex in that order which is a hit; its edges are not followed.\<close>

function search :: "('a \<Rightarrow> bool) \<Rightarrow> ('a \<Rightarrow> 'e list \<Rightarrow> 'a list) \<Rightarrow> ('a \<times> 'e list) list
    \<Rightarrow> 'a list \<Rightarrow> 'a list \<Rightarrow> 'a option" where
  "search hit f m [] seen = None"
| "search hit f m (x # stack) seen =
     (if x \<in> set seen then search hit f m stack seen
      else if hit x then Some x
      else search hit f m (pushed f m x @ stack) (x # seen))"
  by pat_completeness auto
termination
proof (relation "measures [\<lambda>(hit, f, m, stack, seen). card (keys m - set seen), \<lambda>(hit, f, m, stack, seen). length stack]")
qed (use search_decreases in \<open>fastforce+\<close>)

lemma search_visit: "search hit f m stack seen = find hit (visit f m stack seen)"
  by (induction hit f m stack seen rule: search.induct) auto

definition successors :: "('a \<Rightarrow> 'e list \<Rightarrow> 'a list) \<Rightarrow> ('a \<times> 'e list) list \<Rightarrow> ('a \<times> 'a) set" where
  "successors f m = {(x, y). y \<in> set (pushed f m x)}"

lemma visit_fresh: "set (visit f m stack seen) \<inter> set seen = {} \<and> distinct (visit f m stack seen)"
  by (induction f m stack seen rule: visit.induct) auto

lemma visit_stack: "set stack \<subseteq> set (visit f m stack seen) \<union> set seen"
  by (induction f m stack seen rule: visit.induct) auto

lemma visit_closed:
  "x \<in> set (visit f m stack seen) \<Longrightarrow> set (pushed f m x) \<subseteq> set (visit f m stack seen) \<union> set seen"
proof (induction f m stack seen rule: visit.induct)
  case (2 f m y stack seen)
  show ?case
  proof (cases "y \<in> set seen")
    case False
    then show ?thesis
      using 2 visit_stack [of "pushed f m y @ stack" f m "y # seen"] by auto
  qed (use 2 in auto)
qed simp

lemma visit_sound: "set (visit f m stack seen) \<subseteq> (successors f m)\<^sup>* `` set stack"
proof (induction f m stack seen rule: visit.induct)
  case (2 f m x stack seen)
  show ?case
  proof (cases "x \<in> set seen")
    case False
    have step: "z \<in> (successors f m)\<^sup>* `` set (x # stack)"
      if "z \<in> (successors f m)\<^sup>* `` set (pushed f m x @ stack)" for z
    proof -
      from that obtain y where y: "y \<in> set (pushed f m x) \<or> y \<in> set stack" "(y, z) \<in> (successors f m)\<^sup>*"
        by auto
      then show ?thesis
        by (auto simp: successors_def intro: converse_rtrancl_into_rtrancl)
    qed
    have "set (visit f m (x # stack) seen) = insert x (set (visit f m (pushed f m x @ stack) (x # seen)))"
      using False by simp
    also have "\<dots> \<subseteq> insert x ((successors f m)\<^sup>* `` set (pushed f m x @ stack))"
      using 2(2) [OF False] by blast
    also have "\<dots> \<subseteq> (successors f m)\<^sup>* `` set (x # stack)" using step by auto
    finally show ?thesis .
  qed (use 2 in auto)
qed simp

text \<open>Started with nothing seen, the loop finds exactly what is reachable from its stack.\<close>

lemma visit_reachable: "set (visit f m stack []) = (successors f m)\<^sup>* `` set stack"
proof
  let ?V = "set (visit f m stack [])"
  have "(successors f m)\<^sup>* `` ?V = ?V"
    by (rule Image_closed_trancl) (use visit_closed [of _ f m stack "[]"] in \<open>auto simp: successors_def\<close>)
  then show "(successors f m)\<^sup>* `` set stack \<subseteq> ?V"
    using visit_stack [of stack f m "[]"] by (metis Image_mono Un_empty_right order_refl list.set(1))
qed (rule visit_sound)

lemma search_Some: "search hit f m stack [] = Some x \<Longrightarrow> hit x \<and> x \<in> (successors f m)\<^sup>* `` set stack"
  using visit_reachable [of f m stack] by (auto simp: search_visit find_Some_iff dest!: nth_mem)

lemma search_None:
  "search hit f m stack [] = None \<longleftrightarrow> (\<forall>x \<in> (successors f m)\<^sup>* `` set stack. \<not> hit x)"
  using visit_reachable [of f m stack] by (auto simp: search_visit find_None_iff)

section \<open>Topological sweep\<close>

text \<open>The edges of the vertex taken from the queue: a degree that reaches 0 joins the queue.\<close>

fun relax :: "'a list \<Rightarrow> 'a list \<Rightarrow> ('a \<Rightarrow> int) \<Rightarrow> 'a list \<times> ('a \<Rightarrow> int)" where
  "relax [] q deg = (q, deg)"
| "relax (y # ys) q deg =
     (let d = deg y - 1 in relax ys (if d = 0 then q @ [y] else q) (deg(y := d)))"

definition targets :: "('a \<times> 'a list) list \<Rightarrow> 'a set" where
  "targets adj = (\<Union>e \<in> set adj. set (snd e))"

definition owed :: "('a \<times> 'a list) list \<Rightarrow> ('a \<Rightarrow> int) \<Rightarrow> 'a set" where
  "owed adj deg = {v \<in> targets adj. 0 < deg v}"

lemma finite_owed [simp]: "finite (owed adj deg)"
  by (simp add: owed_def targets_def)

lemma relax_measure:
  "relax ys q deg = (q', deg') \<Longrightarrow> set ys \<subseteq> targets adj \<Longrightarrow>
     2 * card (owed adj deg') + length q' \<le> 2 * card (owed adj deg) + length q"
proof (induction ys q deg rule: relax.induct)
  case (2 y ys q deg)
  define dg where "dg = deg(y := deg y - 1)"
  define qs where "qs = (if deg y - 1 = 0 then q @ [y] else q)"
  have y: "y \<in> targets adj" using 2(3) by simp
  have sub: "owed adj dg \<subseteq> owed adj deg" by (auto simp: owed_def dg_def split: if_splits)
  have "2 * card (owed adj dg) + length qs \<le> 2 * card (owed adj deg) + length q"
  proof (cases "deg y - 1 = 0")
    case True
    then have "owed adj dg \<subset> owed adj deg" using sub y by (auto simp: owed_def dg_def)
    then have "card (owed adj dg) < card (owed adj deg)" by (simp add: psubset_card_mono)
    then show ?thesis using True by (simp add: qs_def)
  next
    case False
    then show ?thesis using card_mono [OF finite_owed sub] by (simp add: qs_def)
  qed
  moreover have "2 * card (owed adj deg') + length q' \<le> 2 * card (owed adj dg) + length qs"
  proof (rule 2(1) [OF refl, folded dg_def, folded qs_def])
    show "relax ys qs dg = (q', deg')" using 2(2) by (simp only: relax.simps Let_def qs_def dg_def)
  qed (use 2(3) in simp)
  ultimately show ?case by simp
qed simp

lemma entries_targets: "set (entries adj x) \<subseteq> targets adj"
proof (cases "map_of adj x")
  case (Some es)
  then show ?thesis using map_of_SomeD [OF Some] by (auto simp: entries_def targets_def intro!: bexI [of _ "(x, es)"])
qed (simp add: entries_def)

text \<open>The vertices in the order they leave the queue, and the degrees left at the end.\<close>

function kahn :: "('a \<times> 'a list) list \<Rightarrow> 'a list \<Rightarrow> ('a \<Rightarrow> int) \<Rightarrow> 'a list \<times> ('a \<Rightarrow> int)" where
  "kahn adj [] deg = ([], deg)"
| "kahn adj (x # q) deg =
     (let s = relax (entries adj x) q deg; r = kahn adj (fst s) (snd s)
      in (x # fst r, snd r))"
  by pat_completeness auto
termination
proof (relation "measure (\<lambda>(adj, q, deg). 2 * card (owed adj deg) + length q)", goal_cases)
  case (2 adj x q deg s)
  then show ?case
    using relax_measure [of "entries adj x" q deg "fst s" "snd s" adj] entries_targets [of adj x]
    by (simp add: case_prod_beta)
qed simp

lemma relax_deg: "snd (relax ys q deg) v = deg v - int (count_list ys v)"
proof (induction ys q deg rule: relax.induct)
  case (2 y ys q deg)
  have "snd (relax (y # ys) q deg) v = (deg(y := deg y - 1)) v - int (count_list ys v)"
    using 2 [OF refl] by (simp only: relax.simps Let_def)
  then show ?case by simp
qed simp

text \<open>What joins the queue: each vertex whose whole degree these edges account for, once.\<close>

lemma relax_queue:
  "(\<And>v. int (count_list ys v) \<le> deg v) \<Longrightarrow>
     \<exists>new. fst (relax ys q deg) = q @ new \<and> distinct new
       \<and> set new = {v \<in> set ys. deg v = int (count_list ys v)}"
proof (induction ys q deg rule: relax.induct)
  case (2 y ys q deg)
  define dg where "dg = deg(y := deg y - 1)"
  define qs where "qs = (if deg y - 1 = 0 then q @ [y] else q)"
  have step: "relax (y # ys) q deg = relax ys qs dg" by (simp only: relax.simps Let_def qs_def dg_def)
  have "int (count_list ys v) \<le> dg v" for v using 2(2) [of v] by (auto simp: dg_def split: if_splits)
  then have "\<exists>new. fst (relax ys qs dg) = qs @ new \<and> distinct new
      \<and> set new = {v \<in> set ys. dg v = int (count_list ys v)}"
    by (rule 2(1) [OF refl, folded dg_def, folded qs_def])
  then obtain new where new: "fst (relax ys qs dg) = qs @ new" "distinct new"
    "set new = {v \<in> set ys. dg v = int (count_list ys v)}"
    by auto
  show ?case
  proof (cases "deg y = 1")
    case True
    have "count_list ys y = 0" using 2(2) [of y] True by simp
    then have "y \<notin> set ys" by (simp add: count_list_0_iff)
    moreover have "v \<in> set (y # new) \<longleftrightarrow> v \<in> {v \<in> set (y # ys). deg v = int (count_list (y # ys) v)}" for v
      using new(3) True \<open>count_list ys y = 0\<close> \<open>y \<notin> set ys\<close> by (cases "v = y") (simp_all add: dg_def)
    then have "set (y # new) = {v \<in> set (y # ys). deg v = int (count_list (y # ys) v)}" by blast
    moreover have "y \<notin> set new" using \<open>y \<notin> set ys\<close> new(3) by simp
    then have "distinct (y # new)" using new(2) by simp
    moreover have "fst (relax (y # ys) q deg) = q @ (y # new)"
      unfolding step using new(1) True by (simp add: qs_def)
    ultimately show ?thesis by blast
  next
    case False
    have "set new = {v \<in> set (y # ys). deg v = int (count_list (y # ys) v)}"
    proof (intro equalityI subsetI)
      fix v
      assume "v \<in> {v \<in> set (y # ys). deg v = int (count_list (y # ys) v)}"
      then have v: "v \<in> set (y # ys)" "deg v = int (count_list (y # ys) v)" by auto
      then have "v \<in> set ys" using False by (cases "v = y") (auto simp: count_list_0_iff)
      then show "v \<in> set new" unfolding new(3) using v(2) by (auto simp: dg_def split: if_splits)
    qed (use new(3) in \<open>auto simp: dg_def split: if_splits\<close>)
    moreover have "fst (relax (y # ys) q deg) = q @ new"
      unfolding step using new(1) False by (simp add: qs_def)
    ultimately show ?thesis using new(2) by blast
  qed
qed auto

text \<open>The number of edges into \<open>v\<close> from the vertices \<open>R\<close>.\<close>

definition edges_into :: "('a \<times> 'a list) list \<Rightarrow> 'a set \<Rightarrow> 'a \<Rightarrow> nat" where
  "edges_into adj R v = (\<Sum>x \<in> R. count_list (entries adj x) v)"

definition arcs :: "('a \<times> 'a list) list \<Rightarrow> ('a \<times> 'a) set" where
  "arcs adj = {(x, y). y \<in> set (entries adj x)}"

lemma edges_into_zero: "finite R \<Longrightarrow> edges_into adj R v = 0 \<longleftrightarrow> (\<forall>x \<in> R. (x, v) \<notin> arcs adj)"
  by (auto simp: edges_into_def arcs_def count_list_0_iff)

text \<open>
  \<open>sweep V adj r q deg\<close>: \<open>r\<close> left the queue \<open>q\<close>, \<open>deg\<close> counts the edges that are still to come,
  and every vertex was taken behind all its predecessors.
\<close>

definition in_order :: "('a \<times> 'a list) list \<Rightarrow> 'a list \<Rightarrow> bool" where
  "in_order adj r \<longleftrightarrow> (\<forall>i < length r. \<forall>x. (x, r ! i) \<in> arcs adj \<longrightarrow> x \<in> set (take i r))"

definition sweep :: "'a set \<Rightarrow> ('a \<times> 'a list) list \<Rightarrow> 'a list \<Rightarrow> 'a list \<Rightarrow> ('a \<Rightarrow> int) \<Rightarrow> bool" where
  "sweep V adj r q deg \<longleftrightarrow>
     finite V \<and> distinct (r @ q) \<and> set (r @ q) \<subseteq> V \<and> arcs adj \<subseteq> V \<times> V
     \<and> (\<forall>v. deg v = int (edges_into adj (V - set r) v))
     \<and> (\<forall>v \<in> V. v \<in> set (r @ q) \<longleftrightarrow> deg v = 0) \<and> in_order adj r"

lemma sweep_step:
  assumes "sweep V adj r (x # q) deg"
  defines "s \<equiv> relax (entries adj x) q deg"
  shows "sweep V adj (r @ [x]) (fst s) (snd s)"
proof -
  note inv = assms(1) [unfolded sweep_def]
  let ?R = "V - set r"
  have x: "x \<in> ?R" "finite ?R" using inv by auto
  have split: "edges_into adj ?R v = count_list (entries adj x) v + edges_into adj (V - set (r @ [x])) v" for v
  proof -
    have "V - set (r @ [x]) = ?R - {x}" by auto
    then show ?thesis using sum.remove [OF x(2,1)] by (simp add: edges_into_def)
  qed
  then have "int (count_list (entries adj x) v) \<le> deg v" for v using inv by simp
  then obtain new where new: "fst s = q @ new" "distinct new"
    "set new = {v \<in> set (entries adj x). deg v = int (count_list (entries adj x) v)}"
    unfolding s_def using relax_queue by blast
  have deg: "snd s v = int (edges_into adj (V - set (r @ [x])) v)" for v
    using split [of v] inv by (simp add: s_def relax_deg)
  have deg0: "deg x = 0" using inv by auto
  have arc: "set (entries adj x) \<subseteq> V" using inv by (auto simp: arcs_def)
  have fresh: "v \<notin> set (r @ x # q)" if "v \<in> set (entries adj x)" for v
  proof -
    have "deg v \<noteq> 0" using that x inv edges_into_zero [of ?R adj v] by (auto simp: arcs_def)
    then show ?thesis using inv arc that by blast
  qed
  have mem: "v \<in> set (r @ [x]) \<or> v \<in> set (q @ new) \<longleftrightarrow> snd s v = 0" if "v \<in> V" for v
  proof (cases "v \<in> set (entries adj x)")
    case True
    then show ?thesis using fresh [OF True] new(3) by (auto simp: s_def relax_deg)
  next
    case False
    then have "snd s v = deg v" by (simp add: s_def relax_deg count_list_0_iff)
    moreover have "v \<in> set (r @ x # q) \<longleftrightarrow> deg v = 0" using inv that by blast
    ultimately show ?thesis using False new(3) by auto
  qed
  have "in_order adj (r @ [x])"
    unfolding in_order_def
  proof (intro allI impI)
    fix i y
    assume i: "i < length (r @ [x])" "(y, (r @ [x]) ! i) \<in> arcs adj"
    show "y \<in> set (take i (r @ [x]))"
    proof (cases "i < length r")
      case True
      then show ?thesis using i inv by (auto simp: in_order_def nth_append)
    next
      case False
      then have "i = length r" "(y, x) \<in> arcs adj" using i by (auto simp: nth_append)
      moreover have "edges_into adj ?R x = 0" using inv deg0 by simp
      ultimately show ?thesis using edges_into_zero [OF x(2)] inv by auto
    qed
  qed
  moreover have "distinct ((r @ [x]) @ fst s)" using inv fresh new by auto
  moreover have "set ((r @ [x]) @ fst s) \<subseteq> V" using inv arc new by auto
  ultimately show ?thesis using inv deg mem by (auto simp: sweep_def new(1))
qed

lemma sweep_kahn: "sweep V adj r q deg \<Longrightarrow> sweep V adj (r @ fst (kahn adj q deg)) [] (snd (kahn adj q deg))"
proof (induction adj q deg arbitrary: r rule: kahn.induct)
  case (2 adj x q deg)
  show ?case using 2(1) [OF refl, of "r @ [x]"] sweep_step [OF 2(2)] by (simp add: Let_def)
qed simp

lemma in_order_acyclic:
  assumes "in_order adj r" "arcs adj \<subseteq> set r \<times> set r"
  shows "acyclic (arcs adj)"
proof -
  define rank where "rank v = (LEAST i. i < length r \<and> r ! i = v)" for v
  have "arcs adj \<subseteq> measure rank"
  proof
    fix p
    assume p: "p \<in> arcs adj"
    obtain x y where xy: "p = (x, y)" by fastforce
    then have "y \<in> set r" using p assms(2) by auto
    then have "\<exists>i. i < length r \<and> r ! i = y" by (simp add: in_set_conv_nth)
    then have y: "rank y < length r \<and> r ! rank y = y" unfolding rank_def by (rule LeastI_ex)
    then have "x \<in> set (take (rank y) r)" using p xy assms(1) by (auto simp: in_order_def)
    then obtain j where j: "j < rank y" "r ! j = x" by (auto simp: in_set_conv_nth)
    have "rank x \<le> j" unfolding rank_def using j y by (intro Least_le) auto
    then show "p \<in> measure rank" using j xy by simp
  qed
  then show ?thesis by (meson wf_measure wf_subset wf_acyclic)
qed

text \<open>The sweep takes every vertex exactly when there is no cycle.\<close>

lemma sweep_acyclic:
  assumes "sweep V adj [] q deg"
  defines "order \<equiv> fst (kahn adj q deg)"
  shows "set order = V \<longleftrightarrow> acyclic (arcs adj)" "length order = card V \<longleftrightarrow> acyclic (arcs adj)"
proof -
  have inv: "sweep V adj order [] (snd (kahn adj q deg))"
    using sweep_kahn [OF assms(1)] by (simp add: order_def)
  show iff: "set order = V \<longleftrightarrow> acyclic (arcs adj)"
  proof
    assume "set order = V"
    then show "acyclic (arcs adj)" using inv in_order_acyclic by (auto simp: sweep_def)
  next
    assume a: "acyclic (arcs adj)"
    have "finite (arcs adj)" using inv finite_subset by (fastforce simp: sweep_def)
    then have wf: "wf (arcs adj)" using a by (rule finite_acyclic_wf)
    show "set order = V"
    proof (rule ccontr)
      assume "set order \<noteq> V"
      then obtain w where "w \<in> V - set order" using inv by (auto simp: sweep_def)
      then obtain z where z: "z \<in> V - set order" "\<And>y. (y, z) \<in> arcs adj \<Longrightarrow> y \<notin> V - set order"
        using wfE_min [OF wf] by metis
      then have "edges_into adj (V - set order) z = 0"
        using inv by (subst edges_into_zero) (auto simp: sweep_def)
      then show False using inv z(1) by (auto simp: sweep_def)
    qed
  qed
  have "set order \<subseteq> V" "distinct order" "finite V" using inv by (auto simp: sweep_def)
  then have "length order = card V \<longleftrightarrow> set order = V" by (metis card_subset_eq distinct_card)
  with iff show "length order = card V \<longleftrightarrow> acyclic (arcs adj)" by simp
qed

end
