(* ===== verification/PipelineDoc.thy ===== *)
theory PipelineDoc
  imports RunParams GraphSearch
begin

text \<open>
  The pipeline document as the engine reads it (\<open>schemas/pipeline.ts\<close>), and the rules of
  \<open>engine/params.ts\<close> that everything else keys off: the effective edges, the join rules, which
  container owns a child, and the partition of the edges by readiness.
\<close>

section \<open>Documents\<close>

text \<open>What an inactive entity records in place of running.\<close>

datatype inactive_mark = MarkSuccess | MarkFailure | MarkSkipped

record call_config =
  cc_pipelineVersionId :: jstr
  cc_params :: jobj
  cc_wait :: "bool option"

definition callDetaches :: "call_config \<Rightarrow> bool" where
  "callDetaches call \<longleftrightarrow> cc_wait call = Some False"

record node_policy =
  pl_retry :: "nat option"
  pl_secureInput :: "bool option"
  pl_secureOutput :: "bool option"

record connection_ids =
  ci_source :: jstr
  ci_sink :: jstr
  ci_log :: "jstr option"

text \<open>A pair of values for the two ends of a copy, either of which may be missing.\<close>

record 'a sides =
  sd_source :: "'a option"
  sd_sink :: "'a option"

record inline_dataset =
  il_kind :: jstr
  il_config :: jobj

text \<open>A user property: its name and its template.\<close>

type_synonym property_template = "jstr \<times> jstr"

text \<open>A node. What only the canvas reads, its position and its description, is left out.\<close>

record node =
  n_id :: jstr
  n_type :: jstr
  n_config :: jobj
  n_connectionId :: "jstr option"
  n_connectionIds :: "connection_ids option"
  n_datasetIds :: "jstr sides option"
  n_inlineSource :: "inline_dataset option"
  n_datasetParams :: "jobj sides option"
  n_connectionParams :: "jobj option"
  n_call :: "call_config option"
  n_policy :: "node_policy option"
  n_inactive :: bool
  n_onInactiveMarkAs :: "inactive_mark option"
  n_userProperties :: "property_template list option"

datatype edge_on = OnSuccess | OnFailure | OnCompletion | OnSkipped | OnBranch jstr

record edge =
  e_id :: jstr
  e_from :: jstr
  e_to :: jstr
  e_on :: edge_on
  e_back :: bool
  e_maxBounces :: "nat option"

datatype container_kind = Loop | Stage | Foreach

datatype join = JoinAll | JoinAny

record container =
  c_id :: jstr
  c_kind :: container_kind
  c_children :: "jstr list"
  c_exitWhen :: "jstr option"
  c_maxRounds :: "nat option"
  c_timeout :: "nat option"
  c_items :: "jstr option"
  c_batchCount :: "nat option"
  c_join :: "join option"
  c_inactive :: bool
  c_onInactiveMarkAs :: "inactive_mark option"
  c_userProperties :: "property_template list option"
  c_allowNondeterministicVars :: "bool option"

record variable_def =
  v_name :: jstr
  v_type :: variable_type
  v_default :: jval

record doc =
  d_nodes :: "node list"
  d_edges :: "edge list"
  d_containers :: "container list"
  d_variables :: "variable_def list"

text \<open>\<open>new Map(entries)\<close>: the last entry of a key wins.\<close>

definition js_map_of :: "('k \<times> 'v) list \<Rightarrow> 'k \<Rightarrow> 'v option" where
  "js_map_of ps = map_of (rev ps)"

definition by_id :: "container list \<Rightarrow> jstr \<Rightarrow> container option" where
  "by_id cs = js_map_of (map (\<lambda>c. (c_id c, c)) cs)"

definition nodeJoin :: "node \<Rightarrow> join" where
  "nodeJoin n = (if map_of (n_config n) (lit ''join'') = Some (JStr (lit ''any'')) then JoinAny else JoinAll)"

definition containerJoin :: "container \<Rightarrow> join" where
  "containerJoin c = (if c_join c = Some JoinAny then JoinAny else JoinAll)"

definition isParallelForeach :: "container \<Rightarrow> bool" where
  "isParallelForeach c \<longleftrightarrow>
     c_kind c = Foreach \<and> 2 \<le> (case c_batchCount c of None \<Rightarrow> 1 | Some k \<Rightarrow> k)"

section \<open>Effective edges\<close>

definition implicit_edge :: "node list \<Rightarrow> nat \<Rightarrow> edge" where
  "implicit_edge ns i =
     \<lparr>e_id = lit ''__implicit_'' @ nat_digits i, e_from = n_id (ns ! i), e_to = n_id (ns ! (i + 1)),
      e_on = OnSuccess, e_back = False, e_maxBounces = None\<rparr>"

definition effectiveEdges :: "doc \<Rightarrow> edge list" where
  "effectiveEdges d =
     (if d_edges d \<noteq> [] then d_edges d
      else map (implicit_edge (d_nodes d)) [0..<length (d_nodes d) - 1])"

section \<open>Membership\<close>

record child_duplicate =
  dup_child :: jstr
  dup_first :: jstr
  dup_container :: jstr

record membership =
  mb_owner :: "(jstr \<times> jstr) list"
  mb_duplicates :: "child_duplicate list"

definition claim_child :: "container \<Rightarrow> membership \<Rightarrow> jstr \<Rightarrow> membership" where
  "claim_child c m ch =
     (case map_of (mb_owner m) ch of
        None \<Rightarrow> m\<lparr>mb_owner := mb_owner m @ [(ch, c_id c)]\<rparr>
      | Some prev \<Rightarrow>
          if prev \<noteq> c_id c
          then m\<lparr>mb_duplicates := mb_duplicates m @ [\<lparr>dup_child = ch, dup_first = prev, dup_container = c_id c\<rparr>]\<rparr>
          else m)"

definition claim_children :: "membership \<Rightarrow> container \<Rightarrow> membership" where
  "claim_children m c = foldl (claim_child c) m (c_children c)"

definition containerMembership :: "container list \<Rightarrow> membership" where
  "containerMembership cs = foldl claim_children \<lparr>mb_owner = [], mb_duplicates = []\<rparr> cs"

definition owner_of :: "container list \<Rightarrow> jstr \<Rightarrow> jstr option" where
  "owner_of cs = map_of (mb_owner (containerMembership cs))"

definition crossesContainerBoundary :: "(jstr \<times> jstr) list \<Rightarrow> jstr \<Rightarrow> jstr \<Rightarrow> bool" where
  "crossesContainerBoundary owner frm to \<longleftrightarrow> map_of owner frm \<noteq> map_of owner to"

text \<open>The walk up the owners, with the number of hops left.\<close>

fun owned_within :: "(jstr \<Rightarrow> jstr option) \<Rightarrow> (jstr \<Rightarrow> container_kind option) \<Rightarrow> container_kind list
    \<Rightarrow> nat \<Rightarrow> jstr option \<Rightarrow> bool" where
  "owned_within owner kindOf kinds 0 pos = False"
| "owned_within owner kindOf kinds (Suc n) None = False"
| "owned_within owner kindOf kinds (Suc n) (Some a) =
     (if (\<exists>k \<in> set kinds. kindOf a = Some k) then True
      else owned_within owner kindOf kinds n (owner a))"

definition ownedByKind :: "jstr \<Rightarrow> container list \<Rightarrow> container_kind list \<Rightarrow> bool" where
  "ownedByKind i cs kinds =
     owned_within (owner_of cs) (js_map_of (map (\<lambda>c. (c_id c, c_kind c)) cs)) kinds
       (length cs + 1) (owner_of cs i)"

definition foreachOwned :: "jstr \<Rightarrow> container list \<Rightarrow> bool" where
  "foreachOwned i cs = ownedByKind i cs [Foreach]"

section \<open>The readiness partition\<close>

record partition =
  p_endpointIds :: "jstr list"
  p_backEdges :: "edge list"
  p_internalForward :: "(jstr \<times> edge list) list"
  p_topForward :: "edge list"
  p_topIncoming :: "(jstr \<times> edge list) list"
  p_childIncoming :: "(jstr \<times> edge list) list"

text \<open>An edge between two children of one container.\<close>

definition internal_edge :: "(jstr \<times> jstr) list \<Rightarrow> edge \<Rightarrow> bool" where
  "internal_edge owner e \<longleftrightarrow>
     (case map_of owner (e_from e) of None \<Rightarrow> False | Some c \<Rightarrow> map_of owner (e_to e) = Some c)"

definition partitionReadiness :: "doc \<Rightarrow> container list \<Rightarrow> (jstr \<times> jstr) list \<Rightarrow> partition" where
  "partitionReadiness d cs owner =
     (let nodeIds = map n_id (d_nodes d);
          containerIds = map c_id cs;
          endpointIds = js_set (nodeIds @ containerIds);
          childSet = map fst owner;
          known = (\<lambda>e. e_from e \<in> set endpointIds \<and> e_to e \<in> set endpointIds);
          forwardEdges = filter (\<lambda>e. \<not> e_back e \<and> known e) (effectiveEdges d);
          internalForward =
            map (\<lambda>c. (c, filter (\<lambda>e. internal_edge owner e \<and> map_of owner (e_from e) = Some c) forwardEdges))
                (js_set containerIds);
          topForward = filter (\<lambda>e. \<not> internal_edge owner e) forwardEdges;
          topKeys = js_set (filter (\<lambda>i. i \<notin> set childSet) nodeIds @ containerIds)
      in \<lparr>p_endpointIds = endpointIds,
          p_backEdges = filter (\<lambda>e. e_back e \<and> known e) (effectiveEdges d),
          p_internalForward = internalForward,
          p_topForward = topForward,
          p_topIncoming =
            map (\<lambda>i. (i, filter (\<lambda>e. map_of owner (e_from e) \<noteq> Some (e_to e) \<and> e_to e = i) topForward)) topKeys,
          p_childIncoming =
            map (\<lambda>ch. (ch, concat (map (\<lambda>c. filter (\<lambda>e. e_to e = ch) (entries internalForward (c_id c))) cs)))
                childSet\<rparr>)"

section \<open>Facts\<close>

subsection \<open>First declared wins\<close>

lemma owner_claim_child:
  "map_of (mb_owner (claim_child c m ch)) x =
     (case map_of (mb_owner m) x of Some p \<Rightarrow> Some p | None \<Rightarrow> if x = ch then Some (c_id c) else None)"
  by (auto simp: claim_child_def map_add_def split: option.splits)

lemma owner_claim_all:
  "map_of (mb_owner (foldl (claim_child c) m chs)) x =
     (case map_of (mb_owner m) x of Some p \<Rightarrow> Some p | None \<Rightarrow> if x \<in> set chs then Some (c_id c) else None)"
  by (induction chs arbitrary: m) (auto simp: owner_claim_child split: option.splits)

lemma owner_claim_containers:
  "map_of (mb_owner (foldl claim_children m cs)) x =
     (case map_of (mb_owner m) x of
        Some p \<Rightarrow> Some p
      | None \<Rightarrow> map_option c_id (find (\<lambda>c. x \<in> set (c_children c)) cs))"
  by (induction cs arbitrary: m) (auto simp: claim_children_def owner_claim_all split: option.splits)

lemma owner_of_find: "owner_of cs x = map_option c_id (find (\<lambda>c. x \<in> set (c_children c)) cs)"
  by (simp add: owner_of_def containerMembership_def owner_claim_containers)

lemma owner_of_container: "owner_of cs x = Some c \<Longrightarrow> c \<in> c_id ` set cs"
  by (auto simp: owner_of_find find_Some_iff)

lemma distinct_owner_child: "distinct (map fst (mb_owner m)) \<Longrightarrow> distinct (map fst (mb_owner (claim_child c m ch)))"
  by (auto simp: claim_child_def map_of_eq_None_iff split: option.splits)

lemma distinct_owner: "distinct (map fst (mb_owner (containerMembership cs)))"
proof -
  have 1: "distinct (map fst (mb_owner m)) \<Longrightarrow> distinct (map fst (mb_owner (foldl (claim_child c) m chs)))"
    for m c chs
    by (induction chs arbitrary: m) (simp_all add: distinct_owner_child)
  have "distinct (map fst (mb_owner m)) \<Longrightarrow> distinct (map fst (mb_owner (foldl claim_children m cs)))" for m
    by (induction cs arbitrary: m) (simp_all add: claim_children_def 1)
  then show ?thesis by (simp add: containerMembership_def)
qed

text \<open>The overridden claims: a container that lists a child whose owner is another one.\<close>

definition duplicate_in :: "membership \<Rightarrow> jstr \<Rightarrow> jstr \<Rightarrow> jstr \<Rightarrow> bool" where
  "duplicate_in m ch p k \<longleftrightarrow> \<lparr>dup_child = ch, dup_first = p, dup_container = k\<rparr> \<in> set (mb_duplicates m)"

lemma dups_claim_child:
  "duplicate_in (claim_child c m x) ch p k \<longleftrightarrow>
     duplicate_in m ch p k \<or> ch = x \<and> k = c_id c \<and> map_of (mb_owner m) ch = Some p \<and> p \<noteq> k"
  by (auto simp: duplicate_in_def claim_child_def split: option.splits)

lemma dups_claim_all:
  "duplicate_in (foldl (claim_child c) m chs) ch p k \<longleftrightarrow>
     duplicate_in m ch p k \<or> ch \<in> set chs \<and> k = c_id c \<and> map_of (mb_owner m) ch = Some p \<and> p \<noteq> k"
proof (induction chs arbitrary: m)
  case (Cons x chs)
  show ?case
    unfolding foldl_Cons Cons.IH dups_claim_child owner_claim_child
    by (auto split: option.splits if_splits)
qed simp

lemma dups_claim_containers:
  "duplicate_in (foldl claim_children m cs) ch p k \<longleftrightarrow>
     duplicate_in m ch p k \<or>
     (\<exists>c \<in> set cs. c_id c = k \<and> ch \<in> set (c_children c)) \<and> p \<noteq> k
       \<and> map_of (mb_owner (foldl claim_children m cs)) ch = Some p"
proof (induction cs arbitrary: m)
  case (Cons x cs)
  show ?case
    unfolding foldl_Cons Cons.IH
    unfolding owner_claim_containers claim_children_def dups_claim_all owner_claim_all
    by (auto split: option.splits if_splits)
qed simp

lemma duplicates_exact:
  "duplicate_in (containerMembership cs) ch p k \<longleftrightarrow>
     owner_of cs ch = Some p \<and> p \<noteq> k \<and> (\<exists>c \<in> set cs. c_id c = k \<and> ch \<in> set (c_children c))"
  unfolding containerMembership_def dups_claim_containers owner_of_def
  by (auto simp: duplicate_in_def)

end
