(* ===== verification/RunState.thy ===== *)
theory RunState
  imports RunTypes PipelineDoc
begin

text \<open>
  The projection of a run, \<open>RunState\<close> of \<open>engine/types.ts\<close>, and the predicates of
  \<open>engine/reduce.ts\<close> on the statuses it holds. An object used as a table is an association
  list in enumeration order.
\<close>

section \<open>The state of a run\<close>

datatype skip_reason =
    Upstream jstr node_status
  | BranchTaken jstr "jstr option"
  | TimedOut jstr
  | DoomedBy jstr jstr

record recheck_state =
  rc_notReadyAttemptId :: jstr
  rc_reason :: jstr
  rc_afterSeconds :: nat
  rc_giveUpAfterSeconds :: nat
  rc_giveUpAt :: "int option"

record callback_state =
  cb_attemptId :: jstr
  cb_request :: jobj
  cb_timeoutSeconds :: nat

record node_run_state =
  ns_status :: node_status
  ns_attempts :: nat
  ns_currentAttemptId :: "jstr option"
  ns_sourceChildRunId :: "jstr option"
  ns_skipReason :: "skip_reason option"
  ns_inactive :: "bool option"
  ns_recheck :: "recheck_state option"
  ns_callback :: "callback_state option"
  ns_retries :: nat

record user_property =
  up_name :: jstr
  up_value :: "jstr option"
  up_error :: "exn option"
  up_truncated :: bool

record doom =
  dm_blame :: jstr
  dm_flipped :: "jstr list"

record container_run_state =
  cs_status :: container_status
  cs_round :: nat
  cs_outputs :: jobj
  cs_reason :: "jstr option"
  cs_inactive :: bool
  cs_timeoutDueAt :: "int option"
  cs_userProperties :: "user_property list option"
  cs_items :: "jval list option"
  cs_results :: "jval list option"
  cs_nextItem :: "nat option"
  cs_doomed :: "doom option"
  cs_skipReason :: "skip_reason option"

datatype run_status =
    RunPending | RunRunning | RunWaiting | RunSuccess | RunFailure | RunInterrupted | RunCancelled

datatype waiting_reason = WaitingTimer | WaitingExternal | WaitingConcurrency | WaitingDependency

datatype cancel_source = Operator | ParentCancelled jstr | ParentTerminal jstr

record cancel_request =
  cr_source :: cancel_source
  cr_stoppedWork :: bool

record trigger_context =
  tc_triggerId :: "jstr option"
  tc_scheduledTime :: "jstr option"
  tc_body :: jval
  tc_windowStart :: "jstr option"
  tc_windowEnd :: "jstr option"

type_synonym 'v table = "(jstr \<times> 'v) list"

record run_state =
  rs_runId :: jstr
  rs_pipelineVersionId :: jstr
  rs_startedAt :: "jstr option"
  rs_params :: jobj
  rs_status :: run_status
  rs_waitingReason :: "waiting_reason option"
  rs_nodes :: "node_run_state table"
  rs_outputs :: "jobj table"
  rs_containers :: "container_run_state table"
  rs_bounces :: "nat table"
  rs_branches :: "jstr table"
  rs_sessions :: jobj
  rs_triggerContext :: "trigger_context option"
  rs_cancelRequested :: "cancel_request option"
  rs_variables :: jobj
  rs_globals :: jobj

section \<open>Statuses\<close>

definition awaitsExternalEvent :: "node_status \<Rightarrow> bool" where
  "awaitsExternalEvent s =
     (case s of
        Ready \<Rightarrow> True | Dispatched \<Rightarrow> True | Waiting \<Rightarrow> True | RetryPending \<Rightarrow> True
      | WaitPending \<Rightarrow> True | ExternalWaitPending \<Rightarrow> True
      | Pending \<Rightarrow> False | Success \<Rightarrow> False | Failure \<Rightarrow> False | Skipped \<Rightarrow> False)"

definition isNodeInFlight :: "node_status \<Rightarrow> bool" where
  "isNodeInFlight s =
     (case s of
        Ready \<Rightarrow> True | Dispatched \<Rightarrow> True | Waiting \<Rightarrow> True | RetryPending \<Rightarrow> True
      | WaitPending \<Rightarrow> False | ExternalWaitPending \<Rightarrow> False
      | Pending \<Rightarrow> False | Success \<Rightarrow> False | Failure \<Rightarrow> False | Skipped \<Rightarrow> False)"

definition unparkIfWaiting :: "run_state \<Rightarrow> run_state" where
  "unparkIfWaiting st =
     (if rs_status st = RunWaiting then st\<lparr>rs_status := RunRunning, rs_waitingReason := None\<rparr> else st)"

definition markStoppedWork :: "run_state \<Rightarrow> run_state" where
  "markStoppedWork st =
     (case rs_cancelRequested st of
        None \<Rightarrow> st
      | Some cr \<Rightarrow> if cr_stoppedWork cr then st
                   else st\<lparr>rs_cancelRequested := Some (cr\<lparr>cr_stoppedWork := True\<rparr>)\<rparr>)"

definition heldRetryToFailure :: "node_run_state \<Rightarrow> node_run_state" where
  "heldRetryToFailure ns = ns\<lparr>ns_status := Failure, ns_currentAttemptId := None\<rparr>"

definition parkReason :: "run_state \<Rightarrow> waiting_reason" where
  "parkReason st =
     (if list_ex (\<lambda>p. ns_status (snd p) = ExternalWaitPending) (rs_nodes st)
      then WaitingExternal else WaitingTimer)"

definition stableEdgeKey :: "edge \<Rightarrow> jstr" where
  "stableEdgeKey e =
     e_from e @ [0] @ e_to e @ [0]
     @ (case e_on e of
          OnSuccess \<Rightarrow> lit ''success'' | OnFailure \<Rightarrow> lit ''failure'' | OnCompletion \<Rightarrow> lit ''completion''
        | OnSkipped \<Rightarrow> lit ''skipped'' | OnBranch _ \<Rightarrow> lit ''branch'')
     @ [0] @ (case e_on e of OnBranch b \<Rightarrow> b | _ \<Rightarrow> [])"

text \<open>A node in flight awaits an event; a terminal node neither.\<close>

lemma in_flight_awaits: "isNodeInFlight s \<Longrightarrow> awaitsExternalEvent s"
  by (cases s) (simp_all add: isNodeInFlight_def awaitsExternalEvent_def)

lemma terminal_awaits_nothing: "TERMINAL_NODE s \<Longrightarrow> \<not> awaitsExternalEvent s"
  by (cases s) (simp_all add: TERMINAL_NODE_def awaitsExternalEvent_def)

lemma status_trichotomy:
  "(s = Pending \<and> \<not> TERMINAL_NODE s \<and> \<not> awaitsExternalEvent s) \<or>
   (s \<noteq> Pending \<and> (TERMINAL_NODE s \<longleftrightarrow> \<not> awaitsExternalEvent s))"
  by (cases s) (simp_all add: TERMINAL_NODE_def awaitsExternalEvent_def)

text \<open>Without the delimiter in an id, the key tells the edges apart by what routing reads.\<close>

lemma split_at_zero:
  "0 \<notin> set a \<Longrightarrow> 0 \<notin> set b \<Longrightarrow> a @ 0 # x = b @ (0 :: nat) # y \<longleftrightarrow> a = b \<and> x = y"
  by (auto simp: append_eq_append_conv2 append_eq_Cons_conv Cons_eq_append_conv)

lemma stableEdgeKey_inj:
  assumes "0 \<notin> set (e_from e)" "0 \<notin> set (e_to e)" "0 \<notin> set (e_from f)" "0 \<notin> set (e_to f)"
  shows "stableEdgeKey e = stableEdgeKey f \<longleftrightarrow> e_from e = e_from f \<and> e_to e = e_to f \<and> e_on e = e_on f"
  using assms
  by (cases "e_on e"; cases "e_on f") (simp_all add: stableEdgeKey_def split_at_zero)

end
