(* ===== verification/DocGraph.thy ===== *)
theory DocGraph
  imports PipelineDoc
begin

text \<open>
  The graph of a document, \<open>engine/params.ts\<close>: forward reachability, the nodes a back-edge
  resets, the rule that the forward graph has no cycle, and the rules for a back-edge that is
  about to be drawn.
\<close>

section \<open>Reachability\<close>

definition nodeForwardAdjacency :: "doc \<Rightarrow> (jstr \<times> jstr list) list" where
  "nodeForwardAdjacency d =
     (let ids = map n_id (d_nodes d);
          es = filter (\<lambda>e. \<not> e_back e \<and> e_from e \<in> set ids \<and> e_to e \<in> set ids) (effectiveEdges d)
      in map (\<lambda>i. (i, map e_to (filter (\<lambda>e. e_from e = i) es))) (js_set ids))"

text \<open>The stack pops what was pushed last.\<close>

definition last_first :: "'a \<Rightarrow> 'b list \<Rightarrow> 'b list" where
  "last_first x ys = rev ys"

definition forwardDescendants :: "jstr \<Rightarrow> (jstr \<times> jstr list) list \<Rightarrow> jstr list" where
  "forwardDescendants start adj = visit last_first adj (rev (entries adj start)) []"

definition nodeDescendants :: "doc \<Rightarrow> (jstr \<times> jstr list) list" where
  "nodeDescendants d =
     (let adj = nodeForwardAdjacency d
      in map (\<lambda>i. (i, forwardDescendants i adj)) (js_set (map n_id (d_nodes d))))"

definition backEdgeResetBody ::
  "edge \<Rightarrow> jstr list \<Rightarrow> (jstr \<times> jstr list) list \<Rightarrow> (jstr \<Rightarrow> container option) \<Rightarrow> jstr list" where
  "backEdgeResetBody be nodeIds descendants containerById =
     (case containerById (e_to be) of
        Some c \<Rightarrow> c_children c
      | None \<Rightarrow>
          filter (\<lambda>n. (n = e_to be \<or> n \<in> set (entries descendants (e_to be)))
                      \<and> (n = e_from be \<or> e_from be \<in> set (entries descendants n))) nodeIds)"

section \<open>The forward graph\<close>

definition endpoints :: "doc \<Rightarrow> container list \<Rightarrow> jstr list" where
  "endpoints d cs = js_set (map n_id (d_nodes d) @ map c_id cs)"

text \<open>The edges as authored: nothing is synthesised here.\<close>

definition forward_edges :: "doc \<Rightarrow> container list \<Rightarrow> edge list" where
  "forward_edges d cs =
     filter (\<lambda>e. \<not> e_back e \<and> e_from e \<in> set (endpoints d cs) \<and> e_to e \<in> set (endpoints d cs)) (d_edges d)"

definition forward_adj :: "doc \<Rightarrow> container list \<Rightarrow> (jstr \<times> jstr list) list" where
  "forward_adj d cs =
     map (\<lambda>i. (i, map e_to (filter (\<lambda>e. e_from e = i) (forward_edges d cs)))) (endpoints d cs)"

definition in_degree :: "doc \<Rightarrow> container list \<Rightarrow> jstr \<Rightarrow> int" where
  "in_degree d cs v = int (length (filter (\<lambda>e. e_to e = v) (forward_edges d cs)))"

text \<open>The endpoints in or behind a cycle, when there is one.\<close>

definition forwardCycleErrors :: "doc \<Rightarrow> container list \<Rightarrow> jstr list option" where
  "forwardCycleErrors d cs =
     (let eps = endpoints d cs;
          queue = filter (\<lambda>i. in_degree d cs i = 0) eps;
          r = kahn (forward_adj d cs) queue (in_degree d cs)
      in if length eps \<le> length (fst r) then None
         else Some (sort (filter (\<lambda>i. 0 < snd r i) eps)))"

definition probe_edge :: "jstr \<Rightarrow> jstr \<Rightarrow> bool \<Rightarrow> nat option \<Rightarrow> edge" where
  "probe_edge frm to bk bounces =
     \<lparr>e_id = lit ''__probe__'', e_from = frm, e_to = to, e_on = OnSuccess, e_back = bk, e_maxBounces = bounces\<rparr>"

definition with_edge :: "doc \<Rightarrow> edge \<Rightarrow> doc" where
  "with_edge d e = d\<lparr>d_edges := d_edges d @ [e]\<rparr>"

definition closesForwardCycle :: "doc \<Rightarrow> container list \<Rightarrow> jstr \<Rightarrow> jstr \<Rightarrow> bool" where
  "closesForwardCycle d cs frm to =
     (if forwardCycleErrors d cs \<noteq> None then False
      else forwardCycleErrors (with_edge d (probe_edge frm to False None)) cs \<noteq> None)"

section \<open>Back-edges\<close>

definition touchesParallelBody :: "container \<Rightarrow> edge \<Rightarrow> bool" where
  "touchesParallelBody c e \<longleftrightarrow>
     isParallelForeach c \<and>
     (e_from e \<in> set (c_children c) \<or> e_to e \<in> set (c_children c) \<or> e_to e = c_id c)"

definition reach_adj :: "doc \<Rightarrow> container list \<Rightarrow> (jstr \<times> jstr list) list" where
  "reach_adj d cs =
     map (\<lambda>i. (i, entries (forward_adj d cs) i
                  @ concat (map (\<lambda>c. filter (\<lambda>ch. ch \<in> set (endpoints d cs)) (c_children c))
                                (filter (\<lambda>c. c_id c = i) cs))))
         (endpoints d cs)"

definition forwardReach :: "doc \<Rightarrow> container list \<Rightarrow> (jstr \<times> jstr list) list" where
  "forwardReach d cs =
     (let adj = reach_adj d cs
      in map (\<lambda>i. (i, visit last_first adj (rev (entries adj i)) [])) (endpoints d cs))"

definition reachesAncestor :: "(jstr \<times> jstr list) list \<Rightarrow> edge \<Rightarrow> bool" where
  "reachesAncestor reach e \<longleftrightarrow> e_from e \<in> set (entries reach (e_to e))"

definition resetsOwnSource ::
  "edge \<Rightarrow> jstr list \<Rightarrow> (jstr \<times> jstr list) list \<Rightarrow> (jstr \<Rightarrow> container option) \<Rightarrow> bool" where
  "resetsOwnSource e nodeIds descendants containerById \<longleftrightarrow>
     e_from e \<in> set (backEdgeResetBody e nodeIds descendants containerById)"

datatype back_edge_defect = Ancestry | NoProgress | ParallelBody

definition backEdgeDefect :: "doc \<Rightarrow> container list \<Rightarrow> jstr \<Rightarrow> jstr \<Rightarrow> back_edge_defect option" where
  "backEdgeDefect d cs frm to =
     (let probe = probe_edge frm to True (Some 1); w = with_edge d probe
      in if list_ex (\<lambda>c. touchesParallelBody c probe) cs then Some ParallelBody
         else if \<not> reachesAncestor (forwardReach w cs) probe then Some Ancestry
         else if resetsOwnSource probe (map n_id (d_nodes w)) (nodeDescendants w) (by_id cs) then None
         else Some NoProgress)"

section \<open>Reachability is the transitive closure\<close>

lemma successors_last_first: "successors last_first adj = arcs adj"
proof -
  have "pushed last_first adj x = rev (entries adj x)" for x
    by (simp add: pushed_def entries_def last_first_def split: option.split)
  then show ?thesis by (simp add: successors_def arcs_def)
qed

text \<open>An adjacency table read off a list of edges.\<close>

lemma arcs_table:
  "arcs (map (\<lambda>i. (i, map t (filter (\<lambda>e. f e = i) es))) ks) = (\<lambda>e. (f e, t e)) ` {e \<in> set es. f e \<in> set ks}"
  by (force simp: arcs_def entries_table split: if_splits)

lemma visit_descendants: "set (visit last_first adj (rev (entries adj i)) []) = (arcs adj)\<^sup>+ `` {i}"
proof -
  have "(arcs adj)\<^sup>* `` set (entries adj i) = (arcs adj)\<^sup>+ `` {i}"
    by (auto simp: arcs_def trancl_unfold_left)
  then show ?thesis by (simp add: visit_reachable successors_last_first)
qed

lemma forwardDescendants_closure: "set (forwardDescendants i adj) = (arcs adj)\<^sup>+ `` {i}"
  unfolding forwardDescendants_def by (rule visit_descendants)

text \<open>The forward arcs between nodes, of the effective edges.\<close>

definition node_arcs :: "doc \<Rightarrow> (jstr \<times> jstr) set" where
  "node_arcs d = (\<lambda>e. (e_from e, e_to e)) `
     {e \<in> set (effectiveEdges d). \<not> e_back e
        \<and> e_from e \<in> n_id ` set (d_nodes d) \<and> e_to e \<in> n_id ` set (d_nodes d)}"

lemma arcs_nodeForwardAdjacency: "arcs (nodeForwardAdjacency d) = node_arcs d"
  unfolding nodeForwardAdjacency_def node_arcs_def Let_def arcs_table by (rule image_cong) auto

lemma nodeDescendants_closure:
  "set (entries (nodeDescendants d) i) = (if i \<in> n_id ` set (d_nodes d) then (node_arcs d)\<^sup>+ `` {i} else {})"
  by (auto simp: nodeDescendants_def Let_def entries_table forwardDescendants_closure arcs_nodeForwardAdjacency)

text \<open>A back-edge to a node resets the nodes on the forward paths from its target to its source.\<close>

lemma reset_body_paths:
  assumes "containerById (e_to be) = None" "e_to be \<in> n_id ` set (d_nodes d)"
  shows "n \<in> set (backEdgeResetBody be (map n_id (d_nodes d)) (nodeDescendants d) containerById) \<longleftrightarrow>
    n \<in> n_id ` set (d_nodes d) \<and> (e_to be, n) \<in> (node_arcs d)\<^sup>* \<and> (n, e_from be) \<in> (node_arcs d)\<^sup>*"
  using assms
  by (auto simp: backEdgeResetBody_def nodeDescendants_closure rtrancl_eq_or_trancl)

section \<open>The forward graph is a DAG\<close>

definition forward_arcs :: "doc \<Rightarrow> container list \<Rightarrow> (jstr \<times> jstr) set" where
  "forward_arcs d cs = (\<lambda>e. (e_from e, e_to e)) `
     {e \<in> set (d_edges d). \<not> e_back e
        \<and> {e_from e, e_to e} \<subseteq> n_id ` set (d_nodes d) \<union> c_id ` set cs}"

lemma forward_arcs_edges: "forward_arcs d cs = (\<lambda>e. (e_from e, e_to e)) ` set (forward_edges d cs)"
  by (simp add: forward_arcs_def forward_edges_def endpoints_def conj_ac)

lemma forward_edge_endpoints:
  "e \<in> set (forward_edges d cs) \<Longrightarrow> e_from e \<in> set (endpoints d cs) \<and> e_to e \<in> set (endpoints d cs)"
  by (simp add: forward_edges_def)

lemma arcs_forward_adj: "arcs (forward_adj d cs) = forward_arcs d cs"
  unfolding forward_adj_def forward_arcs_edges arcs_table
  using forward_edge_endpoints by (intro image_cong) auto

lemma sum_filter_from:
  assumes "finite V" "\<And>e. e \<in> set es \<Longrightarrow> f e \<in> V"
  shows "(\<Sum>x \<in> V. count_list (map g (filter (\<lambda>e. f e = x) es)) v) = length (filter (\<lambda>e. g e = v) es)"
  using assms(2)
proof (induction es)
  case (Cons e es)
  have "(\<Sum>x \<in> V. count_list (map g (filter (\<lambda>e. f e = x) (e # es))) v) =
      (\<Sum>x \<in> V. (if f e = x \<and> g e = v then 1 else 0) + count_list (map g (filter (\<lambda>e. f e = x) es)) v)"
    by (intro sum.cong) auto
  also have "\<dots> = (if g e = v then 1 else 0) + length (filter (\<lambda>e. g e = v) es)"
    using Cons assms(1) by (auto simp: sum.distrib)
  finally show ?case by simp
qed simp

lemma forward_sweep:
  "sweep (set (endpoints d cs)) (forward_adj d cs) []
     (filter (\<lambda>i. in_degree d cs i = 0) (endpoints d cs)) (in_degree d cs)"
proof -
  have "edges_into (forward_adj d cs) (set (endpoints d cs)) v =
      length (filter (\<lambda>e. e_to e = v) (forward_edges d cs))" for v
  proof -
    have "edges_into (forward_adj d cs) (set (endpoints d cs)) v =
        (\<Sum>x \<in> set (endpoints d cs). count_list (map e_to (filter (\<lambda>e. e_from e = x) (forward_edges d cs))) v)"
      unfolding edges_into_def by (intro sum.cong) (simp_all add: forward_adj_def entries_table)
    also have "\<dots> = length (filter (\<lambda>e. e_to e = v) (forward_edges d cs))"
      by (rule sum_filter_from) (use forward_edge_endpoints in auto)
    finally show ?thesis .
  qed
  moreover have "arcs (forward_adj d cs) \<subseteq> set (endpoints d cs) \<times> set (endpoints d cs)"
    unfolding arcs_forward_adj forward_arcs_edges using forward_edge_endpoints by auto
  moreover have "distinct (endpoints d cs)" by (simp add: endpoints_def)
  ultimately show ?thesis by (auto simp: sweep_def in_degree_def in_order_def)
qed

lemma forwardCycle_acyclic: "forwardCycleErrors d cs = None \<longleftrightarrow> acyclic (forward_arcs d cs)"
proof -
  let ?order = "fst (kahn (forward_adj d cs) (filter (\<lambda>i. in_degree d cs i = 0) (endpoints d cs)) (in_degree d cs))"
  have "distinct (endpoints d cs)" by (simp add: endpoints_def)
  then have c: "card (set (endpoints d cs)) = length (endpoints d cs)" by (rule distinct_card)
  have "sweep (set (endpoints d cs)) (forward_adj d cs) ?order []
      (snd (kahn (forward_adj d cs) (filter (\<lambda>i. in_degree d cs i = 0) (endpoints d cs)) (in_degree d cs)))"
    using sweep_kahn [OF forward_sweep, of d cs] by simp
  then have "distinct ?order" "set ?order \<subseteq> set (endpoints d cs)" by (simp_all add: sweep_def)
  then have "length ?order \<le> length (endpoints d cs)"
    unfolding c [symmetric] by (simp add: card_mono flip: distinct_card)
  then have "forwardCycleErrors d cs = None \<longleftrightarrow> length ?order = card (set (endpoints d cs))"
    using c by (auto simp: forwardCycleErrors_def Let_def)
  then show ?thesis using sweep_acyclic(2) [OF forward_sweep] by (simp add: arcs_forward_adj)
qed

lemma forward_arcs_probe:
  assumes "frm \<in> set (endpoints d cs)" "to \<in> set (endpoints d cs)"
  shows "forward_arcs (with_edge d (probe_edge frm to False None)) cs = insert (frm, to) (forward_arcs d cs)"
proof -
  have "endpoints (with_edge d e) cs = endpoints d cs" for e by (simp add: endpoints_def with_edge_def)
  then have "forward_edges (with_edge d (probe_edge frm to False None)) cs =
      forward_edges d cs @ [probe_edge frm to False None]"
    using assms by (simp add: forward_edges_def with_edge_def probe_edge_def)
  then show ?thesis by (auto simp: forward_arcs_edges probe_edge_def)
qed

text \<open>An edge closes a cycle exactly when its target already reaches its source.\<close>

lemma closes_iff:
  assumes "frm \<in> set (endpoints d cs)" "to \<in> set (endpoints d cs)"
  shows "closesForwardCycle d cs frm to \<longleftrightarrow>
    acyclic (forward_arcs d cs) \<and> (to, frm) \<in> (forward_arcs d cs)\<^sup>*"
  unfolding closesForwardCycle_def forwardCycle_acyclic forward_arcs_probe [OF assms] acyclic_insert
  by simp

end
