(* ===== verification/Binding.thy ===== *)
theory Binding
  imports RunState DocGraph InstanceKey RunParams
begin

text \<open>
  What \<open>createEngine\<close> of \<open>engine/reduce.ts\<close> precomputes of a document before it folds an
  event: the containers with the children they keep, the readiness partition, the outgoing
  edges, the reset bodies of the back-edges, and the defects it reports.
\<close>

section \<open>Containers as the run sees them\<close>

definition owners :: "doc \<Rightarrow> (jstr \<times> jstr) list" where
  "owners d = mb_owner (containerMembership (d_containers d))"

definition is_node :: "doc \<Rightarrow> jstr \<Rightarrow> bool" where
  "is_node d i \<longleftrightarrow> i \<in> n_id ` set (d_nodes d)"

definition kept_children :: "doc \<Rightarrow> container \<Rightarrow> jstr list" where
  "kept_children d c = filter (\<lambda>ch. is_node d ch \<and> map_of (owners d) ch = Some (c_id c)) (c_children c)"

definition bound_containers :: "doc \<Rightarrow> container list" where
  "bound_containers d = map (\<lambda>c. c\<lparr>c_children := kept_children d c\<rparr>) (d_containers d)"

definition container_by_id :: "doc \<Rightarrow> jstr \<Rightarrow> container option" where
  "container_by_id d = by_id (bound_containers d)"

definition node_by_id :: "doc \<Rightarrow> jstr \<Rightarrow> node option" where
  "node_by_id d = js_map_of (map (\<lambda>n. (n_id n, n)) (d_nodes d))"

definition parallelChildIds :: "doc \<Rightarrow> jstr list" where
  "parallelChildIds d = js_set (concat (map c_children (filter isParallelForeach (bound_containers d))))"

section \<open>Instances\<close>

definition scopeOfStateId :: "doc \<Rightarrow> jstr \<Rightarrow> (container \<times> jnum) option" where
  "scopeOfStateId d sid =
     (case parseInstanceKey sid of
        None \<Rightarrow> None
      | Some (docId, i) \<Rightarrow>
          (case map_of (owners d) docId of
             None \<Rightarrow> None
           | Some cid \<Rightarrow>
               (case container_by_id d cid of
                  None \<Rightarrow> None
                | Some c \<Rightarrow> if isParallelForeach c then Some (c, i) else None)))"

definition docNodeFor :: "doc \<Rightarrow> jstr \<Rightarrow> node option" where
  "docNodeFor d i = (case node_by_id d i of Some n \<Rightarrow> Some n | None \<Rightarrow> node_by_id d (docNodeIdOf i))"

type_synonym item_scope = "(container \<times> nat) option"

definition ikey :: "doc \<Rightarrow> item_scope \<Rightarrow> jstr \<Rightarrow> jstr" where
  "ikey d sc i =
     (case sc of
        None \<Rightarrow> i
      | Some (c, k) \<Rightarrow> if map_of (owners d) i = Some (c_id c) then instanceKey i k else i)"

section \<open>Edges by endpoint\<close>

definition part :: "doc \<Rightarrow> partition" where
  "part d = partitionReadiness d (bound_containers d) (owners d)"

definition topEntities :: "doc \<Rightarrow> jstr list" where
  "topEntities d =
     filter (\<lambda>i. i \<notin> fst ` set (owners d)) (map n_id (d_nodes d)) @ map c_id (bound_containers d)"

definition sortedTopEntities :: "doc \<Rightarrow> jstr list" where
  "sortedTopEntities d = sort (topEntities d)"

definition cross_boundary :: "doc \<Rightarrow> edge \<Rightarrow> bool" where
  "cross_boundary d e \<longleftrightarrow> map_of (owners d) (e_from e) \<noteq> map_of (owners d) (e_to e)"

definition topIncoming :: "doc \<Rightarrow> (jstr \<times> edge list) list" where
  "topIncoming d = p_topIncoming (part d)"

definition childIncoming :: "doc \<Rightarrow> (jstr \<times> edge list) list" where
  "childIncoming d = p_childIncoming (part d)"

definition topOutgoing :: "doc \<Rightarrow> (jstr \<times> edge list) list" where
  "topOutgoing d =
     map (\<lambda>i. (i, filter (\<lambda>e. e_from e = i \<and> \<not> cross_boundary d e) (p_topForward (part d))))
         (js_set (topEntities d))"

definition childOutgoing :: "doc \<Rightarrow> (jstr \<times> edge list) list" where
  "childOutgoing d =
     map (\<lambda>ch. (ch, concat (map (\<lambda>c. filter (\<lambda>e. e_from e = ch) (entries (p_internalForward (part d)) (c_id c)))
                               (bound_containers d))))
         (map fst (owners d))"

definition backBodyByKey :: "doc \<Rightarrow> (jstr \<times> jstr list) list" where
  "backBodyByKey d =
     foldl (\<lambda>m be. map_set (stableEdgeKey be)
                (backEdgeResetBody be (map n_id (d_nodes d)) (nodeDescendants d) (container_by_id d)) m)
       [] (p_backEdges (part d))"

section \<open>Defects\<close>

datatype doc_defect =
    DuplicateChild jstr jstr jstr
  | ChildNotNode jstr jstr
  | CrossesBoundary edge
  | OwnContainer edge

text \<open>What one forward edge at the top level is reported for.\<close>

definition edge_defects :: "doc \<Rightarrow> edge \<Rightarrow> doc_defect list" where
  "edge_defects d e =
     (let from_top = e_from e \<in> keys (topOutgoing d)
      in (if from_top \<and> cross_boundary d e then [CrossesBoundary e] else [])
         @ (if map_of (owners d) (e_from e) = Some (e_to e) then [OwnContainer e]
            else if e_to e \<notin> keys (topIncoming d) \<and> \<not> from_top then [CrossesBoundary e]
            else []))"

definition docDefects :: "doc \<Rightarrow> doc_defect list" where
  "docDefects d =
     map (\<lambda>u. DuplicateChild (dup_container u) (dup_child u) (dup_first u))
         (filter (\<lambda>u. is_node d (dup_child u)) (mb_duplicates (containerMembership (d_containers d))))
     @ concat (map (\<lambda>c. map (ChildNotNode (c_id c)) (filter (\<lambda>ch. \<not> is_node d ch) (c_children c)))
                   (d_containers d))
     @ concat (map (edge_defects d) (p_topForward (part d)))"

section \<open>Facts\<close>

text \<open>Every child that is kept is a node, and kept by its owner only.\<close>

lemma kept_children_facts:
  assumes "ch \<in> set (kept_children d c)"
  shows "is_node d ch" "owner_of (d_containers d) ch = Some (c_id c)" "ch \<in> set (c_children c)"
  using assms by (simp_all add: kept_children_def owners_def owner_of_def)

lemma kept_children_owner_unique:
  assumes "ch \<in> set (kept_children d c)" "ch \<in> set (kept_children d c')"
  shows "c_id c = c_id c'"
  using assms [THEN kept_children_facts(2)] by simp

lemma node_by_id_None: "node_by_id d i = None \<longleftrightarrow> \<not> is_node d i"
  by (auto simp: node_by_id_def js_map_of_def is_node_def map_of_eq_None_iff image_iff)

lemma node_by_id_Some: "node_by_id d i = Some n \<Longrightarrow> n \<in> set (d_nodes d) \<and> n_id n = i"
  by (auto simp: node_by_id_def js_map_of_def dest: map_of_SomeD)

lemma by_id_Some: "by_id cs i = Some c \<Longrightarrow> c \<in> set cs \<and> c_id c = i"
  by (auto simp: by_id_def js_map_of_def dest: map_of_SomeD)

lemma by_id_None: "by_id cs i = None \<longleftrightarrow> i \<notin> c_id ` set cs"
  by (auto simp: by_id_def js_map_of_def map_of_eq_None_iff image_iff)

lemma bound_container_ids: "map c_id (bound_containers d) = map c_id (d_containers d)"
  by (simp add: bound_containers_def)

lemma container_by_id_None: "container_by_id d i = None \<longleftrightarrow> i \<notin> c_id ` set (d_containers d)"
proof -
  have "c_id ` set (bound_containers d) = c_id ` set (d_containers d)"
    by (metis bound_container_ids list.set_map)
  then show ?thesis by (simp add: container_by_id_def by_id_None)
qed

text \<open>Every edge that gates an entity is a known forward edge that targets it.\<close>

lemma topIncoming_edge:
  assumes "e \<in> set (entries (topIncoming d) i)"
  shows "e_to e = i" "\<not> e_back e" "e \<in> set (effectiveEdges d)"
    "e_from e \<in> set (p_endpointIds (part d))" "e_to e \<in> set (p_endpointIds (part d))"
  using assms
  by (auto simp: topIncoming_def part_def partitionReadiness_def Let_def entries_table split: if_splits)

lemma part_simps:
  "p_internalForward (part d) = map (\<lambda>c. (c, filter (\<lambda>e. internal_edge (owners d) e \<and> map_of (owners d) (e_from e) = Some c)
     (filter (\<lambda>e. \<not> e_back e \<and> e_from e \<in> set (p_endpointIds (part d)) \<and> e_to e \<in> set (p_endpointIds (part d)))
       (effectiveEdges d)))) (js_set (map c_id (bound_containers d)))"
  by (simp add: part_def partitionReadiness_def Let_def)

lemma entries_childIncoming:
  "entries (childIncoming d) i =
     (if i \<in> fst ` set (owners d)
      then concat (map (\<lambda>c. filter (\<lambda>e. e_to e = i) (entries (p_internalForward (part d)) (c_id c))) (bound_containers d))
      else [])"
  unfolding childIncoming_def part_def partitionReadiness_def Let_def partition.select_convs entries_table list.set_map ..

lemma childIncoming_edge:
  assumes "e \<in> set (entries (childIncoming d) i)"
  shows "e_to e = i" "\<not> e_back e" "e \<in> set (effectiveEdges d)"
    "e_from e \<in> set (p_endpointIds (part d))" "e_to e \<in> set (p_endpointIds (part d))"
    "map_of (owners d) (e_from e) = map_of (owners d) i" "map_of (owners d) i \<noteq> None"
  using assms unfolding entries_childIncoming part_simps entries_table internal_edge_def
  by (auto split: if_splits option.splits)

text \<open>No forward edge between known endpoints is lost: it gates its target or it is reported.\<close>

lemma topForward_part: "set (p_topForward (part d)) = {e \<in> set (effectiveEdges d). \<not> e_back e
    \<and> e_from e \<in> set (p_endpointIds (part d)) \<and> e_to e \<in> set (p_endpointIds (part d)) \<and> \<not> internal_edge (owners d) e}"
  by (auto simp: part_def partitionReadiness_def Let_def)

lemma keys_topIncoming: "keys (topIncoming d) = set (topEntities d)"
proof -
  have "fst ` set (owners d) = set (map fst (owners d))" by simp
  then show ?thesis
    unfolding topIncoming_def part_def partitionReadiness_def Let_def partition.select_convs keys_table
    by (auto simp: topEntities_def)
qed

lemma entries_topIncoming:
  assumes "i \<in> set (topEntities d)"
  shows "entries (topIncoming d) i =
    filter (\<lambda>e. map_of (owners d) (e_from e) \<noteq> Some (e_to e) \<and> e_to e = i) (p_topForward (part d))"
proof -
  have "i \<in> keys (topIncoming d)" using assms by (simp add: keys_topIncoming)
  then show ?thesis
    unfolding topIncoming_def part_def partitionReadiness_def Let_def partition.select_convs keys_table entries_table
    by simp
qed

lemma edge_gates_or_reported:
  assumes e: "e \<in> set (effectiveEdges d)" "\<not> e_back e"
    and ends: "e_from e \<in> set (p_endpointIds (part d))" "e_to e \<in> set (p_endpointIds (part d))"
  shows "e \<in> set (entries (topIncoming d) (e_to e)) \<or> e \<in> set (entries (childIncoming d) (e_to e))
    \<or> CrossesBoundary e \<in> set (docDefects d) \<or> OwnContainer e \<in> set (docDefects d)"
proof (cases "internal_edge (owners d) e")
  case True
  then obtain c where c: "map_of (owners d) (e_from e) = Some c" "map_of (owners d) (e_to e) = Some c"
    by (auto simp: internal_edge_def split: option.splits)
  have "c \<in> c_id ` set (d_containers d)" using c(1) owner_of_container by (simp add: owners_def owner_of_def)
  then have "c \<in> c_id ` set (bound_containers d)" by (metis bound_container_ids list.set_map)
  then obtain k where k: "k \<in> set (bound_containers d)" "c_id k = c" by auto
  have "e_to e \<in> fst ` set (owners d)" using map_of_SomeD [OF c(2)] by force
  moreover have "e \<in> set (entries (p_internalForward (part d)) c)"
    unfolding part_simps entries_table using True c(1) e ends k by auto
  ultimately have "e \<in> set (entries (childIncoming d) (e_to e))"
    unfolding entries_childIncoming using k by auto
  then show ?thesis by blast
next
  case False
  then have top: "e \<in> set (p_topForward (part d))" using e ends by (simp add: topForward_part)
  then have rep: "set (edge_defects d e) \<subseteq> set (docDefects d)" by (auto simp: docDefects_def)
  show ?thesis
  proof (cases "map_of (owners d) (e_from e) = Some (e_to e)")
    case True
    then show ?thesis using rep by (auto simp: edge_defects_def Let_def)
  next
    case own: False
    show ?thesis
    proof (cases "e_to e \<in> set (topEntities d)")
      case True
      then show ?thesis using top own by (simp add: entries_topIncoming)
    next
      case child: False
      then have "e_to e \<notin> keys (topIncoming d)" by (simp add: keys_topIncoming)
      moreover have "cross_boundary d e"
      proof -
        have "e_to e \<in> fst ` set (owners d)"
          using child ends(2) by (auto simp: topEntities_def part_def partitionReadiness_def Let_def)
        then obtain c where "map_of (owners d) (e_to e) = Some c"
          by (metis map_of_eq_None_iff not_None_eq)
        then show ?thesis using False by (auto simp: cross_boundary_def internal_edge_def split: option.splits)
      qed
      ultimately have "CrossesBoundary e \<in> set (edge_defects d e)"
        using own by (auto simp: edge_defects_def Let_def)
      then show ?thesis using rep by blast
    qed
  qed
qed
end
