(* ===== verification/Readiness.thy ===== *)
theory Readiness
  imports Binding
begin

text \<open>
  When an entity of a run may start, must be skipped or has to wait, and whether a settled
  scope failed: \<open>endpointOutcome\<close>, \<open>edgeState\<close>, \<open>predecessorGroups\<close>, \<open>explainSkip\<close>,
  \<open>computeReadiness\<close> and \<open>outcomeFailure\<close> of \<open>engine/reduce.ts\<close>.
\<close>

section \<open>Outcomes and edges\<close>

definition container_outcome :: "container_status \<Rightarrow> node_status option" where
  "container_outcome s =
     (case s of CSuccess \<Rightarrow> Some Success | CFailure \<Rightarrow> Some Failure | CSkipped \<Rightarrow> Some Skipped
      | _ \<Rightarrow> None)"

definition endpointOutcome :: "doc \<Rightarrow> run_state \<Rightarrow> item_scope \<Rightarrow> jstr \<Rightarrow> node_status option" where
  "endpointOutcome d st sc i =
     (if container_by_id d i \<noteq> None
      then (case map_of (rs_containers st) i of
              None \<Rightarrow> None
            | Some cs \<Rightarrow> container_outcome (cs_status cs))
      else (case map_of (rs_nodes st) (ikey d sc i) of
              None \<Rightarrow> None
            | Some ns \<Rightarrow> if TERMINAL_NODE (ns_status ns) then Some (ns_status ns) else None))"

datatype edge_state = Satisfied | UnsatisfiedTerminal | EdgePending | Impossible

definition edgeState :: "doc \<Rightarrow> run_state \<Rightarrow> item_scope \<Rightarrow> edge \<Rightarrow> edge_state" where
  "edgeState d st sc e =
     (if e_from e \<notin> set (p_endpointIds (part d)) then Impossible
      else case endpointOutcome d st sc (e_from e) of
             None \<Rightarrow> EdgePending
           | Some oc \<Rightarrow>
               if oc = Skipped then (if e_on e = OnSkipped then Satisfied else Impossible)
               else (case e_on e of
                       OnBranch b \<Rightarrow>
                         if map_of (rs_branches st) (ikey d sc (e_from e)) = Some b
                         then Satisfied else UnsatisfiedTerminal
                     | _ \<Rightarrow>
                         if oc = Success
                         then (if e_on e = OnSuccess \<or> e_on e = OnCompletion then Satisfied else UnsatisfiedTerminal)
                         else (if e_on e = OnFailure \<or> e_on e = OnCompletion then Satisfied else UnsatisfiedTerminal)))"

definition isEdgeStateDead :: "edge_state \<Rightarrow> bool" where
  "isEdgeStateDead s \<longleftrightarrow> s = Impossible \<or> s = UnsatisfiedTerminal"

section \<open>Readiness\<close>

datatype group_state = GroupReady | GroupDead | GroupPending

record pred_group =
  pg_from :: jstr
  pg_edges :: "edge list"
  pg_group :: group_state

definition group_of :: "edge_state list \<Rightarrow> group_state" where
  "group_of ss =
     (if list_ex (\<lambda>s. s = Satisfied) ss then GroupReady
      else if list_all isEdgeStateDead ss then GroupDead else GroupPending)"

text \<open>The map from predecessors to their edges, in the order of their first edge.\<close>

definition predecessorGroups :: "doc \<Rightarrow> run_state \<Rightarrow> item_scope \<Rightarrow> edge list \<Rightarrow> pred_group list" where
  "predecessorGroups d st sc incoming =
     map (\<lambda>f. let es = filter (\<lambda>e. e_from e = f) incoming
              in \<lparr>pg_from = f, pg_edges = es, pg_group = group_of (map (edgeState d st sc) es)\<rparr>)
       (js_set (map e_from incoming))"

datatype readiness = MayStart | MustSkip | MustWait

definition computeReadiness :: "doc \<Rightarrow> run_state \<Rightarrow> item_scope \<Rightarrow> edge list \<Rightarrow> join \<Rightarrow> readiness" where
  "computeReadiness d st sc incoming jn =
     (if incoming = [] then MayStart
      else let groups = map pg_group (predecessorGroups d st sc incoming)
           in if jn = JoinAll
              then (if list_all (\<lambda>g. g = GroupReady) groups then MayStart
                    else if list_ex (\<lambda>g. g = GroupDead) groups then MustSkip
                    else MustWait)
              else (if list_ex (\<lambda>g. g = GroupReady) groups then MayStart
                    else if list_all (\<lambda>g. g = GroupDead) groups then MustSkip
                    else MustWait))"

definition inherited_skip :: "doc \<Rightarrow> run_state \<Rightarrow> item_scope \<Rightarrow> jstr \<Rightarrow> skip_reason option" where
  "inherited_skip d st sc f =
     (if container_by_id d f \<noteq> None
      then (case map_of (rs_containers st) f of None \<Rightarrow> None | Some cs \<Rightarrow> cs_skipReason cs)
      else (case map_of (rs_nodes st) (ikey d sc f) of None \<Rightarrow> None | Some ns \<Rightarrow> ns_skipReason ns))"

definition is_branch_edge :: "edge \<Rightarrow> bool" where
  "is_branch_edge e \<longleftrightarrow> (case e_on e of OnBranch _ \<Rightarrow> True | _ \<Rightarrow> False)"

text \<open>The reason one predecessor group gives, if it gives one.\<close>

definition group_reason :: "doc \<Rightarrow> run_state \<Rightarrow> item_scope \<Rightarrow> pred_group \<Rightarrow> skip_reason option" where
  "group_reason d st sc g =
     (if pg_group g \<noteq> GroupDead then None
      else case endpointOutcome d st sc (pg_from g) of
             None \<Rightarrow> None
           | Some oc \<Rightarrow>
               if oc = Skipped
               then Some (case inherited_skip d st sc (pg_from g) of
                            Some r \<Rightarrow> r | None \<Rightarrow> Upstream (pg_from g) Skipped)
               else if oc = Success \<and> list_ex is_branch_edge (pg_edges g)
               then Some (BranchTaken (pg_from g) (map_of (rs_branches st) (ikey d sc (pg_from g))))
               else Some (Upstream (pg_from g) oc))"

definition is_failure_reason :: "skip_reason \<Rightarrow> bool" where
  "is_failure_reason r \<longleftrightarrow> (case r of Upstream f oc \<Rightarrow> oc = Failure | _ \<Rightarrow> False)"

definition explainSkip :: "doc \<Rightarrow> run_state \<Rightarrow> item_scope \<Rightarrow> edge list \<Rightarrow> skip_reason option" where
  "explainSkip d st sc incoming =
     (let reasons = List.map_filter (group_reason d st sc) (predecessorGroups d st sc incoming)
      in case find is_failure_reason reasons of
           Some r \<Rightarrow> Some r
         | None \<Rightarrow> (case reasons of [] \<Rightarrow> None | r # _ \<Rightarrow> Some r))"

section \<open>The outcome of a settled scope\<close>

text \<open>
  \<open>outcomeFailure\<close> works over the entities of a scope with their edges; \<open>oc\<close> and \<open>es\<close> are
  \<open>endpointOutcome\<close> and \<open>edgeState\<close> of its state.
\<close>

definition entity_ran :: "(jstr \<Rightarrow> node_status option) \<Rightarrow> jstr \<Rightarrow> bool" where
  "entity_ran oc i \<longleftrightarrow> oc i = Some Success \<or> oc i = Some Failure"

definition catches_skip :: "(jstr \<Rightarrow> node_status option) \<Rightarrow> (edge \<Rightarrow> edge_state) \<Rightarrow> edge \<Rightarrow> bool" where
  "catches_skip oc es e \<longleftrightarrow> e_on e = OnSkipped \<and> es e = Satisfied \<and> entity_ran oc (e_to e)"

definition taints :: "(jstr \<Rightarrow> node_status option) \<Rightarrow> (edge \<Rightarrow> edge_state) \<Rightarrow> edge \<Rightarrow> bool" where
  "taints oc es e \<longleftrightarrow> isEdgeStateDead (es e) \<and> oc (e_to e) = Some Skipped"

definition absorbedSkip ::
  "(jstr \<Rightarrow> node_status option) \<Rightarrow> (edge \<Rightarrow> edge_state) \<Rightarrow> (jstr \<times> edge list) list \<Rightarrow> jstr \<Rightarrow> bool" where
  "absorbedSkip oc es outgoing from \<longleftrightarrow>
     search (\<lambda>i. list_ex (catches_skip oc es) (entries outgoing i))
            (\<lambda>i out. rev (map e_to (filter (taints oc es) out))) outgoing [from] [] \<noteq> None"

definition absorbedFailure ::
  "(jstr \<Rightarrow> node_status option) \<Rightarrow> (edge \<Rightarrow> edge_state) \<Rightarrow> (jstr \<times> edge list) list \<Rightarrow> jstr \<Rightarrow> bool" where
  "absorbedFailure oc es outgoing i \<longleftrightarrow>
     list_ex (\<lambda>e. (e_on e = OnFailure \<or> e_on e = OnCompletion) \<and> es e = Satisfied \<and> entity_ran oc (e_to e)
                  \<or> taints oc es e \<and> absorbedSkip oc es outgoing (e_to e))
             (entries outgoing i)"

definition evalEndpoint ::
  "(jstr \<Rightarrow> node_status option) \<Rightarrow> (jstr \<times> edge list) list \<Rightarrow> jstr \<Rightarrow> jstr option" where
  "evalEndpoint oc incoming from =
     search (\<lambda>i. oc i = Some Failure)
            (\<lambda>i ins. if oc i = Some Skipped then map e_from ins else []) incoming [from] []"

definition outcomeFailure ::
  "(jstr \<Rightarrow> node_status option) \<Rightarrow> (edge \<Rightarrow> edge_state) \<Rightarrow> jstr list
     \<Rightarrow> (jstr \<times> edge list) list \<Rightarrow> (jstr \<times> edge list) list \<Rightarrow> jstr option" where
  "outcomeFailure oc es entities outgoing incoming =
     (case find (\<lambda>i. oc i = Some Failure \<and> \<not> absorbedFailure oc es outgoing i) entities of
        Some i \<Rightarrow> Some i
      | None \<Rightarrow>
          (case find (\<lambda>i. entries outgoing i = [] \<and> evalEndpoint oc incoming i \<noteq> None) entities of
             Some i \<Rightarrow> evalEndpoint oc incoming i
           | None \<Rightarrow> None))"

definition runOutcomeFailure :: "doc \<Rightarrow> run_state \<Rightarrow> jstr option" where
  "runOutcomeFailure d st =
     outcomeFailure (endpointOutcome d st None) (edgeState d st None)
       (sortedTopEntities d) (topOutgoing d) (topIncoming d)"

definition containerOutcomeFailure :: "doc \<Rightarrow> run_state \<Rightarrow> item_scope \<Rightarrow> container \<Rightarrow> jstr option" where
  "containerOutcomeFailure d st sc c =
     outcomeFailure (endpointOutcome d st sc) (edgeState d st sc)
       (sort (c_children c)) (childOutgoing d) (childIncoming d)"

definition allTopLevelTerminal :: "doc \<Rightarrow> run_state \<Rightarrow> bool" where
  "allTopLevelTerminal d st = list_all (\<lambda>i. endpointOutcome d st None i \<noteq> None) (sortedTopEntities d)"

section \<open>Readiness, edge by edge\<close>

text \<open>
  The verdict without the grouping: AND across predecessors, OR among the edges of one.
\<close>

lemma groups_all:
  "list_all P (map pg_group (predecessorGroups d st sc incoming)) \<longleftrightarrow>
     (\<forall>f \<in> e_from ` set incoming. P (group_of (map (edgeState d st sc) (filter (\<lambda>e. e_from e = f) incoming))))"
  by (simp add: predecessorGroups_def Let_def list_all_iff)

lemma groups_ex:
  "list_ex P (map pg_group (predecessorGroups d st sc incoming)) \<longleftrightarrow>
     (\<exists>f \<in> e_from ` set incoming. P (group_of (map (edgeState d st sc) (filter (\<lambda>e. e_from e = f) incoming))))"
  by (simp add: predecessorGroups_def Let_def list_ex_iff)

definition dead_predecessor :: "doc \<Rightarrow> run_state \<Rightarrow> item_scope \<Rightarrow> edge list \<Rightarrow> jstr \<Rightarrow> bool" where
  "dead_predecessor d st sc incoming f \<longleftrightarrow>
     (\<forall>e \<in> set incoming. e_from e = f \<longrightarrow> isEdgeStateDead (edgeState d st sc e))"

definition ready_predecessor :: "doc \<Rightarrow> run_state \<Rightarrow> item_scope \<Rightarrow> edge list \<Rightarrow> jstr \<Rightarrow> bool" where
  "ready_predecessor d st sc incoming f \<longleftrightarrow>
     (\<exists>e \<in> set incoming. e_from e = f \<and> edgeState d st sc e = Satisfied)"

lemma group_of_map:
  "group_of (map g es) = GroupReady \<longleftrightarrow> (\<exists>e \<in> set es. g e = Satisfied)"
  "group_of (map g es) = GroupDead \<longleftrightarrow> (\<forall>e \<in> set es. isEdgeStateDead (g e))"
proof -
  have ex: "list_ex (\<lambda>s. s = Satisfied) (map g es) \<longleftrightarrow> (\<exists>e \<in> set es. g e = Satisfied)"
    by (induction es) auto
  have all: "list_all isEdgeStateDead (map g es) \<longleftrightarrow> (\<forall>e \<in> set es. isEdgeStateDead (g e))"
    by (induction es) auto
  show "group_of (map g es) = GroupReady \<longleftrightarrow> (\<exists>e \<in> set es. g e = Satisfied)"
    by (simp add: group_of_def ex all)
  show "group_of (map g es) = GroupDead \<longleftrightarrow> (\<forall>e \<in> set es. isEdgeStateDead (g e))"
    using ex all by (auto simp: group_of_def isEdgeStateDead_def)
qed

lemma group_ready_iff:
  "group_of (map (edgeState d st sc) (filter (\<lambda>e. e_from e = f) incoming)) = GroupReady
     \<longleftrightarrow> ready_predecessor d st sc incoming f"
  by (auto simp: group_of_map ready_predecessor_def)

lemma group_dead_iff:
  "group_of (map (edgeState d st sc) (filter (\<lambda>e. e_from e = f) incoming)) = GroupDead
     \<longleftrightarrow> dead_predecessor d st sc incoming f"
  by (auto simp: group_of_map dead_predecessor_def)

lemma ready_not_dead: "ready_predecessor d st sc es f \<Longrightarrow> \<not> dead_predecessor d st sc es f"
  by (auto simp: ready_predecessor_def dead_predecessor_def isEdgeStateDead_def)

lemma readiness_all:
  "computeReadiness d st sc incoming JoinAll =
     (if \<forall>f \<in> e_from ` set incoming. ready_predecessor d st sc incoming f then MayStart
      else if \<exists>f \<in> e_from ` set incoming. dead_predecessor d st sc incoming f then MustSkip
      else MustWait)"
  unfolding computeReadiness_def groups_all groups_ex Let_def group_ready_iff group_dead_iff by simp

lemma some_ready: "(\<exists>f \<in> e_from ` set es. ready_predecessor d st sc es f) \<longleftrightarrow> (\<exists>e \<in> set es. edgeState d st sc e = Satisfied)"
  by (auto simp: ready_predecessor_def)

lemma all_dead: "(\<forall>f \<in> e_from ` set es. dead_predecessor d st sc es f) \<longleftrightarrow> (\<forall>e \<in> set es. isEdgeStateDead (edgeState d st sc e))"
  by (auto simp: dead_predecessor_def)

lemma readiness_any:
  "computeReadiness d st sc incoming JoinAny =
     (if incoming = [] \<or> (\<exists>e \<in> set incoming. edgeState d st sc e = Satisfied) then MayStart
      else if \<forall>e \<in> set incoming. isEdgeStateDead (edgeState d st sc e) then MustSkip
      else MustWait)"
  unfolding computeReadiness_def groups_all groups_ex Let_def group_ready_iff group_dead_iff some_ready all_dead
  by simp

lemma readiness_all_start:
  "computeReadiness d st sc es JoinAll = MayStart \<longleftrightarrow>
      (\<forall>e \<in> set es. \<exists>e' \<in> set es. e_from e' = e_from e \<and> edgeState d st sc e' = Satisfied)"
  by (simp add: readiness_all ready_predecessor_def)

lemma readiness_all_skip:
  "computeReadiness d st sc es JoinAll = MustSkip \<longleftrightarrow>
      (\<exists>e \<in> set es. \<forall>e' \<in> set es. e_from e' = e_from e \<longrightarrow> isEdgeStateDead (edgeState d st sc e'))"
  using ready_not_dead by (auto simp: readiness_all dead_predecessor_def)

lemma readiness_any_start: "computeReadiness d st sc es JoinAny = MayStart \<longleftrightarrow>
      es = [] \<or> (\<exists>e \<in> set es. edgeState d st sc e = Satisfied)"
  by (simp add: readiness_any)

lemma readiness_any_skip: "computeReadiness d st sc es JoinAny = MustSkip \<longleftrightarrow>
      es \<noteq> [] \<and> (\<forall>e \<in> set es. isEdgeStateDead (edgeState d st sc e))"
  by (auto simp: readiness_any isEdgeStateDead_def)

text \<open>The order of the edges does not matter.\<close>

lemma readiness_set:
  assumes "set es = set es'"
  shows "computeReadiness d st sc es jn = computeReadiness d st sc es' jn"
proof -
  have "es = [] \<longleftrightarrow> es' = []" using assms by auto
  then show ?thesis
    using assms by (cases jn) (simp_all add: readiness_all readiness_any ready_predecessor_def dead_predecessor_def)
qed

text \<open>Once every predecessor has settled nothing has to wait.\<close>

lemma edge_settled:
  "endpointOutcome d st sc (e_from e) \<noteq> None \<Longrightarrow> edgeState d st sc e = Satisfied \<or> isEdgeStateDead (edgeState d st sc e)"
  by (auto simp: edgeState_def isEdgeStateDead_def split: if_split edge_on.split option.split)

lemma readiness_settled:
  assumes "\<forall>e \<in> set es. endpointOutcome d st sc (e_from e) \<noteq> None"
  shows "computeReadiness d st sc es jn \<noteq> MustWait"
proof (cases jn)
  case JoinAll
  have "ready_predecessor d st sc es f \<or> dead_predecessor d st sc es f" if "f \<in> e_from ` set es" for f
    using assms edge_settled unfolding ready_predecessor_def dead_predecessor_def by metis
  then show ?thesis by (auto simp: JoinAll readiness_all)
next
  case JoinAny
  have "isEdgeStateDead (edgeState d st sc e)" if "e \<in> set es" "edgeState d st sc e \<noteq> Satisfied" for e
    using assms edge_settled that by blast
  then show ?thesis by (auto simp: JoinAny readiness_any)
qed

text \<open>A verdict stands while the outcomes and branches it was read from stay.\<close>

definition outcomes_kept :: "doc \<Rightarrow> item_scope \<Rightarrow> run_state \<Rightarrow> run_state \<Rightarrow> edge list \<Rightarrow> bool" where
  "outcomes_kept d sc st st' es \<longleftrightarrow>
     (\<forall>e \<in> set es.
        case endpointOutcome d st sc (e_from e) of
          None \<Rightarrow> True
        | Some oc \<Rightarrow>
            endpointOutcome d st' sc (e_from e) = Some oc
            \<and> map_of (rs_branches st') (ikey d sc (e_from e)) = map_of (rs_branches st) (ikey d sc (e_from e)))"

lemma edge_kept:
  assumes "outcomes_kept d sc st st' es" "e \<in> set es" "edgeState d st sc e \<noteq> EdgePending"
  shows "edgeState d st' sc e = edgeState d st sc e"
proof (cases "e_from e \<in> set (p_endpointIds (part d))")
  case True
  with assms(3) obtain oc where oc: "endpointOutcome d st sc (e_from e) = Some oc"
    by (cases "endpointOutcome d st sc (e_from e)") (simp_all add: edgeState_def)
  then have "endpointOutcome d st' sc (e_from e) = Some oc"
    "map_of (rs_branches st') (ikey d sc (e_from e)) = map_of (rs_branches st) (ikey d sc (e_from e))"
    using assms(1,2) by (auto simp: outcomes_kept_def dest!: bspec split: option.splits)
  then show ?thesis by (simp add: edgeState_def oc cong: edge_on.case_cong)
qed (simp add: edgeState_def)

lemma readiness_kept:
  assumes k: "outcomes_kept d sc st st' es" and r: "computeReadiness d st sc es jn \<noteq> MustWait"
  shows "computeReadiness d st' sc es jn = computeReadiness d st sc es jn"
proof -
  have sat: "edgeState d st' sc e = Satisfied" if "e \<in> set es" "edgeState d st sc e = Satisfied" for e
    using edge_kept [OF k that(1)] that(2) by simp
  have dead: "isEdgeStateDead (edgeState d st' sc e)" if "e \<in> set es" "isEdgeStateDead (edgeState d st sc e)" for e
    using edge_kept [OF k that(1)] that(2) by (auto simp: isEdgeStateDead_def)
  have rp: "ready_predecessor d st sc es f \<Longrightarrow> ready_predecessor d st' sc es f" for f
    using sat by (auto simp: ready_predecessor_def)
  have dp: "dead_predecessor d st sc es f \<Longrightarrow> dead_predecessor d st' sc es f" for f
    using dead by (auto simp: dead_predecessor_def)
  show ?thesis
  proof (cases jn)
    case JoinAll
    then show ?thesis using r rp dp ready_not_dead by (auto simp: readiness_all split: if_splits) blast+
  next
    case JoinAny
    then show ?thesis using r sat dead by (fastforce simp: readiness_any isEdgeStateDead_def split: if_splits)
  qed
qed

text \<open>A verdict to skip comes with its cause.\<close>

lemma dead_edge_settled:
  "isEdgeStateDead (edgeState d st sc e) \<Longrightarrow> e_from e \<in> set (p_endpointIds (part d)) \<Longrightarrow>
     endpointOutcome d st sc (e_from e) \<noteq> None"
  by (auto simp: edgeState_def isEdgeStateDead_def split: option.splits)

lemma skip_explained:
  assumes skip: "computeReadiness d st sc es jn = MustSkip"
    and known: "\<forall>e \<in> set es. e_from e \<in> set (p_endpointIds (part d))"
  shows "explainSkip d st sc es \<noteq> None"
proof -
  obtain f where f: "f \<in> e_from ` set es" "dead_predecessor d st sc es f"
  proof (cases jn)
    case JoinAll
    then show ?thesis using skip that by (auto simp: readiness_all split: if_splits)
  next
    case JoinAny
    then obtain e where "e \<in> set es" "\<forall>e \<in> set es. isEdgeStateDead (edgeState d st sc e)"
      using skip by (cases es) (auto simp: readiness_any split: if_splits)
    then show ?thesis using that [of "e_from e"] by (auto simp: dead_predecessor_def)
  qed
  define g where "g = \<lparr>pg_from = f, pg_edges = filter (\<lambda>e. e_from e = f) es,
    pg_group = group_of (map (edgeState d st sc) (filter (\<lambda>e. e_from e = f) es))\<rparr>"
  have "g \<in> set (predecessorGroups d st sc es)"
    using f(1) by (simp add: predecessorGroups_def g_def Let_def)
  moreover obtain e where e: "e \<in> set es" "e_from e = f" using f(1) by auto
  then have "isEdgeStateDead (edgeState d st sc e)" "e_from e \<in> set (p_endpointIds (part d))"
    using f(2) known e unfolding dead_predecessor_def by blast+
  then have "endpointOutcome d st sc f \<noteq> None"
    using dead_edge_settled [of d st sc e] e(2) by simp
  then have "group_reason d st sc g \<noteq> None"
    using f(2) by (auto simp: group_reason_def g_def group_dead_iff)
  ultimately have "List.map_filter (group_reason d st sc) (predecessorGroups d st sc es) \<noteq> []"
    by (auto simp: map_filter_def filter_empty_conv)
  then show ?thesis by (auto simp: explainSkip_def Let_def split: option.split list.split)
qed

text \<open>A predecessor that failed is named before anything else.\<close>

lemma failure_explained:
  assumes f: "f \<in> e_from ` set es" "dead_predecessor d st sc es f" "endpointOutcome d st sc f = Some Failure"
  shows "\<exists>r. explainSkip d st sc es = Some r \<and> is_failure_reason r"
proof -
  define g where "g = \<lparr>pg_from = f, pg_edges = filter (\<lambda>e. e_from e = f) es,
    pg_group = group_of (map (edgeState d st sc) (filter (\<lambda>e. e_from e = f) es))\<rparr>"
  define reasons where "reasons = List.map_filter (group_reason d st sc) (predecessorGroups d st sc es)"
  have "g \<in> set (predecessorGroups d st sc es)"
    using f(1) by (simp add: predecessorGroups_def g_def Let_def)
  moreover have "group_reason d st sc g = Some (Upstream f Failure)"
    using f(2,3) by (simp add: group_reason_def g_def group_dead_iff)
  ultimately have "Upstream f Failure \<in> set reasons"
    by (force simp: reasons_def map_filter_def)
  then have "find is_failure_reason reasons \<noteq> None"
    unfolding find_None_iff by (auto simp: is_failure_reason_def)
  then obtain r where r: "find is_failure_reason reasons = Some r" by blast
  then have "is_failure_reason r" unfolding find_Some_iff by blast
  then show ?thesis using r by (simp add: explainSkip_def reasons_def [symmetric] Let_def)
qed

section \<open>What the outcome means\<close>

text \<open>A skip is caught along dead edges to skipped entities, by a \<open>skipped\<close> edge whose target ran.\<close>

inductive caught :: "(jstr \<Rightarrow> node_status option) \<Rightarrow> (edge \<Rightarrow> edge_state) \<Rightarrow> (jstr \<times> edge list) list \<Rightarrow> jstr \<Rightarrow> bool"
  for oc es outgoing where
  here: "e \<in> set (entries outgoing i) \<Longrightarrow> catches_skip oc es e \<Longrightarrow> caught oc es outgoing i"
| further: "e \<in> set (entries outgoing i) \<Longrightarrow> taints oc es e \<Longrightarrow> caught oc es outgoing (e_to e) \<Longrightarrow>
    caught oc es outgoing i"

text \<open>A skipped entity answers for its parents.\<close>

inductive blames :: "(jstr \<Rightarrow> node_status option) \<Rightarrow> (jstr \<times> edge list) list \<Rightarrow> jstr \<Rightarrow> jstr \<Rightarrow> bool"
  for oc incoming where
  itself: "oc i = Some Failure \<Longrightarrow> blames oc incoming i i"
| parent: "oc i = Some Skipped \<Longrightarrow> e \<in> set (entries incoming i) \<Longrightarrow> blames oc incoming (e_from e) x \<Longrightarrow>
    blames oc incoming i x"

inductive_cases blames_cases: "blames oc incoming i x"

lemma blames_failure: "blames oc incoming i x \<Longrightarrow> oc x = Some Failure"
  by (induction rule: blames.induct) simp_all

lemma pushed_filter:
  "set (pushed (\<lambda>i out. rev (map e_to (filter P out))) m x) = e_to ` {e \<in> set (entries m x). P e}"
  unfolding pushed_def entries_def by (cases "map_of m x") simp_all

lemma pushed_guard:
  "set (pushed (\<lambda>i ins. if P i then map e_from ins else []) m x) =
     (if P x then e_from ` set (entries m x) else {})"
  unfolding pushed_def entries_def by (cases "map_of m x"; cases "P x") auto

lemma absorbedSkip_iff: "absorbedSkip oc es outgoing i \<longleftrightarrow> caught oc es outgoing i"
proof -
  define S where "S = successors (\<lambda>i out. rev (map e_to (filter (taints oc es) out))) outgoing"
  have S: "(x, y) \<in> S \<longleftrightarrow> (\<exists>e \<in> set (entries outgoing x). taints oc es e \<and> e_to e = y)" for x y
    by (auto simp: S_def successors_def pushed_filter)
  have "absorbedSkip oc es outgoing i \<longleftrightarrow> (\<exists>x. (i, x) \<in> S\<^sup>* \<and> list_ex (catches_skip oc es) (entries outgoing x))"
    unfolding absorbedSkip_def search_None S_def by auto
  also have "\<dots> \<longleftrightarrow> caught oc es outgoing i"
  proof
    assume "\<exists>x. (i, x) \<in> S\<^sup>* \<and> list_ex (catches_skip oc es) (entries outgoing x)"
    then obtain x where x: "(i, x) \<in> S\<^sup>*" "list_ex (catches_skip oc es) (entries outgoing x)" by blast
    from x show "caught oc es outgoing i"
      by (induction rule: converse_rtrancl_induct) (auto simp: S list_ex_iff intro: here further)
  next
    assume "caught oc es outgoing i"
    then show "\<exists>x. (i, x) \<in> S\<^sup>* \<and> list_ex (catches_skip oc es) (entries outgoing x)"
    proof (induction rule: caught.induct)
      case (here e i)
      then show ?case by (auto simp: list_ex_iff)
    next
      case (further e i)
      then have "(i, e_to e) \<in> S" by (auto simp: S)
      then show ?case using further.IH by (meson converse_rtrancl_into_rtrancl)
    qed
  qed
  finally show ?thesis .
qed

lemma evalEndpoint_blames:
  "evalEndpoint oc incoming i = Some x \<Longrightarrow> blames oc incoming i x"
  "evalEndpoint oc incoming i = None \<longleftrightarrow> (\<forall>x. \<not> blames oc incoming i x)"
proof -
  define S where "S = successors (\<lambda>i ins. if oc i = Some Skipped then map e_from ins else []) incoming"
  have S: "(x, y) \<in> S \<longleftrightarrow> oc x = Some Skipped \<and> (\<exists>e \<in> set (entries incoming x). e_from e = y)" for x y
    unfolding S_def successors_def using pushed_guard [of "\<lambda>i. oc i = Some Skipped" incoming] by auto
  have up: "blames oc incoming j x" if "(j, x) \<in> S\<^sup>*" "oc x = Some Failure" for j x
    using that by (induction rule: converse_rtrancl_induct) (auto simp: S intro: itself parent)
  have down: "(j, x) \<in> S\<^sup>*" if "blames oc incoming j x" for j x
    using that
  proof (induction rule: blames.induct)
    case (parent i e x)
    then have "(i, e_from e) \<in> S" by (auto simp: S)
    then show ?case using parent.IH by (meson converse_rtrancl_into_rtrancl)
  qed simp
  have found: "oc x = Some Failure \<and> (i, x) \<in> S\<^sup>*"
    if "evalEndpoint oc incoming i = Some x" for x
    using search_Some [OF that [unfolded evalEndpoint_def]] unfolding S_def by auto
  show "blames oc incoming i x" if "evalEndpoint oc incoming i = Some x"
    using found [OF that] up by blast
  have "evalEndpoint oc incoming i = None \<longleftrightarrow> (\<forall>x \<in> S\<^sup>* `` set [i]. oc x \<noteq> Some Failure)"
    unfolding evalEndpoint_def search_None S_def ..
  also have "\<dots> \<longleftrightarrow> (\<forall>x. (i, x) \<in> S\<^sup>* \<longrightarrow> oc x \<noteq> Some Failure)" by auto
  also have "\<dots> \<longleftrightarrow> (\<forall>x. \<not> blames oc incoming i x)"
  proof
    assume *: "\<forall>x. (i, x) \<in> S\<^sup>* \<longrightarrow> oc x \<noteq> Some Failure"
    show "\<forall>x. \<not> blames oc incoming i x"
    proof (intro allI notI)
      fix x assume b: "blames oc incoming i x"
      show False using * down [OF b] blames_failure [OF b] by blast
    qed
  next
    assume "\<forall>x. \<not> blames oc incoming i x"
    then show "\<forall>x. (i, x) \<in> S\<^sup>* \<longrightarrow> oc x \<noteq> Some Failure" using up by blast
  qed
  finally show "evalEndpoint oc incoming i = None \<longleftrightarrow> (\<forall>x. \<not> blames oc incoming i x)" .
qed

lemma outcome_None:
  "outcomeFailure oc es entities outgoing incoming = None \<longleftrightarrow>
     (\<forall>i \<in> set entities. oc i = Some Failure \<longrightarrow> absorbedFailure oc es outgoing i) \<and>
     (\<forall>i \<in> set entities. entries outgoing i = [] \<longrightarrow> (\<forall>x. \<not> blames oc incoming i x))"
proof -
  define A where "A i \<longleftrightarrow> oc i = Some Failure \<and> \<not> absorbedFailure oc es outgoing i" for i
  define B where "B i \<longleftrightarrow> entries outgoing i = [] \<and> evalEndpoint oc incoming i \<noteq> None" for i
  have eq: "outcomeFailure oc es entities outgoing incoming =
      (case find A entities of Some i \<Rightarrow> Some i
       | None \<Rightarrow> (case find B entities of Some i \<Rightarrow> evalEndpoint oc incoming i | None \<Rightarrow> None))"
    unfolding outcomeFailure_def A_def B_def ..
  have B: "evalEndpoint oc incoming i \<noteq> None" if "find B entities = Some i" for i
    using that unfolding find_Some_iff B_def by blast
  have "outcomeFailure oc es entities outgoing incoming = None \<longleftrightarrow> find A entities = None \<and> find B entities = None"
    using B unfolding eq by (cases "find A entities"; cases "find B entities") simp_all
  also have "\<dots> \<longleftrightarrow> (\<forall>i \<in> set entities. \<not> A i) \<and> (\<forall>i \<in> set entities. \<not> B i)"
    by (auto simp only: find_None_iff)
  finally show ?thesis unfolding A_def B_def evalEndpoint_blames(2) [symmetric] by simp
qed

lemma outcome_Some_cases:
  assumes "outcomeFailure oc es entities outgoing incoming = Some x"
  shows "x \<in> set entities \<and> oc x = Some Failure \<and> \<not> absorbedFailure oc es outgoing x
    \<or> (\<exists>i \<in> set entities. entries outgoing i = [] \<and> blames oc incoming i x)"
proof (cases "find (\<lambda>i. oc i = Some Failure \<and> \<not> absorbedFailure oc es outgoing i) entities")
  case None
  with assms obtain i where
    f: "find (\<lambda>i. entries outgoing i = [] \<and> evalEndpoint oc incoming i \<noteq> None) entities = Some i"
    and x: "evalEndpoint oc incoming i = Some x"
    unfolding outcomeFailure_def by (auto split: option.splits)
  from f have "i \<in> set entities" "entries outgoing i = []" unfolding find_Some_iff by auto
  then show ?thesis using evalEndpoint_blames(1) [OF x] by blast
next
  case (Some i)
  then have "i = x" using assms by (simp add: outcomeFailure_def)
  then show ?thesis using Some unfolding find_Some_iff by auto
qed

lemma outcome_Some: "outcomeFailure oc es entities outgoing incoming = Some x \<Longrightarrow> oc x = Some Failure"
  using outcome_Some_cases blames_failure by blast

end
