(* ===== verification/Availability.thy ===== *)
theory Availability
  imports Readiness
begin

text \<open>
  What a reference may rely on when its node starts: \<open>computeGraph\<close> of \<open>engine/params.ts\<close>. A
  document becomes the entities that have succeeded (\<open>guaranteed\<close>) or settled (\<open>settled\<close>) on
  every path to an endpoint, those that may have run before it (\<open>reachable\<close>), and the sources
  of back-edges it may read inside \<open>default()\<close> (\<open>soft\<close>). The implicit routing of a document
  without edges is read off the same partition.
\<close>

section \<open>Endpoints and their predecessors\<close>

definition static_part :: "doc \<Rightarrow> partition" where
  "static_part d = partitionReadiness d (d_containers d) (owners d)"

definition incomingOf :: "doc \<Rightarrow> jstr \<Rightarrow> edge list" where
  "incomingOf d i =
     (case map_of (p_topIncoming (static_part d)) i of
        Some es \<Rightarrow> es
      | None \<Rightarrow> entries (p_childIncoming (static_part d)) i)"

definition graph_ids :: "doc \<Rightarrow> jstr list" where
  "graph_ids d = p_endpointIds (static_part d)"

definition forwardForWalk :: "doc \<Rightarrow> edge list" where
  "forwardForWalk d = concat (map (incomingOf d) (graph_ids d))"

definition joinOf :: "doc \<Rightarrow> jstr \<Rightarrow> join" where
  "joinOf d i =
     (case by_id (d_containers d) i of
        Some c \<Rightarrow> containerJoin c
      | None \<Rightarrow> (case node_by_id d i of Some n \<Rightarrow> nodeJoin n | None \<Rightarrow> JoinAll))"

definition untrackedAnyJoin :: "doc \<Rightarrow> jstr list" where
  "untrackedAnyJoin d =
     js_set (map e_to (filter (\<lambda>e. \<not> e_back e \<and> e_to e \<in> set (graph_ids d)
         \<and> e_from e \<notin> set (graph_ids d) \<and> joinOf d (e_to e) = JoinAny) (effectiveEdges d)))"

definition canReRunNodes :: "doc \<Rightarrow> bool" where
  "canReRunNodes d \<longleftrightarrow>
     list_ex e_back (d_edges d) \<or> list_ex (\<lambda>c. c_kind c = Loop \<or> c_kind c = Foreach) (d_containers d)"

definition resettable :: "doc \<Rightarrow> jstr list" where
  "resettable d =
     (let descendants = nodeDescendants d
      in js_set (concat (map (\<lambda>be. backEdgeResetBody be (map n_id (d_nodes d)) descendants (by_id (d_containers d)))
                             (p_backEdges (static_part d)))))"

text \<open>Real node children of a real container, each with its owner.\<close>

definition keptOwner :: "doc \<Rightarrow> (jstr \<times> jstr) list" where
  "keptOwner d = filter (\<lambda>p. is_node d (fst p) \<and> snd p \<in> set (graph_ids d)) (owners d)"

definition childrenOf :: "doc \<Rightarrow> jstr \<Rightarrow> jstr list" where
  "childrenOf d o' = map fst (filter (\<lambda>p. snd p = o') (keptOwner d))"

section \<open>Reachability\<close>

definition pred_adj :: "doc \<Rightarrow> (jstr \<times> jstr list) list" where
  "pred_adj d = map (\<lambda>i. (i, map e_from (incomingOf d i))) (graph_ids d)"

definition forward_preds :: "doc \<Rightarrow> (jstr \<times> jstr list) list" where
  "forward_preds d =
     map (\<lambda>i. (i, visit last_first (pred_adj d) (rev (entries (pred_adj d) i)) [])) (graph_ids d)"

definition reachable_table :: "doc \<Rightarrow> (jstr \<times> jstr list) list" where
  "reachable_table d =
     foldl (\<lambda>m (child, owner). map_set child (js_set (entries m child @ entries m owner)) m)
       (forward_preds d) (keptOwner d)"

section \<open>The pass in topological order\<close>

definition walk_adj :: "doc \<Rightarrow> (jstr \<times> jstr list) list" where
  "walk_adj d =
     map (\<lambda>i. (i, map e_to (filter (\<lambda>e. e_from e = i) (forwardForWalk d)) @ childrenOf d i)) (graph_ids d)"

definition indegWork :: "doc \<Rightarrow> jstr \<Rightarrow> int" where
  "indegWork d v =
     (if v \<in> set (graph_ids d) then int (length (incomingOf d v)) else 0)
     + (if v \<in> fst ` set (keptOwner d) then 1 else 0)"

definition walk_order :: "doc \<Rightarrow> jstr list" where
  "walk_order d =
     fst (kahn (walk_adj d) (filter (\<lambda>i. indegWork d i = 0) (graph_ids d)) (indegWork d))"

text \<open>\<open>intersect\<close>, and the intersection of the sets of all the predecessors.\<close>

definition intersect :: "jstr list \<Rightarrow> jstr list \<Rightarrow> jstr list" where
  "intersect a b = filter (\<lambda>x. x \<in> set b) a"

fun meet :: "jstr list list \<Rightarrow> jstr list" where
  "meet [] = []"
| "meet (b # bs) = foldl intersect b bs"

definition guaranteed_base :: "(jstr \<times> jstr list) list \<Rightarrow> edge \<Rightarrow> jstr list" where
  "guaranteed_base g e =
     (let base = (if e_on e = OnSkipped then [] else entries g (e_from e))
      in if e_on e = OnSuccess then js_set (base @ [e_from e]) else base)"

definition settled_base :: "(jstr \<times> jstr list) list \<Rightarrow> edge \<Rightarrow> jstr list" where
  "settled_base s e =
     js_set ((if e_on e = OnSkipped then [] else entries s (e_from e)) @ [e_from e])"

text \<open>One endpoint of the pass: its predecessors, its container, the refusal.\<close>

definition endpoint_facts ::
  "doc \<Rightarrow> ((jstr \<times> jstr list) list \<Rightarrow> edge \<Rightarrow> jstr list) \<Rightarrow> (jstr \<times> jstr list) list \<Rightarrow> jstr \<Rightarrow> jstr list" where
  "endpoint_facts d base m i =
     (if i \<in> set (untrackedAnyJoin d) then []
      else js_set (meet (map (base m) (incomingOf d i))
             @ (case map_of (keptOwner d) i of
                  None \<Rightarrow> []
                | Some ow \<Rightarrow> filter (\<lambda>x. x \<notin> set (resettable d)) (entries m ow))))"

definition walk_facts ::
  "doc \<Rightarrow> ((jstr \<times> jstr list) list \<Rightarrow> edge \<Rightarrow> jstr list) \<Rightarrow> (jstr \<times> jstr list) list" where
  "walk_facts d base =
     foldl (\<lambda>m i. map_set i (endpoint_facts d base m i) m) (map (\<lambda>i. (i, [])) (graph_ids d)) (walk_order d)"

section \<open>The availability model\<close>

record graph =
  g_guaranteed :: "(jstr \<times> jstr list) list"
  g_settled :: "(jstr \<times> jstr list) list"
  g_settledRaw :: "(jstr \<times> jstr list) list"
  g_reachable :: "(jstr \<times> jstr list) list"
  g_soft :: "(jstr \<times> jstr list) list"

definition soft_sources :: "doc \<Rightarrow> (jstr \<times> jstr list) list \<Rightarrow> jstr \<Rightarrow> jstr list" where
  "soft_sources d reach i =
     js_set (map e_from (filter (\<lambda>e. e_back e \<and> is_node d (e_from e) \<and> is_node d (e_to e)
         \<and> (i = e_to e \<or> e_to e \<in> set (entries reach i))
         \<and> (i \<in> set (entries reach (e_from e)) \<or> e_from e = i)) (d_edges d)))"

definition computeGraph :: "doc \<Rightarrow> graph" where
  "computeGraph d =
     (let reach = reachable_table d; raw = walk_facts d settled_base
      in \<lparr>g_guaranteed = walk_facts d guaranteed_base,
          g_settled = (if canReRunNodes d then map (\<lambda>i. (i, [])) (graph_ids d) else raw),
          g_settledRaw = raw,
          g_reachable = reach,
          g_soft = map (\<lambda>i. (i, soft_sources d reach i)) (js_set (map n_id (d_nodes d)))\<rparr>)"

definition settledRawOf :: "doc \<Rightarrow> (jstr \<times> jstr list) list" where
  "settledRawOf d = g_settledRaw (computeGraph d)"

section \<open>Implicit routing\<close>

record routing_follow =
  rf_from :: jstr
  rf_to :: jstr
  rf_scope :: "jstr option"

record routing_partition =
  rp_roots :: "jstr list"
  rp_containerRoots :: "(jstr \<times> jstr list) list"
  rp_follows :: "routing_follow list"

definition follows_of :: "jstr option \<Rightarrow> edge list \<Rightarrow> routing_follow list" where
  "follows_of sc es = map (\<lambda>e. \<lparr>rf_from = e_from e, rf_to = e_to e, rf_scope = sc\<rparr>) es"

definition nodes_in :: "doc \<Rightarrow> container \<Rightarrow> jstr list" where
  "nodes_in d c = filter (\<lambda>i. map_of (owners d) i = Some (c_id c)) (map n_id (d_nodes d))"

definition routingPartition :: "doc \<Rightarrow> routing_partition" where
  "routingPartition d =
     (let top = p_topIncoming (static_part d); inside = p_childIncoming (static_part d)
      in \<lparr>rp_roots = map fst (filter (\<lambda>p. snd p = []) top),
          rp_containerRoots =
            map (\<lambda>c. (c_id c, filter (\<lambda>i. entries inside i = []) (nodes_in d c))) (d_containers d),
          rp_follows =
            concat (map (\<lambda>p. follows_of None (snd p)) top)
            @ concat (map (\<lambda>c. concat (map (\<lambda>i. follows_of (Some (c_id c)) (entries inside i)) (nodes_in d c)))
                          (d_containers d))\<rparr>)"

datatype implicit_routing = Chain "jstr list" | Partitioned routing_partition

definition implicitRouting :: "doc \<Rightarrow> implicit_routing option" where
  "implicitRouting d =
     (if d_edges d \<noteq> [] then None
      else case effectiveEdges d of
             [] \<Rightarrow> None
           | e # es \<Rightarrow>
               if d_containers d \<noteq> [] then Some (Partitioned (routingPartition d))
               else Some (Chain (e_from e # map e_to (e # es))))"

section \<open>The order of the pass\<close>

text \<open>The static partition and the one the run works with are the same.\<close>

lemma static_part: "static_part d = part d"
proof -
  have ids: "map c_id (bound_containers d) = map c_id (d_containers d)" by (rule bound_container_ids)
  have inner: "map (\<lambda>c. filter (\<lambda>e. e_to e = ch) (entries m (c_id c))) (bound_containers d) =
      map (\<lambda>c. filter (\<lambda>e. e_to e = ch) (entries m (c_id c))) (d_containers d)"
    for m :: "(jstr \<times> edge list) list" and ch
    by (simp add: bound_containers_def)
  show ?thesis unfolding static_part_def part_def partitionReadiness_def Let_def ids inner ..
qed

lemma incomingOf_edge:
  assumes "e \<in> set (incomingOf d i)"
  shows "e_to e = i" "e_from e \<in> set (graph_ids d)" "e_to e \<in> set (graph_ids d)"
proof -
  have "incomingOf d i = entries (topIncoming d) i \<or> incomingOf d i = entries (childIncoming d) i"
    unfolding incomingOf_def static_part topIncoming_def childIncoming_def entries_def
    by (cases "map_of (p_topIncoming (part d)) i") simp_all
  then consider "e \<in> set (entries (topIncoming d) i)" | "e \<in> set (entries (childIncoming d) i)"
    using assms by (elim disjE) simp_all
  then have "e_to e = i \<and> e_from e \<in> set (graph_ids d) \<and> e_to e \<in> set (graph_ids d)"
  proof cases
    case 1
    show ?thesis unfolding graph_ids_def static_part using topIncoming_edge [OF 1] by blast
  next
    case 2
    show ?thesis unfolding graph_ids_def static_part using childIncoming_edge [OF 2] by blast
  qed
  then show "e_to e = i" "e_from e \<in> set (graph_ids d)" "e_to e \<in> set (graph_ids d)" by blast+
qed

lemma distinct_graph_ids [simp]: "distinct (graph_ids d)"
  by (simp add: graph_ids_def static_part_def partitionReadiness_def Let_def)

lemma node_in_graph: "is_node d i \<Longrightarrow> i \<in> set (graph_ids d)"
  by (auto simp: is_node_def graph_ids_def static_part_def partitionReadiness_def Let_def)

lemma distinct_keptOwner: "distinct (map fst (keptOwner d))"
  unfolding keptOwner_def owners_def by (rule distinct_map_filter) (rule distinct_owner)

lemma keptOwner_facts:
  assumes "(ch, ow) \<in> set (keptOwner d)"
  shows "ch \<in> set (graph_ids d)" "ow \<in> set (graph_ids d)" "map_of (keptOwner d) ch = Some ow"
  using assms node_in_graph distinct_keptOwner by (auto simp: keptOwner_def)

lemma forwardForWalk_edge: "e \<in> set (forwardForWalk d) \<longleftrightarrow> e \<in> set (incomingOf d (e_to e)) \<and> e_to e \<in> set (graph_ids d)"
  using incomingOf_edge by (auto simp: forwardForWalk_def)

lemma arcs_walk_adj:
  "(x, y) \<in> arcs (walk_adj d) \<longleftrightarrow>
     (\<exists>e \<in> set (incomingOf d y). e_from e = x) \<or> (y, x) \<in> set (keptOwner d)"
proof -
  have c: "y \<in> set (childrenOf d x) \<longleftrightarrow> (y, x) \<in> set (keptOwner d)"
    by (force simp: childrenOf_def)
  have e: "y \<in> set (map e_to (filter (\<lambda>e. e_from e = x) (forwardForWalk d)))
      \<longleftrightarrow> (\<exists>e \<in> set (incomingOf d y). e_from e = x)"
  proof
    assume "y \<in> set (map e_to (filter (\<lambda>e. e_from e = x) (forwardForWalk d)))"
    then obtain e where "e \<in> set (forwardForWalk d)" "e_from e = x" "e_to e = y" by auto
    then show "\<exists>e \<in> set (incomingOf d y). e_from e = x" unfolding forwardForWalk_edge by blast
  next
    assume "\<exists>e \<in> set (incomingOf d y). e_from e = x"
    then obtain e where e: "e \<in> set (incomingOf d y)" "e_from e = x" by blast
    then have "e \<in> set (forwardForWalk d)" "e_to e = y"
      using incomingOf_edge [OF e(1)] by (simp_all add: forwardForWalk_edge)
    then show "y \<in> set (map e_to (filter (\<lambda>e. e_from e = x) (forwardForWalk d)))"
      using e(2) by auto
  qed
  have "(x, y) \<in> arcs (walk_adj d) \<longleftrightarrow> x \<in> set (graph_ids d) \<and>
      (y \<in> set (map e_to (filter (\<lambda>e. e_from e = x) (forwardForWalk d))) \<or> y \<in> set (childrenOf d x))"
    by (auto simp: arcs_def walk_adj_def entries_table)
  also have "\<dots> \<longleftrightarrow> (\<exists>e \<in> set (incomingOf d y). e_from e = x) \<or> (y, x) \<in> set (keptOwner d)"
    unfolding c e using incomingOf_edge(2) [of _ d y] keptOwner_facts(2) [of y x d] by blast
  finally show ?thesis .
qed

lemma count_concat:
  "distinct ids \<Longrightarrow> (\<And>i e. e \<in> set (f i) \<Longrightarrow> t e = i) \<Longrightarrow>
     length (filter (\<lambda>e. t e = v) (concat (map f ids))) = (if v \<in> set ids then length (f v) else 0)"
proof (induction ids)
  case (Cons i ids)
  have "filter (\<lambda>e. t e = v) (f i) = (if i = v then f v else [])"
    using Cons(3) by (auto simp: filter_empty_conv filter_id_conv)
  then show ?case using Cons by auto
qed simp

lemma length_filter_fst:
  "distinct (map fst ps) \<Longrightarrow> length (filter (\<lambda>p. fst p = v) ps) = (if v \<in> fst ` set ps then 1 else 0)"
  by (induction ps) (auto simp: filter_empty_conv image_iff)

lemma walk_edges_into: "int (edges_into (walk_adj d) (set (graph_ids d)) v) = indegWork d v"
proof -
  let ?V = "set (graph_ids d)"
  have c: "childrenOf d x = map fst (filter (\<lambda>p. snd p = x) (keptOwner d))" for x
    by (simp add: childrenOf_def case_prod_beta)
  have "edges_into (walk_adj d) ?V v =
      (\<Sum>x \<in> ?V. count_list (map e_to (filter (\<lambda>e. e_from e = x) (forwardForWalk d))) v
               + count_list (map fst (filter (\<lambda>p. snd p = x) (keptOwner d))) v)"
    unfolding edges_into_def by (intro sum.cong) (simp_all add: walk_adj_def entries_table c)
  also have "\<dots> = length (filter (\<lambda>e. e_to e = v) (forwardForWalk d)) + length (filter (\<lambda>p. fst p = v) (keptOwner d))"
    unfolding sum.distrib
  proof (intro arg_cong2 [where f = "(+)"] sum_filter_from)
    show "e_from e \<in> ?V" if "e \<in> set (forwardForWalk d)" for e
      using that incomingOf_edge(2) unfolding forwardForWalk_edge by blast
    show "snd p \<in> ?V" if "p \<in> set (keptOwner d)" for p
      using that keptOwner_facts(2) [of "fst p" "snd p"] by simp
  qed simp_all
  also have "\<dots> = (if v \<in> ?V then length (incomingOf d v) else 0) + (if v \<in> fst ` set (keptOwner d) then 1 else 0)"
    unfolding forwardForWalk_def length_filter_fst [OF distinct_keptOwner]
    by (subst count_concat [OF distinct_graph_ids incomingOf_edge(1)]) simp_all
  finally show ?thesis by (simp add: indegWork_def)
qed

lemma walk_sweep:
  "sweep (set (graph_ids d)) (walk_adj d) [] (filter (\<lambda>i. indegWork d i = 0) (graph_ids d)) (indegWork d)"
proof -
  have "arcs (walk_adj d) \<subseteq> set (graph_ids d) \<times> set (graph_ids d)"
    using incomingOf_edge keptOwner_facts by (auto simp: arcs_walk_adj)
  then show ?thesis by (auto simp: sweep_def in_order_def walk_edges_into)
qed

lemma walk_order_facts:
  "distinct (walk_order d)" "set (walk_order d) \<subseteq> set (graph_ids d)" "in_order (walk_adj d) (walk_order d)"
  using sweep_kahn [OF walk_sweep, of d] by (simp_all add: walk_order_def sweep_def)

lemma walk_order_complete: "set (walk_order d) = set (graph_ids d) \<longleftrightarrow> acyclic (arcs (walk_adj d))"
  unfolding walk_order_def by (rule sweep_acyclic(1) [OF walk_sweep])

section \<open>The pass solves its equations\<close>

text \<open>
  A fold over an order in which every step reads only what is behind it ends in a solution of
  the equations of its steps.
\<close>

lemma entries_map_set: "entries (map_set k v m) x = (if x = k then v else entries m x)"
  by (simp add: entries_def map_of_map_set)

lemma fold_solves:
  fixes step :: "(jstr \<times> jstr list) list \<Rightarrow> jstr \<Rightarrow> jstr list"
  assumes local: "\<And>m m' i. \<forall>x. (x, i) \<in> A \<longrightarrow> entries m x = entries m' x \<Longrightarrow> step m i = step m' i"
  shows "distinct r \<Longrightarrow> \<forall>i < length r. \<forall>x. (x, r ! i) \<in> A \<longrightarrow> x \<in> set (take i r) \<Longrightarrow>
    m' = foldl (\<lambda>m i. map_set i (step m i) m) m r \<Longrightarrow>
    (\<forall>i \<in> set r. entries m' i = step m' i) \<and> (\<forall>i. i \<notin> set r \<longrightarrow> entries m' i = entries m i)"
proof (induction r arbitrary: m' rule: rev_induct)
  case (snoc x r)
  define M where "M = foldl (\<lambda>m i. map_set i (step m i) m) m r"
  have m': "m' = map_set x (step M x) M" using snoc.prems(3) by (simp add: M_def)
  have behind: "y \<in> set (take i r)" if "i < length r" "(y, r ! i) \<in> A" for i y
    using snoc.prems(2) that by (auto simp: nth_append dest!: spec [of _ i])
  have ih: "\<forall>i \<in> set r. entries M i = step M i" "\<forall>i. i \<notin> set r \<longrightarrow> entries M i = entries m i"
    using snoc.IH [OF _ _ M_def] snoc.prems(1) behind by auto
  have x: "x \<notin> set r" using snoc.prems(1) by simp
  have last: "y \<in> set r" if "(y, x) \<in> A" for y
    using snoc.prems(2) that by (auto dest!: spec [of _ "length r"])
  have same: "step M i = step m' i" if "i \<in> set (r @ [x])" for i
  proof (rule local, intro allI impI)
    fix y assume y: "(y, i) \<in> A"
    have "y \<in> set r"
    proof (cases "i = x")
      case False
      then obtain k where "k < length r" "r ! k = i" using \<open>i \<in> set (r @ [x])\<close> by (auto simp: in_set_conv_nth)
      then show ?thesis using behind y by (blast dest: in_set_takeD)
    qed (use y last in simp)
    then show "entries M y = entries m' y" using x by (auto simp: m' entries_map_set)
  qed
  have "entries m' i = step m' i" if "i \<in> set (r @ [x])" for i
  proof (cases "i = x")
    case True
    then show ?thesis using same [of x] by (simp add: m' entries_map_set)
  next
    case False
    then have "entries m' i = entries M i" "i \<in> set r" using that by (auto simp: m' entries_map_set)
    then show ?thesis using ih(1) same [OF that] by simp
  qed
  moreover have "entries m' i = entries m i" if "i \<notin> set (r @ [x])" for i
    using that ih(2) by (simp add: m' entries_map_set)
  ultimately show ?case by blast
qed simp

text \<open>
  What the pass asks of a kind of fact: an edge hands on a set that depends only on what is known
  of its source.
\<close>

locale edge_facts =
  fixes base :: "(jstr \<times> jstr list) list \<Rightarrow> edge \<Rightarrow> jstr list"
  assumes reads_source: "entries m (e_from e) = entries m' (e_from e) \<Longrightarrow> base m e = base m' e"

lemma set_meet: "bs \<noteq> [] \<Longrightarrow> set (meet bs) = (\<Inter>b \<in> set bs. set b)"
proof -
  have "set (foldl intersect b bs) = set b \<inter> (\<Inter>c \<in> set bs. set c)" for b bs
    by (induction bs arbitrary: b) (auto simp: intersect_def)
  then show "bs \<noteq> [] \<Longrightarrow> set (meet bs) = (\<Inter>b \<in> set bs. set b)" by (cases bs) simp_all
qed

context edge_facts begin

lemma walk_facts_solves:
  shows "i \<in> set (walk_order d) \<Longrightarrow> entries (walk_facts d base) i = endpoint_facts d base (walk_facts d base) i"
    "i \<notin> set (walk_order d) \<Longrightarrow> entries (walk_facts d base) i = []"
proof -
  have "endpoint_facts d base m i = endpoint_facts d base m' i"
    if "\<forall>x. (x, i) \<in> arcs (walk_adj d) \<longrightarrow> entries m x = entries m' x" for m m' i
  proof -
    have "base m e = base m' e" if "e \<in> set (incomingOf d i)" for e
    proof -
      have "(e_from e, i) \<in> arcs (walk_adj d)" using that unfolding arcs_walk_adj by blast
      then show ?thesis using \<open>\<forall>x. _ x\<close> by (intro reads_source) blast
    qed
    then have same: "map (base m) (incomingOf d i) = map (base m') (incomingOf d i)" by simp
    have "entries m ow = entries m' ow" if "map_of (keptOwner d) i = Some ow" for ow
      using \<open>\<forall>x. _ x\<close> map_of_SomeD [OF that] by (auto simp: arcs_walk_adj)
    then show ?thesis unfolding endpoint_facts_def same by (cases "map_of (keptOwner d) i") simp_all
  qed
  note solves = fold_solves [of "arcs (walk_adj d)" "endpoint_facts d base", OF this walk_order_facts(1)
      walk_order_facts(3) [unfolded in_order_def] walk_facts_def]
  show "i \<in> set (walk_order d) \<Longrightarrow> entries (walk_facts d base) i = endpoint_facts d base (walk_facts d base) i"
    using solves by blast
  show "i \<notin> set (walk_order d) \<Longrightarrow> entries (walk_facts d base) i = []"
    using solves by (auto simp: entries_table)
qed

text \<open>Where a fact about an endpoint comes from: all its predecessors, or its container.\<close>

lemma walk_facts_cases:
  assumes "x \<in> set (entries (walk_facts d base) i)"
  obtains (preds) "i \<in> set (walk_order d)" "incomingOf d i \<noteq> []"
      "\<forall>e \<in> set (incomingOf d i). x \<in> set (base (walk_facts d base) e)"
    | (inherited) ow where "i \<in> set (walk_order d)" "map_of (keptOwner d) i = Some ow"
      "x \<notin> set (resettable d)" "x \<in> set (entries (walk_facts d base) ow)"
proof -
  let ?M = "walk_facts d base"
  have i: "i \<in> set (walk_order d)" using assms walk_facts_solves(2) by fastforce
  then have x: "x \<in> set (endpoint_facts d base ?M i)" using assms walk_facts_solves(1) by simp
  then consider "x \<in> set (meet (map (base ?M) (incomingOf d i)))"
    | ow where "map_of (keptOwner d) i = Some ow" "x \<notin> set (resettable d)" "x \<in> set (entries ?M ow)"
    unfolding endpoint_facts_def by (cases "map_of (keptOwner d) i") (auto split: if_splits)
  then show ?thesis
  proof cases
    case 1
    then have "incomingOf d i \<noteq> []" by auto
    with 1 show ?thesis using preds [OF i] by (simp add: set_meet)
  next
    case 2
    then show ?thesis using inherited [OF i] by blast
  qed
qed

end

section \<open>The pass against the run\<close>

lemma may_start_satisfied:
  assumes "computeReadiness d st sc es jn = MayStart" "es \<noteq> []"
  shows "\<exists>e \<in> set es. edgeState d st sc e = Satisfied"
proof (cases jn)
  case JoinAll
  then have "\<forall>f \<in> e_from ` set es. ready_predecessor d st sc es f"
    using assms(1) by (simp add: readiness_all split: if_splits)
  then show ?thesis using assms(2) by (cases es) (auto simp: ready_predecessor_def)
next
  case JoinAny
  then show ?thesis using assms by (simp add: readiness_any split: if_splits)
qed

lemma satisfied_outcome:
  assumes "edgeState d st sc e = Satisfied"
  obtains oc where "endpointOutcome d st sc (e_from e) = Some oc"
    "e_on e = OnSuccess \<Longrightarrow> oc = Success" "e_on e \<noteq> OnSkipped \<Longrightarrow> oc \<noteq> Skipped"
proof (cases "endpointOutcome d st sc (e_from e)")
  case None
  then show ?thesis using assms by (simp add: edgeState_def split: if_splits)
next
  case (Some oc)
  have "e_on e = OnSuccess \<Longrightarrow> oc = Success"
    using assms Some by (simp add: edgeState_def split: if_splits)
  moreover have "e_on e \<noteq> OnSkipped \<Longrightarrow> oc \<noteq> Skipped"
    using assms Some by (auto simp: edgeState_def split: if_splits)
  ultimately show ?thesis using that Some by blast
qed

text \<open>
  A state whose started entities \<open>S\<close> are justified: each may start by its edges, is a child of
  a started container when it is a child, and whatever succeeded or failed has started.
\<close>

definition justified :: "doc \<Rightarrow> run_state \<Rightarrow> item_scope \<Rightarrow> jstr set \<Rightarrow> bool" where
  "justified d st sc S \<longleftrightarrow>
     (\<forall>i \<in> set (graph_ids d). endpointOutcome d st sc i \<in> {Some Success, Some Failure} \<longrightarrow> i \<in> S) \<and>
     (\<forall>i \<in> S. computeReadiness d st sc (incomingOf d i) (joinOf d i) = MayStart
            \<and> (case map_of (keptOwner d) i of None \<Rightarrow> True | Some ow \<Rightarrow> ow \<in> S))"

lemma satisfied_started:
  assumes "justified d st sc S" "e \<in> set (incomingOf d i)" "edgeState d st sc e = Satisfied" "e_on e \<noteq> OnSkipped"
  shows "e_from e \<in> S"
proof -
  obtain oc where "endpointOutcome d st sc (e_from e) = Some oc" "oc \<noteq> Skipped"
    using satisfied_outcome [OF assms(3)] assms(4) by blast
  moreover from this have "oc = Success \<or> oc = Failure"
    by (auto simp: endpointOutcome_def container_outcome_def TERMINAL_NODE_def
        split: if_splits option.splits container_status.splits node_status.splits)
  ultimately show ?thesis
    using assms(1) incomingOf_edge(2) [OF assms(2)] by (auto simp: justified_def)
qed

context edge_facts begin

lemma facts_hold:
  assumes S: "justified d st sc S"
    and step: "\<And>e x. edgeState d st sc e = Satisfied \<Longrightarrow> x \<in> set (base (walk_facts d base) e) \<Longrightarrow>
      holds x \<or> e_on e \<noteq> OnSkipped \<and> x \<in> set (entries (walk_facts d base) (e_from e))"
  shows "i \<in> S \<Longrightarrow> x \<in> set (entries (walk_facts d base) i) \<Longrightarrow> holds x"
proof -
  let ?M = "walk_facts d base" and ?r = "walk_order d"
  have "\<forall>i \<in> S. (k < length ?r \<and> i = ?r ! k) \<longrightarrow> (\<forall>x \<in> set (entries ?M i). holds x)" for k
  proof (induction k rule: less_induct)
    case (less k)
    show ?case
    proof (intro ballI impI, elim conjE)
      fix i x assume i: "i \<in> S" and k: "k < length ?r" "i = ?r ! k" and x: "x \<in> set (entries ?M i)"
      have before: "holds x" if "(y, i) \<in> arcs (walk_adj d)" "y \<in> S" "x \<in> set (entries ?M y)" for y
      proof -
        have "y \<in> set (take k ?r)" using walk_order_facts(3) k that(1) by (simp add: in_order_def)
        then obtain j where "j < k" "y = ?r ! j" using k(1) by (auto simp: in_set_conv_nth)
        then show ?thesis using less.IH [of j] k(1) that(2,3) by simp
      qed
      from x show "holds x"
      proof (cases rule: walk_facts_cases)
        case preds
        have "computeReadiness d st sc (incomingOf d i) (joinOf d i) = MayStart"
          using S i by (simp add: justified_def)
        then obtain e where e: "e \<in> set (incomingOf d i)" "edgeState d st sc e = Satisfied"
          using may_start_satisfied preds(2) by blast
        from step [OF e(2)] preds(3) e(1) consider "holds x" | "e_on e \<noteq> OnSkipped" "x \<in> set (entries ?M (e_from e))"
          by blast
        then show ?thesis
        proof cases
          case 2
          have "(e_from e, i) \<in> arcs (walk_adj d)" using e(1) by (auto simp: arcs_walk_adj)
          then show ?thesis using before satisfied_started [OF S e 2(1)] 2(2) by blast
        qed
      next
        case (inherited ow)
        have "(ow, i) \<in> arcs (walk_adj d)" using map_of_SomeD [OF inherited(2)] by (simp add: arcs_walk_adj)
        moreover have "ow \<in> S" using S i inherited(2) by (auto simp: justified_def)
        ultimately show ?thesis using before inherited(4) by blast
      qed
    qed
  qed
  moreover have "i \<in> set ?r" if "x \<in> set (entries ?M i)" for i x
    using that walk_facts_solves(2) by fastforce
  ultimately show "i \<in> S \<Longrightarrow> x \<in> set (entries ?M i) \<Longrightarrow> holds x"
    by (metis in_set_conv_nth)
qed

end

interpretation guaranteed: edge_facts guaranteed_base
  by unfold_locales (simp add: guaranteed_base_def)

interpretation settled: edge_facts settled_base
  by unfold_locales (simp add: settled_base_def)

lemma guaranteed_succeeded:
  assumes "justified d st sc S" "i \<in> S" "x \<in> set (entries (g_guaranteed (computeGraph d)) i)"
  shows "endpointOutcome d st sc x = Some Success"
proof (rule guaranteed.facts_hold [OF assms(1) _ assms(2)])
  show "x \<in> set (entries (walk_facts d guaranteed_base) i)" using assms(3) by (simp add: computeGraph_def Let_def)
  fix e x assume e: "edgeState d st sc e = Satisfied" "x \<in> set (guaranteed_base (walk_facts d guaranteed_base) e)"
  then show "endpointOutcome d st sc x = Some Success \<or>
      e_on e \<noteq> OnSkipped \<and> x \<in> set (entries (walk_facts d guaranteed_base) (e_from e))"
    using satisfied_outcome [OF e(1)] by (cases "e_on e") (auto simp: guaranteed_base_def Let_def)
qed

lemma settled_settled:
  assumes "justified d st sc S" "i \<in> S" "x \<in> set (entries (settledRawOf d) i)"
  shows "endpointOutcome d st sc x \<noteq> None"
proof (rule settled.facts_hold [OF assms(1) _ assms(2)])
  show "x \<in> set (entries (walk_facts d settled_base) i)"
    using assms(3) by (simp add: settledRawOf_def computeGraph_def Let_def)
  fix e x assume e: "edgeState d st sc e = Satisfied" "x \<in> set (settled_base (walk_facts d settled_base) e)"
  then show "endpointOutcome d st sc x \<noteq> None \<or>
      e_on e \<noteq> OnSkipped \<and> x \<in> set (entries (walk_facts d settled_base) (e_from e))"
    using satisfied_outcome [OF e(1)] by (auto simp: settled_base_def split: if_splits)
qed

text \<open>A guarantee is in particular a settled fact, and never one that a bounce takes back from inside.\<close>

lemma guaranteed_settles:
  "x \<in> set (entries (g_guaranteed (computeGraph d)) i) \<Longrightarrow> x \<in> set (entries (settledRawOf d) i)"
proof -
  let ?G = "walk_facts d guaranteed_base" and ?T = "walk_facts d settled_base"
  have "\<forall>i \<in> set (take k (walk_order d)). set (entries ?G i) \<subseteq> set (entries ?T i)" if "k \<le> length (walk_order d)" for k
    using that
  proof (induction k)
    case (Suc k)
    define i where "i = walk_order d ! k"
    have k: "k < length (walk_order d)" and i: "i \<in> set (walk_order d)" using Suc.prems by (auto simp: i_def)
    have before: "set (entries ?G y) \<subseteq> set (entries ?T y)" if "(y, i) \<in> arcs (walk_adj d)" for y
    proof -
      have "y \<in> set (take k (walk_order d))" using walk_order_facts(3) k that by (simp add: in_order_def i_def)
      then show ?thesis using Suc by simp
    qed
    have "set (entries ?G i) \<subseteq> set (entries ?T i)"
    proof
      fix x assume "x \<in> set (entries ?G i)"
      then have "x \<in> set (endpoint_facts d settled_base ?T i) \<or> i \<in> set (untrackedAnyJoin d)"
      proof (cases rule: guaranteed.walk_facts_cases)
        case preds
        have "x \<in> set (settled_base ?T e)" if "e \<in> set (incomingOf d i)" for e
        proof -
          have "(e_from e, i) \<in> arcs (walk_adj d)" using that by (auto simp: arcs_walk_adj)
          then show ?thesis using before [of "e_from e"] preds(3) that
            by (auto simp: guaranteed_base_def settled_base_def Let_def split: if_splits)
        qed
        then have "x \<in> set (meet (map (settled_base ?T) (incomingOf d i)))"
          using preds(2) by (simp add: set_meet)
        then show ?thesis by (simp add: endpoint_facts_def)
      next
        case (inherited ow)
        have "(ow, i) \<in> arcs (walk_adj d)" using map_of_SomeD [OF inherited(2)] by (simp add: arcs_walk_adj)
        then show ?thesis using before [of ow] inherited by (auto simp: endpoint_facts_def)
      qed
      moreover have "i \<notin> set (untrackedAnyJoin d)"
        using \<open>x \<in> set (entries ?G i)\<close> guaranteed.walk_facts_solves(1) [OF i]
        by (auto simp: endpoint_facts_def)
      ultimately show "x \<in> set (entries ?T i)"
        using settled.walk_facts_solves(1) [OF i] by simp
    qed
    then show ?case using Suc k by (simp add: take_Suc_conv_app_nth i_def)
  qed simp
  then have "set (entries ?G i) \<subseteq> set (entries ?T i)" if "i \<in> set (walk_order d)"
    using that by (metis order_refl take_all)
  moreover have "entries ?G i = []" if "i \<notin> set (walk_order d)"
    using that guaranteed.walk_facts_solves(2) by simp
  ultimately show "x \<in> set (entries (g_guaranteed (computeGraph d)) i) \<Longrightarrow> x \<in> set (entries (settledRawOf d) i)"
    by (cases "i \<in> set (walk_order d)") (auto simp: settledRawOf_def computeGraph_def Let_def)
qed

section \<open>Facts about the implicit routing\<close>

lemma chain_targets: "map (\<lambda>i. n_id (ns ! (i + 1))) [0..<length ns - 1] = tl (map n_id ns)"
  by (rule nth_equalityI) (simp_all add: nth_tl)

lemma implicit_chain:
  assumes "implicitRouting d = Some (Chain line)"
  shows "line = map n_id (d_nodes d) \<and> d_edges d = [] \<and> d_containers d = [] \<and> 2 \<le> length line"
proof -
  from assms have no: "d_edges d = []" "d_containers d = []"
    by (auto simp: implicitRouting_def split: if_splits list.splits)
  have es: "effectiveEdges d = map (implicit_edge (d_nodes d)) [0..<length (d_nodes d) - 1]"
    using no by (simp add: effectiveEdges_def)
  then have ne: "effectiveEdges d \<noteq> []" using assms no by (auto simp: implicitRouting_def)
  then have len: "2 \<le> length (d_nodes d)" unfolding es by auto
  have "line = e_from (hd (effectiveEdges d)) # map e_to (effectiveEdges d)"
    using assms no ne by (cases "effectiveEdges d") (simp_all add: implicitRouting_def)
  moreover have "effectiveEdges d = implicit_edge (d_nodes d) 0 # map (implicit_edge (d_nodes d)) [1..<length (d_nodes d) - 1]"
    using len unfolding es by (simp add: upt_conv_Cons)
  then have "e_from (hd (effectiveEdges d)) = n_id (hd (d_nodes d))"
    using len by (cases "d_nodes d") (auto simp: implicit_edge_def)
  moreover have "map e_to (effectiveEdges d) = tl (map n_id (d_nodes d))"
    unfolding es by (simp add: comp_def implicit_edge_def flip: chain_targets)
  ultimately have "line = map n_id (d_nodes d)" using len by (cases "d_nodes d") simp_all
  then show ?thesis using no len by simp
qed

end
