(* ===== verification/EngineProperties.thy ===== *)
theory EngineProperties
  imports Availability
begin

text \<open>
  The properties of the engine's graph rules: what a reference may rely on, when an entity may
  start, what a settled scope reports, which nodes a bounce resets, and that no edge of a
  document is lost. The witnesses run on two small documents.
\<close>

text \<open>A node \<open>a\<close> before a node \<open>b\<close>, and the same inside a loop with a back-edge.\<close>

definition plain_node :: "jstr \<Rightarrow> node" where
  "plain_node i =
     \<lparr>n_id = i, n_type = lit ''http'', n_config = [], n_connectionId = None, n_connectionIds = None,
      n_datasetIds = None, n_inlineSource = None, n_datasetParams = None, n_connectionParams = None,
      n_call = None, n_policy = None, n_inactive = False, n_onInactiveMarkAs = None, n_userProperties = None\<rparr>"

definition plain_edge :: "jstr \<Rightarrow> jstr \<Rightarrow> edge_on \<Rightarrow> edge" where
  "plain_edge frm to on =
     \<lparr>e_id = frm @ to, e_from = frm, e_to = to, e_on = on, e_back = False, e_maxBounces = None\<rparr>"

definition plain_container :: "jstr \<Rightarrow> container_kind \<Rightarrow> jstr list \<Rightarrow> container" where
  "plain_container i k chs =
     \<lparr>c_id = i, c_kind = k, c_children = chs, c_exitWhen = None, c_maxRounds = None, c_timeout = None,
      c_items = None, c_batchCount = None, c_join = None, c_inactive = False, c_onInactiveMarkAs = None,
      c_userProperties = None, c_allowNondeterministicVars = None\<rparr>"

definition node_done :: "node_status \<Rightarrow> node_run_state" where
  "node_done s =
     \<lparr>ns_status = s, ns_attempts = 1, ns_currentAttemptId = None, ns_sourceChildRunId = None,
      ns_skipReason = None, ns_inactive = None, ns_recheck = None, ns_callback = None, ns_retries = 0\<rparr>"

definition run_with :: "(jstr \<times> node_status) list \<Rightarrow> run_state" where
  "run_with ns =
     \<lparr>rs_runId = lit ''r'', rs_pipelineVersionId = lit ''v'', rs_startedAt = None, rs_params = [],
      rs_status = RunRunning, rs_waitingReason = None, rs_nodes = map (\<lambda>(i, s). (i, node_done s)) ns,
      rs_outputs = [], rs_containers = [], rs_bounces = [], rs_branches = [], rs_sessions = [],
      rs_triggerContext = None, rs_cancelRequested = None, rs_variables = [], rs_globals = []\<rparr>"

definition chain_doc :: doc where
  "chain_doc =
     \<lparr>d_nodes = [plain_node (lit ''a''), plain_node (lit ''b'')],
      d_edges = [plain_edge (lit ''a'') (lit ''b'') OnSuccess], d_containers = [], d_variables = []\<rparr>"

lemmas sample_defs = chain_doc_def plain_node_def plain_edge_def run_with_def node_done_def

section \<open>Availability\<close>

text \<open>
  C6: what the checker calls guaranteed has succeeded. In every state in which the started
  entities are justified by their edges and their containers, an entity that is guaranteed to a
  started one has the outcome \<open>success\<close>.
\<close>

theorem guaranteed_sound:
  assumes "justified d st sc S" "i \<in> S" "x \<in> set (entries (g_guaranteed (computeGraph d)) i)"
  shows "endpointOutcome d st sc x = Some Success"
  using guaranteed_succeeded [OF assms] .

theorem guaranteed_sound_witness:
  "endpointOutcome chain_doc (run_with [(lit ''a'', Success)]) None (lit ''a'') = Some Success"
  by (rule guaranteed_sound [where S = "set [lit ''a'', lit ''b'']" and i = "lit ''b''"]) code_simp+

text \<open>
  What the checker calls settled, before it refuses documents that run nodes again, has a
  terminal outcome, and everything guaranteed is settled.
\<close>

theorem settled_sound:
  assumes "justified d st sc S" "i \<in> S"
  shows "set (entries (g_guaranteed (computeGraph d)) i) \<subseteq> set (entries (settledRawOf d) i)
    \<and> (\<forall>x \<in> set (entries (settledRawOf d) i). endpointOutcome d st sc x \<noteq> None)"
  using guaranteed_settles settled_settled [OF assms] by blast

theorem settled_sound_witness:
  "endpointOutcome chain_doc (run_with [(lit ''a'', Success)]) None (lit ''a'') \<noteq> None"
proof -
  have "justified chain_doc (run_with [(lit ''a'', Success)]) None (set [lit ''a'', lit ''b''])"
    "lit ''b'' \<in> set [lit ''a'', lit ''b'']" "lit ''a'' \<in> set (entries (settledRawOf chain_doc) (lit ''b''))"
    by code_simp+
  with settled_sound [OF this(1,2)] show ?thesis by blast
qed

section \<open>Readiness\<close>

text \<open>
  C18: the verdict of an entity, edge by edge: all predecessors need a satisfied edge, or any,
  and the entity is skipped when one predecessor is dead, or all.
\<close>

theorem readiness_truth:
  "(computeReadiness d st sc es JoinAll = MayStart \<longleftrightarrow>
      (\<forall>e \<in> set es. \<exists>e' \<in> set es. e_from e' = e_from e \<and> edgeState d st sc e' = Satisfied))
   \<and> (computeReadiness d st sc es JoinAll = MustSkip \<longleftrightarrow>
      (\<exists>e \<in> set es. \<forall>e' \<in> set es. e_from e' = e_from e \<longrightarrow> isEdgeStateDead (edgeState d st sc e')))
   \<and> (computeReadiness d st sc es JoinAny = MayStart \<longleftrightarrow>
      es = [] \<or> (\<exists>e \<in> set es. edgeState d st sc e = Satisfied))
   \<and> (computeReadiness d st sc es JoinAny = MustSkip \<longleftrightarrow>
      es \<noteq> [] \<and> (\<forall>e \<in> set es. isEdgeStateDead (edgeState d st sc e)))"
  by (intro conjI readiness_all_start readiness_all_skip readiness_any_start readiness_any_skip)

theorem readiness_truth_witness:
  "computeReadiness chain_doc (run_with [(lit ''a'', Failure)]) None
     [plain_edge (lit ''a'') (lit ''b'') OnSuccess] JoinAny = MustSkip"
proof -
  have "isEdgeStateDead (edgeState chain_doc (run_with [(lit ''a'', Failure)]) None
      (plain_edge (lit ''a'') (lit ''b'') OnSuccess))"
    by code_simp
  then show ?thesis
    using readiness_truth [of chain_doc "run_with [(lit ''a'', Failure)]" None
        "[plain_edge (lit ''a'') (lit ''b'') OnSuccess]"]
    by simp
qed

text \<open>
  Nothing waits for a settled scope. Once every predecessor has an outcome the verdict is
  to start or to skip, whatever the join.
\<close>

theorem readiness_progress:
  assumes "\<forall>e \<in> set es. endpointOutcome d st sc (e_from e) \<noteq> None"
  shows "computeReadiness d st sc es jn = MayStart \<or> computeReadiness d st sc es jn = MustSkip"
  using readiness_settled [OF assms] by (cases "computeReadiness d st sc es jn") auto

theorem readiness_progress_witness:
  "computeReadiness chain_doc (run_with [(lit ''a'', Success)]) None
     (entries (topIncoming chain_doc) (lit ''b'')) JoinAll = MayStart \<or>
   computeReadiness chain_doc (run_with [(lit ''a'', Success)]) None
     (entries (topIncoming chain_doc) (lit ''b'')) JoinAll = MustSkip"
  by (rule readiness_progress) code_simp

text \<open>
  A verdict to start or to skip stands as long as the outcomes it was read from, and the
  branches taken by their entities, are kept.
\<close>

theorem readiness_stable:
  assumes "outcomes_kept d sc st st' es" "computeReadiness d st sc es jn \<noteq> MustWait"
  shows "computeReadiness d st' sc es jn = computeReadiness d st sc es jn"
  using readiness_kept [OF assms] .

theorem readiness_stable_witness:
  "computeReadiness chain_doc (run_with [(lit ''a'', Success), (lit ''b'', Failure)]) None
     [plain_edge (lit ''a'') (lit ''b'') OnSuccess] JoinAll =
   computeReadiness chain_doc (run_with [(lit ''a'', Success)]) None
     [plain_edge (lit ''a'') (lit ''b'') OnSuccess] JoinAll"
  by (rule readiness_stable) code_simp+

text \<open>
  A skip is explained. An entity that must be skipped has a reason, and when one of its
  dead predecessors failed, the reason names a failed predecessor.
\<close>

theorem skip_has_reason:
  assumes "computeReadiness d st sc es jn = MustSkip"
    and "\<forall>e \<in> set es. e_from e \<in> set (p_endpointIds (part d))"
  shows "\<exists>r. explainSkip d st sc es = Some r \<and>
    ((\<exists>f \<in> e_from ` set es. dead_predecessor d st sc es f \<and> endpointOutcome d st sc f = Some Failure)
       \<longrightarrow> is_failure_reason r)"
  using skip_explained [OF assms] failure_explained [of _ es d st sc] by fastforce

theorem skip_has_reason_witness:
  "\<exists>r. explainSkip chain_doc (run_with [(lit ''a'', Failure)]) None
         [plain_edge (lit ''a'') (lit ''b'') OnSuccess] = Some r"
proof -
  have "computeReadiness chain_doc (run_with [(lit ''a'', Failure)]) None
      [plain_edge (lit ''a'') (lit ''b'') OnSuccess] JoinAll = MustSkip"
    "\<forall>e \<in> set [plain_edge (lit ''a'') (lit ''b'') OnSuccess]. e_from e \<in> set (p_endpointIds (part chain_doc))"
    by code_simp+
  from skip_has_reason [OF this] show ?thesis by blast
qed

section \<open>The outcome of a scope\<close>

text \<open>
  C13: a settled scope has no failure exactly when every failed entity is handled, by a failure
  or completion edge whose target ran or along a skipped path that a \<open>skipped\<close> edge catches, and
  no leaf answers for a failure through the skipped entities above it.
\<close>

theorem scope_outcome_exact:
  "outcomeFailure oc es entities outgoing incoming = None \<longleftrightarrow>
     (\<forall>i \<in> set entities. oc i = Some Failure \<longrightarrow>
        (\<exists>e \<in> set (entries outgoing i).
           (e_on e = OnFailure \<or> e_on e = OnCompletion) \<and> es e = Satisfied \<and> entity_ran oc (e_to e)
           \<or> taints oc es e \<and> caught oc es outgoing (e_to e))) \<and>
     (\<forall>i \<in> set entities. entries outgoing i = [] \<longrightarrow> (\<nexists>x. blames oc incoming i x))"
  unfolding outcome_None absorbedFailure_def list_ex_iff absorbedSkip_iff by blast

theorem scope_outcome_exact_witness:
  "\<not> blames (endpointOutcome chain_doc (run_with [(lit ''a'', Success), (lit ''b'', Success)]) None)
       (topIncoming chain_doc) (lit ''b'') (lit ''a'')"
proof -
  let ?st = "run_with [(lit ''a'', Success), (lit ''b'', Success)]"
  have "outcomeFailure (endpointOutcome chain_doc ?st None) (edgeState chain_doc ?st None)
      (sortedTopEntities chain_doc) (topOutgoing chain_doc) (topIncoming chain_doc) = None"
    "lit ''b'' \<in> set (sortedTopEntities chain_doc)" "entries (topOutgoing chain_doc) (lit ''b'') = []"
    by code_simp+
  then show ?thesis unfolding scope_outcome_exact by blast
qed

text \<open>Whoever is blamed for the failure of a run has failed.\<close>

theorem blamed_failed:
  assumes "runOutcomeFailure d st = Some x"
  shows "endpointOutcome d st None x = Some Failure"
  using outcome_Some [OF assms [unfolded runOutcomeFailure_def]] .

theorem blamed_failed_witness:
  "endpointOutcome chain_doc (run_with [(lit ''a'', Failure), (lit ''b'', Skipped)]) None (lit ''a'') = Some Failure"
  by (rule blamed_failed) code_simp

section \<open>The graph of a document\<close>

text \<open>C22: the forward cycle check passes exactly on documents whose forward graph is acyclic.\<close>

theorem forward_cycle_exact:
  "forwardCycleErrors d cs = None \<longleftrightarrow> acyclic (forward_arcs d cs)"
  by (rule forwardCycle_acyclic)

text \<open>
  An edge about to be drawn is refused as closing a cycle exactly when its target already
  reaches its source and the document has no cycle yet.
\<close>

theorem closing_edge_exact:
  assumes "frm \<in> set (endpoints d cs)" "to \<in> set (endpoints d cs)"
  shows "closesForwardCycle d cs frm to \<longleftrightarrow>
    acyclic (forward_arcs d cs) \<and> (to, frm) \<in> (forward_arcs d cs)\<^sup>*"
  using closes_iff [OF assms] .

theorem closing_edge_exact_witness:
  "acyclic (forward_arcs chain_doc []) \<and> (lit ''a'', lit ''b'') \<in> (forward_arcs chain_doc [])\<^sup>*"
proof -
  have ends: "lit ''b'' \<in> set (endpoints chain_doc [])" "lit ''a'' \<in> set (endpoints chain_doc [])"
    and closes: "closesForwardCycle chain_doc [] (lit ''b'') (lit ''a'')"
    by code_simp+
  show ?thesis using closes unfolding closing_edge_exact [OF ends] .
qed

text \<open>
  A back-edge to a node resets exactly the nodes on the forward paths from its target to
  its source, both included.
\<close>

theorem reset_body_exact:
  assumes "containerById (e_to be) = None" "e_to be \<in> n_id ` set (d_nodes d)"
  shows "n \<in> set (backEdgeResetBody be (map n_id (d_nodes d)) (nodeDescendants d) containerById) \<longleftrightarrow>
    n \<in> n_id ` set (d_nodes d) \<and> (e_to be, n) \<in> (node_arcs d)\<^sup>* \<and> (n, e_from be) \<in> (node_arcs d)\<^sup>*"
  using reset_body_paths [where containerById = containerById, OF assms] .

theorem reset_body_exact_witness:
  "(lit ''a'', lit ''b'') \<in> (node_arcs chain_doc)\<^sup>*"
proof -
  let ?be = "plain_edge (lit ''b'') (lit ''a'') OnFailure"
  have "e_to ?be \<in> n_id ` set (d_nodes chain_doc)"
    "lit ''b'' \<in> set (backEdgeResetBody ?be (map n_id (d_nodes chain_doc)) (nodeDescendants chain_doc) (\<lambda>_. None))"
    by code_simp+
  with reset_body_exact [of "\<lambda>_. None" ?be chain_doc "lit ''b''"] show ?thesis
    by (simp add: plain_edge_def)
qed

text \<open>
  The owner of a child is the first container that declares it, and a re-declaration is
  reported exactly when a child is declared by a container that is not its owner.
\<close>

theorem membership_exact:
  "owner_of cs ch = map_option c_id (find (\<lambda>c. ch \<in> set (c_children c)) cs) \<and>
   (duplicate_in (containerMembership cs) ch p k \<longleftrightarrow>
      owner_of cs ch = Some p \<and> p \<noteq> k \<and> (\<exists>c \<in> set cs. c_id c = k \<and> ch \<in> set (c_children c)))"
  using owner_of_find duplicates_exact by blast

text \<open>
  No forward edge is lost. An edge between two known endpoints gates its target, at the
  top level or inside a container, or the document is reported as defective for it.
\<close>

theorem no_edge_dropped:
  assumes "e \<in> set (effectiveEdges d)" "\<not> e_back e"
    and "e_from e \<in> set (p_endpointIds (part d))" "e_to e \<in> set (p_endpointIds (part d))"
  shows "e \<in> set (entries (topIncoming d) (e_to e)) \<or> e \<in> set (entries (childIncoming d) (e_to e))
    \<or> CrossesBoundary e \<in> set (docDefects d) \<or> OwnContainer e \<in> set (docDefects d)"
  using edge_gates_or_reported [OF assms] .

definition boxed_doc :: doc where
  "boxed_doc = chain_doc\<lparr>d_containers := [plain_container (lit ''s'') Stage [lit ''b'']]\<rparr>"

theorem no_edge_dropped_witness:
  "CrossesBoundary (plain_edge (lit ''a'') (lit ''b'') OnSuccess) \<in> set (docDefects boxed_doc)"
proof -
  let ?e = "plain_edge (lit ''a'') (lit ''b'') OnSuccess"
  have e: "?e \<in> set (effectiveEdges boxed_doc)" "\<not> e_back ?e"
    "e_from ?e \<in> set (p_endpointIds (part boxed_doc))" "e_to ?e \<in> set (p_endpointIds (part boxed_doc))"
    by code_simp+
  have "?e \<notin> set (entries (topIncoming boxed_doc) (e_to ?e))" "?e \<notin> set (entries (childIncoming boxed_doc) (e_to ?e))"
    "OwnContainer ?e \<notin> set (docDefects boxed_doc)"
    by code_simp+
  with no_edge_dropped [OF e] show ?thesis by blast
qed

end
