(* ===== verification/Protocol.thy ===== *)
theory Protocol
  imports Binding
begin

text \<open>
  What goes in and out of the reducer (\<open>engine/types.ts\<close>): the events of a run's log, the
  commands the driver carries out, and the result of one step. An event keeps the fields that the
  reducer reads; what is only recorded for the log is left out. A diagnostic is represented by
  the site that writes it.
\<close>

section \<open>Outcomes and payloads\<close>

datatype run_outcome = OutSuccess | OutFailure | OutCancelled

definition status_of_outcome :: "run_outcome \<Rightarrow> run_status" where
  "status_of_outcome oc =
     (case oc of OutSuccess \<Rightarrow> RunSuccess | OutFailure \<Rightarrow> RunFailure | OutCancelled \<Rightarrow> RunCancelled)"

datatype failure_kind = Transient | Permanent | CancelledKind

datatype write_op = WriteSet | WriteAppend

datatype control_event = ConditionEvaluated | SwitchEvaluated

text \<open>What the preparation of a node can throw: an error of the language, or one of its own.\<close>

datatype prep_error =
    LanguageError exn
  | NoCondition | NotBoolean | NoSwitchOn | SwitchNotString | NoCases | NoMessage | NotAnArray
  | NoDuration jstr | BadDuration jstr | DurationTooLong jstr | BadCallbackTimeout
  | UnknownOperation | NoReturnValues | MalformedReturnValue | ReturnValueNotText jstr
  | UnterminatedValue | NoDeclaredVariable | AppendToNonArray jstr | ValueNotText
  | CannotAppend jstr | NoEvaluator

type_synonym 'a prep = "(prep_error, 'a) result"

text \<open>The failure that a variable write or a return value records, with its code.\<close>

datatype fail_error =
    FailText jstr
  | VariableTypeMismatch write_error
  | VariableNotReplaySafe replay_error
  | VariableTooLarge nat

record prepared_dispatch =
  pd_input :: jval
  pd_connectionId :: "jstr option"
  pd_connectionParams :: "jval option"
  pd_connectionIds :: "connection_ids option"
  pd_datasetIds :: "jstr sides option"
  pd_datasetParams :: "jval sides option"
  pd_inlineSource :: "inline_dataset option"
  pd_userProperties :: "user_property list option"

section \<open>Commands\<close>

datatype finish_reason =
    InvalidEvent | Capped | NodeFailed jstr | Stalled | CancelledBy cancel_source

type_synonym recorded_properties = "user_property list option"

datatype command =
    DispatchNode jstr jstr prepared_dispatch
  | StartChild jstr jstr jstr jstr jval bool recorded_properties
  | ScheduleRetry jstr jstr "nat option"
  | EvaluateControl jstr jstr jstr control_event recorded_properties
  | FailNode jstr jstr fail_error recorded_properties
  | WriteVariable jstr jstr write_op jstr jval recorded_properties
  | SucceedControl jstr jstr jobj recorded_properties
  | InactivateNode jstr jstr inactive_mark recorded_properties
  | ScheduleWait jstr jstr jnum recorded_properties
  | ScheduleRecheck jstr jstr jstr nat nat "int option"
  | ScheduleExternalWait jstr jstr jnum recorded_properties
  | ScheduleContainerTimeout jstr nat
  | FinishRun run_outcome "finish_reason option"
  | ParkRun waiting_reason

definition cancelFinish :: "cancel_source \<Rightarrow> command" where
  "cancelFinish source = FinishRun OutCancelled (Some (CancelledBy source))"

definition invalid_event :: command where
  "invalid_event = FinishRun OutFailure (Some InvalidEvent)"

section \<open>Events\<close>

record started_event =
  se_pipelineVersionId :: jstr
  se_startedAt :: "jstr option"
  se_params :: jobj
  se_globals :: "jobj option"
  se_rerunOf :: "jstr option"

record variable_write =
  vw_nodeId :: jstr
  vw_op :: write_op
  vw_name :: jstr
  vw_value :: jval

record reseeded_event =
  re_frontier :: "jstr list"
  re_copiedOutputs :: "jobj table"
  re_copiedContainers :: "container_run_state table"
  re_childLinks :: "(jstr \<times> jstr) list"
  re_copiedVariableWrites :: "variable_write list"
  re_copiedInactive :: "jstr list"

text \<open>The events of one attempt of a node, by the attempt they name.\<close>

datatype node_event =
    NodeDispatched
  | NodeSucceeded jobj
  | NodeInactive inactive_mark
  | NodeFailedE failure_kind "nat option"
  | BranchEvaluated control_event jstr
  | VariableWritten write_op jstr jval
  | CallReturned jstr run_outcome jobj
  | CallDetached jstr
  | RetryRequested
  | RetryDue
  | WaitScheduled
  | WaitDue
  | NotReady jstr nat nat
  | AwaitingCallback jobj nat
  | RecheckScheduled int
  | RecheckDue
  | ExternalWaitCreated "(jval \<times> jstr option) option"
  | ExternalWaitCompleted "jobj option" "jstr option"
  | ExternalWaitExpired

datatype event_body =
    RunStarted started_event
  | RunTriggerContext jstr "jstr option" "jval option"
  | RunReseeded reseeded_event
  | RunFinished run_outcome
  | RunResumed
  | RunWaitingE waiting_reason
  | RunCancelRequested cancel_source
  | RunInterruptedE
  | NodeEvent jstr jstr node_event
  | ContainerTimeoutScheduled jstr int
  | ContainerTimedOut jstr
  | Observed

text \<open>
  \<open>Observed\<close> stands for the events the reducer only passes over: \<open>node.output\<close>,
  \<open>node.retryScheduled\<close>, \<open>call.started\<close> and the \<open>activity.*\<close> records.
\<close>

record engine_event =
  ev_runId :: jstr
  ev_body :: event_body

section \<open>Diagnostics and results\<close>

datatype diagnostic =
    Defect doc_defect
  | PrepFailed jstr prep_error
  | DeadBranch jstr nat
  | BouncesClamped edge
  | ContainerChildFailed jstr jstr
  | ContainerDraining jstr jstr
  | ExitWhenFailed jstr prep_error
  | ItemsFailed jstr prep_error
  | NoProgressLoop jstr
  | NoExitCondition jstr
  | MaxRoundsReached jstr
  | ReservedAt jstr jstr
  | BackEdgeTouchesBody jstr edge
  | RunStalled "jstr list"
  | ImpossibleEvent jstr
  | DuplicateEvent jstr
  | ContradictoryEvent jstr
  | UnexpectedChild jstr
  | InvalidConfig jstr
  | InvalidOutputs jstr
  | NotDetached jstr
  | TimedOutContainer jstr
  | IgnoredEvent
  | NotFinished
  | NeverCancelled
  | AlreadyStarted
  | AlreadySeeded
  | AlreadyProgressed
  | ReseedRefused jstr

record reduce_result =
  rr_state :: run_state
  rr_commands :: "command list"
  rr_diagnostics :: "diagnostic list"
  rr_resetSkips :: "skip_reason table"

definition result_of :: "run_state \<Rightarrow> command list \<Rightarrow> diagnostic list \<Rightarrow> reduce_result" where
  "result_of st cmds ds = \<lparr>rr_state = st, rr_commands = cmds, rr_diagnostics = ds, rr_resetSkips = []\<rparr>"

section \<open>Updates of a run's state\<close>

definition update_at :: "jstr \<Rightarrow> ('v \<Rightarrow> 'v) \<Rightarrow> 'v table \<Rightarrow> 'v table" where
  "update_at i f m = (case map_of m i of None \<Rightarrow> m | Some v \<Rightarrow> map_set i (f v) m)"

definition delete_at :: "jstr \<Rightarrow> 'v table \<Rightarrow> 'v table" where
  "delete_at i m = filter (\<lambda>p. fst p \<noteq> i) m"

definition withNode :: "run_state \<Rightarrow> jstr \<Rightarrow> (node_run_state \<Rightarrow> node_run_state) \<Rightarrow> run_state" where
  "withNode st i patch = st\<lparr>rs_nodes := update_at i patch (rs_nodes st)\<rparr>"

definition with_status :: "run_state \<Rightarrow> jstr \<Rightarrow> node_status \<Rightarrow> run_state" where
  "with_status st i s = withNode st i (\<lambda>ns. ns\<lparr>ns_status := s\<rparr>)"

definition withoutHeldWait :: "run_state \<Rightarrow> jstr \<Rightarrow> run_state" where
  "withoutHeldWait st i = withNode st i (\<lambda>ns. ns\<lparr>ns_recheck := None, ns_callback := None\<rparr>)"

definition withContainer ::
  "run_state \<Rightarrow> jstr \<Rightarrow> (container_run_state \<Rightarrow> container_run_state) \<Rightarrow> run_state" where
  "withContainer st i patch = st\<lparr>rs_containers := update_at i patch (rs_containers st)\<rparr>"

definition with_outputs :: "run_state \<Rightarrow> jstr \<Rightarrow> jobj \<Rightarrow> run_state" where
  "with_outputs st i outs = st\<lparr>rs_outputs := map_set i outs (rs_outputs st)\<rparr>"

lemma map_of_update_at: "map_of (update_at i f m) j = (if j = i then map_option f (map_of m i) else map_of m j)"
  by (auto simp: update_at_def map_of_map_set split: option.split)

lemma map_of_delete_at: "map_of (delete_at i m) j = (if j = i then None else map_of m j)"
  unfolding delete_at_def by (induction m) auto

end
