(* ===== verification/Prepare.thy ===== *)
theory Prepare
  imports Protocol
begin

text \<open>
  How \<open>engine/reduce.ts\<close> turns a node that may start into the command that starts it: the
  context its expressions see, the resolved inputs, the values of the control activities and the
  variable writes. \<open>h\<close> is the host of the expression language.
\<close>

section \<open>The context of an expression\<close>

definition str_or_null :: "jstr option \<Rightarrow> jval" where
  "str_or_null v = (case v of Some s \<Rightarrow> JStr s | None \<Rightarrow> JNull)"

definition triggerRoot :: "trigger_context option \<Rightarrow> jobj" where
  "triggerRoot tc =
     (let f = (\<lambda>sel. str_or_null (case tc of Some c \<Rightarrow> sel c | None \<Rightarrow> None))
      in [(lit ''triggerId'', f tc_triggerId),
          (lit ''scheduledTime'', f tc_scheduledTime),
          (lit ''body'', case tc of Some c \<Rightarrow> (if tc_body c = JUndef then JNull else tc_body c) | None \<Rightarrow> JNull),
          (lit ''windowStart'', f tc_windowStart),
          (lit ''windowEnd'', f tc_windowEnd)])"

definition buildCtx :: "run_state \<Rightarrow> sub_ctx" where
  "buildCtx st =
     \<lparr>cx_params = rs_params st,
      cx_nodeOutputs = rs_outputs st,
      cx_nodeStatuses = map (\<lambda>(i, ns). (i, ns_status ns)) (rs_nodes st),
      cx_run = [(lit ''runId'', JStr (rs_runId st)),
                (lit ''startedAt'', str_or_null (rs_startedAt st)),
                (lit ''pipelineVersionId'', JStr (rs_pipelineVersionId st)),
                (lit ''triggerId'', str_or_null (case rs_triggerContext st of Some c \<Rightarrow> tc_triggerId c | None \<Rightarrow> None)),
                (lit ''parentRunId'', JNull)],
      cx_trigger = triggerRoot (rs_triggerContext st),
      cx_variables = rs_variables st,
      cx_globals = rs_globals st\<rparr>"

text \<open>An instance key for an index parsed from a key, and the element at such an index.\<close>

definition parsed_key :: "jstr \<Rightarrow> jnum \<Rightarrow> jstr" where
  "parsed_key docId n = docId @ [64] @ num_to_str n"

definition element_at :: "jval list \<Rightarrow> jnum \<Rightarrow> jval option" where
  "element_at xs n =
     (if jlt n (jnum_of_nat (length xs)) then Some (xs ! nat (int_of_jnum n)) else None)"

definition foreachItemOf :: "doc \<Rightarrow> run_state \<Rightarrow> jstr \<Rightarrow> jval option" where
  "foreachItemOf d st i =
     (case scopeOfStateId d i of
        Some (c, n) \<Rightarrow>
          (case map_of (rs_containers st) (c_id c) of
             None \<Rightarrow> None
           | Some cs \<Rightarrow> (case cs_items cs of None \<Rightarrow> None | Some items \<Rightarrow> element_at items n))
      | None \<Rightarrow>
          (case map_of (owners d) i of
             None \<Rightarrow> None
           | Some cid \<Rightarrow>
               (case container_by_id d cid of
                  None \<Rightarrow> None
                | Some c \<Rightarrow>
                    if c_kind c \<noteq> Foreach then None
                    else (case map_of (rs_containers st) cid of
                            None \<Rightarrow> None
                          | Some cs \<Rightarrow>
                              (case cs_items cs of
                                 None \<Rightarrow> None
                               | Some items \<Rightarrow>
                                   if length items \<le> cs_round cs then None
                                   else Some (items ! cs_round cs))))))"

text \<open>One child of an instance, seen under its bare id.\<close>

definition copy_at :: "jstr \<Rightarrow> jstr \<Rightarrow> 'v table \<Rightarrow> 'v table \<Rightarrow> 'v table" where
  "copy_at from to src m = (case map_of src from of Some v \<Rightarrow> map_set to v m | None \<Rightarrow> m)"

definition scopedEvalState :: "doc \<Rightarrow> run_state \<Rightarrow> jstr \<Rightarrow> run_state" where
  "scopedEvalState d st sid =
     (case scopeOfStateId d sid of
        None \<Rightarrow> st
      | Some (c, n) \<Rightarrow>
          st\<lparr>rs_nodes := foldl (\<lambda>m ch. copy_at (parsed_key ch n) ch (rs_nodes st) m) (rs_nodes st) (c_children c),
             rs_outputs := foldl (\<lambda>m ch. copy_at (parsed_key ch n) ch (rs_outputs st) m) (rs_outputs st) (c_children c),
             rs_branches := foldl (\<lambda>m ch. copy_at (parsed_key ch n) ch (rs_branches st) m) (rs_branches st) (c_children c)\<rparr>)"

section \<open>Resolved inputs\<close>

definition prep :: "'a jres \<Rightarrow> 'a prep" where
  "prep r = (case r of Inl e \<Rightarrow> Inl (LanguageError e) | Inr v \<Rightarrow> Inr v)"

text \<open>\<open>String(v)\<close>. An object with an own \<open>toString\<close> that holds data cannot be converted.\<close>

fun js_String :: "jval \<Rightarrow> jstr jres" where
  "js_String JUndef = Inr (lit ''undefined'')"
| "js_String JNull = Inr (lit ''null'')"
| "js_String (JBool b) = Inr (if b then lit ''true'' else lit ''false'')"
| "js_String (JNum n) = Inr (num_to_str n)"
| "js_String (JStr s) = Inr s"
| "js_String (JArr xs) =
     bindR (mapR (\<lambda>x. if x = JNull \<or> x = JUndef then Inr [] else js_String x) xs) (\<lambda>ss. Inr (joinS [44] ss))"
| "js_String (JObj ps) = (if has_own ps (lit ''toString'') then Inl HostE else Inr (lit ''[object Object]''))"

definition subst :: "host \<Rightarrow> run_state \<Rightarrow> jval option \<Rightarrow> jval \<Rightarrow> jval prep" where
  "subst h es item v = prep (substitute h (buildCtx es) item 0 v)"

definition subst_text :: "host \<Rightarrow> run_state \<Rightarrow> jval option \<Rightarrow> jstr \<Rightarrow> jstr prep" where
  "subst_text h es item s = bindR (subst h es item (JStr s)) (\<lambda>v. prep (js_String v))"

definition config_has :: "node \<Rightarrow> jstr \<Rightarrow> bool" where
  "config_has n k \<longleftrightarrow> (case map_of (n_config n) k of None \<Rightarrow> False | Some v \<Rightarrow> v \<noteq> JUndef)"

definition config_get :: "node \<Rightarrow> jstr \<Rightarrow> jval" where
  "config_get n k = (case map_of (n_config n) k of None \<Rightarrow> JUndef | Some v \<Rightarrow> v)"

definition put_field :: "jstr \<Rightarrow> jval \<Rightarrow> jval \<Rightarrow> jval" where
  "put_field k v o' = (case o' of JObj ps \<Rightarrow> JObj (obj_put k v ps) | w \<Rightarrow> w)"

text \<open>One block of a script: everything stays literal but its parameters.\<close>

definition script_block :: "host \<Rightarrow> run_state \<Rightarrow> jval option \<Rightarrow> jval \<Rightarrow> jval prep" where
  "script_block h es item block =
     (case block of
        JObj ps \<Rightarrow>
          (case map_of ps (lit ''parameters'') of
             None \<Rightarrow> Inr (JObj ps)
           | Some v \<Rightarrow>
               if v = JUndef then Inr (JObj (delete_at (lit ''parameters'') ps))
               else bindR (subst h es item v) (\<lambda>w.
                      Inr (JObj (obj_put (lit ''parameters'') w (delete_at (lit ''parameters'') ps)))))
      | v \<Rightarrow> Inr v)"

text \<open>The configuration without one field, which is put back as it was authored.\<close>

definition keep_literal :: "host \<Rightarrow> run_state \<Rightarrow> jval option \<Rightarrow> node \<Rightarrow> jstr \<Rightarrow> jval prep" where
  "keep_literal h es item n k =
     bindR (subst h es item (JObj (delete_at k (n_config n)))) (\<lambda>v. Inr (put_field k (config_get n k) v))"

definition prepInput :: "host \<Rightarrow> run_state \<Rightarrow> node \<Rightarrow> jval option \<Rightarrow> jval prep" where
  "prepInput h es n item =
     (if n_type n = lit ''llm_call'' \<and> config_has n (lit ''tools'') then keep_literal h es item n (lit ''tools'')
      else if n_type n = lit ''copy'' \<and> config_has n (lit ''preCopyScript'')
        then keep_literal h es item n (lit ''preCopyScript'')
      else if n_type n = lit ''script'' \<and> config_has n (lit ''blocks'')
        then bindR (keep_literal h es item n (lit ''blocks'')) (\<lambda>v.
               case config_get n (lit ''blocks'') of
                 JArr blocks \<Rightarrow>
                   bindR (mapR (script_block h es item) blocks) (\<lambda>bs. Inr (put_field (lit ''blocks'') (JArr bs) v))
               | _ \<Rightarrow> Inr v)
      else subst h es item (JObj (n_config n)))"

text \<open>An optional part of the node, resolved when it is there.\<close>

definition opt_prep :: "('a \<Rightarrow> 'b prep) \<Rightarrow> 'a option \<Rightarrow> 'b option prep" where
  "opt_prep f v = (case v of None \<Rightarrow> Inr None | Some x \<Rightarrow> bindR (f x) (\<lambda>y. Inr (Some y)))"

definition resolveConnectionId :: "host \<Rightarrow> run_state \<Rightarrow> node \<Rightarrow> jval option \<Rightarrow> jstr option prep" where
  "resolveConnectionId h es n item = opt_prep (subst_text h es item) (n_connectionId n)"

definition resolveConnectionIds :: "host \<Rightarrow> run_state \<Rightarrow> node \<Rightarrow> jval option \<Rightarrow> connection_ids option prep" where
  "resolveConnectionIds h es n item =
     opt_prep (\<lambda>ids.
       bindR (subst_text h es item (ci_source ids)) (\<lambda>src.
         bindR (subst_text h es item (ci_sink ids)) (\<lambda>snk.
           bindR (opt_prep (subst_text h es item) (ci_log ids)) (\<lambda>lg.
             Inr \<lparr>ci_source = src, ci_sink = snk, ci_log = lg\<rparr>)))) (n_connectionIds n)"

text \<open>Both ends of a copy, the source first.\<close>

definition both_sides :: "('a \<Rightarrow> 'b prep) \<Rightarrow> 'a sides \<Rightarrow> 'b sides prep" where
  "both_sides f s =
     bindR (opt_prep f (sd_source s)) (\<lambda>a. bindR (opt_prep f (sd_sink s)) (\<lambda>b.
       Inr \<lparr>sd_source = a, sd_sink = b\<rparr>))"

definition resolveDatasetIds :: "host \<Rightarrow> run_state \<Rightarrow> node \<Rightarrow> jval option \<Rightarrow> jstr sides option prep" where
  "resolveDatasetIds h es n item = opt_prep (both_sides (subst_text h es item)) (n_datasetIds n)"

definition resolveConnectionParams :: "host \<Rightarrow> run_state \<Rightarrow> node \<Rightarrow> jval option \<Rightarrow> jval option prep" where
  "resolveConnectionParams h es n item = opt_prep (\<lambda>ps. subst h es item (JObj ps)) (n_connectionParams n)"

definition resolveDatasetParams :: "host \<Rightarrow> run_state \<Rightarrow> node \<Rightarrow> jval option \<Rightarrow> jval sides option prep" where
  "resolveDatasetParams h es n item =
     opt_prep (both_sides (\<lambda>ps. subst h es item (JObj ps))) (n_datasetParams n)"

definition resolveInlineDatasets :: "host \<Rightarrow> run_state \<Rightarrow> node \<Rightarrow> jval option \<Rightarrow> inline_dataset option prep" where
  "resolveInlineDatasets h es n item =
     opt_prep (\<lambda>src.
       case map_of (il_config src) (lit ''parameters'') of
         None \<Rightarrow> Inr src
       | Some v \<Rightarrow>
           if v = JUndef then Inr src
           else bindR (subst h es item v) (\<lambda>w.
                  Inr (src\<lparr>il_config := obj_put (lit ''parameters'') w (il_config src)\<rparr>))) (n_inlineSource n)"

section \<open>User properties\<close>

definition USER_PROPERTY_VALUE_MAX_CHARS :: nat where "USER_PROPERTY_VALUE_MAX_CHARS = 2000"

text \<open>The text cut to the limit, never inside a surrogate pair, and whether it was cut.\<close>

definition bounded :: "jstr \<Rightarrow> jstr \<times> bool" where
  "bounded s =
     (if length s \<le> USER_PROPERTY_VALUE_MAX_CHARS then (s, False)
      else let u = s ! (USER_PROPERTY_VALUE_MAX_CHARS - 1)
           in (take (if 55296 \<le> u \<and> u \<le> 56319 then USER_PROPERTY_VALUE_MAX_CHARS - 1
                     else USER_PROPERTY_VALUE_MAX_CHARS) s, True))"

text \<open>
  A property that cannot be resolved records the error in place of a value. The error stands for
  its message, whose cut is not modelled.
\<close>

definition resolve_property :: "(jstr \<Rightarrow> jval jres) \<Rightarrow> property_template \<Rightarrow> user_property" where
  "resolve_property evaluate p =
     (case evaluate (snd p) of
        Inr v \<Rightarrow>
          (let (t, cut) = bounded (toStr v)
           in \<lparr>up_name = fst p, up_value = Some t, up_error = None, up_truncated = cut\<rparr>)
      | Inl e \<Rightarrow> \<lparr>up_name = fst p, up_value = None, up_error = Some e, up_truncated = False\<rparr>)"

definition resolveUserProperties :: "property_template list \<Rightarrow> (jstr \<Rightarrow> jval jres) \<Rightarrow> user_property list" where
  "resolveUserProperties props evaluate = map (resolve_property evaluate) props"

text \<open>For an inactive entity only a literal is resolved.\<close>

definition literalOnly :: "jstr \<Rightarrow> jval jres" where
  "literalOnly t =
     (case interpolationMode t of
        Literal scanned _ _ \<Rightarrow> Inr (JStr (restoreEscapes scanned))
      | _ \<Rightarrow> Inl HostE)"

definition resolveUserPropertiesIn ::
  "host \<Rightarrow> run_state \<Rightarrow> property_template list option \<Rightarrow> jval option \<Rightarrow> recorded_properties" where
  "resolveUserPropertiesIn h es props item =
     (case props of
        None \<Rightarrow> None
      | Some ps \<Rightarrow>
          if ps = [] then None
          else Some (resolveUserProperties ps (\<lambda>t. substitute h (buildCtx es) item 0 (JStr t))))"

definition resolveNodeUserProperties :: "host \<Rightarrow> run_state \<Rightarrow> node \<Rightarrow> jval option \<Rightarrow> recorded_properties" where
  "resolveNodeUserProperties h es n item = resolveUserPropertiesIn h es (n_userProperties n) item"

definition inactive_properties :: "property_template list option \<Rightarrow> recorded_properties" where
  "inactive_properties props =
     (case props of
        None \<Rightarrow> None
      | Some ps \<Rightarrow> if ps = [] then None else Some (resolveUserProperties ps literalOnly))"

text \<open>\<open>withUserProperties\<close>: the command records what the properties of its node resolve to.\<close>

definition set_properties :: "recorded_properties \<Rightarrow> command \<Rightarrow> command" where
  "set_properties ups c =
     (case c of
        StartChild a b r v p w _ \<Rightarrow> StartChild a b r v p w ups
      | EvaluateControl a b br e _ \<Rightarrow> EvaluateControl a b br e ups
      | FailNode a b e _ \<Rightarrow> FailNode a b e ups
      | WriteVariable a b op nm v _ \<Rightarrow> WriteVariable a b op nm v ups
      | SucceedControl a b o' _ \<Rightarrow> SucceedControl a b o' ups
      | ScheduleWait a b s _ \<Rightarrow> ScheduleWait a b s ups
      | ScheduleExternalWait a b s _ \<Rightarrow> ScheduleExternalWait a b s ups
      | _ \<Rightarrow> c)"

definition withUserProperties :: "host \<Rightarrow> doc \<Rightarrow> run_state \<Rightarrow> node \<Rightarrow> jstr \<Rightarrow> command \<Rightarrow> command" where
  "withUserProperties h d st n sid c =
     (case resolveNodeUserProperties h (scopedEvalState d st sid) n (foreachItemOf d st sid) of
        None \<Rightarrow> c
      | Some ups \<Rightarrow> set_properties (Some ups) c)"

section \<open>Dispatch\<close>

definition prepDispatch :: "host \<Rightarrow> doc \<Rightarrow> run_state \<Rightarrow> node \<Rightarrow> jstr \<Rightarrow> prepared_dispatch prep" where
  "prepDispatch h d st n sid =
     (let es = scopedEvalState d st sid; item = foreachItemOf d st sid
      in bindR (prepInput h es n item) (\<lambda>inp.
           bindR (resolveConnectionId h es n item) (\<lambda>cid.
             bindR (resolveConnectionParams h es n item) (\<lambda>cps.
               bindR (resolveConnectionIds h es n item) (\<lambda>cids.
                 bindR (resolveDatasetIds h es n item) (\<lambda>dids.
                   bindR (resolveDatasetParams h es n item) (\<lambda>dps.
                     bindR (resolveInlineDatasets h es n item) (\<lambda>il.
                       Inr \<lparr>pd_input = inp, pd_connectionId = cid, pd_connectionParams = cps,
                            pd_connectionIds = cids, pd_datasetIds = dids, pd_datasetParams = dps,
                            pd_inlineSource = il,
                            pd_userProperties = resolveNodeUserProperties h es n item\<rparr>))))))))"

definition inactiveMarkAs :: "inactive_mark option \<Rightarrow> inactive_mark" where
  "inactiveMarkAs m = (case m of Some x \<Rightarrow> x | None \<Rightarrow> MarkSuccess)"

definition inactivateCommand :: "node \<Rightarrow> jstr \<Rightarrow> jstr \<Rightarrow> command" where
  "inactivateCommand n sid attemptId =
     InactivateNode sid attemptId (inactiveMarkAs (n_onInactiveMarkAs n)) (inactive_properties (n_userProperties n))"

end
