(* ===== verification/Control.thy ===== *)
theory Control
  imports Prepare
begin

text \<open>
  The activities that the reducer evaluates itself (\<open>engine/reduce.ts\<close>): \<open>if\<close>, \<open>switch\<close>,
  \<open>fail\<close>, \<open>filter\<close>, \<open>wait\<close>, \<open>webhook\<close>, the variable writers and a Web node that only waits
  for its callback; and the command that starts any node.
\<close>

section \<open>Branches\<close>

text \<open>A field that must be one expression, evaluated.\<close>

definition whole_value :: "host \<Rightarrow> run_state \<Rightarrow> jval option \<Rightarrow> jstr \<Rightarrow> jstr \<Rightarrow> jval prep" where
  "whole_value h es item raw noun =
     (let src = trim raw
      in case wholeValueDefect src noun of
           Some defect \<Rightarrow> Inl (LanguageError (SubstituteE (EvalReason defect)))
         | None \<Rightarrow> subst h es item (JStr src))"

definition evalIfBranch :: "host \<Rightarrow> node \<Rightarrow> run_state \<Rightarrow> jval option \<Rightarrow> jstr prep" where
  "evalIfBranch h n es item =
     (case config_get n (lit ''condition'') of
        JStr raw \<Rightarrow>
          bindR (whole_value h es item raw (lit ''condition'')) (\<lambda>out.
            case out of
              JBool b \<Rightarrow> Inr (if b then lit ''true'' else lit ''false'')
            | _ \<Rightarrow> Inl NotBoolean)
      | _ \<Rightarrow> Inl NoCondition)"

definition SWITCH_DEFAULT_BRANCH :: jstr where "SWITCH_DEFAULT_BRANCH = lit ''default''"

definition evalSwitchBranch :: "host \<Rightarrow> node \<Rightarrow> run_state \<Rightarrow> jval option \<Rightarrow> jstr prep" where
  "evalSwitchBranch h n es item =
     (case config_get n (lit ''on'') of
        JStr raw \<Rightarrow>
          bindR (subst h es item (JStr raw)) (\<lambda>out.
            case out of
              JStr s \<Rightarrow>
                (case config_get n (lit ''cases'') of
                   JArr cases \<Rightarrow>
                     if cases = [] then Inl NoCases
                     else Inr (if JStr s \<in> set cases then s else SWITCH_DEFAULT_BRANCH)
                 | _ \<Rightarrow> Inl NoCases)
            | _ \<Rightarrow> Inl SwitchNotString)
      | _ \<Rightarrow> Inl NoSwitchOn)"

definition controlBranchEvent :: "jstr \<Rightarrow> control_event option" where
  "controlBranchEvent t =
     (if t = lit ''if'' then Some ConditionEvaluated
      else if t = lit ''switch'' then Some SwitchEvaluated else None)"

definition evalControlBranch :: "host \<Rightarrow> node \<Rightarrow> run_state \<Rightarrow> jval option \<Rightarrow> jstr prep" where
  "evalControlBranch h n es item =
     (if n_type n = lit ''if'' then evalIfBranch h n es item
      else if n_type n = lit ''switch'' then evalSwitchBranch h n es item
      else Inl NoEvaluator)"

section \<open>Fail, filter and durations\<close>

definition evalFailMessage :: "host \<Rightarrow> node \<Rightarrow> run_state \<Rightarrow> jval option \<Rightarrow> jstr prep" where
  "evalFailMessage h n es item =
     (case config_get n (lit ''message'') of
        JStr raw \<Rightarrow> if trim raw = [] then Inl NoMessage else subst_text h es item raw
      | _ \<Rightarrow> Inl NoMessage)"

definition evalFilter :: "host \<Rightarrow> node \<Rightarrow> run_state \<Rightarrow> jval option \<Rightarrow> jobj prep" where
  "evalFilter h n es item =
     bindR (prep (composeFilterExpr (n_config n))) (\<lambda>src.
       bindR (subst h es item (JStr src)) (\<lambda>out.
         case out of
           JArr xs \<Rightarrow> Inr [(lit ''result'', JArr xs)]
         | _ \<Rightarrow> Inl NotAnArray))"

text \<open>\<open>Number(s)\<close> of a text: decimal, hexadecimal, octal and binary literals, and \<open>Infinity\<close>.\<close>

definition radix_digit :: "nat \<Rightarrow> nat option" where
  "radix_digit u =
     (if is_digit u then Some (u - 48)
      else if 97 \<le> u \<and> u \<le> 122 then Some (u - 87)
      else if 65 \<le> u \<and> u \<le> 90 then Some (u - 55) else None)"

definition radix_value :: "nat \<Rightarrow> jstr \<Rightarrow> jnum" where
  "radix_value r s =
     (if s \<noteq> [] \<and> list_all (\<lambda>u. case radix_digit u of Some k \<Rightarrow> k < r | None \<Rightarrow> False) s
      then jnum_of_nat (foldl (\<lambda>v u. v * r + (case radix_digit u of Some k \<Rightarrow> k | None \<Rightarrow> 0)) 0 s)
      else NaN)"

definition decimal_literal :: "bool \<Rightarrow> jstr \<Rightarrow> jnum" where
  "decimal_literal neg s =
     (if s = lit ''Infinity'' then Infty neg
      else let ip = takeWhile is_digit s;
               rest = dropWhile is_digit s;
               fr = (if rest \<noteq> [] \<and> hd rest = 46
                     then (takeWhile is_digit (tl rest), dropWhile is_digit (tl rest)) else ([], rest));
               ex = scan_exp (snd fr)
           in if (ip \<noteq> [] \<or> fst fr \<noteq> []) \<and> snd ex = [] then dec_value neg ip (fst fr) (fst ex) else NaN)"

definition js_Number :: "jstr \<Rightarrow> jnum" where
  "js_Number s =
     (case trim s of
        [] \<Rightarrow> Fin 0
      | u # t \<Rightarrow>
          if u = 48 \<and> t \<noteq> [] \<and> hd t \<in> {120, 88} then radix_value 16 (tl t)
          else if u = 48 \<and> t \<noteq> [] \<and> hd t \<in> {111, 79} then radix_value 8 (tl t)
          else if u = 48 \<and> t \<noteq> [] \<and> hd t \<in> {98, 66} then radix_value 2 (tl t)
          else if u = 45 then decimal_literal True t
          else if u = 43 then decimal_literal False t
          else decimal_literal False (u # t))"

text \<open>The largest wait whose due time is still a safe integer.\<close>

definition NOW_CEILING_MS :: int where "NOW_CEILING_MS = 10 ^ 15"

definition MAX_WAIT_SECONDS :: int where "MAX_WAIT_SECONDS = (2 ^ 53 - 1 - NOW_CEILING_MS) div 1000"

definition evalDurationSeconds ::
  "host \<Rightarrow> node \<Rightarrow> run_state \<Rightarrow> jval option \<Rightarrow> jstr \<Rightarrow> jnum prep" where
  "evalDurationSeconds h n es item fld =
     (case config_get n fld of
        JStr raw \<Rightarrow>
          if trim raw = [] then Inl (NoDuration fld)
          else bindR (whole_value h es item raw fld) (\<lambda>resolved.
                 let seconds = (case resolved of
                                  JNum k \<Rightarrow> k
                                | JStr s \<Rightarrow> if trim s \<noteq> [] then js_Number s else NaN
                                | _ \<Rightarrow> NaN)
                 in if \<not> is_finite seconds \<or> jlt seconds (Fin 0) then Inl (BadDuration fld)
                    else if jlt (jnum_of_int MAX_WAIT_SECONDS) seconds then Inl (DurationTooLong fld)
                    else Inr seconds)
      | _ \<Rightarrow> Inl (NoDuration fld))"

definition evalWaitSeconds :: "host \<Rightarrow> node \<Rightarrow> run_state \<Rightarrow> jval option \<Rightarrow> jnum prep" where
  "evalWaitSeconds h n es item = evalDurationSeconds h n es item (lit ''seconds'')"

definition evalWebhookTimeoutSeconds :: "host \<Rightarrow> node \<Rightarrow> run_state \<Rightarrow> jval option \<Rightarrow> jnum prep" where
  "evalWebhookTimeoutSeconds h n es item = evalDurationSeconds h n es item (lit ''timeoutSeconds'')"

section \<open>Variables\<close>

definition isVariableWriterType :: "jstr \<Rightarrow> bool" where
  "isVariableWriterType t \<longleftrightarrow> t = lit ''set_variable'' \<or> t = lit ''append_variable''"

datatype writer_op = DoSet | DoAppend | DoReturn

definition variableWriteOp :: "node \<Rightarrow> writer_op option" where
  "variableWriteOp n =
     (if n_type n = lit ''append_variable'' then Some DoAppend
      else if n_type n \<noteq> lit ''set_variable'' then None
      else case config_get n (lit ''operation'') of
             JUndef \<Rightarrow> Some DoSet
           | JStr s \<Rightarrow>
               if s = lit ''set'' then Some DoSet else if s = lit ''append'' then Some DoAppend
               else if s = lit ''return'' then Some DoReturn else None
           | _ \<Rightarrow> None)"

definition variable_by_name :: "doc \<Rightarrow> jstr \<Rightarrow> variable_def option" where
  "variable_by_name d = js_map_of (map (\<lambda>v. (v_name v, v)) (d_variables d))"

definition jsonClone :: "jval \<Rightarrow> jval" where
  "jsonClone v =
     (case json_str v of
        None \<Rightarrow> JUndef
      | Some s \<Rightarrow> (case json_parse s of Some w \<Rightarrow> w | None \<Rightarrow> JUndef))"

definition seedVariables :: "doc \<Rightarrow> jobj" where
  "seedVariables d =
     foldl (\<lambda>out v. obj_put (v_name v)
              (case v_default v of JArr xs \<Rightarrow> jsonClone (JArr xs) | JObj ps \<Rightarrow> jsonClone (JObj ps) | w \<Rightarrow> w) out)
       [] (d_variables d)"

definition applyVariableWrite :: "doc \<Rightarrow> jobj \<Rightarrow> write_op \<Rightarrow> jstr \<Rightarrow> jval \<Rightarrow> jobj option" where
  "applyVariableWrite d vars op name v =
     (if variable_by_name d name = None then None
      else case op of
             WriteSet \<Rightarrow> Some (obj_put name v vars)
           | WriteAppend \<Rightarrow>
               (case map_of vars name of
                  Some (JArr xs) \<Rightarrow> Some (obj_put name (JArr (xs @ [v])) vars)
                | _ \<Rightarrow> None))"

definition VARIABLE_MAX_BYTES :: nat where "VARIABLE_MAX_BYTES = 262144"

definition return_type_of :: "jval \<Rightarrow> return_type option" where
  "return_type_of v =
     (if v = JStr (lit ''string'') then Some RetString
      else if v = JStr (lit ''number'') then Some RetNumber
      else if v = JStr (lit ''boolean'') then Some RetBoolean
      else if v = JStr (lit ''array'') then Some RetArray
      else if v = JStr (lit ''object'') then Some RetObject
      else if v = JStr (lit ''null'') then Some RetNull else None)"

definition row_field :: "jval \<Rightarrow> jstr \<Rightarrow> jval" where
  "row_field row k =
     (case row of JObj ps \<Rightarrow> (case map_of ps k of Some v \<Rightarrow> v | None \<Rightarrow> JUndef) | _ \<Rightarrow> JUndef)"

text \<open>One row of a return value: the value, or the failure that its type mismatch records.\<close>

definition return_row ::
  "host \<Rightarrow> doc \<Rightarrow> run_state \<Rightarrow> jstr \<Rightarrow> jval \<Rightarrow> (jstr \<times> (fail_error, jval) result) prep" where
  "return_row h d st sid row =
     (case (row_field row (lit ''key''), return_type_of (row_field row (lit ''type''))) of
        (JStr key, Some t) \<Rightarrow>
          if key = [] then Inl MalformedReturnValue
          else if t = RetNull then Inr (key, Inr JNull)
          else let content = row_field row (lit ''content'');
                   raw = (if content = JUndef \<or> content = JNull
                          then (if t = RetString then JStr [] else JUndef) else content)
               in case raw of
                    JStr s \<Rightarrow>
                      (case variableValueMode s of
                         None \<Rightarrow> Inl UnterminatedValue
                       | Some mode \<Rightarrow>
                           bindR (subst h (scopedEvalState d st sid) (foreachItemOf d st sid) (JStr s)) (\<lambda>resolved.
                             case coerceReturnValue key t mode resolved of
                               Inr v \<Rightarrow> Inr (key, Inr v)
                             | Inl e \<Rightarrow> Inr (key, Inl (VariableTypeMismatch e))))
                  | _ \<Rightarrow> Inl (ReturnValueNotText key)
      | _ \<Rightarrow> Inl MalformedReturnValue)"

fun return_rows ::
  "host \<Rightarrow> doc \<Rightarrow> run_state \<Rightarrow> jstr \<Rightarrow> jval list \<Rightarrow> jobj \<Rightarrow> (fail_error, jobj) result prep" where
  "return_rows h d st sid [] m = Inr (Inr m)"
| "return_rows h d st sid (row # rows) m =
     bindR (return_row h d st sid row) (\<lambda>(key, r).
       case r of
         Inl e \<Rightarrow> Inr (Inl e)
       | Inr v \<Rightarrow> return_rows h d st sid rows (obj_put key v m))"

definition json_bytes :: "jval \<Rightarrow> nat" where
  "json_bytes v = utf8ByteLength (case json_str v of Some s \<Rightarrow> s | None \<Rightarrow> [])"

definition returnValueCommand :: "host \<Rightarrow> doc \<Rightarrow> run_state \<Rightarrow> node \<Rightarrow> jstr \<Rightarrow> jstr \<Rightarrow> command prep" where
  "returnValueCommand h d st n sid attemptId =
     (case config_get n (lit ''returnValues'') of
        JArr rows \<Rightarrow>
          if rows = [] then Inl NoReturnValues
          else bindR (return_rows h d st sid rows []) (\<lambda>r.
                 case r of
                   Inl e \<Rightarrow> Inr (FailNode sid attemptId e None)
                 | Inr m \<Rightarrow>
                     (case jsonReplaySafetyErrors (lit ''the return value'') (JObj m) of
                        unsafe # _ \<Rightarrow> Inr (FailNode sid attemptId (VariableNotReplaySafe unsafe) None)
                      | [] \<Rightarrow>
                          if VARIABLE_MAX_BYTES < json_bytes (JObj m)
                          then Inr (FailNode sid attemptId (VariableTooLarge (json_bytes (JObj m))) None)
                          else Inr (SucceedControl sid attemptId [(lit ''pipelineReturnValue'', JObj m)] None)))
      | _ \<Rightarrow> Inl NoReturnValues)"

text \<open>The write of one variable, once its value is resolved.\<close>

definition write_resolved ::
  "doc \<Rightarrow> run_state \<Rightarrow> jstr \<Rightarrow> jstr \<Rightarrow> write_op \<Rightarrow> jstr \<Rightarrow> jval \<Rightarrow> command prep" where
  "write_resolved d st sid attemptId op name v =
     (case jsonReplaySafetyErrors (lit ''variable '' @ [39] @ name @ [39]) v of
        unsafe # _ \<Rightarrow> Inr (FailNode sid attemptId (VariableNotReplaySafe unsafe) None)
      | [] \<Rightarrow>
          (case applyVariableWrite d (rs_variables st) op name v of
             None \<Rightarrow> Inl (CannotAppend name)
           | Some written \<Rightarrow>
               (let bytes = json_bytes (case map_of written name of Some w \<Rightarrow> w | None \<Rightarrow> JUndef)
                in if VARIABLE_MAX_BYTES < bytes
                   then Inr (FailNode sid attemptId (VariableTooLarge bytes) None)
                   else Inr (WriteVariable sid attemptId op name v None))))"

definition write_command ::
  "host \<Rightarrow> doc \<Rightarrow> run_state \<Rightarrow> node \<Rightarrow> jstr \<Rightarrow> jstr \<Rightarrow> write_op \<Rightarrow> command prep" where
  "write_command h d st n sid attemptId op =
     (case config_get n (lit ''variable'') of
        JStr name \<Rightarrow>
          (case variable_by_name d name of
             None \<Rightarrow> Inl NoDeclaredVariable
           | Some def \<Rightarrow>
               if op = WriteAppend \<and> v_type def \<noteq> VArray then Inl (AppendToNonArray name)
               else case config_get n (lit ''value'') of
                      JStr raw \<Rightarrow>
                        (case variableValueMode raw of
                           None \<Rightarrow> Inl UnterminatedValue
                         | Some mode \<Rightarrow>
                             bindR (subst h (scopedEvalState d st sid) (foreachItemOf d st sid) (JStr raw)) (\<lambda>resolved.
                               if op = WriteSet
                               then (case coerceVariableValue (v_name def) (v_type def) mode resolved of
                                       Inl e \<Rightarrow> Inr (FailNode sid attemptId (VariableTypeMismatch e) None)
                                     | Inr v \<Rightarrow> write_resolved d st sid attemptId op name v)
                               else write_resolved d st sid attemptId op name resolved))
                    | _ \<Rightarrow> Inl ValueNotText)
      | _ \<Rightarrow> Inl NoDeclaredVariable)"

definition variableWriteCommand :: "host \<Rightarrow> doc \<Rightarrow> run_state \<Rightarrow> node \<Rightarrow> jstr \<Rightarrow> jstr \<Rightarrow> command prep" where
  "variableWriteCommand h d st n sid attemptId =
     (case variableWriteOp n of
        None \<Rightarrow> Inl UnknownOperation
      | Some DoReturn \<Rightarrow> returnValueCommand h d st n sid attemptId
      | Some DoSet \<Rightarrow> write_command h d st n sid attemptId WriteSet
      | Some DoAppend \<Rightarrow> write_command h d st n sid attemptId WriteAppend)"

end
