(* ===== verification/Dispatch.thy ===== *)
theory Dispatch
  imports Control Readiness "HOL-Library.Word"
begin

unbundle bit_operations_syntax

text \<open>
  \<open>tryDispatchNode\<close> of \<open>engine/reduce.ts\<close>: a pending node whose readiness allows it is started,
  or skipped, and the command that starts it. A node that an activity of the reducer evaluates
  and a node that an executor runs become \<open>ready\<close>, a call becomes \<open>waiting\<close>.
\<close>

section \<open>One step of the walk\<close>

text \<open>The pushes to the lists of commands, diagnostics and cleared skips come with the step.\<close>

record walk_step =
  sp_state :: run_state
  sp_changed :: bool
  sp_finish :: "command option"
  sp_commands :: "command list"
  sp_diagnostics :: "diagnostic list"
  sp_cleared :: "skip_reason table"

definition stay :: "run_state \<Rightarrow> walk_step" where
  "stay st = \<lparr>sp_state = st, sp_changed = False, sp_finish = None, sp_commands = [], sp_diagnostics = [],
     sp_cleared = []\<rparr>"

definition moved :: "run_state \<Rightarrow> command list \<Rightarrow> diagnostic list \<Rightarrow> walk_step" where
  "moved st cmds ds = \<lparr>sp_state = st, sp_changed = True, sp_finish = None, sp_commands = cmds,
     sp_diagnostics = ds, sp_cleared = []\<rparr>"

definition finishing :: "run_state \<Rightarrow> command \<Rightarrow> diagnostic list \<Rightarrow> walk_step" where
  "finishing st c ds = \<lparr>sp_state = st, sp_changed = False, sp_finish = Some c, sp_commands = [],
     sp_diagnostics = ds, sp_cleared = []\<rparr>"

definition prepFailure :: "run_state \<Rightarrow> jstr \<Rightarrow> prep_error \<Rightarrow> walk_step" where
  "prepFailure st i e = finishing st invalid_event [PrepFailed i e]"

section \<open>Run ids of children\<close>

definition FNV128_OFFSET :: "128 word" where "FNV128_OFFSET = 0x6c62272e07bb014262b821756295c58d"

definition FNV128_PRIME :: "128 word" where "FNV128_PRIME = 0x0000000001000000000000000000013b"

definition fnv_hash :: "jstr \<Rightarrow> 128 word" where
  "fnv_hash s = foldl (\<lambda>h u. (h XOR of_nat u) * FNV128_PRIME) FNV128_OFFSET s"

text \<open>The 32 hexadecimal digits of the hash, the highest first.\<close>

definition fnv1a128 :: "jstr \<Rightarrow> jstr" where
  "fnv1a128 s = map (\<lambda>i. hex_digit (unat (drop_bit (4 * i) (fnv_hash s)) mod 16)) (rev [0..<32])"

definition deterministicChildRunId :: "jstr \<Rightarrow> jstr \<Rightarrow> jstr \<Rightarrow> jstr" where
  "deterministicChildRunId runId callNodeId attemptId =
     lit ''child_'' @ fnv1a128 (runId @ [0] @ callNodeId @ [0] @ attemptId)"

section \<open>A Web node that only waits\<close>

definition webHasUrl :: "node \<Rightarrow> bool" where
  "webHasUrl n \<longleftrightarrow> (case config_get n (lit ''url'') of JStr s \<Rightarrow> s \<noteq> [] | _ \<Rightarrow> False)"

definition webWaitsOnly :: "node \<Rightarrow> bool" where
  "webWaitsOnly n \<longleftrightarrow> config_get n (lit ''waitForCallback'') = JBool True \<and> \<not> webHasUrl n"

definition webCallbackTimeoutSeconds :: "node \<Rightarrow> jnum" where
  "webCallbackTimeoutSeconds n =
     (case config_get n (lit ''callbackTimeoutSeconds'') of JNum k \<Rightarrow> k | _ \<Rightarrow> Fin 600)"

definition WEB_MAX_CALLBACK_TIMEOUT_SECONDS :: int where
  "WEB_MAX_CALLBACK_TIMEOUT_SECONDS = 7 * 24 * 60 * 60"

definition WEB_NO_REQUEST_OUTPUTS :: jobj where
  "WEB_NO_REQUEST_OUTPUTS =
     [(lit ''status'', JNull), (lit ''headers'', JNull), (lit ''body'', JNull), (lit ''bytes'', JNull),
      (lit ''durationMs'', JNull), (lit ''truncated'', JNull)]"

definition callbackWaitCommand :: "jstr \<Rightarrow> callback_state \<Rightarrow> command" where
  "callbackWaitCommand i cb =
     ScheduleExternalWait i (cb_attemptId cb) (jnum_of_nat (cb_timeoutSeconds cb)) None"

section \<open>The command that starts a node\<close>

definition attempt_id :: "jstr \<Rightarrow> nat \<Rightarrow> jstr" where
  "attempt_id sid k = sid @ lit ''#'' @ nat_digits k"

text \<open>A node of an activity that the reducer evaluates itself.\<close>

definition control_command ::
  "host \<Rightarrow> doc \<Rightarrow> run_state \<Rightarrow> node \<Rightarrow> jstr \<Rightarrow> jstr \<Rightarrow> command prep option" where
  "control_command h d st n sid attemptId =
     (let es = scopedEvalState d st sid;
          item = foreachItemOf d st sid;
          recorded = withUserProperties h d st n sid
      in case controlBranchEvent (n_type n) of
           Some ev \<Rightarrow>
             Some (bindR (evalControlBranch h n es item) (\<lambda>br.
               Inr (recorded (EvaluateControl sid attemptId br ev None))))
         | None \<Rightarrow>
             if isVariableWriterType (n_type n)
             then Some (bindR (variableWriteCommand h d st n sid attemptId) (\<lambda>c. Inr (recorded c)))
             else if n_type n = lit ''fail''
             then Some (bindR (evalFailMessage h n es item) (\<lambda>msg.
                    Inr (recorded (FailNode sid attemptId (FailText msg) None))))
             else if n_type n = lit ''filter''
             then Some (bindR (evalFilter h n es item) (\<lambda>outs.
                    Inr (recorded (SucceedControl sid attemptId outs None))))
             else if n_type n = lit ''wait''
             then Some (bindR (evalWaitSeconds h n es item) (\<lambda>s.
                    Inr (recorded (ScheduleWait sid attemptId s None))))
             else if n_type n = lit ''webhook''
             then Some (bindR (evalWebhookTimeoutSeconds h n es item) (\<lambda>s.
                    Inr (recorded (ScheduleExternalWait sid attemptId s None))))
             else None)"

definition call_command ::
  "host \<Rightarrow> doc \<Rightarrow> run_state \<Rightarrow> node \<Rightarrow> call_config \<Rightarrow> jstr \<Rightarrow> jstr \<Rightarrow> command prep" where
  "call_command h d st n call sid attemptId =
     (let es = scopedEvalState d st sid; item = foreachItemOf d st sid
      in bindR (subst_text h es item (cc_pipelineVersionId call)) (\<lambda>pv.
           bindR (subst h es item (JObj (cc_params call))) (\<lambda>ps.
             Inr (withUserProperties h d st n sid
               (StartChild sid attemptId (deterministicChildRunId (rs_runId st) sid attemptId)
                  pv ps (\<not> callDetaches call) None)))))"

definition web_callback :: "node \<Rightarrow> jstr \<Rightarrow> callback_state prep" where
  "web_callback n attemptId =
     (let t = webCallbackTimeoutSeconds n
      in if is_integer t \<and> 1 \<le> int_of_jnum t \<and> int_of_jnum t \<le> WEB_MAX_CALLBACK_TIMEOUT_SECONDS
         then Inr \<lparr>cb_attemptId = attemptId, cb_request = WEB_NO_REQUEST_OUTPUTS,
                   cb_timeoutSeconds = nat (int_of_jnum t)\<rparr>
         else Inl BadCallbackTimeout)"

text \<open>How a node starts: its command, its new status, and the callback it holds.\<close>

definition start_of ::
  "host \<Rightarrow> doc \<Rightarrow> run_state \<Rightarrow> node \<Rightarrow> jstr \<Rightarrow> jstr
     \<Rightarrow> (command \<times> node_status \<times> callback_state option) prep" where
  "start_of h d st n sid attemptId =
     (if n_inactive n then Inr (inactivateCommand n sid attemptId, Ready, None)
      else case control_command h d st n sid attemptId of
             Some r \<Rightarrow> bindR r (\<lambda>c. Inr (c, Ready, None))
           | None \<Rightarrow>
               if n_type n = lit ''web'' \<and> webWaitsOnly n
               then bindR (web_callback n attemptId) (\<lambda>cb.
                      Inr (withUserProperties h d st n sid (callbackWaitCommand sid cb), Ready, Some cb))
               else case n_call n of
                      Some call \<Rightarrow>
                        bindR (call_command h d st n call sid attemptId) (\<lambda>c. Inr (c, Waiting, None))
                    | None \<Rightarrow>
                        bindR (prepDispatch h d st n sid) (\<lambda>p. Inr (DispatchNode sid attemptId p, Ready, None)))"

section \<open>Dispatch or skip\<close>

definition dead_branch_edge :: "doc \<Rightarrow> run_state \<Rightarrow> item_scope \<Rightarrow> edge \<Rightarrow> bool" where
  "dead_branch_edge d st sc e \<longleftrightarrow>
     is_branch_edge e
     \<and> \<not> (case map_of (rs_nodes st) (ikey d sc (e_from e)) of
             None \<Rightarrow> False | Some ns \<Rightarrow> ns_inactive ns = Some True)
     \<and> (endpointOutcome d st sc (e_from e) = Some Success \<or> endpointOutcome d st sc (e_from e) = Some Failure)
     \<and> map_of (rs_branches st) (ikey d sc (e_from e)) = None"

definition noteDeadBranchOnSkip :: "doc \<Rightarrow> jstr \<Rightarrow> edge list \<Rightarrow> run_state \<Rightarrow> item_scope \<Rightarrow> diagnostic list" where
  "noteDeadBranchOnSkip d i incoming st sc =
     (let dead = length (filter (dead_branch_edge d st sc) incoming)
      in if dead = 0 then [] else [DeadBranch i dead])"

definition skip_node :: "run_state \<Rightarrow> jstr \<Rightarrow> skip_reason option \<Rightarrow> run_state" where
  "skip_node st sid r =
     withNode st sid (\<lambda>ns. ns\<lparr>ns_status := Skipped,
       ns_skipReason := (case r of Some x \<Rightarrow> Some x | None \<Rightarrow> ns_skipReason ns)\<rparr>)"

definition start_node ::
  "run_state \<Rightarrow> jstr \<Rightarrow> jstr \<Rightarrow> node_status \<Rightarrow> callback_state option \<Rightarrow> run_state" where
  "start_node st sid attemptId s cb =
     withNode st sid (\<lambda>ns. ns\<lparr>ns_status := s, ns_attempts := ns_attempts ns + 1,
       ns_currentAttemptId := Some attemptId,
       ns_callback := (case cb of Some x \<Rightarrow> Some x | None \<Rightarrow> ns_callback ns)\<rparr>)"

definition tryDispatchNode ::
  "host \<Rightarrow> doc \<Rightarrow> run_state \<Rightarrow> jstr \<Rightarrow> edge list \<Rightarrow> item_scope \<Rightarrow> walk_step" where
  "tryDispatchNode h d st i incoming sc =
     (let sid = ikey d sc i
      in case (map_of (rs_nodes st) sid, node_by_id d i) of
           (Some ns, Some n) \<Rightarrow>
             if ns_status ns \<noteq> Pending then stay st
             else (case computeReadiness d st sc incoming (nodeJoin n) of
                     MustSkip \<Rightarrow>
                       moved (skip_node st sid (explainSkip d st sc incoming)) []
                         (noteDeadBranchOnSkip d i incoming st sc)
                   | MustWait \<Rightarrow> stay st
                   | MayStart \<Rightarrow>
                       if rs_cancelRequested st \<noteq> None then stay st
                       else let attemptId = attempt_id sid (ns_attempts ns)
                            in case start_of h d st n sid attemptId of
                                 Inl e \<Rightarrow> prepFailure st sid e
                               | Inr (c, s, cb) \<Rightarrow> moved (start_node st sid attemptId s cb) [c] [])
         | _ \<Rightarrow> stay st)"

end
