(* ===== verification/Containers.thy ===== *)
theory Containers
  imports Dispatch
begin

text \<open>
  What a settle does besides dispatching (\<open>engine/reduce.ts\<close>): back-edges bounce, containers
  end, start another round or enter, and the items of a parallel foreach start and complete.
\<close>

section \<open>Resets\<close>

definition reset_node :: "node_run_state \<Rightarrow> node_run_state" where
  "reset_node ns = ns\<lparr>ns_status := Pending, ns_currentAttemptId := None, ns_retries := 0,
     ns_skipReason := None, ns_inactive := None, ns_recheck := None, ns_callback := None\<rparr>"

definition noteResetSkip :: "jstr \<Rightarrow> node_run_state option \<Rightarrow> skip_reason table \<Rightarrow> skip_reason table" where
  "noteResetSkip i ns cleared =
     (case ns of
        None \<Rightarrow> cleared
      | Some n \<Rightarrow>
          if ns_status n = Skipped
          then (case ns_skipReason n of Some r \<Rightarrow> map_set i r cleared | None \<Rightarrow> cleared)
          else cleared)"

definition reset_one :: "run_state \<times> skip_reason table \<Rightarrow> jstr \<Rightarrow> run_state \<times> skip_reason table" where
  "reset_one = (\<lambda>(st, cleared) i.
     case map_of (rs_nodes st) i of
       None \<Rightarrow> (st, cleared)
     | Some ns \<Rightarrow>
         (st\<lparr>rs_nodes := map_set i (reset_node ns) (rs_nodes st), rs_outputs := delete_at i (rs_outputs st)\<rparr>,
          noteResetSkip i (Some ns) cleared))"

definition resetNodes :: "run_state \<Rightarrow> jstr list \<Rightarrow> run_state \<times> skip_reason table" where
  "resetNodes st ids = foldl reset_one (st, []) ids"

definition node_terminal :: "run_state \<Rightarrow> jstr \<Rightarrow> bool" where
  "node_terminal st i \<longleftrightarrow>
     (case map_of (rs_nodes st) i of None \<Rightarrow> False | Some ns \<Rightarrow> TERMINAL_NODE (ns_status ns))"

section \<open>Back-edges\<close>

definition DEFENSIVE_BOUNCE_CAP :: nat where "DEFENSIVE_BOUNCE_CAP = 10000"

definition bounce_count :: "run_state \<Rightarrow> jstr \<Rightarrow> nat" where
  "bounce_count st key = (case map_of (rs_bounces st) key of Some k \<Rightarrow> k | None \<Rightarrow> 0)"

definition bounce_cap :: "edge \<Rightarrow> nat" where
  "bounce_cap be =
     min (case e_maxBounces be of Some m \<Rightarrow> m | None \<Rightarrow> DEFENSIVE_BOUNCE_CAP) DEFENSIVE_BOUNCE_CAP"

definition clamp_note :: "edge \<Rightarrow> nat \<Rightarrow> diagnostic list" where
  "clamp_note be k =
     (case e_maxBounces be of
        Some m \<Rightarrow> if DEFENSIVE_BOUNCE_CAP < m \<and> k = 1 then [BouncesClamped be] else []
      | None \<Rightarrow> [])"

text \<open>A back-edge that is taken and whose whole body has settled.\<close>

definition bounces_now :: "doc \<Rightarrow> run_state \<Rightarrow> edge \<Rightarrow> bool" where
  "bounces_now d st be \<longleftrightarrow>
     edgeState d st None be = Satisfied \<and>
     list_all (node_terminal st) (entries (backBodyByKey d) (stableEdgeKey be))"

text \<open>The flag says that a cancellation kept a bounce from being taken.\<close>

fun fire_each :: "doc \<Rightarrow> run_state \<Rightarrow> bool \<Rightarrow> diagnostic list \<Rightarrow> edge list \<Rightarrow> walk_step \<times> bool" where
  "fire_each d st suppressed ds [] = ((stay st)\<lparr>sp_diagnostics := ds\<rparr>, suppressed)"
| "fire_each d st suppressed ds (be # bes) =
     (if \<not> bounces_now d st be then fire_each d st suppressed ds bes
      else let key = stableEdgeKey be;
               k = bounce_count st key + 1;
               withBounce = st\<lparr>rs_bounces := map_set key k (rs_bounces st)\<rparr>;
               ds' = ds @ clamp_note be k
           in if bounce_cap be < k
              then (finishing withBounce (FinishRun OutFailure (Some Capped)) ds', suppressed)
              else if rs_cancelRequested st \<noteq> None then fire_each d st True ds' bes
              else let r = resetNodes withBounce (entries (backBodyByKey d) key)
                   in ((moved (fst r) [] ds')\<lparr>sp_cleared := snd r\<rparr>, False))"

definition fireBackEdges :: "doc \<Rightarrow> run_state \<Rightarrow> walk_step \<times> bool" where
  "fireBackEdges d st = fire_each d st False [] (sort_key stableEdgeKey (p_backEdges (part d)))"

section \<open>Outputs and exits of a container\<close>

definition merge_outputs :: "jobj \<Rightarrow> jobj \<Rightarrow> jobj" where
  "merge_outputs out co = foldl assign_key out (sort_key fst co)"

definition mergeChildOutputs :: "container \<Rightarrow> run_state \<Rightarrow> (jstr \<Rightarrow> jstr) \<Rightarrow> jobj" where
  "mergeChildOutputs c st keyOf =
     foldl (\<lambda>out ch. case map_of (rs_outputs st) (keyOf ch) of
              None \<Rightarrow> out | Some co \<Rightarrow> merge_outputs out co) [] (sort (c_children c))"

definition projectContainerOutputs :: "container \<Rightarrow> run_state \<Rightarrow> jobj" where
  "projectContainerOutputs c st =
     (if c_kind c = Foreach
      then [(lit ''results'', JArr (case map_of (rs_containers st) (c_id c) of
               None \<Rightarrow> [] | Some cs \<Rightarrow> (case cs_results cs of Some rs \<Rightarrow> rs | None \<Rightarrow> [])))]
      else mergeChildOutputs c st id)"

definition exitContainer ::
  "run_state \<Rightarrow> container \<Rightarrow> container_status \<Rightarrow> jstr option \<Rightarrow> run_state" where
  "exitContainer st c oc reason =
     (let outputs = projectContainerOutputs c st
      in with_outputs
           (withContainer st (c_id c) (\<lambda>cs. cs\<lparr>cs_status := oc, cs_outputs := outputs,
              cs_reason := (case reason of Some r \<Rightarrow> Some r | None \<Rightarrow> cs_reason cs)\<rparr>))
           (c_id c) outputs)"

text \<open>The live children of a loop that timed out are skipped.\<close>

definition abandon :: "jstr \<Rightarrow> node_run_state \<Rightarrow> node_run_state" where
  "abandon containerId ns =
     (if TERMINAL_NODE (ns_status ns) then ns
      else ns\<lparr>ns_status := Skipped, ns_currentAttemptId := None, ns_skipReason := Some (TimedOut containerId)\<rparr>)"

definition abandonLiveChildren :: "run_state \<Rightarrow> jstr \<Rightarrow> jstr list \<Rightarrow> run_state" where
  "abandonLiveChildren st containerId ids = foldl (\<lambda>s i. withNode s i (abandon containerId)) st ids"

definition resetContainerRound :: "run_state \<Rightarrow> container \<Rightarrow> run_state \<times> skip_reason table" where
  "resetContainerRound st c =
     (let r = resetNodes st (c_children c)
      in (withContainer (fst r) (c_id c) (\<lambda>cs. cs\<lparr>cs_round := cs_round cs + 1\<rparr>), snd r))"

definition enterContainer :: "run_state \<Rightarrow> jstr \<Rightarrow> run_state" where
  "enterContainer st cid = withContainer st cid (\<lambda>cs. cs\<lparr>cs_status := CActive\<rparr>)"

section \<open>Stages, loops and sequential foreach\<close>

definition evalExitWhen :: "host \<Rightarrow> container \<Rightarrow> run_state \<Rightarrow> bool prep" where
  "evalExitWhen h c st =
     (case c_exitWhen c of
        None \<Rightarrow> Inr False
      | Some raw \<Rightarrow>
          bindR (whole_value h st None raw (lit ''exitWhen'')) (\<lambda>out.
            case out of JBool b \<Rightarrow> Inr b | _ \<Rightarrow> Inl NotBoolean))"

definition exit_step :: "run_state \<Rightarrow> container \<Rightarrow> container_status \<Rightarrow> jstr option \<Rightarrow> diagnostic list \<Rightarrow> walk_step" where
  "exit_step st c oc reason ds = moved (exitContainer st c oc reason) [] ds"

definition round_step :: "run_state \<Rightarrow> container \<Rightarrow> walk_step" where
  "round_step st c =
     (let r = resetContainerRound st c in (moved (fst r) [] [])\<lparr>sp_cleared := snd r\<rparr>)"

text \<open>An active sequential foreach whose children have settled, without a failure.\<close>

definition foreach_round :: "run_state \<Rightarrow> container \<Rightarrow> container_run_state \<Rightarrow> walk_step option" where
  "foreach_round st c cs =
     (let items = (case cs_items cs of Some xs \<Rightarrow> xs | None \<Rightarrow> []);
          results = (case cs_results cs of Some xs \<Rightarrow> xs | None \<Rightarrow> []) @ [JObj (mergeChildOutputs c st id)];
          withResults = withContainer st (c_id c) (\<lambda>x. x\<lparr>cs_results := Some results\<rparr>)
      in if cs_round cs + 1 < length items
         then (if rs_cancelRequested st \<noteq> None then None else Some (round_step withResults c))
         else Some (exit_step withResults c CSuccess None []))"

text \<open>An active loop whose children have settled, without a failure.\<close>

definition loop_round :: "host \<Rightarrow> run_state \<Rightarrow> container \<Rightarrow> container_run_state \<Rightarrow> walk_step option" where
  "loop_round h st c cs =
     (case evalExitWhen h c st of
        Inl e \<Rightarrow> Some (exit_step st c CFailure (Some (lit ''exitWhen_error'')) [ExitWhenFailed (c_id c) e])
      | Inr True \<Rightarrow> Some (exit_step st c CSuccess None [])
      | Inr False \<Rightarrow>
          if c_children c = []
          then Some (exit_step st c CFailure (Some (lit ''no_progress'')) [NoProgressLoop (c_id c)])
          else if c_exitWhen c = None \<and> c_maxRounds c = None
          then Some (exit_step st c CFailure (Some (lit ''no_exit_condition'')) [NoExitCondition (c_id c)])
          else if (case c_maxRounds c of None \<Rightarrow> False | Some m \<Rightarrow> m \<le> cs_round cs + 1)
          then Some (exit_step st c CFailure (Some (lit ''capped'')) [MaxRoundsReached (c_id c)])
          else if rs_cancelRequested st \<noteq> None then None
          else Some (round_step st c))"

text \<open>One container: \<open>None\<close> when there is nothing to do for it.\<close>

definition step_container :: "host \<Rightarrow> doc \<Rightarrow> run_state \<Rightarrow> container \<Rightarrow> walk_step option" where
  "step_container h d st c =
     (if isParallelForeach c then None
      else case map_of (rs_containers st) (c_id c) of
             None \<Rightarrow> None
           | Some cs \<Rightarrow>
               if cs_status cs \<noteq> CActive \<or> \<not> list_all (node_terminal st) (c_children c) then None
               else case containerOutcomeFailure d st None c of
                      Some blamed \<Rightarrow>
                        Some (exit_step st c CFailure (Some (lit ''child_failed:'' @ blamed))
                                [ContainerChildFailed (c_id c) blamed])
                    | None \<Rightarrow>
                        (case c_kind c of
                           Stage \<Rightarrow> Some (exit_step st c CSuccess None [])
                         | Foreach \<Rightarrow> foreach_round st c cs
                         | Loop \<Rightarrow> loop_round h st c cs))"

fun first_step :: "('a \<Rightarrow> walk_step option) \<Rightarrow> run_state \<Rightarrow> 'a list \<Rightarrow> walk_step" where
  "first_step f st [] = stay st"
| "first_step f st (x # xs) = (case f x of Some s \<Rightarrow> s | None \<Rightarrow> first_step f st xs)"

text \<open>The containers in the order of their sorted ids.\<close>

definition sorted_containers :: "doc \<Rightarrow> container list" where
  "sorted_containers d =
     List.map_filter (container_by_id d) (sort (map c_id (bound_containers d)))"

definition stepContainers :: "host \<Rightarrow> doc \<Rightarrow> run_state \<Rightarrow> walk_step" where
  "stepContainers h d st = first_step (step_container h d st) st (sorted_containers d)"

section \<open>Entering a foreach\<close>

definition evalForeachItems :: "host \<Rightarrow> container \<Rightarrow> run_state \<Rightarrow> jval list prep" where
  "evalForeachItems h c st =
     bindR (whole_value h st None (case c_items c of Some s \<Rightarrow> s | None \<Rightarrow> []) (lit ''items'')) (\<lambda>out.
       case out of JArr xs \<Rightarrow> Inr xs | _ \<Rightarrow> Inl NotAnArray)"

definition touches_body :: "doc \<Rightarrow> container \<Rightarrow> edge \<Rightarrow> bool" where
  "touches_body d c be \<longleftrightarrow>
     e_from be \<in> set (c_children c) \<or> e_to be \<in> set (c_children c) \<or> e_to be = c_id c
     \<or> list_ex (\<lambda>i. i \<in> set (c_children c)) (entries (backBodyByKey d) (stableEdgeKey be))"

definition enterForeachStep :: "host \<Rightarrow> doc \<Rightarrow> run_state \<Rightarrow> container \<Rightarrow> walk_step" where
  "enterForeachStep h d st c =
     (case evalForeachItems h c st of
        Inl e \<Rightarrow> finishing st invalid_event [ItemsFailed (c_id c) e]
      | Inr items \<Rightarrow>
          if items = []
          then exit_step (withContainer st (c_id c) (\<lambda>cs. cs\<lparr>cs_items := Some [], cs_results := Some []\<rparr>))
                 c CSuccess None []
          else if isParallelForeach c
          then (case find (\<lambda>i. 64 \<in> set i) (map n_id (d_nodes d) @ map c_id (bound_containers d)) of
                  Some atId \<Rightarrow> finishing st invalid_event [ReservedAt (c_id c) atId]
                | None \<Rightarrow>
                    (case find (touches_body d c) (p_backEdges (part d)) of
                       Some be \<Rightarrow> finishing st invalid_event [BackEdgeTouchesBody (c_id c) be]
                     | None \<Rightarrow>
                         moved (withContainer st (c_id c) (\<lambda>cs. cs\<lparr>cs_status := CActive, cs_items := Some items,
                           cs_results := Some (map (\<lambda>_. JNull) items), cs_nextItem := Some 0\<rparr>)) [] []))
          else moved (withContainer st (c_id c) (\<lambda>cs. cs\<lparr>cs_status := CActive, cs_items := Some items,
                 cs_results := Some []\<rparr>)) [] [])"

section \<open>Parallel foreach\<close>

definition instanceKeysOf :: "doc \<Rightarrow> run_state \<Rightarrow> container \<Rightarrow> jstr list" where
  "instanceKeysOf d st c =
     sort (filter (\<lambda>k. case scopeOfStateId d k of None \<Rightarrow> False | Some (c', _) \<Rightarrow> c_id c' = c_id c)
             (map fst (rs_nodes st)))"

definition items_of :: "container_run_state \<Rightarrow> jval list" where
  "items_of cs = (case cs_items cs of Some xs \<Rightarrow> xs | None \<Rightarrow> [])"

definition results_of :: "container_run_state \<Rightarrow> jval list" where
  "results_of cs = (case cs_results cs of Some xs \<Rightarrow> xs | None \<Rightarrow> [])"

definition next_item :: "container_run_state \<Rightarrow> nat" where
  "next_item cs = (case cs_nextItem cs of Some k \<Rightarrow> k | None \<Rightarrow> 0)"

text \<open>An item that has started and not completed.\<close>

definition in_flight :: "container_run_state \<Rightarrow> nat \<Rightarrow> bool" where
  "in_flight cs i \<longleftrightarrow> i < length (results_of cs) \<and> results_of cs ! i = JNull"

text \<open>The state without the instances of an item, and the skips this clears.\<close>

definition drop_instances :: "run_state \<Rightarrow> jstr list \<Rightarrow> run_state" where
  "drop_instances st ks =
     st\<lparr>rs_nodes := foldl (\<lambda>m k. delete_at k m) (rs_nodes st) ks,
        rs_outputs := foldl (\<lambda>m k. delete_at k m) (rs_outputs st) ks,
        rs_branches := foldl (\<lambda>m k. delete_at k m) (rs_branches st) ks\<rparr>"

definition cleared_by :: "run_state \<Rightarrow> jstr list \<Rightarrow> skip_reason table" where
  "cleared_by st ks = foldl (\<lambda>cl k. noteResetSkip k (map_of (rs_nodes st) k) cl) [] ks"

text \<open>What a failed item does to the other instances: held retries fail, waiting work is skipped.\<close>

definition doom_node :: "jstr \<Rightarrow> jstr \<Rightarrow> node_run_state \<Rightarrow> node_run_state" where
  "doom_node cid blame ns =
     (if ns_status ns = RetryPending then heldRetryToFailure ns
      else if TERMINAL_NODE (ns_status ns) \<or> isNodeInFlight (ns_status ns) then ns
      else ns\<lparr>ns_status := Skipped, ns_currentAttemptId := None, ns_skipReason := Some (DoomedBy cid blame)\<rparr>)"

definition flips :: "node_run_state \<Rightarrow> bool" where
  "flips ns \<longleftrightarrow> \<not> TERMINAL_NODE (ns_status ns) \<and> \<not> isNodeInFlight (ns_status ns)"

definition flipped_keys :: "run_state \<Rightarrow> jstr list \<Rightarrow> jstr list" where
  "flipped_keys st ks =
     filter (\<lambda>k. case map_of (rs_nodes st) k of None \<Rightarrow> False | Some ns \<Rightarrow> flips ns) ks"

definition doom_items :: "doc \<Rightarrow> run_state \<Rightarrow> container \<Rightarrow> jstr \<Rightarrow> run_state" where
  "doom_items d st c blame =
     (let ks = instanceKeysOf d st c
      in withContainer (foldl (\<lambda>s k. withNode s k (doom_node (c_id c) blame)) st ks) (c_id c)
           (\<lambda>cs. cs\<lparr>cs_doomed := Some \<lparr>dm_blame = blame, dm_flipped = flipped_keys st ks\<rparr>\<rparr>))"

definition flipped_item :: "container_run_state \<Rightarrow> nat \<Rightarrow> bool" where
  "flipped_item cs i \<longleftrightarrow>
     (case cs_doomed cs of
        None \<Rightarrow> False
      | Some dm \<Rightarrow> list_ex (\<lambda>k. case parseInstanceKey k of None \<Rightarrow> False | Some (_, n) \<Rightarrow> n = jnum_of_nat i)
                     (dm_flipped dm))"

definition complete_item ::
  "doc \<Rightarrow> run_state \<Rightarrow> container \<Rightarrow> container_run_state \<Rightarrow> nat \<Rightarrow> walk_step option" where
  "complete_item d st c cs i =
     (let children = sort (c_children c); ks = map (\<lambda>ch. instanceKey ch i) children
      in if \<not> in_flight cs i \<or> \<not> list_all (node_terminal st) ks then None
         else case containerOutcomeFailure d st (Some (c, i)) c of
                None \<Rightarrow>
                  let rest = drop_instances st ks;
                      next = (if flipped_item cs i then rest
                              else withContainer rest (c_id c) (\<lambda>x. x\<lparr>cs_results :=
                                     Some ((results_of cs)[i := JObj (mergeChildOutputs c st (\<lambda>ch. instanceKey ch i))])\<rparr>))
                  in Some ((moved next [] [])\<lparr>sp_cleared := cleared_by st ks\<rparr>)
              | Some blamed \<Rightarrow>
                  if cs_doomed cs = None
                  then Some (moved (doom_items d st c (instanceKey blamed i)) []
                               [ContainerDraining (c_id c) (instanceKey blamed i)])
                  else None)"

definition end_parallel :: "doc \<Rightarrow> run_state \<Rightarrow> container \<Rightarrow> container_run_state \<Rightarrow> walk_step option" where
  "end_parallel d st c cs =
     (case cs_doomed cs of
        Some dm \<Rightarrow>
          if list_all (node_terminal st) (instanceKeysOf d st c)
          then Some (exit_step st c CFailure (Some (lit ''child_failed:'' @ dm_blame dm)) [])
          else None
      | None \<Rightarrow>
          if next_item cs = length (items_of cs) \<and> list_all (\<lambda>r. r \<noteq> JNull) (results_of cs)
          then Some (exit_step st c CSuccess None []) else None)"

definition step_parallel :: "doc \<Rightarrow> run_state \<Rightarrow> container \<Rightarrow> walk_step option" where
  "step_parallel d st c =
     (if \<not> isParallelForeach c then None
      else case map_of (rs_containers st) (c_id c) of
             None \<Rightarrow> None
           | Some cs \<Rightarrow>
               if cs_status cs \<noteq> CActive then None
               else case List.map_filter (complete_item d st c cs) [0..<next_item cs] of
                      s # _ \<Rightarrow> Some s
                    | [] \<Rightarrow> end_parallel d st c cs)"

definition stepForeachParallel :: "doc \<Rightarrow> run_state \<Rightarrow> walk_step" where
  "stepForeachParallel d st = first_step (step_parallel d st) st (sorted_containers d)"

definition fresh_node :: node_run_state where
  "fresh_node = \<lparr>ns_status = Pending, ns_attempts = 0, ns_currentAttemptId = None, ns_sourceChildRunId = None,
     ns_skipReason = None, ns_inactive = None, ns_recheck = None, ns_callback = None, ns_retries = 0\<rparr>"

text \<open>Items start while there is room in the batch.\<close>

definition startParallelItems :: "run_state \<Rightarrow> container \<Rightarrow> walk_step" where
  "startParallelItems st c =
     (case map_of (rs_containers st) (c_id c) of
        None \<Rightarrow> stay st
      | Some cs \<Rightarrow>
          if cs_status cs \<noteq> CActive \<or> cs_doomed cs \<noteq> None then stay st
          else let batch = (case c_batchCount c of Some b \<Rightarrow> b | None \<Rightarrow> 1);
                   started = next_item cs;
                   running = length (filter (in_flight cs) [0..<started])
               in if batch \<le> running \<or> length (items_of cs) \<le> started then stay st
                  else let upto = min (length (items_of cs)) (started + (batch - running));
                           keys = concat (map (\<lambda>i. map (\<lambda>ch. instanceKey ch i) (c_children c)) [started..<upto])
                       in moved (withContainer
                                   (st\<lparr>rs_nodes := foldl (\<lambda>m k. map_set k fresh_node m) (rs_nodes st) keys\<rparr>)
                                   (c_id c) (\<lambda>x. x\<lparr>cs_nextItem := Some upto\<rparr>)) [] [])"

section \<open>The end of a run\<close>

definition outcomeFinish :: "doc \<Rightarrow> run_state \<Rightarrow> command" where
  "outcomeFinish d st =
     (case runOutcomeFailure d st of
        None \<Rightarrow> FinishRun OutSuccess None
      | Some blamed \<Rightarrow> FinishRun OutFailure (Some (NodeFailed blamed)))"

end
