(* ===== verification/Settle.thy ===== *)
theory Settle
  imports Containers
begin

text \<open>
  \<open>settle\<close> of \<open>engine/reduce.ts\<close>: the walk that re-evaluates readiness until nothing changes any
  more, and what it asks for there. One turn of its loop is \<open>settle_once\<close>; the loop itself may
  not return for an arbitrary state, so it is a partial function, and
  \<open>SettleTermination\<close> proves that it returns.
\<close>

section \<open>The walk\<close>

record walk =
  wk_state :: run_state
  wk_changed :: bool
  wk_commands :: "command list"
  wk_diagnostics :: "diagnostic list"
  wk_cleared :: "skip_reason table"
  wk_prevented :: bool

definition start_walk :: "run_state \<Rightarrow> diagnostic list \<Rightarrow> walk" where
  "start_walk st ds = \<lparr>wk_state = st, wk_changed = False, wk_commands = [], wk_diagnostics = ds,
     wk_cleared = [], wk_prevented = False\<rparr>"

definition merge_cleared :: "skip_reason table \<Rightarrow> skip_reason table \<Rightarrow> skip_reason table" where
  "merge_cleared cl cl' = foldl (\<lambda>m p. map_set (fst p) (snd p) m) cl cl'"

definition end_walk :: "walk \<Rightarrow> run_state \<Rightarrow> command list \<Rightarrow> reduce_result" where
  "end_walk w st cmds = \<lparr>rr_state = st, rr_commands = cmds, rr_diagnostics = wk_diagnostics w,
     rr_resetSkips = wk_cleared w\<rparr>"

text \<open>A step enters the walk, which it may end at once.\<close>

definition take_step :: "walk_step \<Rightarrow> walk \<Rightarrow> walk" where
  "take_step s w = \<lparr>wk_state = sp_state s, wk_changed = wk_changed w \<or> sp_changed s,
     wk_commands = wk_commands w @ sp_commands s, wk_diagnostics = wk_diagnostics w @ sp_diagnostics s,
     wk_cleared = merge_cleared (wk_cleared w) (sp_cleared s), wk_prevented = wk_prevented w\<rparr>"

definition absorb :: "walk_step \<Rightarrow> walk \<Rightarrow> (reduce_result, walk) result" where
  "absorb s w =
     (let w' = take_step s w
      in case sp_finish s of Some c \<Rightarrow> Inl (end_walk w' (sp_state s) [c]) | None \<Rightarrow> Inr w')"

fun sweep :: "('a \<Rightarrow> walk \<Rightarrow> (reduce_result, walk) result) \<Rightarrow> 'a list \<Rightarrow> walk \<Rightarrow> (reduce_result, walk) result" where
  "sweep f [] w = Inr w"
| "sweep f (x # xs) w = bindR (f x w) (sweep f xs)"

section \<open>The entities at the top\<close>

definition INACTIVE_CONTAINER_REASON :: jstr where "INACTIVE_CONTAINER_REASON = lit ''inactive''"

definition inactive_container :: "container \<Rightarrow> container_run_state \<Rightarrow> container_run_state" where
  "inactive_container c cs =
     (let markAs = inactiveMarkAs (c_onInactiveMarkAs c);
          props = inactive_properties (c_userProperties c)
      in cs\<lparr>cs_status := (case markAs of MarkSuccess \<Rightarrow> CSuccess | MarkFailure \<Rightarrow> CFailure | MarkSkipped \<Rightarrow> CSkipped),
            cs_inactive := True,
            cs_reason := (if markAs = MarkFailure then Some INACTIVE_CONTAINER_REASON else cs_reason cs),
            cs_userProperties := (case props of Some ps \<Rightarrow> Some ps | None \<Rightarrow> cs_userProperties cs)\<rparr>)"

definition record_properties :: "run_state \<Rightarrow> jstr \<Rightarrow> recorded_properties \<Rightarrow> run_state" where
  "record_properties st cid props =
     (case props of
        None \<Rightarrow> st
      | Some ps \<Rightarrow> withContainer st cid (\<lambda>cs. cs\<lparr>cs_userProperties := Some ps\<rparr>))"

definition timeout_command :: "container \<Rightarrow> command list" where
  "timeout_command c =
     (case c_timeout c of
        Some s \<Rightarrow> if c_kind c = Loop then [ScheduleContainerTimeout (c_id c) s] else []
      | None \<Rightarrow> [])"

text \<open>A container that is ready starts its work.\<close>

definition enter_step :: "host \<Rightarrow> doc \<Rightarrow> run_state \<Rightarrow> container \<Rightarrow> walk_step" where
  "enter_step h d st c =
     (let props = resolveUserPropertiesIn h st (c_userProperties c) None
      in if c_kind c = Foreach
         then let s = enterForeachStep h d st c
              in if sp_finish s \<noteq> None then s
                 else s\<lparr>sp_state := record_properties (sp_state s) (c_id c) props, sp_changed := True\<rparr>
         else moved (record_properties (enterContainer st (c_id c)) (c_id c) props) (timeout_command c) [])"

definition skip_container :: "run_state \<Rightarrow> jstr \<Rightarrow> skip_reason option \<Rightarrow> run_state" where
  "skip_container st cid r =
     withContainer st cid (\<lambda>cs. cs\<lparr>cs_status := CSkipped,
       cs_skipReason := (case r of Some x \<Rightarrow> Some x | None \<Rightarrow> cs_skipReason cs)\<rparr>)"

definition container_step :: "host \<Rightarrow> doc \<Rightarrow> run_state \<Rightarrow> container \<Rightarrow> walk_step" where
  "container_step h d st c =
     (let incoming = entries (topIncoming d) (c_id c)
      in case map_of (rs_containers st) (c_id c) of
           None \<Rightarrow> stay st
         | Some cs \<Rightarrow>
             if cs_status cs \<noteq> CPending then stay st
             else (case computeReadiness d st None incoming (containerJoin c) of
                     MustSkip \<Rightarrow>
                       moved (skip_container st (c_id c) (explainSkip d st None incoming)) []
                         (noteDeadBranchOnSkip d (c_id c) incoming st None)
                   | MustWait \<Rightarrow> stay st
                   | MayStart \<Rightarrow>
                       if rs_cancelRequested st \<noteq> None then stay st
                       else if c_inactive c then moved (withContainer st (c_id c) (inactive_container c)) [] []
                       else enter_step h d st c))"

definition top_step :: "host \<Rightarrow> doc \<Rightarrow> run_state \<Rightarrow> jstr \<Rightarrow> walk_step" where
  "top_step h d st i =
     (case container_by_id d i of
        Some c \<Rightarrow> container_step h d st c
      | None \<Rightarrow> tryDispatchNode h d st i (entries (topIncoming d) i) None)"

definition sweep_top :: "host \<Rightarrow> doc \<Rightarrow> walk \<Rightarrow> (reduce_result, walk) result" where
  "sweep_top h d = sweep (\<lambda>i w. absorb (top_step h d (wk_state w) i) w) (sortedTopEntities d)"

section \<open>The children of the active containers\<close>

definition child_step :: "host \<Rightarrow> doc \<Rightarrow> item_scope \<Rightarrow> jstr \<Rightarrow> walk \<Rightarrow> (reduce_result, walk) result" where
  "child_step h d sc ch w =
     absorb (tryDispatchNode h d (wk_state w) ch (entries (childIncoming d) ch) sc) w"

definition item_children :: "container \<Rightarrow> container_run_state \<Rightarrow> (nat \<times> jstr) list" where
  "item_children c cs =
     concat (map (\<lambda>i. map (Pair i) (sort (c_children c))) (filter (in_flight cs) [0..<next_item cs]))"

definition sweep_items :: "host \<Rightarrow> doc \<Rightarrow> container \<Rightarrow> walk \<Rightarrow> (reduce_result, walk) result" where
  "sweep_items h d c w =
     (let w' = (if rs_cancelRequested (wk_state w) = None
                then take_step (startParallelItems (wk_state w) c) w else w)
      in case map_of (rs_containers (wk_state w')) (c_id c) of
           None \<Rightarrow> Inr w'
         | Some cs \<Rightarrow>
             if cs_doomed cs \<noteq> None then Inr w'
             else sweep (\<lambda>p. child_step h d (Some (c, fst p)) (snd p)) (item_children c cs) w')"

definition sweep_container :: "host \<Rightarrow> doc \<Rightarrow> container \<Rightarrow> walk \<Rightarrow> (reduce_result, walk) result" where
  "sweep_container h d c w =
     (case map_of (rs_containers (wk_state w)) (c_id c) of
        None \<Rightarrow> Inr w
      | Some cs \<Rightarrow>
          if cs_status cs \<noteq> CActive then Inr w
          else if isParallelForeach c then sweep_items h d c w
          else sweep (child_step h d None) (sort (c_children c)) w)"

definition sweep_children :: "host \<Rightarrow> doc \<Rightarrow> walk \<Rightarrow> (reduce_result, walk) result" where
  "sweep_children h d = sweep (sweep_container h d) (sorted_containers d)"

section \<open>What the walk asks for once nothing changes\<close>

definition some_node :: "(node_status \<Rightarrow> bool) \<Rightarrow> run_state \<Rightarrow> bool" where
  "some_node P st \<longleftrightarrow> list_ex (\<lambda>p. P (ns_status (snd p))) (rs_nodes st)"

definition live_ids :: "run_state \<Rightarrow> jstr list \<Rightarrow> jstr list" where
  "live_ids st ids = filter (\<lambda>i. \<not> node_terminal st i) ids"

definition stuck_children :: "doc \<Rightarrow> run_state \<Rightarrow> container \<Rightarrow> jstr list" where
  "stuck_children d st c =
     (case map_of (rs_containers st) (c_id c) of
        None \<Rightarrow> []
      | Some cs \<Rightarrow>
          if cs_status cs \<noteq> CActive then []
          else live_ids st (if isParallelForeach c then instanceKeysOf d st c else sort (c_children c)))"

definition stalledEntities :: "doc \<Rightarrow> run_state \<Rightarrow> jstr list" where
  "stalledEntities d st =
     js_set (filter (\<lambda>i. endpointOutcome d st None i = None) (sortedTopEntities d)
             @ concat (map (stuck_children d st) (sorted_containers d)))"

text \<open>The end of the walk of a run that is cancelled, and of one that is not.\<close>

definition cancelled_ending :: "doc \<Rightarrow> walk \<Rightarrow> cancel_request \<Rightarrow> command list" where
  "cancelled_ending d w cr =
     (let st = wk_state w
      in if some_node isNodeInFlight st then []
         else if cr_stoppedWork cr \<or> wk_prevented w \<or> \<not> allTopLevelTerminal d st
         then [cancelFinish (cr_source cr)] else [outcomeFinish d st])"

definition stalls :: "doc \<Rightarrow> run_state \<Rightarrow> bool" where
  "stalls d st \<longleftrightarrow> \<not> allTopLevelTerminal d st \<and> \<not> some_node awaitsExternalEvent st"

definition ending :: "doc \<Rightarrow> run_state \<Rightarrow> command list" where
  "ending d st =
     (if allTopLevelTerminal d st then [outcomeFinish d st]
      else if \<not> some_node awaitsExternalEvent st then [FinishRun OutFailure (Some Stalled)]
      else if rs_status st = RunRunning \<and> \<not> some_node isNodeInFlight st
      then [ParkRun (parkReason st)] else [])"

definition fixpoint :: "doc \<Rightarrow> walk \<Rightarrow> reduce_result" where
  "fixpoint d w =
     (let st = wk_state w
      in case rs_cancelRequested st of
           Some cr \<Rightarrow> end_walk w st (wk_commands w @ cancelled_ending d w cr)
         | None \<Rightarrow>
             end_walk (w\<lparr>wk_diagnostics := wk_diagnostics w
                           @ (if stalls d st then [RunStalled (stalledEntities d st)] else [])\<rparr>)
               st (wk_commands w @ ending d st))"

section \<open>One turn and the loop\<close>

text \<open>Under a cancellation that stopped work, a bounce past its cap ends the run as cancelled.\<close>

definition fire_step :: "doc \<Rightarrow> walk \<Rightarrow> (reduce_result, walk) result" where
  "fire_step d w =
     (let (s, suppressed) = fireBackEdges d (wk_state w);
          prevented = wk_prevented w \<or> suppressed;
          s' = (case (sp_finish s, rs_cancelRequested (wk_state w)) of
                  (Some _, Some cr) \<Rightarrow>
                    if cr_stoppedWork cr \<or> prevented
                    then s\<lparr>sp_finish := Some (cancelFinish (cr_source cr))\<rparr> else s
                | _ \<Rightarrow> s)
      in absorb s' (w\<lparr>wk_prevented := prevented\<rparr>))"

datatype turn = Returns reduce_result | Turns walk

text \<open>The next phase runs only when the one before has changed nothing.\<close>

fun phases :: "(walk \<Rightarrow> (reduce_result, walk) result) list \<Rightarrow> walk \<Rightarrow> (reduce_result, walk) result" where
  "phases [] w = Inr w"
| "phases (f # fs) w = bindR (f w) (\<lambda>w'. if wk_changed w' then Inr w' else phases fs w')"

definition settle_phases :: "host \<Rightarrow> doc \<Rightarrow> (walk \<Rightarrow> (reduce_result, walk) result) list" where
  "settle_phases h d =
     [fire_step d,
      \<lambda>w. absorb (stepContainers h d (wk_state w)) w,
      \<lambda>w. absorb (stepForeachParallel d (wk_state w)) w,
      \<lambda>w. bindR (sweep_top h d w) (sweep_children h d)]"

definition settle_once :: "host \<Rightarrow> doc \<Rightarrow> walk \<Rightarrow> turn" where
  "settle_once h d w =
     (case phases (settle_phases h d) (w\<lparr>wk_changed := False\<rparr>) of
        Inl r \<Rightarrow> Returns r
      | Inr w' \<Rightarrow> if wk_changed w' then Turns w' else Returns (fixpoint d w'))"

partial_function (option) settle_walk :: "host \<Rightarrow> doc \<Rightarrow> walk \<Rightarrow> reduce_result option" where
  "settle_walk h d w =
     (case settle_once h d w of Returns r \<Rightarrow> Some r | Turns w' \<Rightarrow> settle_walk h d w')"

definition settle :: "host \<Rightarrow> doc \<Rightarrow> run_state \<Rightarrow> diagnostic list \<Rightarrow> reduce_result option" where
  "settle h d st ds = settle_walk h d (start_walk st ds)"

end
