(* ===== verification/Outputs.thy ===== *)
theory Outputs
  imports Control
begin

text \<open>
  The declared outputs of a node (\<open>engine/outputs.ts\<close>), with the schema that reads them
  (\<open>schemas/pipeline.ts\<close>), what a child run hands back to its parent
  (\<open>engine/child-outputs.ts\<close>), and the redaction of a secure node's events
  (\<open>engine/secure.ts\<close>), for the fields that the model's events keep.
\<close>

section \<open>The contract\<close>

datatype output_type = OutString | OutNumber | OutBoolean | OutJson

record declared_output =
  do_name :: jstr
  do_type :: output_type
  do_optional :: bool

datatype output_contract = NoContract | CorruptContract | Declared "declared_output list"

definition output_type_of :: "jval \<Rightarrow> output_type option" where
  "output_type_of v =
     (case v of
        JStr s \<Rightarrow>
          if s = lit ''string'' then Some OutString else if s = lit ''number'' then Some OutNumber
          else if s = lit ''boolean'' then Some OutBoolean else if s = lit ''json'' then Some OutJson
          else None
      | _ \<Rightarrow> None)"

text \<open>A name that a reference can address: one identifier segment.\<close>

definition isAddressableOutputName :: "jstr \<Rightarrow> bool" where
  "isAddressableOutputName s \<longleftrightarrow> s \<noteq> [] \<and> is_name_start (hd s) \<and> list_all is_name_char s"

definition get_prop :: "jobj \<Rightarrow> jstr \<Rightarrow> jval" where
  "get_prop ps k = (case map_of ps k of Some v \<Rightarrow> v | None \<Rightarrow> JUndef)"

text \<open>\<open>OutputSchema\<close>, with the rule on the name that \<open>NodeOutputsSchema\<close> adds.\<close>

definition parse_output :: "jval \<Rightarrow> declared_output option" where
  "parse_output v =
     (case v of
        JObj ps \<Rightarrow>
          (case (get_prop ps (lit ''name''), output_type_of (get_prop ps (lit ''type''))) of
             (JStr name, Some t) \<Rightarrow>
               if \<not> isAddressableOutputName name
                  \<or> \<not> (case get_prop ps (lit ''description'') of JUndef \<Rightarrow> True | JStr _ \<Rightarrow> True | _ \<Rightarrow> False)
               then None
               else (case get_prop ps (lit ''optional'') of
                       JUndef \<Rightarrow> Some \<lparr>do_name = name, do_type = t, do_optional = False\<rparr>
                     | JBool b \<Rightarrow> Some \<lparr>do_name = name, do_type = t, do_optional = b\<rparr>
                     | _ \<Rightarrow> None)
           | _ \<Rightarrow> None)
      | _ \<Rightarrow> None)"

fun parse_outputs :: "jval list \<Rightarrow> declared_output list option" where
  "parse_outputs [] = Some []"
| "parse_outputs (v # vs) =
     (case (parse_output v, parse_outputs vs) of (Some x, Some xs) \<Rightarrow> Some (x # xs) | _ \<Rightarrow> None)"

definition outputContract :: "node \<Rightarrow> output_contract" where
  "outputContract n =
     (case config_get n (lit ''outputs'') of
        JUndef \<Rightarrow> NoContract
      | JArr vs \<Rightarrow>
          (case parse_outputs vs of
             None \<Rightarrow> CorruptContract
           | Some outs \<Rightarrow> if distinct (map do_name outs) then Declared outs else CorruptContract)
      | _ \<Rightarrow> CorruptContract)"

definition matchesType :: "jval \<Rightarrow> output_type \<Rightarrow> bool" where
  "matchesType v t =
     (case t of
        OutString \<Rightarrow> (case v of JStr _ \<Rightarrow> True | _ \<Rightarrow> False)
      | OutNumber \<Rightarrow> (case v of JNum k \<Rightarrow> is_finite k | _ \<Rightarrow> False)
      | OutBoolean \<Rightarrow> (case v of JBool _ \<Rightarrow> True | _ \<Rightarrow> False)
      | OutJson \<Rightarrow> True)"

definition SECURE_REDACTED :: jstr where "SECURE_REDACTED = lit ''[redacted: secure]''"

definition SECURE_REDACTED_INVALID :: jstr where
  "SECURE_REDACTED_INVALID = lit ''[redacted: secure, invalid]''"

definition isSecureOutputValue :: "jval \<Rightarrow> output_type \<Rightarrow> bool" where
  "isSecureOutputValue v t =
     (if v = JStr SECURE_REDACTED then True
      else if v = JStr SECURE_REDACTED_INVALID then False else matchesType v t)"

section \<open>Storing and validating outputs\<close>

definition storeOutputs :: "output_contract \<Rightarrow> jobj \<Rightarrow> jobj" where
  "storeOutputs ct outs =
     (case ct of
        Declared ds \<Rightarrow>
          map (\<lambda>o1. let v = get_prop outs (do_name o1)
                    in (do_name o1, if do_optional o1 \<and> v = JUndef then JNull else v)) ds
      | _ \<Rightarrow> outs)"

datatype output_error = MissingOutput jstr | MistypedOutput jstr output_type | MalformedOutputs

definition output_error_of :: "bool \<Rightarrow> jobj \<Rightarrow> declared_output \<Rightarrow> output_error option" where
  "output_error_of secure outs o1 =
     (case map_of outs (do_name o1) of
        None \<Rightarrow> if do_optional o1 then None else Some (MissingOutput (do_name o1))
      | Some v \<Rightarrow>
          if do_optional o1 \<and> (v = JNull \<or> v = JUndef) then None
          else if (if secure then isSecureOutputValue v (do_type o1) else matchesType v (do_type o1)) then None
          else Some (MistypedOutput (do_name o1) (do_type o1)))"

text \<open>The errors; the contract is one that outputs can be stored against unless it is corrupt.\<close>

definition validateOutputs :: "bool \<Rightarrow> output_contract \<Rightarrow> jobj \<Rightarrow> output_error list" where
  "validateOutputs secure ct outs =
     (case ct of
        CorruptContract \<Rightarrow> [MalformedOutputs]
      | NoContract \<Rightarrow> []
      | Declared ds \<Rightarrow> List.map_filter (output_error_of secure outs) ds)"

datatype inbound_result = InboundOk jobj | BadContract "output_error list" | BadPayload "output_error list"

definition checkInboundOutputs :: "node \<Rightarrow> jobj \<Rightarrow> inbound_result" where
  "checkInboundOutputs n body =
     (let ct = outputContract n; errs = validateOutputs False ct body
      in if ct = CorruptContract then BadContract errs
         else if errs \<noteq> [] then BadPayload errs
         else if ct = NoContract then InboundOk [] else InboundOk (storeOutputs ct body))"

section \<open>What a child run hands back\<close>

definition PIPELINE_RETURN_VALUE_OUTPUT :: jstr where
  "PIPELINE_RETURN_VALUE_OUTPUT = lit ''pipelineReturnValue''"

definition isReturnValueNode :: "node \<Rightarrow> bool" where
  "isReturnValueNode n \<longleftrightarrow> n_type n = lit ''set_variable'' \<and> variableWriteOp n = Some DoReturn"

definition project_node :: "doc \<Rightarrow> run_state \<Rightarrow> jobj \<Rightarrow> jstr \<Rightarrow> jobj" where
  "project_node d st out i =
     (case map_of (rs_outputs st) i of
        None \<Rightarrow> out
      | Some outs \<Rightarrow>
          foldl assign_key out
            (filter (\<lambda>p. fst p \<noteq> PIPELINE_RETURN_VALUE_OUTPUT
                         \<or> i \<in> n_id ` set (filter isReturnValueNode (d_nodes d)))
               (sort_key fst outs)))"

definition projectChildRunOutputs :: "doc \<Rightarrow> run_state \<Rightarrow> jobj" where
  "projectChildRunOutputs d st = foldl (project_node d st) [] (sort (map n_id (d_nodes d)))"

section \<open>Redaction\<close>

definition policy_flag :: "(node_policy \<Rightarrow> bool option) \<Rightarrow> node \<Rightarrow> bool" where
  "policy_flag f n \<longleftrightarrow> (case n_policy n of None \<Rightarrow> False | Some p \<Rightarrow> f p = Some True)"

definition hasSecureOutput :: "node \<Rightarrow> bool" where
  "hasSecureOutput n \<longleftrightarrow> policy_flag pl_secureOutput n"

definition isSecureNode :: "node \<Rightarrow> bool" where
  "isSecureNode n \<longleftrightarrow> policy_flag pl_secureOutput n \<or> policy_flag pl_secureInput n"

definition declared_of :: "output_contract \<Rightarrow> declared_output list" where
  "declared_of ct = (case ct of Declared ds \<Rightarrow> ds | _ \<Rightarrow> [])"

definition redact_value :: "declared_output list \<Rightarrow> jstr \<Rightarrow> jval \<Rightarrow> jval" where
  "redact_value ds name v =
     (case find (\<lambda>o1. do_name o1 = name) ds of
        None \<Rightarrow> JStr SECURE_REDACTED
      | Some o1 \<Rightarrow>
          if do_optional o1 \<and> (v = JNull \<or> v = JUndef) then v
          else if matchesType v (do_type o1) then JStr SECURE_REDACTED else JStr SECURE_REDACTED_INVALID)"

definition redactOutputs :: "node \<Rightarrow> jobj \<Rightarrow> jobj" where
  "redactOutputs n outs =
     foldl (\<lambda>out p. assign_key out (fst p, redact_value (declared_of (outputContract n)) (fst p) (snd p))) [] outs"

definition SECURE_ERROR_WITHHELD :: jstr where
  "SECURE_ERROR_WITHHELD =
     lit ''error detail withheld: this node is secure (policy.secureInput/secureOutput)''"

definition withheld :: "jstr option \<Rightarrow> jstr option" where
  "withheld = map_option (\<lambda>_. SECURE_ERROR_WITHHELD)"

definition redactSecureFields :: "node \<Rightarrow> node_event \<Rightarrow> node_event" where
  "redactSecureFields n e =
     (let hide = (\<lambda>outs. if hasSecureOutput n then redactOutputs n outs else outs)
      in case e of
           NodeSucceeded outs \<Rightarrow> NodeSucceeded (hide outs)
         | AwaitingCallback outs t \<Rightarrow> AwaitingCallback (hide outs) t
         | ExternalWaitCompleted outs err \<Rightarrow> ExternalWaitCompleted (map_option hide outs) (withheld err)
         | ExternalWaitCreated (Some (callback, err)) \<Rightarrow>
             ExternalWaitCreated (Some (get_prop (hide [(lit ''callback'', callback)]) (lit ''callback''), withheld err))
         | NotReady reason a g \<Rightarrow> NotReady SECURE_ERROR_WITHHELD a g
         | _ \<Rightarrow> e)"

definition redactSecureEvent :: "node option \<Rightarrow> node_event \<Rightarrow> node_event" where
  "redactSecureEvent n e =
     (case n of None \<Rightarrow> e | Some n' \<Rightarrow> if isSecureNode n' then redactSecureFields n' e else e)"

text \<open>The node id an event is about, for those that are redacted: a call, a branch or a variable write is not.\<close>

definition is_redacted_kind :: "node_event \<Rightarrow> bool" where
  "is_redacted_kind e \<longleftrightarrow>
     (case e of
        NodeDispatched \<Rightarrow> True | NodeSucceeded _ \<Rightarrow> True | ExternalWaitCompleted _ _ \<Rightarrow> True
      | ExternalWaitCreated _ \<Rightarrow> True | AwaitingCallback _ _ \<Rightarrow> True | NodeFailedE _ _ \<Rightarrow> True
      | NotReady _ _ _ \<Rightarrow> True | WaitScheduled \<Rightarrow> True | NodeInactive _ \<Rightarrow> True
      | _ \<Rightarrow> False)"

definition redact :: "doc \<Rightarrow> engine_event \<Rightarrow> engine_event" where
  "redact d ev =
     (case ev_body ev of
        NodeEvent i a e \<Rightarrow>
          if is_redacted_kind e then ev\<lparr>ev_body := NodeEvent i a (redactSecureEvent (docNodeFor d i) e)\<rparr> else ev
      | _ \<Rightarrow> ev)"

section \<open>Facts\<close>

lemma get_prop_eq: "map_of ps k = Some v \<Longrightarrow> get_prop ps k = v"
  by (simp add: get_prop_def)

text \<open>A contract that is read declares every name once, and every name is addressable.\<close>

lemma parse_output_name: "parse_output v = Some x \<Longrightarrow> isAddressableOutputName (do_name x)"
  by (auto simp: parse_output_def split: jval.splits option.splits if_splits)

lemma parse_outputs_names: "parse_outputs vs = Some xs \<Longrightarrow> list_all (\<lambda>x. isAddressableOutputName (do_name x)) xs"
  by (induction vs arbitrary: xs) (auto split: option.splits intro: parse_output_name)

lemma declared_contract:
  assumes "outputContract n = Declared ds"
  shows "distinct (map do_name ds)" "list_all (\<lambda>x. isAddressableOutputName (do_name x)) ds"
  using assms by (auto simp: outputContract_def intro: parse_outputs_names split: jval.splits option.splits if_splits)

lemma proto_not_declared:
  assumes "outputContract n = Declared ds" "x \<in> set ds"
  shows "isAddressableOutputName (do_name x)"
  using declared_contract(2)[OF assms(1)] assms(2) by (simp add: list_all_iff)

lemma find_declared:
  "distinct (map do_name ds) \<Longrightarrow> x \<in> set ds \<Longrightarrow> find (\<lambda>y. do_name y = do_name x) ds = Some x"
proof (induction ds)
  case (Cons a ds)
  then show ?case by (cases "a = x") auto
qed simp

end
