(* ===== verification/Handlers.thy ===== *)
theory Handlers
  imports Settle Outputs
begin

text \<open>
  What the reducer (\<open>engine/reduce.ts\<close>) does with each event of a node's attempt and of a
  container's timeout. A result is an option: \<open>None\<close> stands for a walk that does not return,
  or for the exception of a node that the document does not have.
\<close>

section \<open>Results\<close>

type_synonym outcome = "reduce_result option"

definition kept :: "run_state \<Rightarrow> outcome" where
  "kept st = Some (result_of st [] [])"

definition reported :: "run_state \<Rightarrow> diagnostic \<Rightarrow> outcome" where
  "reported st m = Some (result_of st [] [m])"

definition refused :: "run_state \<Rightarrow> diagnostic \<Rightarrow> outcome" where
  "refused st m = Some (result_of st [invalid_event] [m])"

definition asked :: "run_state \<Rightarrow> command \<Rightarrow> outcome" where
  "asked st c = Some (result_of st [c] [])"

definition LIVE_NODE :: "node_status \<Rightarrow> bool" where
  "LIVE_NODE s \<longleftrightarrow> s = Ready \<or> s = Dispatched"

definition is_current :: "node_run_state \<Rightarrow> jstr \<Rightarrow> bool" where
  "is_current ns attemptId \<longleftrightarrow> ns_currentAttemptId ns = Some attemptId"

text \<open>A node that fails and the wait it held.\<close>

definition failed :: "run_state \<Rightarrow> jstr \<Rightarrow> run_state" where
  "failed st i = withoutHeldWait (with_status st i Failure) i"

definition stopped :: "run_state \<Rightarrow> jstr \<Rightarrow> run_state" where
  "stopped st i = markStoppedWork (failed st i)"

definition succeeded :: "run_state \<Rightarrow> jstr \<Rightarrow> jobj \<Rightarrow> run_state" where
  "succeeded st i outs = with_outputs (with_status st i Success) i outs"

section \<open>An attempt that runs\<close>

definition onDispatched :: "run_state \<Rightarrow> jstr \<Rightarrow> jstr \<Rightarrow> outcome" where
  "onDispatched st i a =
     (case map_of (rs_nodes st) i of
        None \<Rightarrow> kept st
      | Some ns \<Rightarrow>
          if ns_currentAttemptId ns = None then reported st (ImpossibleEvent i)
          else if \<not> is_current ns a then kept st
          else if ns_status ns = Ready then kept (with_status st i Dispatched)
          else if ns_status ns = Dispatched then kept st
          else reported st (ImpossibleEvent i))"

definition onSucceeded :: "host \<Rightarrow> doc \<Rightarrow> run_state \<Rightarrow> jstr \<Rightarrow> jstr \<Rightarrow> jobj \<Rightarrow> outcome" where
  "onSucceeded h d st i a outs =
     (case map_of (rs_nodes st) i of
        None \<Rightarrow> kept st
      | Some ns \<Rightarrow>
          if LIVE_NODE (ns_status ns)
          then if \<not> is_current ns a then kept st
               else (case docNodeFor d i of
                       None \<Rightarrow> None
                     | Some n \<Rightarrow>
                         let ct = outputContract n; errs = validateOutputs (hasSecureOutput n) ct outs
                         in if ct = CorruptContract then settle h d (failed st i) [InvalidConfig i]
                            else if errs \<noteq> [] then settle h d (failed st i) [InvalidOutputs i]
                            else settle h d
                                   (with_outputs (withoutHeldWait (with_status st i Success) i) i (storeOutputs ct outs)) [])
          else if ns_status ns = Pending then refused st (ImpossibleEvent i)
          else if \<not> is_current ns a then kept st
          else reported st (DuplicateEvent i))"

definition onControlBranchEvaluated :: "host \<Rightarrow> doc \<Rightarrow> run_state \<Rightarrow> jstr \<Rightarrow> jstr \<Rightarrow> jstr \<Rightarrow> outcome" where
  "onControlBranchEvaluated h d st i a branch =
     (case map_of (rs_nodes st) i of
        None \<Rightarrow> kept st
      | Some ns \<Rightarrow>
          if ns_status ns = Ready
          then if \<not> is_current ns a then kept st
               else settle h d ((with_status st i Success)\<lparr>rs_branches := map_set i branch (rs_branches st)\<rparr>) []
          else if ns_status ns = Pending then refused st (ImpossibleEvent i)
          else if \<not> is_current ns a then kept st
          else reported st (DuplicateEvent i))"

definition writes_as :: "node \<Rightarrow> write_op \<Rightarrow> bool" where
  "writes_as n op \<longleftrightarrow>
     variableWriteOp n = Some (case op of WriteSet \<Rightarrow> DoSet | WriteAppend \<Rightarrow> DoAppend)"

definition onVariableWritten ::
  "host \<Rightarrow> doc \<Rightarrow> run_state \<Rightarrow> jstr \<Rightarrow> jstr \<Rightarrow> write_op \<Rightarrow> jstr \<Rightarrow> jval \<Rightarrow> outcome" where
  "onVariableWritten h d st i a op name v =
     (case map_of (rs_nodes st) i of
        None \<Rightarrow> kept st
      | Some ns \<Rightarrow>
          if ns_status ns = Ready
          then if \<not> is_current ns a then kept st
               else (case docNodeFor d i of
                       None \<Rightarrow> refused st (ImpossibleEvent i)
                     | Some n \<Rightarrow>
                         if \<not> writes_as n op \<or> config_get n (lit ''variable'') \<noteq> JStr name
                         then refused st (ImpossibleEvent i)
                         else case applyVariableWrite d (rs_variables st) op name v of
                                None \<Rightarrow> refused st (ImpossibleEvent i)
                              | Some vars \<Rightarrow> settle h d (with_status (st\<lparr>rs_variables := vars\<rparr>) i Success) [])
          else if ns_status ns = Pending then refused st (ImpossibleEvent i)
          else if \<not> is_current ns a then kept st
          else reported st (DuplicateEvent i))"

definition mark_status :: "inactive_mark \<Rightarrow> node_status" where
  "mark_status m = (case m of MarkSuccess \<Rightarrow> Success | MarkFailure \<Rightarrow> Failure | MarkSkipped \<Rightarrow> Skipped)"

definition onInactive :: "host \<Rightarrow> doc \<Rightarrow> run_state \<Rightarrow> jstr \<Rightarrow> jstr \<Rightarrow> inactive_mark \<Rightarrow> outcome" where
  "onInactive h d st i a m =
     (case map_of (rs_nodes st) i of
        None \<Rightarrow> kept st
      | Some ns \<Rightarrow>
          if ns_status ns = Pending then refused st (ImpossibleEvent i)
          else if ns_status ns \<noteq> Ready \<or> \<not> is_current ns a then kept st
          else settle h d (withNode st i (\<lambda>x. x\<lparr>ns_status := mark_status m, ns_inactive := Some True\<rparr>)) [])"

section \<open>Failures and retries\<close>

definition retryEligible :: "node \<Rightarrow> node_run_state \<Rightarrow> failure_kind \<Rightarrow> bool" where
  "retryEligible n ns k \<longleftrightarrow>
     k = Transient \<and>
     ns_retries ns < (case n_policy n of
                        None \<Rightarrow> 0
                      | Some p \<Rightarrow> (case pl_retry p of None \<Rightarrow> 0 | Some budget \<Rightarrow> budget))"

text \<open>The document's node is read for a transient failure only; without it, that throws.\<close>

definition eligible_for_retry :: "node option \<Rightarrow> node_run_state \<Rightarrow> failure_kind \<Rightarrow> bool option" where
  "eligible_for_retry n ns k = (if k \<noteq> Transient then Some False else map_option (\<lambda>n. retryEligible n ns k) n)"

definition fail_live ::
  "host \<Rightarrow> doc \<Rightarrow> run_state \<Rightarrow> jstr \<Rightarrow> jstr \<Rightarrow> node option \<Rightarrow> node_run_state \<Rightarrow> failure_kind \<Rightarrow> nat option \<Rightarrow> outcome" where
  "fail_live h d st i a n ns k after =
     (if rs_cancelRequested st \<noteq> None \<and> k = CancelledKind then settle h d (stopped st i) []
      else case eligible_for_retry n ns k of
             None \<Rightarrow> None
           | Some again \<Rightarrow>
               if rs_cancelRequested st \<noteq> None then settle h d (if again then stopped st i else failed st i) []
               else if again then asked (with_status st i RetryPending) (ScheduleRetry i a after)
               else settle h d (failed st i) [])"

definition onFailed ::
  "host \<Rightarrow> doc \<Rightarrow> run_state \<Rightarrow> jstr \<Rightarrow> jstr \<Rightarrow> failure_kind \<Rightarrow> nat option \<Rightarrow> outcome" where
  "onFailed h d st i a k after =
     (case map_of (rs_nodes st) i of
        None \<Rightarrow> kept st
      | Some ns \<Rightarrow>
          if LIVE_NODE (ns_status ns)
          then if \<not> is_current ns a then kept st else fail_live h d st i a (docNodeFor d i) ns k after
          else if ns_status ns = Pending then refused st (ImpossibleEvent i)
          else if \<not> is_current ns a then kept st
          else if ns_status ns = Success then reported st (ContradictoryEvent i)
          else reported st (DuplicateEvent i))"

text \<open>A new attempt of a node, dispatched as it is prepared.\<close>

definition new_attempt :: "jstr \<Rightarrow> (node_run_state \<Rightarrow> node_run_state) \<Rightarrow> node_run_state \<Rightarrow> node_run_state" where
  "new_attempt i patch ns =
     (patch ns)\<lparr>ns_status := Ready, ns_attempts := ns_attempts ns + 1,
       ns_currentAttemptId := Some (attempt_id i (ns_attempts ns))\<rparr>"

definition dispatch_again :: "host \<Rightarrow> doc \<Rightarrow> run_state \<Rightarrow> jstr \<Rightarrow> jstr \<Rightarrow> outcome" where
  "dispatch_again h d st i a =
     (case docNodeFor d i of
        None \<Rightarrow> None
      | Some n \<Rightarrow>
          (case prepDispatch h d st n i of
             Inl e \<Rightarrow> refused st (PrepFailed i e)
           | Inr p \<Rightarrow> asked st (DispatchNode i a p)))"

definition redispatch ::
  "host \<Rightarrow> doc \<Rightarrow> run_state \<Rightarrow> jstr \<Rightarrow> (node_run_state \<Rightarrow> node_run_state) \<Rightarrow> outcome" where
  "redispatch h d st i patch =
     (case map_of (rs_nodes st) i of
        None \<Rightarrow> None
      | Some ns \<Rightarrow> dispatch_again h d (withNode st i (new_attempt i patch)) i (attempt_id i (ns_attempts ns)))"

definition onRetryDue :: "host \<Rightarrow> doc \<Rightarrow> run_state \<Rightarrow> jstr \<Rightarrow> jstr \<Rightarrow> outcome" where
  "onRetryDue h d st i a =
     (case map_of (rs_nodes st) i of
        None \<Rightarrow> kept st
      | Some ns \<Rightarrow>
          if ns_status ns \<noteq> RetryPending \<or> \<not> is_current ns a then kept st
          else redispatch h d st i (\<lambda>x. x\<lparr>ns_retries := ns_retries x + 1\<rparr>))"

definition onRetryRequested :: "host \<Rightarrow> doc \<Rightarrow> run_state \<Rightarrow> jstr \<Rightarrow> jstr \<Rightarrow> outcome" where
  "onRetryRequested h d st i a =
     (case map_of (rs_nodes st) i of
        None \<Rightarrow> kept st
      | Some ns \<Rightarrow>
          if \<not> LIVE_NODE (ns_status ns) then reported st (ImpossibleEvent i)
          else if \<not> is_current ns a then kept st
          else if rs_cancelRequested st \<noteq> None
          then settle h d (markStoppedWork (with_status st i Failure)) []
          else let next = withNode st i (new_attempt i id)
               in dispatch_again h d (next\<lparr>rs_outputs := delete_at i (rs_outputs next)\<rparr>) i
                    (attempt_id i (ns_attempts ns)))"

section \<open>Calls\<close>

definition onCallReturned ::
  "host \<Rightarrow> doc \<Rightarrow> run_state \<Rightarrow> jstr \<Rightarrow> jstr \<Rightarrow> jstr \<Rightarrow> run_outcome \<Rightarrow> jobj \<Rightarrow> outcome" where
  "onCallReturned h d st i a child oc outs =
     (case map_of (rs_nodes st) i of
        None \<Rightarrow> kept st
      | Some ns \<Rightarrow>
          if ns_status ns = Waiting
          then if \<not> is_current ns a then kept st
               else if child \<noteq> deterministicChildRunId (rs_runId st) i a then reported st (UnexpectedChild i)
               else (case docNodeFor d i of
                       None \<Rightarrow> None
                     | Some n \<Rightarrow>
                         let ct = outputContract n; errs = validateOutputs False ct outs;
                             mark = (if oc = OutCancelled then markStoppedWork else id)
                         in if errs \<noteq> []
                            then settle h d (mark (with_status st i Failure))
                                   [if ct = CorruptContract then InvalidConfig i else InvalidOutputs i]
                            else settle h d
                                   (with_outputs
                                      (mark (with_status st i (if oc = OutSuccess then Success else Failure)))
                                      i (storeOutputs ct outs)) [])
          else if ns_status ns = Pending then refused st (ImpossibleEvent i)
          else if \<not> is_current ns a then kept st
          else reported st (DuplicateEvent i))"

definition detaches :: "node \<Rightarrow> bool" where
  "detaches n \<longleftrightarrow> (case n_call n of None \<Rightarrow> False | Some call \<Rightarrow> callDetaches call)"

definition onCallDetached :: "host \<Rightarrow> doc \<Rightarrow> run_state \<Rightarrow> jstr \<Rightarrow> jstr \<Rightarrow> jstr \<Rightarrow> outcome" where
  "onCallDetached h d st i a child =
     (case map_of (rs_nodes st) i of
        None \<Rightarrow> kept st
      | Some ns \<Rightarrow>
          if ns_status ns = Pending then refused st (ImpossibleEvent i)
          else if \<not> is_current ns a then kept st
          else if ns_status ns \<noteq> Waiting then reported st (DuplicateEvent i)
          else (case docNodeFor d i of
                  None \<Rightarrow> None
                | Some n \<Rightarrow>
                    if \<not> detaches n then reported st (NotDetached i)
                    else if child \<noteq> deterministicChildRunId (rs_runId st) i a then reported st (UnexpectedChild i)
                    else let ct = outputContract n; errs = validateOutputs False ct []
                         in if errs \<noteq> []
                            then settle h d (with_status st i Failure)
                                   [if ct = CorruptContract then InvalidConfig i else InvalidOutputs i]
                            else settle h d (succeeded st i (storeOutputs ct [])) []))"

section \<open>Waits and re-checks\<close>

definition recheckCommand :: "jstr \<Rightarrow> jstr \<Rightarrow> recheck_state \<Rightarrow> command" where
  "recheckCommand i a rc =
     ScheduleRecheck i a (rc_reason rc) (rc_afterSeconds rc) (rc_giveUpAfterSeconds rc) (rc_giveUpAt rc)"

definition live_current :: "run_state \<Rightarrow> jstr \<Rightarrow> jstr \<Rightarrow> node_run_state option" where
  "live_current st i a =
     (case map_of (rs_nodes st) i of
        None \<Rightarrow> None
      | Some ns \<Rightarrow> if LIVE_NODE (ns_status ns) \<and> is_current ns a then Some ns else None)"

definition onNotReady ::
  "host \<Rightarrow> doc \<Rightarrow> run_state \<Rightarrow> jstr \<Rightarrow> jstr \<Rightarrow> jstr \<Rightarrow> nat \<Rightarrow> nat \<Rightarrow> outcome" where
  "onNotReady h d st i a reason after giveUp =
     (case live_current st i a of
        None \<Rightarrow> kept st
      | Some ns \<Rightarrow>
          if rs_cancelRequested st \<noteq> None then settle h d (stopped st i) []
          else let rc = \<lparr>rc_notReadyAttemptId = a, rc_reason = reason, rc_afterSeconds = after,
                         rc_giveUpAfterSeconds = giveUp,
                         rc_giveUpAt = (case ns_recheck ns of None \<Rightarrow> None | Some old \<Rightarrow> rc_giveUpAt old)\<rparr>
               in asked (withNode st i (\<lambda>x. x\<lparr>ns_status := Ready, ns_recheck := Some rc\<rparr>)) (recheckCommand i a rc))"

definition onAwaitingCallback ::
  "host \<Rightarrow> doc \<Rightarrow> run_state \<Rightarrow> jstr \<Rightarrow> jstr \<Rightarrow> jobj \<Rightarrow> nat \<Rightarrow> outcome" where
  "onAwaitingCallback h d st i a outs timeout =
     (case live_current st i a of
        None \<Rightarrow> kept st
      | Some ns \<Rightarrow>
          if rs_cancelRequested st \<noteq> None
          then settle h d (markStoppedWork (with_status st i Failure)) []
          else let cb = \<lparr>cb_attemptId = a, cb_request = outs, cb_timeoutSeconds = timeout\<rparr>
               in asked (withNode st i (\<lambda>x. x\<lparr>ns_status := Ready, ns_callback := Some cb\<rparr>)) (callbackWaitCommand i cb))"

text \<open>\<open>webCallbackOutcome\<close>: the outputs that a callback completes, unless it reports a failure.\<close>

definition webCallbackOutcome :: "jobj \<Rightarrow> jval \<Rightarrow> jstr option \<Rightarrow> jobj option" where
  "webCallbackOutcome request callback err =
     (if err \<noteq> None then None else Some (obj_put (lit ''callback'') callback request))"

definition settleWebCallback ::
  "host \<Rightarrow> doc \<Rightarrow> run_state \<Rightarrow> jstr \<Rightarrow> jobj \<Rightarrow> jval \<Rightarrow> jstr option \<Rightarrow> outcome" where
  "settleWebCallback h d st i request callback err =
     (let unparked = withoutHeldWait (unparkIfWaiting st) i
      in case webCallbackOutcome request callback err of
           None \<Rightarrow> settle h d (with_status unparked i Failure) []
         | Some outs \<Rightarrow>
             (case docNodeFor d i of
                None \<Rightarrow> None
              | Some n \<Rightarrow> settle h d (succeeded unparked i (storeOutputs (outputContract n) outs)) []))"

definition held_recheck :: "node_run_state \<Rightarrow> jstr \<Rightarrow> recheck_state option" where
  "held_recheck ns a =
     (case ns_recheck ns of None \<Rightarrow> None | Some rc \<Rightarrow> if rc_notReadyAttemptId rc = a then Some rc else None)"

definition onRecheckScheduled :: "host \<Rightarrow> doc \<Rightarrow> run_state \<Rightarrow> jstr \<Rightarrow> jstr \<Rightarrow> int \<Rightarrow> outcome" where
  "onRecheckScheduled h d st i a giveUpAt =
     (case map_of (rs_nodes st) i of
        None \<Rightarrow> kept st
      | Some ns \<Rightarrow>
          if ns_status ns \<noteq> Ready \<or> \<not> is_current ns a \<or> held_recheck ns a = None then kept st
          else if rs_cancelRequested st \<noteq> None then settle h d (stopped st i) []
          else settle h d (withNode st i (\<lambda>x. x\<lparr>ns_status := WaitPending,
                 ns_recheck := map_option (\<lambda>rc. rc\<lparr>rc_giveUpAt := Some giveUpAt\<rparr>) (ns_recheck x)\<rparr>)) [])"

definition onRecheckDue :: "host \<Rightarrow> doc \<Rightarrow> run_state \<Rightarrow> jstr \<Rightarrow> jstr \<Rightarrow> outcome" where
  "onRecheckDue h d st i a =
     (case map_of (rs_nodes st) i of
        None \<Rightarrow> kept st
      | Some ns \<Rightarrow>
          if ns_status ns \<noteq> WaitPending \<or> ns_recheck ns = None \<or> \<not> is_current ns a
             \<or> rs_cancelRequested st \<noteq> None
          then kept st else redispatch h d (unparkIfWaiting st) i id)"

definition onWaitScheduled :: "host \<Rightarrow> doc \<Rightarrow> run_state \<Rightarrow> jstr \<Rightarrow> jstr \<Rightarrow> outcome" where
  "onWaitScheduled h d st i a =
     (case map_of (rs_nodes st) i of
        None \<Rightarrow> kept st
      | Some ns \<Rightarrow>
          if ns_status ns \<noteq> Ready \<or> \<not> is_current ns a then kept st
          else settle h d (with_status st i WaitPending) [])"

definition onWaitDue :: "host \<Rightarrow> doc \<Rightarrow> run_state \<Rightarrow> jstr \<Rightarrow> jstr \<Rightarrow> outcome" where
  "onWaitDue h d st i a =
     (case map_of (rs_nodes st) i of
        None \<Rightarrow> kept st
      | Some ns \<Rightarrow>
          if ns_status ns \<noteq> WaitPending \<or> \<not> is_current ns a \<or> ns_recheck ns \<noteq> None then kept st
          else settle h d (with_status (unparkIfWaiting st) i Success) [])"

section \<open>External waits\<close>

definition held_callback :: "node_run_state \<Rightarrow> jstr \<Rightarrow> callback_state option" where
  "held_callback ns a =
     (case ns_callback ns of None \<Rightarrow> None | Some cb \<Rightarrow> if cb_attemptId cb = a then Some cb else None)"

definition onExternalWaitCreated ::
  "host \<Rightarrow> doc \<Rightarrow> run_state \<Rightarrow> jstr \<Rightarrow> jstr \<Rightarrow> (jval \<times> jstr option) option \<Rightarrow> outcome" where
  "onExternalWaitCreated h d st i a arrived =
     (case map_of (rs_nodes st) i of
        None \<Rightarrow> kept st
      | Some ns \<Rightarrow>
          if ns_status ns \<noteq> Ready \<or> \<not> is_current ns a then kept st
          else case held_callback ns a of
                 None \<Rightarrow> settle h d (with_status st i ExternalWaitPending) []
               | Some cb \<Rightarrow>
                   if rs_cancelRequested st \<noteq> None then settle h d (stopped st i) []
                   else (case arrived of
                           Some (callback, err) \<Rightarrow> settleWebCallback h d st i (cb_request cb) callback err
                         | None \<Rightarrow> settle h d (with_status st i ExternalWaitPending) []))"

definition parked_at :: "run_state \<Rightarrow> jstr \<Rightarrow> jstr \<Rightarrow> node_run_state option" where
  "parked_at st i a =
     (case map_of (rs_nodes st) i of
        None \<Rightarrow> None
      | Some ns \<Rightarrow> if ns_status ns = ExternalWaitPending \<and> is_current ns a then Some ns else None)"

definition callback_of :: "jobj option \<Rightarrow> jval" where
  "callback_of outs =
     (case outs of
        None \<Rightarrow> JNull
      | Some ps \<Rightarrow> let v = get_prop ps (lit ''callback'') in if v = JUndef then JNull else v)"

definition inbound_outputs :: "output_contract \<Rightarrow> jobj option \<Rightarrow> jobj" where
  "inbound_outputs ct outs =
     (case (ct, outs) of (Declared _, Some ps) \<Rightarrow> storeOutputs ct ps | _ \<Rightarrow> [])"

definition onExternalWaitCompleted ::
  "host \<Rightarrow> doc \<Rightarrow> run_state \<Rightarrow> jstr \<Rightarrow> jstr \<Rightarrow> jobj option \<Rightarrow> jstr option \<Rightarrow> outcome" where
  "onExternalWaitCompleted h d st i a outs err =
     (case parked_at st i a of
        None \<Rightarrow> kept st
      | Some ns \<Rightarrow>
          (case held_callback ns a of
             Some cb \<Rightarrow> settleWebCallback h d st i (cb_request cb) (callback_of outs) err
           | None \<Rightarrow>
               (case docNodeFor d i of
                  None \<Rightarrow> None
                | Some n \<Rightarrow>
                    settle h d (succeeded (unparkIfWaiting st) i (inbound_outputs (outputContract n) outs)) [])))"

definition onExternalWaitExpired :: "host \<Rightarrow> doc \<Rightarrow> run_state \<Rightarrow> jstr \<Rightarrow> jstr \<Rightarrow> outcome" where
  "onExternalWaitExpired h d st i a =
     (case parked_at st i a of
        None \<Rightarrow> kept st
      | Some ns \<Rightarrow> settle h d (failed (unparkIfWaiting st) i) [])"

section \<open>Timeouts of loops\<close>

definition onContainerTimeoutScheduled :: "run_state \<Rightarrow> jstr \<Rightarrow> int \<Rightarrow> outcome" where
  "onContainerTimeoutScheduled st cid dueAt =
     (case map_of (rs_containers st) cid of
        None \<Rightarrow> kept st
      | Some cs \<Rightarrow>
          if cs_status cs \<noteq> CActive then kept st
          else kept (withContainer st cid (\<lambda>x. x\<lparr>cs_timeoutDueAt := Some dueAt\<rparr>)))"

definition onContainerTimedOut :: "host \<Rightarrow> doc \<Rightarrow> run_state \<Rightarrow> jstr \<Rightarrow> outcome" where
  "onContainerTimedOut h d st cid =
     (case (map_of (rs_containers st) cid, container_by_id d cid) of
        (Some cs, Some c) \<Rightarrow>
          if cs_status cs \<noteq> CActive \<or> rs_cancelRequested st \<noteq> None then kept st
          else settle h d
                 (exitContainer (abandonLiveChildren st (c_id c) (c_children c)) c CFailure (Some (lit ''timeout'')))
                 [TimedOutContainer (c_id c)]
      | _ \<Rightarrow> kept st)"

end
