(* ===== verification/Reducer.thy ===== *)
theory Reducer
  imports Handlers
begin

text \<open>
  \<open>reduce\<close> of \<open>engine/reduce.ts\<close>: the events of a run as a whole, its resumption after a
  restart, its cancellation, the projection of a log, and the frontier that a rerun copies.
\<close>

section \<open>Start of a run\<close>

definition onRunTriggerContext ::
  "run_state \<Rightarrow> jstr \<Rightarrow> jstr \<Rightarrow> jstr option \<Rightarrow> jval option \<Rightarrow> outcome" where
  "onRunTriggerContext st runId triggerId scheduledTime body =
     (if rs_status st \<noteq> RunPending then reported st AlreadyStarted
      else if rs_triggerContext st \<noteq> None then reported st AlreadySeeded
      else kept (st\<lparr>rs_runId := runId,
             rs_triggerContext := Some \<lparr>tc_triggerId = Some triggerId, tc_scheduledTime = scheduledTime,
               tc_body = (case body of None \<Rightarrow> JNull | Some v \<Rightarrow> if v = JUndef then JNull else v),
               tc_windowStart = None, tc_windowEnd = None\<rparr>\<rparr>))"

definition fresh_container :: container_run_state where
  "fresh_container = \<lparr>cs_status = CPending, cs_round = 0, cs_outputs = [], cs_reason = None,
     cs_inactive = False, cs_timeoutDueAt = None, cs_userProperties = None, cs_items = None,
     cs_results = None, cs_nextItem = None, cs_doomed = None, cs_skipReason = None\<rparr>"

definition start_nodes :: "doc \<Rightarrow> node_run_state table" where
  "start_nodes d =
     foldl (\<lambda>m i. map_set i fresh_node m) []
       (filter (\<lambda>i. i \<notin> set (parallelChildIds d)) (map n_id (d_nodes d)))"

definition start_containers :: "doc \<Rightarrow> container_run_state table" where
  "start_containers d = foldl (\<lambda>m c. map_set (c_id c) fresh_container m) [] (bound_containers d)"

definition started_state :: "doc \<Rightarrow> run_state \<Rightarrow> jstr \<Rightarrow> started_event \<Rightarrow> run_state" where
  "started_state d st runId ev =
     \<lparr>rs_runId = runId, rs_pipelineVersionId = se_pipelineVersionId ev, rs_startedAt = se_startedAt ev,
      rs_params = se_params ev, rs_status = RunRunning, rs_waitingReason = None,
      rs_nodes = start_nodes d, rs_outputs = [], rs_containers = start_containers d,
      rs_bounces = [], rs_branches = [], rs_sessions = [],
      rs_triggerContext = rs_triggerContext st, rs_cancelRequested = rs_cancelRequested st,
      rs_variables = seedVariables d,
      rs_globals = (case se_globals ev of None \<Rightarrow> [] | Some g \<Rightarrow> g)\<rparr>"

definition onRunStarted :: "host \<Rightarrow> doc \<Rightarrow> run_state \<Rightarrow> jstr \<Rightarrow> started_event \<Rightarrow> outcome" where
  "onRunStarted h d st runId ev =
     (if rs_status st \<noteq> RunPending
      then if runId = rs_runId st then reported st AlreadyStarted else kept st
      else let started = started_state d st runId ev; ds = map Defect (docDefects d)
           in if se_rerunOf ev \<noteq> None then Some (result_of started [] ds) else settle h d started ds)"

section \<open>The copied part of a rerun\<close>

text \<open>What a reseed builds up: the state, the ids it copied, and what it reports.\<close>

definition copy_node :: "reseeded_event \<Rightarrow> run_state \<times> jstr list \<times> diagnostic list \<Rightarrow> jstr
    \<Rightarrow> run_state \<times> jstr list \<times> diagnostic list" where
  "copy_node ev = (\<lambda>(st, applied, ds) i.
     if map_of (rs_nodes st) i = None then (st, applied, ds @ [ReseedRefused i])
     else (with_outputs (st\<lparr>rs_nodes := map_set i (fresh_node\<lparr>ns_status := Success\<rparr>) (rs_nodes st)\<rparr>) i
             (case map_of (re_copiedOutputs ev) i of Some outs \<Rightarrow> outs | None \<Rightarrow> []),
           applied @ [i], ds))"

definition is_call_node :: "doc \<Rightarrow> jstr \<Rightarrow> bool" where
  "is_call_node d i \<longleftrightarrow> (case docNodeFor d i of None \<Rightarrow> False | Some n \<Rightarrow> n_call n \<noteq> None)"

definition link_child :: "doc \<Rightarrow> jstr list \<Rightarrow> run_state \<times> jstr list \<times> diagnostic list \<Rightarrow> jstr \<times> jstr
    \<Rightarrow> run_state \<times> jstr list \<times> diagnostic list" where
  "link_child d applied = (\<lambda>(st, linked, ds) (i, child).
     if i \<notin> set applied \<or> \<not> is_call_node d i \<or> i \<in> set linked then (st, linked, ds @ [ReseedRefused i])
     else (withNode st i (\<lambda>ns. ns\<lparr>ns_sourceChildRunId := Some child\<rparr>), linked @ [i], ds))"

definition is_inactive_node :: "doc \<Rightarrow> jstr \<Rightarrow> bool" where
  "is_inactive_node d i \<longleftrightarrow> (case docNodeFor d i of None \<Rightarrow> False | Some n \<Rightarrow> n_inactive n)"

definition mark_inactive :: "doc \<Rightarrow> jstr list \<Rightarrow> run_state \<times> diagnostic list \<Rightarrow> jstr \<Rightarrow> run_state \<times> diagnostic list" where
  "mark_inactive d applied = (\<lambda>(st, ds) i.
     if i \<notin> set applied \<or> \<not> is_inactive_node d i then (st, ds @ [ReseedRefused i])
     else (withNode st i (\<lambda>ns. ns\<lparr>ns_inactive := Some True\<rparr>), ds))"

definition set_container :: "run_state \<Rightarrow> jstr \<Rightarrow> container_run_state \<Rightarrow> run_state" where
  "set_container st cid cs = st\<lparr>rs_containers := map_set cid cs (rs_containers st)\<rparr>"

definition copy_container :: "doc \<Rightarrow> run_state \<times> diagnostic list \<Rightarrow> jstr \<times> container_run_state
    \<Rightarrow> run_state \<times> diagnostic list" where
  "copy_container d = (\<lambda>(st, ds) (cid, copied).
     if map_of (rs_containers st) cid = None \<or> \<not> TERMINAL_CONTAINER (cs_status copied)
     then (st, ds @ [ReseedRefused cid])
     else if \<not> cs_inactive copied
     then (with_outputs (set_container st cid copied) cid (cs_outputs copied), ds)
     else if (case container_by_id d cid of None \<Rightarrow> False | Some c \<Rightarrow> c_inactive c)
     then (set_container st cid copied, ds)
     else (with_outputs (set_container st cid (copied\<lparr>cs_inactive := False, cs_userProperties := None\<rparr>)) cid
             (cs_outputs copied), ds @ [ReseedRefused cid]))"

definition copy_write :: "doc \<Rightarrow> jobj \<times> diagnostic list \<Rightarrow> variable_write \<Rightarrow> jobj \<times> diagnostic list" where
  "copy_write d = (\<lambda>(vars, ds) w.
     case applyVariableWrite d vars (vw_op w) (vw_name w) (vw_value w) of
       None \<Rightarrow> (vars, ds @ [ReseedRefused (vw_name w)])
     | Some vars' \<Rightarrow> (vars', ds))"

definition reseeded_state :: "doc \<Rightarrow> run_state \<Rightarrow> reseeded_event \<Rightarrow> run_state \<times> diagnostic list" where
  "reseeded_state d st ev =
     (let (s1, applied, d1) = foldl (copy_node ev) (st, [], []) (re_frontier ev);
          (s2, linked, d2) = foldl (link_child d applied) (s1, [], d1) (re_childLinks ev);
          (s3, d3) = foldl (mark_inactive d applied) (s2, d2) (js_set (re_copiedInactive ev));
          (s4, d4) = foldl (copy_container d) (s3, d3) (re_copiedContainers ev);
          (vars, d5) = foldl (copy_write d) (seedVariables d, d4) (re_copiedVariableWrites ev)
      in (s4\<lparr>rs_variables := vars\<rparr>, d5))"

definition progressed :: "run_state \<Rightarrow> bool" where
  "progressed st \<longleftrightarrow> rs_outputs st \<noteq> [] \<or> some_node (\<lambda>s. s \<noteq> Pending) st
     \<or> list_ex (\<lambda>p. cs_status (snd p) \<noteq> CPending) (rs_containers st)"

definition onReseeded :: "host \<Rightarrow> doc \<Rightarrow> run_state \<Rightarrow> reseeded_event \<Rightarrow> outcome" where
  "onReseeded h d st ev =
     (if progressed st then reported st AlreadyProgressed
      else let (next, ds) = reseeded_state d st ev in settle h d next ds)"

section \<open>Resuming\<close>

definition resume_lost :: "doc \<Rightarrow> run_state \<Rightarrow> jstr \<times> node_run_state \<Rightarrow> run_state" where
  "resume_lost d st p =
     (if ns_status (snd p) = Ready \<or> (ns_status (snd p) = Waiting \<and> is_call_node d (fst p))
      then stopped st (fst p) else st)"

definition resumeCancelled :: "host \<Rightarrow> doc \<Rightarrow> run_state \<Rightarrow> outcome" where
  "resumeCancelled h d st = settle h d (foldl (resume_lost d) st (rs_nodes st)) []"

text \<open>The command of a node whose event is still owed.\<close>

definition owed_ready ::
  "host \<Rightarrow> doc \<Rightarrow> run_state \<Rightarrow> node \<Rightarrow> node_run_state \<Rightarrow> jstr \<Rightarrow> jstr \<Rightarrow> command prep" where
  "owed_ready h d st n ns i a =
     (if n_inactive n then Inr (inactivateCommand n i a)
      else case held_callback ns a of
             Some cb \<Rightarrow>
               Inr (if webWaitsOnly n then withUserProperties h d st n i (callbackWaitCommand i cb)
                    else callbackWaitCommand i cb)
           | None \<Rightarrow>
               (case held_recheck ns a of
                  Some rc \<Rightarrow> Inr (recheckCommand i a rc)
                | None \<Rightarrow>
                    (case control_command h d st n i a of
                       Some r \<Rightarrow> r
                     | None \<Rightarrow> bindR (prepDispatch h d st n i) (\<lambda>p. Inr (DispatchNode i a p)))))"

definition owed_command :: "host \<Rightarrow> doc \<Rightarrow> run_state \<Rightarrow> jstr \<Rightarrow> (jstr \<times> prep_error, command list) result" where
  "owed_command h d st i =
     (case (map_of (rs_nodes st) i, docNodeFor d i) of
        (Some ns, Some n) \<Rightarrow>
          (case ns_currentAttemptId ns of
             None \<Rightarrow> Inr []
           | Some a \<Rightarrow>
               let r = (if ns_status ns = Ready then Some (owed_ready h d st n ns i a)
                        else if ns_status ns = Waiting then map_option (\<lambda>call. call_command h d st n call i a) (n_call n)
                        else None)
               in (case r of
                     None \<Rightarrow> Inr []
                   | Some (Inl e) \<Rightarrow> Inl (i, e)
                   | Some (Inr c) \<Rightarrow> Inr [c]))
      | _ \<Rightarrow> Inr [])"

text \<open>The nodes of the document, sorted, and then the instances.\<close>

definition resume_order :: "doc \<Rightarrow> run_state \<Rightarrow> jstr list" where
  "resume_order d st =
     sort (map n_id (d_nodes d)) @ sort (filter (\<lambda>k. scopeOfStateId d k \<noteq> None) (map fst (rs_nodes st)))"

definition owed_timeouts :: "doc \<Rightarrow> run_state \<Rightarrow> command list" where
  "owed_timeouts d st =
     concat (map (\<lambda>c. case map_of (rs_containers st) (c_id c) of
                        None \<Rightarrow> []
                      | Some cs \<Rightarrow>
                          if cs_status cs = CActive \<and> cs_timeoutDueAt cs = None then timeout_command c else [])
               (sorted_containers d))"

definition with_commands :: "command list \<Rightarrow> reduce_result \<Rightarrow> reduce_result" where
  "with_commands cmds r = r\<lparr>rr_commands := cmds @ rr_commands r\<rparr>"

definition onResumed :: "host \<Rightarrow> doc \<Rightarrow> run_state \<Rightarrow> outcome" where
  "onResumed h d st0 =
     (let st = unparkIfWaiting st0
      in if rs_status st \<noteq> RunRunning then kept st
         else if rs_cancelRequested st \<noteq> None then resumeCancelled h d st
         else case mapR (owed_command h d st) (resume_order d st) of
                Inl (i, e) \<Rightarrow> refused st (PrepFailed i e)
              | Inr cmds \<Rightarrow>
                  map_option (with_commands (concat cmds @ owed_timeouts d st)) (settle h d st []))"

section \<open>Cancelling\<close>

definition cancel_hold :: "run_state \<Rightarrow> jstr \<times> node_run_state \<Rightarrow> run_state" where
  "cancel_hold st p =
     (if ns_status (snd p) = RetryPending
      then markStoppedWork (st\<lparr>rs_nodes := map_set (fst p) (heldRetryToFailure (snd p)) (rs_nodes st)\<rparr>)
      else if ns_status (snd p) = WaitPending \<and> ns_recheck (snd p) \<noteq> None then stopped st (fst p)
      else st)"

definition cancelling :: "run_state \<Rightarrow> cancel_source \<Rightarrow> run_state" where
  "cancelling st source = st\<lparr>rs_cancelRequested := Some \<lparr>cr_source = source, cr_stoppedWork = False\<rparr>\<rparr>"

definition onCancelRequested :: "host \<Rightarrow> doc \<Rightarrow> run_state \<Rightarrow> cancel_source \<Rightarrow> outcome" where
  "onCancelRequested h d st source =
     (if rs_cancelRequested st \<noteq> None then kept st
      else let next = cancelling (unparkIfWaiting st) source
           in settle h d (foldl cancel_hold next (rs_nodes next)) [])"

section \<open>The reducer\<close>

definition terminalStatusOf :: "event_body \<Rightarrow> run_status option" where
  "terminalStatusOf b =
     (case b of
        RunFinished oc \<Rightarrow> Some (status_of_outcome oc)
      | RunInterruptedE \<Rightarrow> Some RunInterrupted
      | _ \<Rightarrow> None)"

definition unparks :: "event_body \<Rightarrow> bool" where
  "unparks b \<longleftrightarrow>
     (case b of
        RunResumed \<Rightarrow> True
      | RunCancelRequested _ \<Rightarrow> True
      | NodeEvent _ _ e \<Rightarrow>
          (case e of
             WaitDue \<Rightarrow> True | RecheckDue \<Rightarrow> True | ExternalWaitCompleted _ _ \<Rightarrow> True
           | ExternalWaitExpired \<Rightarrow> True | _ \<Rightarrow> False)
      | _ \<Rightarrow> False)"

definition onRunFinished :: "doc \<Rightarrow> run_state \<Rightarrow> run_outcome \<Rightarrow> outcome" where
  "onRunFinished d st oc =
     (if oc = OutSuccess \<and> \<not> (allTopLevelTerminal d st \<and> runOutcomeFailure d st = None)
      then refused st NotFinished
      else if oc = OutCancelled \<and> rs_cancelRequested st = None then refused st NeverCancelled
      else kept (st\<lparr>rs_status := status_of_outcome oc\<rparr>))"

definition on_node_event :: "host \<Rightarrow> doc \<Rightarrow> run_state \<Rightarrow> jstr \<Rightarrow> jstr \<Rightarrow> node_event \<Rightarrow> outcome" where
  "on_node_event h d st i a e =
     (case e of
        NodeDispatched \<Rightarrow> onDispatched st i a
      | NodeSucceeded outs \<Rightarrow> onSucceeded h d st i a outs
      | NodeInactive m \<Rightarrow> onInactive h d st i a m
      | NodeFailedE k after \<Rightarrow> onFailed h d st i a k after
      | BranchEvaluated _ branch \<Rightarrow> onControlBranchEvaluated h d st i a branch
      | VariableWritten op name v \<Rightarrow> onVariableWritten h d st i a op name v
      | CallReturned child oc outs \<Rightarrow> onCallReturned h d st i a child oc outs
      | CallDetached child \<Rightarrow> onCallDetached h d st i a child
      | RetryRequested \<Rightarrow> onRetryRequested h d st i a
      | RetryDue \<Rightarrow> onRetryDue h d st i a
      | WaitScheduled \<Rightarrow> onWaitScheduled h d st i a
      | WaitDue \<Rightarrow> onWaitDue h d st i a
      | NotReady reason after giveUp \<Rightarrow> onNotReady h d st i a reason after giveUp
      | AwaitingCallback outs timeout \<Rightarrow> onAwaitingCallback h d st i a outs timeout
      | RecheckScheduled giveUpAt \<Rightarrow> onRecheckScheduled h d st i a giveUpAt
      | RecheckDue \<Rightarrow> onRecheckDue h d st i a
      | ExternalWaitCreated arrived \<Rightarrow> onExternalWaitCreated h d st i a arrived
      | ExternalWaitCompleted outs err \<Rightarrow> onExternalWaitCompleted h d st i a outs err
      | ExternalWaitExpired \<Rightarrow> onExternalWaitExpired h d st i a)"

definition on_live_event :: "host \<Rightarrow> doc \<Rightarrow> run_state \<Rightarrow> event_body \<Rightarrow> outcome" where
  "on_live_event h d st b =
     (case b of
        RunFinished oc \<Rightarrow> onRunFinished d st oc
      | RunCancelRequested source \<Rightarrow> onCancelRequested h d st source
      | RunReseeded ev \<Rightarrow> onReseeded h d st ev
      | RunResumed \<Rightarrow> onResumed h d st
      | RunWaitingE reason \<Rightarrow> kept (st\<lparr>rs_status := RunWaiting, rs_waitingReason := Some reason\<rparr>)
      | RunInterruptedE \<Rightarrow> kept (st\<lparr>rs_status := RunInterrupted\<rparr>)
      | NodeEvent i a e \<Rightarrow> on_node_event h d st i a e
      | ContainerTimeoutScheduled cid dueAt \<Rightarrow> onContainerTimeoutScheduled st cid dueAt
      | ContainerTimedOut cid \<Rightarrow> onContainerTimedOut h d st cid
      | _ \<Rightarrow> kept st)"

text \<open>A run that has not started takes its interruption, its cancellation, and the end of a cancellation.\<close>

definition on_pending :: "run_state \<Rightarrow> jstr \<Rightarrow> event_body \<Rightarrow> outcome" where
  "on_pending st runId b =
     (case b of
        RunInterruptedE \<Rightarrow> kept (if runId = rs_runId st then st\<lparr>rs_status := RunInterrupted\<rparr> else st)
      | RunCancelRequested source \<Rightarrow>
          if (rs_runId st = [] \<or> runId = rs_runId st) \<and> rs_cancelRequested st = None
          then asked (cancelling (st\<lparr>rs_runId := runId\<rparr>) source) (cancelFinish source) else kept st
      | RunFinished OutCancelled \<Rightarrow>
          kept (if rs_cancelRequested st \<noteq> None \<and> runId = rs_runId st then st\<lparr>rs_status := RunCancelled\<rparr> else st)
      | _ \<Rightarrow> kept st)"

definition reduce :: "host \<Rightarrow> doc \<Rightarrow> run_state \<Rightarrow> engine_event \<Rightarrow> outcome" where
  "reduce h d st ev =
     (case ev_body ev of
        RunStarted se \<Rightarrow> onRunStarted h d st (ev_runId ev) se
      | RunTriggerContext t s b \<Rightarrow> onRunTriggerContext st (ev_runId ev) t s b
      | b \<Rightarrow>
          if rs_status st = RunPending then on_pending st (ev_runId ev) b
          else if ev_runId ev \<noteq> rs_runId st then kept st
          else if rs_status st = RunRunning \<or> (rs_status st = RunWaiting \<and> unparks b)
          then on_live_event h d st b
          else if terminalStatusOf b = None then reported st IgnoredEvent else kept st)"

definition seedState :: "doc \<Rightarrow> run_state" where
  "seedState d =
     \<lparr>rs_runId = [], rs_pipelineVersionId = [], rs_startedAt = None, rs_params = [],
      rs_status = RunPending, rs_waitingReason = None, rs_nodes = [], rs_outputs = [],
      rs_containers = [], rs_bounces = [], rs_branches = [], rs_sessions = [],
      rs_triggerContext = None, rs_cancelRequested = None, rs_variables = seedVariables d, rs_globals = []\<rparr>"

fun fold_log :: "host \<Rightarrow> doc \<Rightarrow> run_state \<Rightarrow> engine_event list \<Rightarrow> run_state option" where
  "fold_log h d st [] = Some st"
| "fold_log h d st (ev # evs) =
     (case reduce h d st ev of None \<Rightarrow> None | Some r \<Rightarrow> fold_log h d (rr_state r) evs)"

definition projectRunState :: "host \<Rightarrow> doc \<Rightarrow> engine_event list \<Rightarrow> run_state option" where
  "projectRunState h d evs = fold_log h d (seedState d) evs"

section \<open>The frontier of a rerun\<close>

definition node_secure :: "doc \<Rightarrow> jstr \<Rightarrow> bool" where
  "node_secure d i \<longleftrightarrow> (case node_by_id d i of None \<Rightarrow> False | Some n \<Rightarrow> hasSecureOutput n)"

definition loop_nodes :: "doc \<Rightarrow> jstr list" where
  "loop_nodes d = concat (map snd (backBodyByKey d))"

definition eligible :: "doc \<Rightarrow> run_state \<Rightarrow> jstr \<Rightarrow> bool" where
  "eligible d st i \<longleftrightarrow>
     (case container_by_id d i of
        Some c \<Rightarrow>
          (case map_of (rs_containers st) i of None \<Rightarrow> False | Some cs \<Rightarrow> cs_status cs = CSuccess)
          \<and> \<not> list_ex (node_secure d) (c_children c)
      | None \<Rightarrow>
          (case map_of (rs_nodes st) i of None \<Rightarrow> False | Some ns \<Rightarrow> ns_status ns = Success)
          \<and> i \<notin> set (loop_nodes d) \<and> \<not> node_secure d i)"

definition gated :: "doc \<Rightarrow> run_state \<Rightarrow> jstr list \<Rightarrow> jstr \<Rightarrow> bool" where
  "gated d st included i \<longleftrightarrow>
     list_ex (\<lambda>e. edgeState d st None e = Satisfied \<and> e_from e \<notin> set included) (entries (topIncoming d) i)"

text \<open>One pass over the entities; an entity that is included stays.\<close>

definition include_entity :: "doc \<Rightarrow> run_state \<Rightarrow> jstr list \<Rightarrow> jstr \<Rightarrow> jstr list" where
  "include_entity d st included i =
     (if i \<in> set included \<or> \<not> eligible d st i \<or> gated d st included i then included else included @ [i])"

definition include_pass :: "doc \<Rightarrow> run_state \<Rightarrow> jstr list \<Rightarrow> jstr list" where
  "include_pass d st included = foldl (include_entity d st) included (topEntities d)"

text \<open>Every pass but the last includes an entity, so as many passes as there are entities are enough.\<close>

definition included_entities :: "doc \<Rightarrow> run_state \<Rightarrow> jstr list" where
  "included_entities d st = (include_pass d st ^^ length (topEntities d)) []"

record reseed_frontier =
  rf_frontier :: "jstr list"
  rf_copiedOutputs :: "jobj table"
  rf_copiedContainers :: "container_run_state table"
  rf_childLinks :: "(jstr \<times> jstr) list"
  rf_copiedInactive :: "jstr list"

definition child_link :: "doc \<Rightarrow> run_state \<Rightarrow> jstr \<Rightarrow> (jstr \<times> jstr) list" where
  "child_link d st i =
     (case (node_by_id d i, map_of (rs_nodes st) i) of
        (Some n, Some ns) \<Rightarrow>
          if n_call n = None then []
          else (case ns_currentAttemptId ns of
                  Some a \<Rightarrow> [(i, deterministicChildRunId (rs_runId st) i a)]
                | None \<Rightarrow> (case ns_sourceChildRunId ns of Some s \<Rightarrow> [(i, s)] | None \<Rightarrow> []))
      | _ \<Rightarrow> [])"

definition reseedFrontier :: "doc \<Rightarrow> run_state \<Rightarrow> reseed_frontier" where
  "reseedFrontier d st =
     (let included = set (included_entities d st);
          frontier = sort (filter (\<lambda>i. i \<in> included \<and> i \<notin> fst ` set (owners d)) (map n_id (d_nodes d)))
      in \<lparr>rf_frontier = frontier,
          rf_copiedOutputs =
            map (\<lambda>i. (i, case map_of (rs_outputs st) i of Some outs \<Rightarrow> outs | None \<Rightarrow> [])) frontier,
          rf_copiedContainers =
            List.map_filter (\<lambda>c. if c_id c \<in> included
                                 then map_option (Pair (c_id c)) (map_of (rs_containers st) (c_id c)) else None)
              (bound_containers d),
          rf_childLinks = concat (map (child_link d st) frontier),
          rf_copiedInactive =
            filter (\<lambda>i. case node_by_id d i of None \<Rightarrow> False | Some n \<Rightarrow> n_inactive n) frontier\<rparr>)"

end
