(* ===== verification/WalkSteps.thy ===== *)
theory WalkSteps
  imports Reducer
begin

text \<open>
  An abstract account of \<open>settle\<close>: the transitions that its walk consists of, with the commands
  each of them emits, as an inductive relation. The lemmas show that every step of the walk
  in \<open>Settle\<close> takes such transitions, so that what holds along the relation holds of \<open>settle\<close>.
\<close>

section \<open>The transitions\<close>

definition status_weight :: "container_status \<Rightarrow> nat" where
  "status_weight s = (case s of CPending \<Rightarrow> 2 | CActive \<Rightarrow> 1 | _ \<Rightarrow> 0)"

text \<open>No id of the document contains the \<open>@\<close> of an instance key.\<close>

definition plain_ids :: "doc \<Rightarrow> bool" where
  "plain_ids d \<longleftrightarrow> list_all (\<lambda>i. 64 \<notin> set i) (map n_id (d_nodes d) @ map c_id (bound_containers d))"

definition is_active :: "run_state \<Rightarrow> jstr \<Rightarrow> bool" where
  "is_active st cid \<longleftrightarrow>
     (case map_of (rs_containers st) cid of None \<Rightarrow> False | Some cs \<Rightarrow> cs_status cs = CActive)"

text \<open>The nodes a walk visits: at the top, in an active container, and in an item of a parallel one.\<close>

inductive visits :: "doc \<Rightarrow> run_state \<Rightarrow> item_scope \<Rightarrow> jstr \<Rightarrow> edge list \<Rightarrow> bool" for d st where
  at_top: "\<lbrakk>i \<in> set (topEntities d); container_by_id d i = None\<rbrakk>
           \<Longrightarrow> visits d st None i (entries (topIncoming d) i)"
| in_body: "\<lbrakk>container_by_id d cid = Some c; \<not> isParallelForeach c; is_active st cid; i \<in> set (c_children c)\<rbrakk>
           \<Longrightarrow> visits d st None i (entries (childIncoming d) i)"
| in_item: "\<lbrakk>container_by_id d cid = Some c; isParallelForeach c; is_active st cid; i \<in> set (c_children c)\<rbrakk>
           \<Longrightarrow> visits d st (Some (c, k)) i (entries (childIncoming d) i)"

definition bounced :: "doc \<Rightarrow> run_state \<Rightarrow> jstr \<Rightarrow> run_state" where
  "bounced d st key =
     fst (resetNodes (st\<lparr>rs_bounces := map_set key (bounce_count st key + 1) (rs_bounces st)\<rparr>)
            (entries (backBodyByKey d) key))"

definition update_container ::
  "run_state \<Rightarrow> jstr \<Rightarrow> (container_run_state \<Rightarrow> container_run_state) \<Rightarrow> jobj table \<Rightarrow> run_state" where
  "update_container st cid f outs =
     st\<lparr>rs_containers := update_at cid f (rs_containers st), rs_outputs := outs\<rparr>"

definition is_timeout :: "command \<Rightarrow> bool" where
  "is_timeout c \<longleftrightarrow> (case c of ScheduleContainerTimeout _ _ \<Rightarrow> True | _ \<Rightarrow> False)"

text \<open>The node and the attempt that a command is for.\<close>

definition attempt_of :: "command \<Rightarrow> (jstr \<times> jstr) option" where
  "attempt_of c =
     (case c of
        DispatchNode i a _ \<Rightarrow> Some (i, a)
      | StartChild i a _ _ _ _ _ \<Rightarrow> Some (i, a)
      | ScheduleRetry i a _ \<Rightarrow> Some (i, a)
      | EvaluateControl i a _ _ _ \<Rightarrow> Some (i, a)
      | FailNode i a _ _ \<Rightarrow> Some (i, a)
      | WriteVariable i a _ _ _ _ \<Rightarrow> Some (i, a)
      | SucceedControl i a _ _ \<Rightarrow> Some (i, a)
      | InactivateNode i a _ _ \<Rightarrow> Some (i, a)
      | ScheduleWait i a _ _ \<Rightarrow> Some (i, a)
      | ScheduleRecheck i a _ _ _ _ \<Rightarrow> Some (i, a)
      | ScheduleExternalWait i a _ _ \<Rightarrow> Some (i, a)
      | ScheduleContainerTimeout _ _ \<Rightarrow> None
      | FinishRun _ _ \<Rightarrow> None
      | ParkRun _ \<Rightarrow> None)"

inductive advance :: "doc \<Rightarrow> run_state \<Rightarrow> command list \<Rightarrow> run_state \<Rightarrow> bool" for d where
  bounce: "\<lbrakk>be \<in> set (p_backEdges (part d)); bounces_now d st be;
            bounce_count st (stableEdgeKey be) < bounce_cap be; rs_cancelRequested st = None\<rbrakk>
           \<Longrightarrow> advance d st [] (bounced d st (stableEdgeKey be))"
| shift: "\<lbrakk>container_by_id d cid = Some c; map_of (rs_containers st) cid = Some cs;
           status_weight (cs_status (f cs)) < status_weight (cs_status cs);
           cs_doomed (f cs) = cs_doomed cs;
           cs_status (f cs) = CActive \<longrightarrow> rs_cancelRequested st = None \<and> (isParallelForeach c \<longrightarrow> plain_ids d);
           list_all is_timeout cmds; rs_cancelRequested st \<noteq> None \<longrightarrow> cmds = []\<rbrakk>
          \<Longrightarrow> advance d st cmds (update_container st cid f outs)"
| next_item: "\<lbrakk>container_by_id d cid = Some c; c_kind c = Foreach; map_of (rs_containers st) cid = Some cs;
               cs_status cs = CActive; list_all (node_terminal st) (c_children c);
               cs_round cs + 1 < length (items_of cs); rs_cancelRequested st = None\<rbrakk>
              \<Longrightarrow> advance d st []
                    (fst (resetContainerRound (withContainer st cid (\<lambda>x. x\<lparr>cs_results := Some rs\<rparr>)) c))"
| next_round: "\<lbrakk>container_by_id d cid = Some c; c_kind c = Loop; map_of (rs_containers st) cid = Some cs;
                cs_status cs = CActive; list_all (node_terminal st) (c_children c); c_children c \<noteq> [];
                rs_cancelRequested st = None\<rbrakk>
               \<Longrightarrow> advance d st [] (fst (resetContainerRound st c))"
| item_done: "\<lbrakk>container_by_id d cid = Some c; isParallelForeach c; map_of (rs_containers st) cid = Some cs;
               cs_status cs = CActive; i < next_item cs; complete_item d st c cs i = Some s\<rbrakk>
              \<Longrightarrow> advance d st [] (sp_state s)"
| items_start: "\<lbrakk>container_by_id d cid = Some c; isParallelForeach c; is_active st cid;
                 rs_cancelRequested st = None; sp_changed (startParallelItems st c)\<rbrakk>
                \<Longrightarrow> advance d st [] (sp_state (startParallelItems st c))"
| node_start: "\<lbrakk>visits d st sc i incoming; sid = ikey d sc i; map_of (rs_nodes st) sid = Some ns;
                ns_status ns = Pending; rs_cancelRequested st = None; s = Ready \<or> s = Waiting;
                attempt_of c = Some (sid, attempt_id sid (ns_attempts ns))\<rbrakk>
               \<Longrightarrow> advance d st [c] (start_node st sid (attempt_id sid (ns_attempts ns)) s cb)"
| node_skip: "\<lbrakk>visits d st sc i incoming; sid = ikey d sc i; map_of (rs_nodes st) sid = Some ns;
               ns_status ns = Pending; computeReadiness d st sc incoming jn = MustSkip\<rbrakk>
              \<Longrightarrow> advance d st [] (skip_node st sid r)"

text \<open>A sequence of transitions; the flag says that there is one.\<close>

inductive walks :: "doc \<Rightarrow> run_state \<Rightarrow> bool \<Rightarrow> command list \<Rightarrow> run_state \<Rightarrow> bool" for d where
  walks_none: "walks d st False [] st"
| walks_more: "\<lbrakk>walks d st b cmds st'; advance d st' cmds' st''\<rbrakk> \<Longrightarrow> walks d st True (cmds @ cmds') st''"

lemma walks_one: "advance d st cmds st' \<Longrightarrow> walks d st True cmds st'"
  using walks_more [OF walks_none] by fastforce

lemma walks_trans:
  assumes "walks d b1 f1 c1 b2" "walks d b2 f2 c2 b3"
  shows "walks d b1 (f1 \<or> f2) (c1 @ c2) b3"
  using assms(2,1)
proof (induction rule: walks.induct)
  case (walks_none st)
  then show ?case by simp
next
  case (walks_more st b cmds st' cmds' st'')
  then have "walks d b1 True ((c1 @ cmds) @ cmds') st''" using walks.walks_more by blast
  then show ?case by simp
qed

section \<open>Steps of the walk as transitions\<close>

text \<open>What a step is to the relation: nothing, transitions, or the end of the walk.\<close>

definition ends_at :: "run_state \<Rightarrow> run_state \<Rightarrow> bool" where
  "ends_at st st' \<longleftrightarrow>
     st' = st \<or> (\<exists>key k. st' = st\<lparr>rs_bounces := map_set key k (rs_bounces st)\<rparr>)"

text \<open>The commands that end a walk: a failure, or the cancellation that was asked for.\<close>

definition stops :: "run_state \<Rightarrow> command \<Rightarrow> bool" where
  "stops st c \<longleftrightarrow>
     (\<exists>why. c = FinishRun OutFailure (Some why))
     \<or> (\<exists>cr. rs_cancelRequested st = Some cr \<and> c = cancelFinish (cr_source cr))"

definition refines :: "doc \<Rightarrow> run_state \<Rightarrow> walk_step \<Rightarrow> bool" where
  "refines d st s \<longleftrightarrow>
     (case sp_finish s of
        None \<Rightarrow> walks d st (sp_changed s) (sp_commands s) (sp_state s)
      | Some c \<Rightarrow> ends_at st (sp_state s) \<and> stops st c)"

lemma refines_stay [simp]: "refines d st (stay st)"
  by (simp add: refines_def stay_def walks_none)

lemma refines_moved: "advance d st cmds st' \<Longrightarrow> refines d st (moved st' cmds ds)"
  by (simp add: refines_def moved_def walks_one)

lemma refines_cleared [simp]: "refines d st (s\<lparr>sp_cleared := cl\<rparr>) = refines d st s"
  by (cases "sp_finish s") (simp_all add: refines_def)

lemma refines_finishing: "ends_at st st' \<Longrightarrow> refines d st (finishing st' (FinishRun OutFailure (Some why)) ds)"
  by (simp add: refines_def finishing_def stops_def)

lemma ends_at_same [simp]: "ends_at st st" by (simp add: ends_at_def)

lemma refines_invalid [simp]: "refines d st (finishing st invalid_event ds)"
  by (simp add: refines_finishing invalid_event_def)

lemma refines_prepFailure [simp]: "refines d st (prepFailure st i e)"
  by (simp add: prepFailure_def)

lemma start_of_status:
  assumes "start_of h d st n sid a = Inr (c, s, cb)"
  shows "s = Ready \<or> s = Waiting"
  using assms unfolding start_of_def
  by (auto simp: bindR_Inr_iff split: if_splits option.splits)

lemma attempt_of_properties [simp]: "attempt_of (set_properties ups c) = attempt_of c"
  by (cases c) (simp_all add: set_properties_def attempt_of_def)

lemma attempt_of_recorded [simp]: "attempt_of (withUserProperties h d st n sid c) = attempt_of c"
  by (simp add: withUserProperties_def split: option.split)

lemma attempt_of_simps [simp]:
  "attempt_of (DispatchNode i a p) = Some (i, a)"
  "attempt_of (EvaluateControl i a br ev ups) = Some (i, a)"
  "attempt_of (FailNode i a fe ups) = Some (i, a)"
  "attempt_of (WriteVariable i a op nm v ups) = Some (i, a)"
  "attempt_of (SucceedControl i a outs ups) = Some (i, a)"
  "attempt_of (ScheduleWait i a dur ups) = Some (i, a)"
  "attempt_of (ScheduleExternalWait i a dur ups) = Some (i, a)"
  "attempt_of (StartChild i a r pv ps b ups) = Some (i, a)"
  "attempt_of (inactivateCommand n i a) = Some (i, a)"
  "attempt_of (callbackWaitCommand i cb) = Some (i, cb_attemptId cb)"
  "attempt_of (ScheduleRetry i a after) = Some (i, a)"
  "attempt_of (ScheduleRecheck i a nm k1 k2 k3) = Some (i, a)"
  "attempt_of (FinishRun oc why) = None" "attempt_of (ParkRun w) = None"
  "attempt_of (ScheduleContainerTimeout i t) = None"
  by (simp_all add: attempt_of_def inactivateCommand_def callbackWaitCommand_def)

lemma returnValueCommand_attempt:
  assumes "returnValueCommand h d st n sid a = Inr c"
  shows "attempt_of c = Some (sid, a)"
proof -
  obtain rows r where rows: "config_get n (lit ''returnValues'') = JArr rows" "rows \<noteq> []"
      "return_rows h d st sid rows [] = Inr r"
    using assms by (auto simp: returnValueCommand_def bindR_Inr_iff split: jval.splits if_splits)
  show ?thesis
  proof (cases r)
    case (Inl e)
    then show ?thesis using assms rows by (auto simp: returnValueCommand_def)
  next
    case (Inr m)
    show ?thesis
      by (cases "jsonReplaySafetyErrors (lit ''the return value'') (JObj m)")
        (use assms rows Inr in \<open>auto simp: returnValueCommand_def split: if_splits\<close>)
  qed
qed

lemma variableWriteCommand_attempt:
  assumes "variableWriteCommand h d st n sid a = Inr c"
  shows "attempt_of c = Some (sid, a)"
proof -
  have resolved: "write_resolved d st sid a op nm v = Inr c \<Longrightarrow> attempt_of c = Some (sid, a)" for op nm v
    by (auto simp: write_resolved_def Let_def split: list.splits option.splits if_splits)
  have "write_command h d st n sid a op = Inr c \<Longrightarrow> attempt_of c = Some (sid, a)" for op
    unfolding write_command_def
    by (auto simp: bindR_Inr_iff dest: resolved split: jval.splits option.splits if_splits sum.splits)
  then show ?thesis
    using assms returnValueCommand_attempt by (auto simp: variableWriteCommand_def split: option.splits writer_op.splits)
qed

lemma control_command_attempt:
  assumes "control_command h d st n sid a = Some (Inr c)"
  shows "attempt_of c = Some (sid, a)"
  using assms unfolding control_command_def Let_def
  by (auto simp: bindR_Inr_iff dest: variableWriteCommand_attempt split: option.splits if_splits)

lemma start_of_attempt:
  assumes "start_of h d st n sid a = Inr (c, s, cb)"
  shows "attempt_of c = Some (sid, a)"
  using assms unfolding start_of_def
  by (auto simp: bindR_Inr_iff call_command_def web_callback_def Let_def
      dest: control_command_attempt split: if_splits option.splits)

lemma refines_tryDispatchNode:
  assumes "visits d st sc i incoming"
  shows "refines d st (tryDispatchNode h d st i incoming sc)"
proof (cases "map_of (rs_nodes st) (ikey d sc i)")
  case None
  then show ?thesis by (simp add: tryDispatchNode_def Let_def)
next
  case (Some ns)
  show ?thesis
  proof (cases "node_by_id d i")
    case None
    then show ?thesis using Some by (simp add: tryDispatchNode_def Let_def)
  next
    fix n assume n: "node_by_id d i = Some n"
    show ?thesis
    proof (cases "ns_status ns = Pending \<and> computeReadiness d st sc incoming (nodeJoin n) \<noteq> MustWait")
      case False
      then show ?thesis using Some n by (auto simp: tryDispatchNode_def Let_def)
    next
      case True
      note pending = True
      show ?thesis
      proof (cases "computeReadiness d st sc incoming (nodeJoin n)")
        case MustSkip
        have "advance d st [] (skip_node st (ikey d sc i) (explainSkip d st sc incoming))"
          using pending MustSkip by (intro node_skip [OF assms refl Some _ MustSkip]) simp
        then show ?thesis
          using Some n pending MustSkip by (simp add: tryDispatchNode_def Let_def refines_moved)
      next
        case MayStart
        show ?thesis
        proof (cases "rs_cancelRequested st")
          case (Some cr)
          then show ?thesis
            using \<open>map_of _ _ = Some ns\<close> n pending MayStart by (simp add: tryDispatchNode_def Let_def)
        next
          case None
          let ?a = "attempt_id (ikey d sc i) (ns_attempts ns)"
          show ?thesis
          proof (cases "start_of h d st n (ikey d sc i) ?a")
            case (Inl e)
            then show ?thesis
              using Some n pending MayStart None by (simp add: tryDispatchNode_def Let_def)
          next
            case (Inr p)
            obtain c s cb where p: "p = (c, s, cb)" by (cases p) auto
            have "advance d st [c] (start_node st (ikey d sc i) ?a s cb)"
              using pending None start_of_status [OF Inr [unfolded p]] start_of_attempt [OF Inr [unfolded p]]
              by (intro node_start [OF assms refl Some]) simp_all
            then show ?thesis
              using Some n pending MayStart None Inr p
              by (simp add: tryDispatchNode_def Let_def refines_moved)
          qed
        qed
      qed (use pending in simp)
    qed
  qed
qed

text \<open>Back-edges.\<close>

lemma fire_each_refines:
  assumes "set bes \<subseteq> set (p_backEdges (part d))"
  shows "refines d st (fst (fire_each d st b ds bes))"
  using assms
proof (induction bes arbitrary: b ds)
  case Nil
  then show ?case by (simp add: refines_def stay_def walks_none)
next
  case (Cons be bes)
  show ?case
  proof (cases "bounces_now d st be")
    case False
    then show ?thesis using Cons by simp
  next
    case now: True
    let ?k = "bounce_count st (stableEdgeKey be) + 1"
    have capped: "ends_at st (st\<lparr>rs_bounces := map_set (stableEdgeKey be) ?k (rs_bounces st)\<rparr>)"
      unfolding ends_at_def by blast
    show ?thesis
    proof (cases "bounce_cap be < ?k")
      case True
      then show ?thesis using now by (simp add: Let_def refines_finishing [OF capped [simplified]])
    next
      case False
      show ?thesis
      proof (cases "rs_cancelRequested st")
        case (Some cr)
        then show ?thesis using now False Cons by (simp add: Let_def)
      next
        case None
        have "advance d st [] (bounced d st (stableEdgeKey be))"
          using Cons.prems now False None by (intro bounce) auto
        then show ?thesis
          using now False None by (simp add: Let_def refines_moved bounced_def)
      qed
    qed
  qed
qed

lemma fireBackEdges_refines: "refines d st (fst (fireBackEdges d st))"
  unfolding fireBackEdges_def by (rule fire_each_refines) simp

text \<open>Containers.\<close>

lemma map_set_twice: "map_set i w (map_set i v m) = map_set i w m"
  by (induction i v m rule: map_set.induct) simp_all

lemma update_at_twice: "update_at i g (update_at i f m) = update_at i (\<lambda>x. g (f x)) m"
  by (simp add: update_at_def map_of_map_set map_set_twice split: option.split)

lemma container_by_id_id: "container_by_id d i = Some c \<Longrightarrow> c_id c = i"
  by (auto simp: container_by_id_def dest: by_id_Some)

lemma exitContainer_update:
  "exitContainer st c oc reason =
     update_container st (c_id c)
       (\<lambda>cs. cs\<lparr>cs_status := oc, cs_outputs := projectContainerOutputs c st,
          cs_reason := (case reason of Some r \<Rightarrow> Some r | None \<Rightarrow> cs_reason cs)\<rparr>)
       (map_set (c_id c) (projectContainerOutputs c st) (rs_outputs st))"
  by (simp add: exitContainer_def update_container_def with_outputs_def withContainer_def Let_def)

lemma withContainer_update:
  "withContainer st cid f = update_container st cid f (rs_outputs st)"
  by (simp add: withContainer_def update_container_def)

lemma update_container_twice:
  "update_container (update_container st cid f outs) cid g outs' = update_container st cid (\<lambda>x. g (f x)) outs'"
  by (simp add: update_container_def update_at_twice)

lemma update_container_outputs: "rs_outputs (update_container st cid f outs) = outs"
  by (simp add: update_container_def)

lemmas container_updates =
  exitContainer_update withContainer_update update_container_twice update_container_outputs

definition closed_status :: "container_status \<Rightarrow> bool" where
  "closed_status s \<longleftrightarrow> s \<noteq> CPending \<and> s \<noteq> CActive"

lemma closed_weight: "closed_status s \<longleftrightarrow> status_weight s = 0"
  by (cases s) (simp_all add: closed_status_def status_weight_def)

text \<open>A container that ends, whatever else is recorded of it.\<close>

lemma shift_closes:
  assumes "container_by_id d cid = Some c" "map_of (rs_containers st) cid = Some cs"
    "cs_status cs = CPending \<or> cs_status cs = CActive" "closed_status (cs_status (f cs))"
    "cs_doomed (f cs) = cs_doomed cs"
  shows "advance d st [] (update_container st cid f outs)"
  using assms(3-5) by (intro shift [OF assms(1,2)]) (auto simp: closed_weight closed_status_def status_weight_def)

lemma exit_refines:
  assumes "container_by_id d (c_id c) = Some c" "map_of (rs_containers st) (c_id c) = Some cs"
    "cs_status cs = CPending \<or> cs_status cs = CActive" "closed_status oc"
  shows "refines d st (exit_step st c oc reason ds)"
proof -
  have "advance d st [] (exitContainer st c oc reason)"
    unfolding exitContainer_update using assms(3,4) by (intro shift_closes [OF assms(1,2)]) simp_all
  then show ?thesis by (simp add: exit_step_def refines_moved)
qed

lemma first_step_refines:
  assumes "\<And>x s. x \<in> set xs \<Longrightarrow> f x = Some s \<Longrightarrow> refines d st s"
  shows "refines d st (first_step f st xs)"
  using assms by (induction xs) (auto split: option.split)

lemma sorted_container: "c \<in> set (sorted_containers d) \<Longrightarrow> container_by_id d (c_id c) = Some c"
  using container_by_id_id by (fastforce simp: sorted_containers_def map_filter_def)

lemma foreach_round_refines:
  assumes c: "container_by_id d (c_id c) = Some c" and kind: "c_kind c = Foreach"
    and cs: "map_of (rs_containers st) (c_id c) = Some cs" "cs_status cs = CActive"
    and settled: "list_all (node_terminal st) (c_children c)"
    and s: "foreach_round st c cs = Some s"
  shows "refines d st s"
proof (cases "cs_round cs + 1 < length (items_of cs)")
  case True
  let ?rs = "results_of cs @ [JObj (mergeChildOutputs c st id)]"
  have none: "rs_cancelRequested st = None"
    and s': "s = round_step (withContainer st (c_id c) (\<lambda>x. x\<lparr>cs_results := Some ?rs\<rparr>)) c"
    using s True by (simp_all add: foreach_round_def Let_def items_of_def results_of_def split: if_splits)
  have "advance d st [] (fst (resetContainerRound (withContainer st (c_id c) (\<lambda>x. x\<lparr>cs_results := Some ?rs\<rparr>)) c))"
    by (rule next_item [OF c kind cs settled True none])
  then show ?thesis by (simp add: s' round_step_def Let_def refines_moved)
next
  case False
  then have "s = exit_step (withContainer st (c_id c)
      (\<lambda>x. x\<lparr>cs_results := Some (results_of cs @ [JObj (mergeChildOutputs c st id)])\<rparr>)) c CSuccess None []"
    using s by (simp add: foreach_round_def Let_def items_of_def results_of_def)
  then show ?thesis
    unfolding exit_step_def container_updates
    using cs(2) by (simp add: refines_moved shift_closes [OF c cs(1)] closed_status_def)
qed

lemma round_step_refines:
  assumes c: "container_by_id d (c_id c) = Some c" and kind: "c_kind c = Loop"
    and cs: "map_of (rs_containers st) (c_id c) = Some cs" "cs_status cs = CActive"
    and settled: "list_all (node_terminal st) (c_children c)"
    and rest: "c_children c \<noteq> []" "rs_cancelRequested st = None"
  shows "refines d st (round_step st c)"
  using refines_moved [OF next_round [OF c kind cs settled rest]] by (simp add: round_step_def Let_def)

lemma loop_round_refines:
  assumes c: "container_by_id d (c_id c) = Some c" and kind: "c_kind c = Loop"
    and cs: "map_of (rs_containers st) (c_id c) = Some cs" "cs_status cs = CActive"
    and settled: "list_all (node_terminal st) (c_children c)"
    and s: "loop_round h st c cs = Some s"
  shows "refines d st s"
proof -
  have exit: "closed_status oc \<Longrightarrow> refines d st (exit_step st c oc r ds)" for oc r ds
    using exit_refines [OF c cs(1)] cs(2) by simp
  consider (exit) oc r ds where "s = exit_step st c oc r ds" "closed_status oc"
    | (round) "s = round_step st c" "c_children c \<noteq> []" "rs_cancelRequested st = None"
    using s unfolding loop_round_def
    by (auto simp: closed_status_def split: sum.splits bool.splits if_splits)
  then show ?thesis
  proof cases
    case exit
    then show ?thesis using \<open>\<And>oc r ds. closed_status oc \<Longrightarrow> refines d st (exit_step st c oc r ds)\<close> by blast
  next
    case round
    then show ?thesis using round_step_refines [OF c kind cs settled] by blast
  qed
qed

lemma step_container_refines:
  assumes c: "container_by_id d (c_id c) = Some c" and s: "step_container h d st c = Some s"
  shows "refines d st s"
proof -
  obtain cs where cs: "map_of (rs_containers st) (c_id c) = Some cs" "cs_status cs = CActive"
    and settled: "list_all (node_terminal st) (c_children c)"
    using s by (auto simp: step_container_def split: if_splits option.splits)
  have exit: "closed_status oc \<Longrightarrow> refines d st (exit_step st c oc r ds)" for oc r ds
    using exit_refines [OF c cs(1)] cs(2) by simp
  show ?thesis
  proof (cases "containerOutcomeFailure d st None c")
    case (Some blamed)
    then show ?thesis
      using s cs settled by (auto simp: step_container_def closed_status_def intro: exit split: if_splits)
  next
    case None
    show ?thesis
    proof (cases "c_kind c")
      case Loop
      then show ?thesis
        using s cs settled None loop_round_refines [OF c Loop cs settled]
        by (auto simp: step_container_def split: if_splits)
    next
      case Stage
      then show ?thesis
        using s cs settled None by (auto simp: step_container_def closed_status_def intro: exit split: if_splits)
    next
      case Foreach
      then show ?thesis
        using s cs settled None foreach_round_refines [OF c Foreach cs settled]
        by (auto simp: step_container_def split: if_splits)
    qed
  qed
qed

lemma stepContainers_refines: "refines d st (stepContainers h d st)"
  unfolding stepContainers_def
  by (rule first_step_refines) (rule step_container_refines [OF sorted_container])

text \<open>Parallel foreach.\<close>

lemma complete_item_step:
  assumes "complete_item d st c cs i = Some s"
  shows "sp_finish s = None" "sp_changed s" "sp_commands s = []"
  using assms by (auto simp: complete_item_def moved_def Let_def split: if_splits option.splits)

lemma step_parallel_refines:
  assumes c: "container_by_id d (c_id c) = Some c" and s: "step_parallel d st c = Some s"
  shows "refines d st s"
proof -
  obtain cs where cs: "map_of (rs_containers st) (c_id c) = Some cs" "cs_status cs = CActive"
    and par: "isParallelForeach c"
    using s by (auto simp: step_parallel_def split: if_splits option.splits)
  have exit: "closed_status oc \<Longrightarrow> refines d st (exit_step st c oc r ds)" for oc r ds
    using exit_refines [OF c cs(1)] cs(2) by simp
  show ?thesis
  proof (cases "List.map_filter (complete_item d st c cs) [0..<next_item cs]")
    case Nil
    then have "end_parallel d st c cs = Some s" using s cs par by (simp add: step_parallel_def)
    then show ?thesis
      by (auto simp: end_parallel_def closed_status_def intro: exit split: option.splits if_splits)
  next
    case (Cons x xs)
    then have x: "x = s" using s cs par by (simp add: step_parallel_def)
    have "x \<in> set (List.map_filter (complete_item d st c cs) [0..<next_item cs])" using Cons by simp
    then obtain i where i: "i < next_item cs" "complete_item d st c cs i = Some s"
      using x by (auto simp: map_filter_def)
    have "advance d st [] (sp_state s)" by (rule item_done [OF c par cs i])
    then show ?thesis using complete_item_step [OF i(2)] by (simp add: refines_def walks_one)
  qed
qed

lemma stepForeachParallel_refines: "refines d st (stepForeachParallel d st)"
  unfolding stepForeachParallel_def
  by (rule first_step_refines) (rule step_parallel_refines [OF sorted_container])

text \<open>Entering a container.\<close>

lemma record_properties_update:
  obtains g where "record_properties (update_container st cid f outs) cid props
      = update_container st cid (\<lambda>x. g (f x)) outs"
    "\<And>x. cs_status (g x) = cs_status x" "\<And>x. cs_doomed (g x) = cs_doomed x"
proof (cases props)
  case None
  show ?thesis by (rule that [of id]) (simp_all add: None record_properties_def)
next
  case (Some ps)
  show ?thesis
    by (rule that [of "\<lambda>x. x\<lparr>cs_userProperties := Some ps\<rparr>"])
      (simp_all add: Some record_properties_def container_updates)
qed

lemma shift_enters:
  assumes c: "container_by_id d cid = Some c" "map_of (rs_containers st) cid = Some cs"
    and pending: "cs_status cs = CPending" and none: "rs_cancelRequested st = None"
    and f: "cs_status (f cs) \<noteq> CPending" "cs_doomed (f cs) = cs_doomed cs"
    and plain: "cs_status (f cs) = CActive \<and> isParallelForeach c \<longrightarrow> plain_ids d"
    and cmds: "list_all is_timeout cmds"
  shows "advance d st cmds (record_properties (update_container st cid f outs) cid props)"
proof -
  obtain g where g: "record_properties (update_container st cid f outs) cid props
      = update_container st cid (\<lambda>x. g (f x)) outs"
    and keeps: "\<And>x. cs_status (g x) = cs_status x" "\<And>x. cs_doomed (g x) = cs_doomed x"
    using record_properties_update by blast
  show ?thesis
    unfolding g using f plain pending none
    by (intro shift [OF c _ _ _ cmds])
      (auto simp: keeps status_weight_def split: container_status.split)
qed

lemma enterForeach_shape:
  assumes "c_kind c = Foreach" "sp_finish (enterForeachStep h d st c) = None"
  obtains f outs where "sp_state (enterForeachStep h d st c) = update_container st (c_id c) f outs"
    "sp_commands (enterForeachStep h d st c) = []"
    "\<And>x. cs_status (f x) \<noteq> CPending" "\<And>x. cs_doomed (f x) = cs_doomed x"
    "\<And>x. cs_status (f x) = CActive \<and> isParallelForeach c \<longrightarrow> plain_ids d"
proof -
  obtain items where items: "evalForeachItems h c st = Inr items"
    using assms by (cases "evalForeachItems h c st") (simp_all add: enterForeachStep_def finishing_def)
  consider (none) "items = []" | (seq) "items \<noteq> []" "\<not> isParallelForeach c" | (par) "items \<noteq> []" "isParallelForeach c"
    by blast
  then show ?thesis
  proof cases
    case none
    have eq: "sp_state (enterForeachStep h d st c) = exitContainer (withContainer st (c_id c)
        (\<lambda>cs. cs\<lparr>cs_items := Some [], cs_results := Some []\<rparr>)) c CSuccess None"
      by (simp add: enterForeachStep_def items none exit_step_def moved_def)
    show ?thesis
      by (rule that [OF eq [unfolded container_updates]])
        (simp_all add: enterForeachStep_def items none exit_step_def moved_def)
  next
    case seq
    have eq: "sp_state (enterForeachStep h d st c) = withContainer st (c_id c)
        (\<lambda>cs. cs\<lparr>cs_status := CActive, cs_items := Some items, cs_results := Some []\<rparr>)"
      using seq by (simp add: enterForeachStep_def items moved_def)
    show ?thesis
      by (rule that [OF eq [unfolded container_updates]])
        (simp_all add: enterForeachStep_def items seq moved_def)
  next
    case par
    have found: "find (\<lambda>i. 64 \<in> set i) (map n_id (d_nodes d) @ map c_id (bound_containers d)) = None"
      "find (touches_body d c) (p_backEdges (part d)) = None"
      using par assms(2) by (auto simp: enterForeachStep_def items finishing_def split: option.splits)
    then have plain: "plain_ids d" by (auto simp: plain_ids_def list_all_iff find_None_iff)
    have eq: "sp_state (enterForeachStep h d st c) = withContainer st (c_id c)
        (\<lambda>cs. cs\<lparr>cs_status := CActive, cs_items := Some items,
           cs_results := Some (map (\<lambda>_. JNull) items), cs_nextItem := Some 0\<rparr>)"
      using par by (simp add: enterForeachStep_def items moved_def found)
    show ?thesis
      by (rule that [OF eq [unfolded container_updates]])
        (simp_all add: enterForeachStep_def items par moved_def found plain)
  qed
qed

lemma enterForeach_finish:
  assumes "sp_finish (enterForeachStep h d st c) = Some f"
  shows "f = invalid_event" "sp_state (enterForeachStep h d st c) = st"
  using assms
  by (auto simp: enterForeachStep_def exit_step_def finishing_def moved_def split: sum.splits if_splits option.splits)

lemma enter_step_refines:
  assumes c: "container_by_id d (c_id c) = Some c" "map_of (rs_containers st) (c_id c) = Some cs"
    and pending: "cs_status cs = CPending" and none: "rs_cancelRequested st = None"
  shows "refines d st (enter_step h d st c)"
proof (cases "c_kind c = Foreach")
  case False
  then have seq: "\<not> isParallelForeach c" by (auto simp: isParallelForeach_def)
  have "list_all is_timeout (timeout_command c)"
    by (simp add: timeout_command_def is_timeout_def split: option.split)
  then have "advance d st (timeout_command c)
      (record_properties (enterContainer st (c_id c)) (c_id c) (resolveUserPropertiesIn h st (c_userProperties c) None))"
    unfolding enterContainer_def withContainer_update using seq
    by (intro shift_enters [OF c pending none]) simp_all
  then show ?thesis using False by (simp add: enter_step_def Let_def refines_moved)
next
  case True
  show ?thesis
  proof (cases "sp_finish (enterForeachStep h d st c)")
    case (Some f)
    then show ?thesis
      using True enterForeach_finish [OF Some]
      by (simp add: enter_step_def Let_def refines_def stops_def invalid_event_def)
  next
    case None
    obtain f outs where f: "sp_state (enterForeachStep h d st c) = update_container st (c_id c) f outs"
        "sp_commands (enterForeachStep h d st c) = []"
        "\<And>x. cs_status (f x) \<noteq> CPending" "\<And>x. cs_doomed (f x) = cs_doomed x"
        "\<And>x. cs_status (f x) = CActive \<and> isParallelForeach c \<longrightarrow> plain_ids d"
      using enterForeach_shape [OF True None] by metis
    have "advance d st [] (record_properties (update_container st (c_id c) f outs) (c_id c)
        (resolveUserPropertiesIn h st (c_userProperties c) None))"
      using f(3) f(4) f(5) [of cs] by (intro shift_enters [OF c pending none]) auto
    then show ?thesis
      using True None f(1,2) by (simp add: enter_step_def Let_def refines_def walks_one)
  qed
qed

lemma container_step_refines:
  assumes c: "container_by_id d (c_id c) = Some c"
  shows "refines d st (container_step h d st c)"
proof (cases "map_of (rs_containers st) (c_id c)")
  case None
  then show ?thesis by (simp add: container_step_def)
next
  case (Some cs)
  show ?thesis
  proof (cases "cs_status cs = CPending")
    case False
    then show ?thesis using Some by (simp add: container_step_def Let_def)
  next
    case pending: True
    show ?thesis
    proof (cases "computeReadiness d st None (entries (topIncoming d) (c_id c)) (containerJoin c)")
      case MustWait
      then show ?thesis using Some pending by (simp add: container_step_def Let_def)
    next
      case MustSkip
      have "advance d st [] (skip_container st (c_id c) r)" for r
        unfolding skip_container_def withContainer_update
        using pending by (intro shift_closes [OF c Some]) (simp_all add: closed_status_def)
      then show ?thesis using Some pending MustSkip by (simp add: container_step_def Let_def refines_moved)
    next
      case MayStart
      show ?thesis
      proof (cases "rs_cancelRequested st = None")
        case False
        then show ?thesis using Some pending MayStart by (simp add: container_step_def Let_def)
      next
        case none: True
        have "advance d st [] (withContainer st (c_id c) (inactive_container c))"
          unfolding withContainer_update using pending
          by (intro shift_closes [OF c Some])
            (simp_all add: inactive_container_def closed_status_def Let_def split: inactive_mark.split)
        then show ?thesis
          using Some pending MayStart none enter_step_refines [OF c Some pending none]
          by (simp add: container_step_def Let_def refines_moved)
      qed
    qed
  qed
qed

lemma top_step_refines:
  assumes "i \<in> set (sortedTopEntities d)"
  shows "refines d st (top_step h d st i)"
proof (cases "container_by_id d i")
  case None
  have "visits d st None i (entries (topIncoming d) i)"
    using assms None by (intro at_top) (simp_all add: sortedTopEntities_def)
  then show ?thesis using None by (simp add: top_step_def refines_tryDispatchNode)
next
  case (Some c)
  then show ?thesis using container_by_id_id [OF Some] by (simp add: top_step_def container_step_refines)
qed

section \<open>The walk as transitions\<close>

definition walk_to :: "doc \<Rightarrow> walk \<Rightarrow> walk \<Rightarrow> bool" where
  "walk_to d w w' \<longleftrightarrow>
     (\<exists>b cs. walks d (wk_state w) b cs (wk_state w') \<and> wk_commands w' = wk_commands w @ cs
             \<and> wk_changed w' = (wk_changed w \<or> b))"

definition walk_ends :: "doc \<Rightarrow> walk \<Rightarrow> reduce_result \<Rightarrow> bool" where
  "walk_ends d w r \<longleftrightarrow>
     (\<exists>b cs st'. walks d (wk_state w) b cs st' \<and> ends_at st' (rr_state r)
        \<and> (\<exists>c. rr_commands r = [c] \<and> stops st' c))"

definition walk_ok :: "doc \<Rightarrow> walk \<Rightarrow> (reduce_result, walk) result \<Rightarrow> bool" where
  "walk_ok d w m \<longleftrightarrow> (case m of Inl r \<Rightarrow> walk_ends d w r | Inr w' \<Rightarrow> walk_to d w w')"

lemma walk_to_refl [simp]: "walk_to d w w"
  unfolding walk_to_def using walks_none by fastforce

lemma walk_to_trans:
  assumes "walk_to d w1 w2" "walk_to d w2 w3"
  shows "walk_to d w1 w3"
proof -
  obtain b cs where 1: "walks d (wk_state w1) b cs (wk_state w2)" "wk_commands w2 = wk_commands w1 @ cs"
      "wk_changed w2 = (wk_changed w1 \<or> b)"
    using assms(1) by (auto simp: walk_to_def)
  obtain b' cs' where 2: "walks d (wk_state w2) b' cs' (wk_state w3)" "wk_commands w3 = wk_commands w2 @ cs'"
      "wk_changed w3 = (wk_changed w2 \<or> b')"
    using assms(2) by (auto simp: walk_to_def)
  have "walks d (wk_state w1) (b \<or> b') (cs @ cs') (wk_state w3)" by (rule walks_trans [OF 1(1) 2(1)])
  then show ?thesis using 1 2 unfolding walk_to_def by (intro exI conjI) auto
qed

lemma walk_to_ends:
  assumes "walk_to d w1 w2" "walk_ends d w2 r"
  shows "walk_ends d w1 r"
proof -
  obtain b cs where 1: "walks d (wk_state w1) b cs (wk_state w2)" using assms(1) by (auto simp: walk_to_def)
  obtain b' cs' st' where 2: "walks d (wk_state w2) b' cs' st'" and r: "ends_at st' (rr_state r)" "\<exists>c. rr_commands r = [c] \<and> stops st' c"
    using assms(2) by (auto simp: walk_ends_def)
  show ?thesis using walks_trans [OF 1 2] r unfolding walk_ends_def by blast
qed

lemma walk_ok_Inr [simp]: "walk_ok d w (Inr w') = walk_to d w w'"
  by (simp add: walk_ok_def)

lemma walk_ok_bind:
  assumes "walk_ok d w m" "\<And>w'. m = Inr w' \<Longrightarrow> walk_ok d w' (f w')"
  shows "walk_ok d w (bindR m f)"
proof (cases m)
  case (Inl r)
  then show ?thesis using assms(1) by (simp add: walk_ok_def)
next
  case (Inr w')
  then have "walk_to d w w'" "walk_ok d w' (f w')" using assms by simp_all
  then show ?thesis
    using Inr walk_to_trans walk_to_ends by (cases "f w'") (auto simp: walk_ok_def)
qed

text \<open>A step that refines the transitions, taken into the walk.\<close>

lemma walk_to_take_step:
  assumes "refines d (wk_state w) s" "sp_finish s = None"
  shows "walk_to d w (take_step s w)"
  using assms unfolding walk_to_def by (intro exI conjI) (auto simp: refines_def take_step_def)

lemma absorb_ok:
  assumes "refines d (wk_state w) s"
  shows "walk_ok d w (absorb s w)"
proof (cases "sp_finish s")
  case None
  then show ?thesis using walk_to_take_step [OF assms None] by (simp add: absorb_def Let_def)
next
  case (Some c)
  then have "ends_at (wk_state w) (sp_state s)" "stops (wk_state w) c"
    using assms by (auto simp: refines_def)
  then show ?thesis
    using Some walks_none by (fastforce simp: absorb_def Let_def walk_ok_def walk_ends_def end_walk_def)
qed

lemma sweep_ok:
  assumes "\<And>x w. x \<in> set xs \<Longrightarrow> I w \<Longrightarrow> walk_ok d w (f x w)"
    and "\<And>x w w'. x \<in> set xs \<Longrightarrow> I w \<Longrightarrow> f x w = Inr w' \<Longrightarrow> I w'"
    and "I w"
  shows "walk_ok d w (sweep f xs w)"
  using assms
proof (induction xs arbitrary: w)
  case (Cons x xs)
  show ?case unfolding sweep.simps
  proof (rule walk_ok_bind)
    show "walk_ok d w (f x w)" using Cons.prems by simp
    fix w' assume "f x w = Inr w'"
    then have "I w'" using Cons.prems(2) [of x w w'] Cons.prems(3) by simp
    then show "walk_ok d w' (sweep f xs w')" 
      using Cons.prems(1) list.set_intros(2) [of _ xs x] by (intro Cons.IH) (blast intro: Cons.prems(2))+
  qed
qed simp

text \<open>Starting or skipping a node leaves the containers alone.\<close>

lemma tryDispatchNode_containers:
  "rs_containers (sp_state (tryDispatchNode h d st i incoming sc)) = rs_containers st"
  by (auto simp: tryDispatchNode_def stay_def moved_def prepFailure_def finishing_def skip_node_def
      start_node_def withNode_def Let_def split: option.splits readiness.splits sum.splits prod.splits)

lemma child_step_containers:
  assumes "child_step h d sc ch w = Inr w'"
  shows "rs_containers (wk_state w') = rs_containers (wk_state w)"
  using assms tryDispatchNode_containers [of h d "wk_state w" ch "entries (childIncoming d) ch" sc]
  by (auto simp: child_step_def absorb_def take_step_def Let_def split: option.splits)

lemma child_steps_ok:
  assumes "\<And>x st. x \<in> set xs \<Longrightarrow> is_active st cid
            \<Longrightarrow> visits d st (scope_of x) (child_of x) (entries (childIncoming d) (child_of x))"
    and "is_active (wk_state w) cid"
  shows "walk_ok d w (sweep (\<lambda>x. child_step h d (scope_of x) (child_of x)) xs w)"
proof (rule sweep_ok [where I = "\<lambda>w :: walk. is_active (wk_state w) cid"])
  fix x and w :: walk assume "x \<in> set xs" "is_active (wk_state w) cid"
  then show "walk_ok d w (child_step h d (scope_of x) (child_of x) w)"
    unfolding child_step_def by (intro absorb_ok refines_tryDispatchNode assms(1))
next
  fix x and w w' :: walk assume "is_active (wk_state w) cid" "child_step h d (scope_of x) (child_of x) w = Inr w'"
  then show "is_active (wk_state w') cid" using child_step_containers by (fastforce simp: is_active_def)
qed (rule assms(2))

text \<open>Items of a parallel foreach start.\<close>

lemma startParallelItems_step:
  "sp_finish (startParallelItems st c) = None" "sp_commands (startParallelItems st c) = []"
  by (simp_all add: startParallelItems_def stay_def moved_def Let_def split: option.split)

lemma startParallelItems_same:
  assumes "\<not> sp_changed (startParallelItems st c)"
  shows "sp_state (startParallelItems st c) = st"
proof (cases "map_of (rs_containers st) (c_id c)")
  case None
  then show ?thesis by (simp add: startParallelItems_def stay_def)
next
  case (Some cs)
  show ?thesis
    using assms unfolding startParallelItems_def Some option.case Let_def
    by (auto simp: stay_def moved_def split: if_splits)
qed

lemma startParallelItems_refines:
  assumes "container_by_id d (c_id c) = Some c" "isParallelForeach c" "is_active st (c_id c)"
    "rs_cancelRequested st = None"
  shows "refines d st (startParallelItems st c)"
proof (cases "sp_changed (startParallelItems st c)")
  case True
  have "advance d st [] (sp_state (startParallelItems st c))" by (rule items_start [OF assms True])
  then show ?thesis using True startParallelItems_step by (simp add: refines_def walks_one)
next
  case False
  then show ?thesis using startParallelItems_step startParallelItems_same by (simp add: refines_def walks_none)
qed

lemma startParallelItems_active:
  assumes "is_active st (c_id c)"
  shows "is_active (sp_state (startParallelItems st c)) (c_id c)"
  using assms
  by (auto simp: startParallelItems_def is_active_def stay_def moved_def withContainer_def map_of_update_at Let_def
      split: option.splits)

text \<open>The children of the active containers.\<close>

lemma is_activeI: "\<lbrakk>map_of (rs_containers st) cid = Some cs; cs_status cs = CActive\<rbrakk> \<Longrightarrow> is_active st cid"
  by (simp add: is_active_def)

lemma sweep_items_ok:
  assumes c: "container_by_id d (c_id c) = Some c" and par: "isParallelForeach c"
    and active: "is_active (wk_state w) (c_id c)"
  shows "walk_ok d w (sweep_items h d c w)"
proof -
  define w' where "w' = (if rs_cancelRequested (wk_state w) = None
                then take_step (startParallelItems (wk_state w) c) w else w)"
  have to: "walk_to d w w'"
    using walk_to_take_step [OF startParallelItems_refines [OF c par active] startParallelItems_step(1)]
    by (simp add: w'_def)
  have active': "is_active (wk_state w') (c_id c)"
    using startParallelItems_active [OF active] active by (simp add: w'_def take_step_def)
  have "walk_ok d w' (sweep (\<lambda>p. child_step h d (Some (c, fst p)) (snd p)) (item_children c cs) w')" for cs
  proof (rule child_steps_ok [OF _ active'])
    fix p st assume "p \<in> set (item_children c cs)" "is_active st (c_id c)"
    then show "visits d st (Some (c, fst p)) (snd p) (entries (childIncoming d) (snd p))"
      using in_item [OF c par] by (auto simp: item_children_def)
  qed
  then have "walk_ok d w' (case map_of (rs_containers (wk_state w')) (c_id c) of
           None \<Rightarrow> Inr w'
         | Some cs \<Rightarrow>
             if cs_doomed cs \<noteq> None then Inr w'
             else sweep (\<lambda>p. child_step h d (Some (c, fst p)) (snd p)) (item_children c cs) w')"
    by (cases "map_of (rs_containers (wk_state w')) (c_id c)") simp_all
  then show ?thesis
    using walk_ok_bind [of d w "Inr w'"] to unfolding sweep_items_def w'_def [symmetric] Let_def by fastforce
qed

lemma sweep_container_ok:
  assumes c: "container_by_id d (c_id c) = Some c"
  shows "walk_ok d w (sweep_container h d c w)"
proof (cases "map_of (rs_containers (wk_state w)) (c_id c)")
  case None
  then show ?thesis by (simp add: sweep_container_def)
next
  case (Some cs)
  show ?thesis
  proof (cases "cs_status cs = CActive")
    case False
    then show ?thesis using Some by (simp add: sweep_container_def)
  next
    case True
    then have active: "is_active (wk_state w) (c_id c)" using Some by (rule is_activeI [rotated])
    show ?thesis
    proof (cases "isParallelForeach c")
      case par: True
      then show ?thesis using Some True sweep_items_ok [OF c par active] by (simp add: sweep_container_def)
    next
      case seq: False
      have "walk_ok d w (sweep (\<lambda>x. child_step h d None x) (sort (c_children c)) w)"
        by (rule child_steps_ok [OF _ active]) (use in_body [OF c seq] in simp)
      then show ?thesis using Some True seq by (simp add: sweep_container_def)
    qed
  qed
qed

lemma sweep_children_ok: "walk_ok d w (sweep_children h d w)"
  unfolding sweep_children_def
  by (rule sweep_ok [where I = "\<lambda>w. True"]) (simp_all add: sweep_container_ok sorted_container)

lemma sweep_top_ok: "walk_ok d w (sweep_top h d w)"
  unfolding sweep_top_def
  by (rule sweep_ok [where I = "\<lambda>w. True"]) (simp_all add: absorb_ok top_step_refines)

text \<open>One turn.\<close>

lemma walk_ok_prevented: "walk_ok d (w\<lparr>wk_prevented := p\<rparr>) m = walk_ok d w m"
  by (simp add: walk_ok_def walk_ends_def walk_to_def split: sum.split)

lemma fire_step_ok: "walk_ok d w (fire_step d w)"
proof -
  obtain s suppressed where f: "fireBackEdges d (wk_state w) = (s, suppressed)" by fastforce
  have s: "refines d (wk_state w) s" using fireBackEdges_refines [of d "wk_state w"] f by simp
  then have final: "refines d (wk_state w) (s\<lparr>sp_finish := Some (cancelFinish (cr_source cr))\<rparr>)"
    if "sp_finish s = Some c" "rs_cancelRequested (wk_state w) = Some cr" for c cr
    using that by (auto simp: refines_def stops_def)
  define p where "p = (wk_prevented w \<or> suppressed)"
  define s' where "s' = (case (sp_finish s, rs_cancelRequested (wk_state w)) of
                  (Some _, Some cr) \<Rightarrow>
                    if cr_stoppedWork cr \<or> p
                    then s\<lparr>sp_finish := Some (cancelFinish (cr_source cr))\<rparr> else s
                | _ \<Rightarrow> s)"
  have "refines d (wk_state w) s'"
    unfolding s'_def using s final by (auto split: option.split)
  then have "walk_ok d (w\<lparr>wk_prevented := p\<rparr>) (absorb s' (w\<lparr>wk_prevented := p\<rparr>))"
    by (intro absorb_ok) simp
  then show ?thesis
    unfolding walk_ok_prevented by (simp add: fire_step_def f p_def s'_def Let_def cong: option.case_cong)
qed

lemma phases_ok:
  assumes "\<And>f w. f \<in> set fs \<Longrightarrow> walk_ok d w (f w)"
  shows "walk_ok d w (phases fs w)"
  using assms
proof (induction fs arbitrary: w)
  case (Cons f fs)
  then show ?case by (auto intro!: walk_ok_bind)
qed simp

lemma settle_phases_ok: "f \<in> set (settle_phases h d) \<Longrightarrow> walk_ok d w (f w)"
  unfolding settle_phases_def
  using fire_step_ok absorb_ok [OF stepContainers_refines] absorb_ok [OF stepForeachParallel_refines]
    walk_ok_bind [OF sweep_top_ok sweep_children_ok]
  by auto

text \<open>The loop: \<open>settle\<close> takes transitions and then finishes the run or stops where nothing changes.\<close>

lemma walks_False: "walks d st False cs st' \<Longrightarrow> st' = st \<and> cs = []"
  by (erule walks.cases) auto

definition resting :: "host \<Rightarrow> doc \<Rightarrow> walk \<Rightarrow> bool" where
  "resting h d w \<longleftrightarrow>
     (\<exists>w'. phases (settle_phases h d) (w\<lparr>wk_changed := False\<rparr>) = Inr w' \<and> \<not> wk_changed w'
           \<and> wk_state w' = wk_state w \<and> wk_commands w' = wk_commands w)"

definition settled_by :: "host \<Rightarrow> doc \<Rightarrow> run_state \<Rightarrow> command list \<Rightarrow> reduce_result \<Rightarrow> bool" where
  "settled_by h d st cs r \<longleftrightarrow>
     ends_at st (rr_state r) \<and> (\<exists>c. rr_commands r = [c] \<and> stops st c)
     \<or> (\<exists>w w'. resting h d w \<and> wk_state w = st \<and> wk_state w' = st \<and> wk_commands w' = cs \<and> r = fixpoint d w')"

lemma settle_once_ok:
  "settle_once h d w = Turns w' \<Longrightarrow>
     \<exists>cs. walks d (wk_state w) True cs (wk_state w') \<and> wk_commands w' = wk_commands w @ cs"
  "settle_once h d w = Returns r \<Longrightarrow>
     \<exists>b cs st'. walks d (wk_state w) b cs st' \<and> settled_by h d st' (wk_commands w @ cs) r"
proof -
  have ok: "walk_ok d (w\<lparr>wk_changed := False\<rparr>) (phases (settle_phases h d) (w\<lparr>wk_changed := False\<rparr>))"
    by (rule phases_ok) (rule settle_phases_ok)
  show "\<exists>cs. walks d (wk_state w) True cs (wk_state w') \<and> wk_commands w' = wk_commands w @ cs"
    if "settle_once h d w = Turns w'"
    using ok that by (auto simp: settle_once_def walk_ok_def walk_to_def split: sum.splits if_splits)
  show "\<exists>b cs st'. walks d (wk_state w) b cs st' \<and> settled_by h d st' (wk_commands w @ cs) r"
    if r: "settle_once h d w = Returns r"
  proof (cases "phases (settle_phases h d) (w\<lparr>wk_changed := False\<rparr>)")
    case (Inl r')
    then show ?thesis
      using ok r by (fastforce simp: settle_once_def walk_ok_def walk_ends_def settled_by_def)
  next
    case (Inr w')
    then have w': "r = fixpoint d w'" "\<not> wk_changed w'" using r by (auto simp: settle_once_def split: if_splits)
    obtain b cs where b: "walks d (wk_state w) b cs (wk_state w')" "wk_commands w' = wk_commands w @ cs"
        "wk_changed w' = b"
      using ok Inr by (auto simp: walk_to_def)
    then have same: "wk_state w' = wk_state w" "cs = []" using w' walks_False by (metis, metis)
    then have "resting h d w" using Inr w' b(2) unfolding resting_def by auto
    then have "settled_by h d (wk_state w) (wk_commands w @ []) r"
      using same b(2) w' unfolding settled_by_def by auto
    then show ?thesis using walks_none by blast
  qed
qed

lemma settle_walk_ok:
  assumes "settle_walk h d w = Some r"
  shows "\<exists>b cs st'. walks d (wk_state w) b cs st' \<and> settled_by h d st' (wk_commands w @ cs) r"
  using assms
proof (induction rule: settle_walk.raw_induct [rotated, consumes 1])
  case (1 settle_walk h d w r)
  show ?case
  proof (cases "settle_once h d w")
    case (Returns r')
    then show ?thesis using 1 settle_once_ok(2) [OF Returns] by simp
  next
    case (Turns w')
    then have "settle_walk h d w' = Some r" using 1(2) by simp
    then obtain b cs st' where s: "walks d (wk_state w') b cs st'" "settled_by h d st' (wk_commands w' @ cs) r"
      using 1(1) by blast
    obtain cs' where t: "walks d (wk_state w) True cs' (wk_state w')" "wk_commands w' = wk_commands w @ cs'"
      using settle_once_ok(1) [OF Turns] by blast
    have "walks d (wk_state w) (True \<or> b) (cs' @ cs) st'" by (rule walks_trans [OF t(1) s(1)])
    then show ?thesis using s(2) t(2) by (intro exI conjI) auto
  qed
qed

lemma settle_ok:
  assumes "settle h d st ds = Some r"
  obtains b cs st' where "walks d st b cs st'" "settled_by h d st' cs r"
  using settle_walk_ok [OF assms [unfolded settle_def]] by (auto simp: start_walk_def)

end
