(* ===== verification/SettleTermination.thy ===== *)
theory SettleTermination
  imports WalkSteps
begin

text \<open>
  The walk of \<open>settle\<close> returns. Nine measures of the state decrease lexicographically along
  every transition of \<open>WalkSteps\<close>: the bounces left, the containers still to end, the items left
  of a sequential foreach, the phase of a round of a loop, the items not started and not
  completed of a parallel one, whether it is doomed, its instances, and the pending nodes.
\<close>

section \<open>The measures\<close>

definition bounces_left :: "doc \<Rightarrow> run_state \<Rightarrow> nat" where
  "bounces_left d st =
     sum_list (map (\<lambda>be. bounce_cap be - bounce_count st (stableEdgeKey be)) (p_backEdges (part d)))"

text \<open>A sum over the containers of the document that have a state.\<close>

definition container_ids :: "doc \<Rightarrow> jstr set" where
  "container_ids d = set (map c_id (bound_containers d))"

definition summand :: "(container_run_state \<Rightarrow> nat) \<Rightarrow> run_state \<Rightarrow> jstr \<Rightarrow> nat" where
  "summand f st i = (case map_of (rs_containers st) i of None \<Rightarrow> 0 | Some cs \<Rightarrow> f cs)"

definition over_containers :: "doc \<Rightarrow> (container_run_state \<Rightarrow> nat) \<Rightarrow> run_state \<Rightarrow> nat" where
  "over_containers d f st = sum (summand f st) (container_ids d)"

definition open_weight :: "container_run_state \<Rightarrow> nat" where
  "open_weight cs = status_weight (cs_status cs)"

definition rounds_left :: "container_run_state \<Rightarrow> nat" where
  "rounds_left cs = length (items_of cs) - cs_round cs"

definition unstarted :: "container_run_state \<Rightarrow> nat" where
  "unstarted cs = length (items_of cs) - next_item cs"

definition incomplete :: "container_run_state \<Rightarrow> nat" where
  "incomplete cs = length (filter (\<lambda>r. r = JNull) (results_of cs))"

definition undoomed :: "container_run_state \<Rightarrow> nat" where
  "undoomed cs = (if cs_doomed cs = None then 1 else 0)"

text \<open>A round of a loop: all its children settled, then reset, then one of them running.\<close>

definition node_live :: "run_state \<Rightarrow> jstr \<Rightarrow> bool" where
  "node_live st i \<longleftrightarrow>
     (case map_of (rs_nodes st) i of
        None \<Rightarrow> False
      | Some ns \<Rightarrow> ns_status ns \<noteq> Pending \<and> \<not> TERMINAL_NODE (ns_status ns))"

definition round_phase :: "run_state \<Rightarrow> jstr list \<Rightarrow> nat" where
  "round_phase st ids =
     (if list_ex (node_live st) ids then 0 else if list_ex (node_terminal st) ids then 2 else 1)"

definition loop_phase :: "doc \<Rightarrow> run_state \<Rightarrow> jstr \<Rightarrow> nat" where
  "loop_phase d st i =
     (case container_by_id d i of
        None \<Rightarrow> 0
      | Some c \<Rightarrow> if c_kind c = Loop then round_phase st (c_children c) else 0)"

definition loop_phases :: "doc \<Rightarrow> run_state \<Rightarrow> nat" where
  "loop_phases d st = sum (loop_phase d st) (container_ids d)"

definition pending_nodes :: "run_state \<Rightarrow> nat" where
  "pending_nodes st = length (filter (\<lambda>p. ns_status (snd p) = Pending) (rs_nodes st))"

definition descent :: "doc \<Rightarrow> (run_state \<times> run_state) set" where
  "descent d = measures
     [bounces_left d, over_containers d open_weight, over_containers d rounds_left, loop_phases d,
      over_containers d unstarted, over_containers d incomplete, over_containers d undoomed,
      \<lambda>st. length (rs_nodes st), pending_nodes]"

lemma wf_descent: "wf (descent d)"
  by (simp add: descent_def)

section \<open>Documents and states it holds for\<close>

text \<open>
  A document whose containers do not contain containers and have distinct ids, and a state
  whose containers were entered by \<open>settle\<close>.
\<close>

definition flat :: "doc \<Rightarrow> bool" where
  "flat d \<longleftrightarrow> distinct (map c_id (d_containers d))
     \<and> list_all (\<lambda>c. map_of (owners d) (c_id c) = None) (d_containers d)"

definition entered_well :: "doc \<Rightarrow> container \<Rightarrow> container_run_state \<Rightarrow> bool" where
  "entered_well d c cs \<longleftrightarrow>
     (isParallelForeach c \<and> cs_status cs = CActive \<longrightarrow> plain_ids d)
     \<and> (cs_doomed cs \<noteq> None \<and> \<not> TERMINAL_CONTAINER (cs_status cs) \<longrightarrow> c_children c \<noteq> [])"

definition walkable :: "doc \<Rightarrow> run_state \<Rightarrow> bool" where
  "walkable d st \<longleftrightarrow>
     list_all (\<lambda>c. case map_of (rs_containers st) (c_id c) of None \<Rightarrow> True | Some cs \<Rightarrow> entered_well d c cs)
       (bound_containers d)"

lemma terminal_weight: "TERMINAL_CONTAINER s \<longleftrightarrow> status_weight s = 0"
  by (cases s) (simp_all add: TERMINAL_CONTAINER_def status_weight_def)

lemma active_open [simp]: "\<not> TERMINAL_CONTAINER CActive"
  by (simp add: TERMINAL_CONTAINER_def)

lemma container_by_id_bound: "container_by_id d i = Some c \<Longrightarrow> c \<in> set (bound_containers d) \<and> c_id c = i"
  unfolding container_by_id_def by (rule by_id_Some)

lemma walkableD:
  assumes "walkable d st" "container_by_id d i = Some c" "map_of (rs_containers st) i = Some cs"
  shows "entered_well d c cs"
  using assms(1,3) container_by_id_bound [OF assms(2)] by (auto simp: walkable_def list_all_iff)

lemma container_by_id_in: "container_by_id d i = Some c \<Longrightarrow> i \<in> container_ids d"
  using container_by_id_bound unfolding container_ids_def by fastforce

section \<open>Changes of one container\<close>

lemma sum_changed:
  fixes f g :: "'a \<Rightarrow> nat"
  assumes "finite A" "x \<in> A" "\<And>y. y \<in> A \<Longrightarrow> y \<noteq> x \<Longrightarrow> g y = f y"
  shows "g x \<le> f x \<Longrightarrow> sum g A \<le> sum f A" "g x < f x \<Longrightarrow> sum g A < sum f A"
proof -
  have "sum g (A - {x}) = sum f (A - {x})" using assms(3) by (intro sum.cong) auto
  then have "sum g A = g x + sum f (A - {x})" "sum f A = f x + sum f (A - {x})"
    using assms(1,2) by (simp_all add: sum.remove)
  then show "g x \<le> f x \<Longrightarrow> sum g A \<le> sum f A" "g x < f x \<Longrightarrow> sum g A < sum f A" by simp_all
qed

lemma finite_container_ids: "finite (container_ids d)"
  by (simp add: container_ids_def)

lemma over_containers_same:
  "rs_containers st' = rs_containers st \<Longrightarrow> over_containers d f st' = over_containers d f st"
  by (simp add: over_containers_def summand_def)

lemma over_containers_update:
  assumes c: "container_by_id d cid = Some c" "map_of (rs_containers st) cid = Some cs"
    and st': "rs_containers st' = update_at cid g (rs_containers st)"
  shows "f (g cs) \<le> f cs \<Longrightarrow> over_containers d f st' \<le> over_containers d f st"
    "f (g cs) < f cs \<Longrightarrow> over_containers d f st' < over_containers d f st"
proof -
  have other: "summand f st' i = summand f st i" if "i \<noteq> cid" for i
    using that by (simp add: summand_def st' map_of_update_at)
  have here: "summand f st' cid = f (g cs)" "summand f st cid = f cs"
    by (simp_all add: summand_def st' map_of_update_at c)
  show "f (g cs) \<le> f cs \<Longrightarrow> over_containers d f st' \<le> over_containers d f st"
    "f (g cs) < f cs \<Longrightarrow> over_containers d f st' < over_containers d f st"
    unfolding over_containers_def
    using sum_changed [OF finite_container_ids container_by_id_in [OF c(1)], of "summand f st'" "summand f st"] other here
    by auto
qed

text \<open>The state after an update keeps what \<open>walkable\<close> asks for, when that container does.\<close>

lemma walkable_same: "rs_containers st' = rs_containers st \<Longrightarrow> walkable d st' = walkable d st"
  by (simp add: walkable_def)

lemma walkable_update:
  assumes ok: "walkable d st" and flat: "flat d"
    and c: "container_by_id d cid = Some c" "map_of (rs_containers st) cid = Some cs"
    and st': "rs_containers st' = update_at cid g (rs_containers st)"
    and g: "entered_well d c (g cs)"
  shows "walkable d st'"
  unfolding walkable_def list_all_iff
proof (intro ballI)
  fix k assume k: "k \<in> set (bound_containers d)"
  show "case map_of (rs_containers st') (c_id k) of None \<Rightarrow> True | Some cs \<Rightarrow> entered_well d k cs"
  proof (cases "c_id k = cid")
    case True
    have "distinct (map c_id (bound_containers d))" using flat by (simp add: flat_def bound_container_ids)
    then have "k = c"
      using k True container_by_id_bound [OF c(1)] by (auto simp: distinct_map dest: inj_onD)
    then show ?thesis using True c(2) g by (simp add: st' map_of_update_at)
  next
    case False
    then show ?thesis using ok k by (auto simp: st' map_of_update_at walkable_def list_all_iff)
  qed
qed

section \<open>Changes of the nodes\<close>

lemma resetNodes_keeps:
  "rs_containers (fst (resetNodes st ids)) = rs_containers st"
  "rs_bounces (fst (resetNodes st ids)) = rs_bounces st"
  "rs_cancelRequested (fst (resetNodes st ids)) = rs_cancelRequested st"
proof -
  have "rs_containers (fst (foldl reset_one p ids)) = rs_containers (fst p)
    \<and> rs_bounces (fst (foldl reset_one p ids)) = rs_bounces (fst p)
    \<and> rs_cancelRequested (fst (foldl reset_one p ids)) = rs_cancelRequested (fst p)" for p
    by (induction ids arbitrary: p) (auto simp: reset_one_def split: option.split)
  from this [of "(st, [])"] show
    "rs_containers (fst (resetNodes st ids)) = rs_containers st"
    "rs_bounces (fst (resetNodes st ids)) = rs_bounces st"
    "rs_cancelRequested (fst (resetNodes st ids)) = rs_cancelRequested st"
    by (simp_all add: resetNodes_def)
qed

lemma reset_node_twice [simp]: "reset_node (reset_node ns) = reset_node ns"
  by (simp add: reset_node_def)

lemma resetNodes_nodes:
  "map_of (rs_nodes (fst (resetNodes st ids))) i =
     (if i \<in> set ids then map_option reset_node (map_of (rs_nodes st) i) else map_of (rs_nodes st) i)"
proof -
  have "map_of (rs_nodes (fst (foldl reset_one p ids))) i =
     (if i \<in> set ids then map_option reset_node (map_of (rs_nodes (fst p)) i) else map_of (rs_nodes (fst p)) i)" for p
  proof (induction ids arbitrary: p)
    case (Cons j ids)
    have "map_of (rs_nodes (fst (reset_one p j))) i =
        (if i = j then map_option reset_node (map_of (rs_nodes (fst p)) i) else map_of (rs_nodes (fst p)) i)"
      by (cases p) (auto simp: reset_one_def map_of_map_set split: option.split)
    then show ?case using Cons by (auto simp: option.map_comp comp_def)
  qed simp
  from this [of "(st, [])"] show ?thesis by (simp add: resetNodes_def)
qed

lemma map_set_same: "map_of m i = Some v \<Longrightarrow> map_set i v m = m"
  by (induction i v m rule: map_set.induct) auto

lemma length_map_set: "map_of m i \<noteq> None \<Longrightarrow> length (map_set i v m) = length m"
  by (induction i v m rule: map_set.induct) auto

lemma length_update_at [simp]: "length (update_at i f m) = length m"
  using length_map_set [of m i] by (auto simp: update_at_def split: option.split)

lemma count_map_set:
  assumes "map_of m i = Some v" "P v" "\<not> P w"
  shows "length (filter (\<lambda>p. P (snd p)) (map_set i w m)) < length (filter (\<lambda>p. P (snd p)) m)"
  using assms by (induction i w m rule: map_set.induct) auto

lemma pending_withNode:
  assumes "map_of (rs_nodes st) sid = Some ns" "ns_status ns = Pending" "ns_status (f ns) \<noteq> Pending"
  shows "pending_nodes (withNode st sid f) < pending_nodes st"
  using count_map_set [of "rs_nodes st" sid ns "\<lambda>n. ns_status n = Pending" "f ns"] assms
  by (simp add: pending_nodes_def withNode_def update_at_def)

text \<open>The phase of a loop only sees the nodes of its children.\<close>

lemma round_phase_cong:
  assumes "\<And>i. i \<in> set ids \<Longrightarrow> map_of (rs_nodes st') i = map_of (rs_nodes st) i"
  shows "round_phase st' ids = round_phase st ids"
proof -
  have "list_ex (node_live st') ids = list_ex (node_live st) ids"
    "list_ex (node_terminal st') ids = list_ex (node_terminal st) ids"
    using assms by (auto simp: list_ex_iff node_live_def node_terminal_def)
  then show ?thesis by (simp add: round_phase_def)
qed

lemma round_phase_bound: "round_phase st ids \<le> 2"
  by (simp add: round_phase_def)

section \<open>Documents\<close>

lemma container_by_id_raw:
  assumes "container_by_id d i = Some c"
  obtains k where "k \<in> set (d_containers d)" "c_id k = i" "c_children c = kept_children d k"
  using container_by_id_bound [OF assms] by (auto simp: bound_containers_def)

lemma child_facts:
  assumes "container_by_id d i = Some c" "ch \<in> set (c_children c)"
  shows "map_of (owners d) ch = Some i" "is_node d ch"
proof -
  obtain k where k: "c_id k = i" "c_children c = kept_children d k"
    using container_by_id_raw [OF assms(1)] by metis
  then have "ch \<in> set (kept_children d k)" using assms(2) by simp
  then show "map_of (owners d) ch = Some i" "is_node d ch"
    using kept_children_facts [of ch d k] k(1) by (simp_all add: owners_def owner_of_def)
qed

lemma child_of_owner:
  assumes flat: "flat d" and c: "container_by_id d i = Some c" and own: "map_of (owners d) f = Some i"
    and node: "is_node d f"
  shows "f \<in> set (c_children c)"
proof -
  obtain k where k: "k \<in> set (d_containers d)" "c_id k = i" "c_children c = kept_children d k"
    using container_by_id_raw [OF c] by metis
  obtain k' where k': "k' \<in> set (d_containers d)" "c_id k' = i" "f \<in> set (c_children k')"
  proof -
    have "map_option c_id (find (\<lambda>c. f \<in> set (c_children c)) (d_containers d)) = Some i"
      using own owner_of_find [of "d_containers d" f] by (simp add: owners_def owner_of_def)
    then show ?thesis using that find_Some_set by fastforce
  qed
  have "k' = k" using flat k(1,2) k'(1,2) by (auto simp: flat_def distinct_map dest: inj_onD)
  then show ?thesis using k k' own node by (simp add: kept_children_def)
qed

lemma endpoint_node: "f \<in> set (p_endpointIds (part d)) \<Longrightarrow> container_by_id d f = None \<Longrightarrow> is_node d f"
  by (auto simp: part_def partitionReadiness_def Let_def is_node_def container_by_id_None bound_containers_def)

lemma plain_child:
  assumes "plain_ids d" "container_by_id d i = Some c" "ch \<in> set (c_children c)"
  shows "64 \<notin> set ch"
  using assms(1) child_facts(2) [OF assms(2,3)] by (auto simp: plain_ids_def list_all_iff is_node_def)

lemma instance_not_plain: "64 \<in> set (instanceKey i k)"
  by (simp add: instanceKey_def)

lemma owned_by_one:
  assumes "flat d" "container_by_id d i \<noteq> None"
  shows "map_of (owners d) i = None"
  using assms by (auto simp: flat_def list_all_iff container_by_id_None)

section \<open>The phase of a loop\<close>

lemma loop_phases_cong:
  assumes "\<And>i c ch. container_by_id d i = Some c \<Longrightarrow> c_kind c = Loop \<Longrightarrow> ch \<in> set (c_children c)
      \<Longrightarrow> map_of (rs_nodes st') ch = map_of (rs_nodes st) ch"
  shows "loop_phases d st' = loop_phases d st"
proof -
  have "loop_phase d st' i = loop_phase d st i" for i
  proof (cases "container_by_id d i")
    case (Some c)
    then show ?thesis
      using assms [OF Some] by (simp add: loop_phase_def round_phase_cong [of "c_children c" st' st])
  qed (simp add: loop_phase_def)
  then show ?thesis by (simp add: loop_phases_def)
qed

text \<open>Instances are no children of a loop.\<close>

lemma loop_phases_instances:
  assumes "plain_ids d" "\<And>i. 64 \<notin> set i \<Longrightarrow> map_of (rs_nodes st') i = map_of (rs_nodes st) i"
  shows "loop_phases d st' = loop_phases d st"
  using assms(2) plain_child [OF assms(1)] by (intro loop_phases_cong) blast

text \<open>A node that leaves \<open>pending\<close> keeps the phases, unless it settles at the start of a round.\<close>

lemma loop_phases_withNode:
  assumes ns: "map_of (rs_nodes st) sid = Some ns" and left: "ns_status (f ns) \<noteq> Pending"
    and late: "\<And>i c. container_by_id d i = Some c \<Longrightarrow> c_kind c = Loop \<Longrightarrow> sid \<in> set (c_children c)
        \<Longrightarrow> TERMINAL_NODE (ns_status (f ns)) \<Longrightarrow> round_phase st (c_children c) \<noteq> 1"
    and pending: "ns_status ns = Pending"
  shows "loop_phases d (withNode st sid f) \<le> loop_phases d st"
  unfolding loop_phases_def
proof (rule sum_mono)
  fix i
  have other: "map_of (rs_nodes (withNode st sid f)) j = map_of (rs_nodes st) j" if "j \<noteq> sid" for j
    using that by (simp add: withNode_def map_of_update_at)
  have own: "map_of (rs_nodes (withNode st sid f)) sid = Some (f ns)"
    by (simp add: withNode_def map_of_update_at ns)
  have "round_phase (withNode st sid f) (c_children c) \<le> round_phase st (c_children c)"
    if c: "container_by_id d i = Some c" "c_kind c = Loop" for c
  proof (cases "sid \<in> set (c_children c)")
    case False
    then have "round_phase (withNode st sid f) (c_children c) = round_phase st (c_children c)"
      by (intro round_phase_cong other) blast
    then show ?thesis by simp
  next
    case child: True
    show ?thesis
    proof (cases "TERMINAL_NODE (ns_status (f ns))")
      case False
      then have "node_live (withNode st sid f) sid" by (simp add: node_live_def own left)
      then have "round_phase (withNode st sid f) (c_children c) = 0"
        using child by (auto simp: round_phase_def list_ex_iff)
      then show ?thesis by simp
    next
      case True
      have live: "list_ex (node_live (withNode st sid f)) (c_children c)" if some: "list_ex (node_live st) (c_children c)"
      proof -
        obtain j where j: "j \<in> set (c_children c)" "node_live st j" using some by (auto simp: list_ex_iff)
        then have "j \<noteq> sid" using ns pending by (auto simp: node_live_def)
        then have "node_live (withNode st sid f) j" using j(2) by (simp add: node_live_def other)
        then show ?thesis using j(1) by (auto simp: list_ex_iff)
      qed
      show ?thesis
      proof (cases "list_ex (node_live st) (c_children c)")
        case True
        then show ?thesis using live by (simp add: round_phase_def)
      next
        case False
        then have "round_phase st (c_children c) = 2"
          using late [OF c child True] by (simp add: round_phase_def split: if_splits)
        then show ?thesis using round_phase_bound by simp
      qed
    qed
  qed
  then show "loop_phase d (withNode st sid f) i \<le> loop_phase d st i"
    by (simp add: loop_phase_def split: option.split)
qed

lemma skip_has_dead_edge:
  assumes "computeReadiness d st sc es jn = MustSkip"
  shows "\<exists>e \<in> set es. isEdgeStateDead (edgeState d st sc e)"
proof (cases jn)
  case JoinAll
  then show ?thesis using assms by (auto simp: readiness_all dead_predecessor_def split: if_splits)
next
  case JoinAny
  then show ?thesis using assms by (cases es) (auto simp: readiness_any split: if_splits)
qed

text \<open>A child is only skipped once a sibling has settled.\<close>

lemma skip_is_late:
  assumes flat: "flat d" and c: "container_by_id d cid = Some c" and i: "i \<in> set (c_children c)"
    and skip: "computeReadiness d st None (entries (childIncoming d) i) jn = MustSkip"
  shows "\<exists>f \<in> set (c_children c). node_terminal st f"
proof -
  obtain e where e: "e \<in> set (entries (childIncoming d) i)" "isEdgeStateDead (edgeState d st None e)"
    using skip_has_dead_edge [OF skip] by blast
  let ?f = "e_from e"
  have own: "map_of (owners d) ?f = Some cid"
    using childIncoming_edge(6) [OF e(1)] child_facts(1) [OF c i] by simp
  then have no: "container_by_id d ?f = None" using owned_by_one [OF flat] by fastforce
  have node: "is_node d ?f" by (rule endpoint_node [OF childIncoming_edge(4) [OF e(1)] no])
  have "endpointOutcome d st None ?f \<noteq> None"
    by (rule dead_edge_settled [OF e(2) childIncoming_edge(4) [OF e(1)]])
  then have "node_terminal st ?f"
    using no by (auto simp: endpointOutcome_def node_terminal_def ikey_def split: option.splits if_splits)
  then show ?thesis using child_of_owner [OF flat c own node] by blast
qed

section \<open>The transitions descend\<close>

lemma descentI [intro]:
  "bounces_left d st' < bounces_left d st \<Longrightarrow> (st', st) \<in> descent d"
  by (simp add: descent_def)

lemma same_bounces: "rs_bounces st' = rs_bounces st \<Longrightarrow> bounces_left d st' = bounces_left d st"
  by (simp add: bounces_left_def bounce_count_def)

text \<open>A transition without a bounce.\<close>

lemma descent_shift:
  assumes "rs_bounces st' = rs_bounces st"
    and "over_containers d open_weight st' < over_containers d open_weight st"
  shows "(st', st) \<in> descent d"
  using assms(2) by (simp add: descent_def same_bounces [OF assms(1)])

lemma descent_round:
  assumes "rs_bounces st' = rs_bounces st"
    and "over_containers d open_weight st' \<le> over_containers d open_weight st"
    and "over_containers d rounds_left st' < over_containers d rounds_left st
      \<or> over_containers d rounds_left st' \<le> over_containers d rounds_left st \<and> loop_phases d st' < loop_phases d st"
  shows "(st', st) \<in> descent d"
  using assms(2-) by (auto simp: descent_def same_bounces [OF assms(1)])

lemma descent_item:
  assumes "rs_bounces st' = rs_bounces st"
    and "over_containers d open_weight st' \<le> over_containers d open_weight st"
    and "over_containers d rounds_left st' \<le> over_containers d rounds_left st"
    and "loop_phases d st' \<le> loop_phases d st"
    and "over_containers d unstarted st' < over_containers d unstarted st
      \<or> over_containers d unstarted st' \<le> over_containers d unstarted st
        \<and> (over_containers d incomplete st' < over_containers d incomplete st
           \<or> over_containers d incomplete st' \<le> over_containers d incomplete st
             \<and> (over_containers d undoomed st' < over_containers d undoomed st
                \<or> over_containers d undoomed st' \<le> over_containers d undoomed st
                  \<and> length (rs_nodes st') < length (rs_nodes st)))"
  shows "(st', st) \<in> descent d"
  using assms(2-) by (auto simp: descent_def same_bounces [OF assms(1)])

lemma descent_node:
  assumes "rs_bounces st' = rs_bounces st" "rs_containers st' = rs_containers st"
    and "loop_phases d st' \<le> loop_phases d st"
    and "length (rs_nodes st') = length (rs_nodes st)" "pending_nodes st' < pending_nodes st"
  shows "(st', st) \<in> descent d"
  using assms(3-5) by (simp add: descent_def same_bounces [OF assms(1)] over_containers_same [OF assms(2)] le_less)

text \<open>Bounces.\<close>

lemma bounce_descends:
  assumes "be \<in> set (p_backEdges (part d))" "bounce_count st (stableEdgeKey be) < bounce_cap be"
  shows "(bounced d st (stableEdgeKey be), st) \<in> descent d"
proof (rule descentI)
  let ?st' = "bounced d st (stableEdgeKey be)"
  let ?f = "\<lambda>st be. bounce_cap be - bounce_count st (stableEdgeKey be)"
  have count: "bounce_count ?st' k = (if k = stableEdgeKey be then bounce_count st k + 1 else bounce_count st k)" for k
    by (simp add: bounced_def bounce_count_def resetNodes_keeps map_of_map_set)
  have le: "?f ?st' e \<le> ?f st e" for e using count [of "stableEdgeKey e"] by (auto split: if_splits)
  have lt: "?f ?st' be < ?f st be" using assms(2) by (simp add: count)
  obtain xs ys where es: "p_backEdges (part d) = xs @ be # ys" using split_list [OF assms(1)] by blast
  have "sum_list (map (?f ?st') zs) \<le> sum_list (map (?f st) zs)" for zs
    by (intro sum_list_mono le)
  then show "bounces_left d ?st' < bounces_left d st"
    unfolding bounces_left_def es map_append list.map sum_list_append sum_list.Cons
    using lt by (meson add_le_less_mono add_less_le_mono)
qed

text \<open>Containers.\<close>

lemma shift_descends:
  assumes c: "container_by_id d cid = Some c" "map_of (rs_containers st) cid = Some cs"
    and w: "status_weight (cs_status (f cs)) < status_weight (cs_status cs)"
  shows "(update_container st cid f outs, st) \<in> descent d"
  using w by (intro descent_shift over_containers_update(2) [OF c, where g = f])
    (simp_all add: update_container_def open_weight_def)

lemma resetContainerRound_keeps:
  "rs_bounces (fst (resetContainerRound st c)) = rs_bounces st"
  "rs_containers (fst (resetContainerRound st c)) =
     update_at (c_id c) (\<lambda>cs. cs\<lparr>cs_round := cs_round cs + 1\<rparr>) (rs_containers st)"
  "rs_nodes (fst (resetContainerRound st c)) = rs_nodes (fst (resetNodes st (c_children c)))"
  by (simp_all add: resetContainerRound_def withContainer_def resetNodes_keeps Let_def)

lemma next_item_descends:
  assumes c: "container_by_id d cid = Some c" "map_of (rs_containers st) cid = Some cs"
    and more: "cs_round cs + 1 < length (items_of cs)"
  shows "(fst (resetContainerRound (withContainer st cid (\<lambda>x. x\<lparr>cs_results := Some rs\<rparr>)) c), st) \<in> descent d"
    (is "(?st', st) \<in> _")
proof (rule descent_round)
  define g where "g = (\<lambda>x :: container_run_state. x\<lparr>cs_results := Some rs, cs_round := cs_round x + 1\<rparr>)"
  have st': "rs_containers ?st' = update_at cid g (rs_containers st)"
    using container_by_id_bound [OF c(1)]
    by (simp add: resetContainerRound_keeps withContainer_def update_at_twice g_def)
  show "rs_bounces ?st' = rs_bounces st" by (simp add: resetContainerRound_keeps withContainer_def)
  show "over_containers d open_weight ?st' \<le> over_containers d open_weight st"
    by (rule over_containers_update(1) [OF c st']) (simp add: open_weight_def g_def)
  have "over_containers d rounds_left ?st' < over_containers d rounds_left st"
    using more by (intro over_containers_update(2) [OF c st']) (simp add: rounds_left_def g_def items_of_def)
  then show "over_containers d rounds_left ?st' < over_containers d rounds_left st
      \<or> over_containers d rounds_left ?st' \<le> over_containers d rounds_left st \<and> loop_phases d ?st' < loop_phases d st" ..
qed

lemma next_round_phases:
  assumes c: "container_by_id d cid = Some c" "c_kind c = Loop"
    and settled: "list_all (node_terminal st) (c_children c)" "c_children c \<noteq> []"
    and nodes: "rs_nodes st' = rs_nodes (fst (resetNodes st (c_children c)))"
  shows "loop_phases d st' < loop_phases d st"
  unfolding loop_phases_def
proof (rule sum_changed(2) [OF finite_container_ids container_by_id_in [OF c(1)]])
  have reset: "map_of (rs_nodes st') i = map_option reset_node (map_of (rs_nodes st) i)" if "i \<in> set (c_children c)" for i
    using that by (simp add: nodes resetNodes_nodes)
  have "\<not> node_live st' i \<and> \<not> node_terminal st' i" if "i \<in> set (c_children c)" for i
    by (auto simp: node_live_def node_terminal_def reset [OF that] reset_node_def TERMINAL_NODE_def split: option.split)
  then have after: "round_phase st' (c_children c) = 1"
    by (auto simp: round_phase_def list_ex_iff)
  have "\<not> node_live st i" if "i \<in> set (c_children c)" for i
    using settled(1) that by (auto simp: list_all_iff node_live_def node_terminal_def split: option.splits)
  then have "round_phase st (c_children c) = 2"
    using settled by (cases "c_children c") (auto simp: round_phase_def list_ex_iff)
  then show "loop_phase d st' cid < loop_phase d st cid" using after c by (simp add: loop_phase_def)
next
  fix i assume "i \<noteq> cid"
  have "round_phase st' (c_children k) = round_phase st (c_children k)" if k: "container_by_id d i = Some k" for k
  proof (rule round_phase_cong)
    fix ch assume "ch \<in> set (c_children k)"
    then have "ch \<notin> set (c_children c)" using child_facts(1) [OF k] child_facts(1) [OF c(1)] \<open>i \<noteq> cid\<close> by fastforce
    then show "map_of (rs_nodes st') ch = map_of (rs_nodes st) ch" by (simp add: nodes resetNodes_nodes)
  qed
  then show "loop_phase d st' i = loop_phase d st i" by (simp add: loop_phase_def split: option.split)
qed

lemma next_round_descends:
  assumes c: "container_by_id d cid = Some c" "c_kind c = Loop" and cs: "map_of (rs_containers st) cid = Some cs"
    and settled: "list_all (node_terminal st) (c_children c)" "c_children c \<noteq> []"
  shows "(fst (resetContainerRound st c), st) \<in> descent d"
    (is "(?st', st) \<in> _")
proof (rule descent_round)
  have st': "rs_containers ?st' = update_at cid (\<lambda>cs. cs\<lparr>cs_round := cs_round cs + 1\<rparr>) (rs_containers st)"
    using container_by_id_bound [OF c(1)] by (simp add: resetContainerRound_keeps)
  show "rs_bounces ?st' = rs_bounces st" by (simp add: resetContainerRound_keeps)
  show "over_containers d open_weight ?st' \<le> over_containers d open_weight st"
    by (rule over_containers_update(1) [OF c(1) cs st']) (simp add: open_weight_def)
  have "over_containers d rounds_left ?st' \<le> over_containers d rounds_left st"
    by (rule over_containers_update(1) [OF c(1) cs st']) (simp add: rounds_left_def items_of_def)
  moreover have "loop_phases d ?st' < loop_phases d st"
    by (rule next_round_phases [OF c settled]) (simp add: resetContainerRound_keeps)
  ultimately show "over_containers d rounds_left ?st' < over_containers d rounds_left st
      \<or> over_containers d rounds_left ?st' \<le> over_containers d rounds_left st \<and> loop_phases d ?st' < loop_phases d st"
    by blast
qed

text \<open>Items of a parallel foreach.\<close>

lemma parsed_has_at: "parseInstanceKey k = Some p \<Longrightarrow> 64 \<in> set k"
proof -
  assume "parseInstanceKey k = Some p"
  then have "rev (dropWhile is_digit (rev k)) \<noteq> []" "last (rev (dropWhile is_digit (rev k))) = 64"
    by (auto simp: parseInstanceKey_def Let_def split: if_splits)
  then have "64 \<in> set (dropWhile is_digit (rev k))" using last_in_set by (metis set_rev)
  then show ?thesis using set_dropWhileD by fastforce
qed

lemma instanceKeysOf_at: "k \<in> set (instanceKeysOf d st c) \<Longrightarrow> 64 \<in> set k"
  by (auto simp: instanceKeysOf_def scopeOfStateId_def split: option.splits intro: parsed_has_at)

lemma delete_all: "foldl (\<lambda>m k. delete_at k m) m ks = filter (\<lambda>p. fst p \<notin> set ks) m"
  by (induction ks arbitrary: m) (auto simp: delete_at_def conj_commute)

lemma map_of_filter_keys: "map_of (filter (\<lambda>p. fst p \<notin> K) m) i = (if i \<in> K then None else map_of m i)"
  by (induction m) auto

lemma drop_instances_nodes:
  "map_of (rs_nodes (drop_instances st ks)) i = (if i \<in> set ks then None else map_of (rs_nodes st) i)"
  by (simp add: drop_instances_def delete_all map_of_filter_keys)

lemma drop_instances_length:
  assumes "k \<in> set ks" "map_of (rs_nodes st) k \<noteq> None"
  shows "length (rs_nodes (drop_instances st ks)) < length (rs_nodes st)"
proof -
  have "k \<in> fst ` set (rs_nodes st)" using assms(2) by (simp add: map_of_eq_None_iff)
  then show ?thesis
    using assms(1) unfolding drop_instances_def by (auto simp: delete_all intro!: length_filter_less)
qed

lemma count_nulls:
  assumes "i < length xs" "xs ! i = JNull" "v \<noteq> JNull"
  shows "length (filter (\<lambda>r. r = JNull) (xs[i := v])) < length (filter (\<lambda>r. r = JNull) xs)"
  using assms
proof (induction xs arbitrary: i)
  case (Cons x xs)
  then show ?case by (cases i) auto
qed simp

lemma fold_withNode:
  "rs_bounces (foldl (\<lambda>s k. withNode s k (f k)) st ks) = rs_bounces st"
  "rs_containers (foldl (\<lambda>s k. withNode s k (f k)) st ks) = rs_containers st"
  "length (rs_nodes (foldl (\<lambda>s k. withNode s k (f k)) st ks)) = length (rs_nodes st)"
  "i \<notin> set ks \<Longrightarrow> map_of (rs_nodes (foldl (\<lambda>s k. withNode s k (f k)) st ks)) i = map_of (rs_nodes st) i"
  by (induction ks arbitrary: st) (simp_all add: withNode_def map_of_update_at)

text \<open>The shape of a completion.\<close>

lemma complete_item_cases:
  assumes "complete_item d st c cs i = Some s"
  obtains (dropped) "cs_doomed cs \<noteq> None"
      "sp_state s = drop_instances st (map (\<lambda>ch. instanceKey ch i) (sort (c_children c)))"
      "\<forall>ch \<in> set (c_children c). map_of (rs_nodes st) (instanceKey ch i) \<noteq> None"
    | (completed) v where "i < length (results_of cs)" "results_of cs ! i = JNull" "v \<noteq> JNull"
      "sp_state s = withContainer (drop_instances st (map (\<lambda>ch. instanceKey ch i) (sort (c_children c)))) (c_id c)
          (\<lambda>x. x\<lparr>cs_results := Some ((results_of cs)[i := v])\<rparr>)"
    | (doomed) blame where "cs_doomed cs = None" "sp_state s = doom_items d st c blame" "c_children c \<noteq> []"
proof -
  let ?ks = "map (\<lambda>ch. instanceKey ch i) (sort (c_children c))"
  have flight: "in_flight cs i" and settled: "list_all (node_terminal st) ?ks"
    using assms by (auto simp: complete_item_def Let_def split: if_splits)
  have known: "\<forall>ch \<in> set (c_children c). map_of (rs_nodes st) (instanceKey ch i) \<noteq> None"
    using settled by (auto simp: list_all_iff node_terminal_def split: option.splits)
  show ?thesis
  proof (cases "containerOutcomeFailure d st (Some (c, i)) c")
    case None
    show ?thesis
    proof (cases "flipped_item cs i")
      case True
      then have "cs_doomed cs \<noteq> None" by (cases "cs_doomed cs") (simp_all add: flipped_item_def)
      then show ?thesis
        using assms flight settled None True known
        by (intro dropped) (auto simp: complete_item_def moved_def Let_def)
    next
      case False
      then show ?thesis
        using assms flight settled None
        by (intro completed [of "JObj (mergeChildOutputs c st (\<lambda>ch. instanceKey ch i))"])
          (auto simp: complete_item_def moved_def Let_def in_flight_def)
    qed
  next
    case (Some blamed)
    have "c_children c \<noteq> []"
    proof
      assume "c_children c = []"
      then show False using outcome_Some_cases [OF Some [unfolded containerOutcomeFailure_def]] by simp
    qed
    then show ?thesis
      using assms flight settled Some
      by (intro doomed [of "instanceKey blamed i"]) (auto simp: complete_item_def moved_def Let_def split: if_splits)
  qed
qed

lemma complete_item_containers:
  assumes s: "complete_item d st c cs i = Some s" and cs: "map_of (rs_containers st) (c_id c) = Some cs"
  obtains g where "rs_containers (sp_state s) = update_at (c_id c) g (rs_containers st)"
    "cs_status (g cs) = cs_status cs" "cs_round (g cs) = cs_round cs" "items_of (g cs) = items_of cs"
    "next_item (g cs) = next_item cs" "cs_doomed (g cs) \<noteq> None \<longrightarrow> cs_doomed cs \<noteq> None \<or> c_children c \<noteq> []"
  using s
proof (cases rule: complete_item_cases)
  case dropped
  show ?thesis
    by (rule that [of id])
      (use cs in \<open>simp_all add: dropped drop_instances_def update_at_def map_set_same\<close>)
next
  case (completed v)
  show ?thesis
    by (rule that [of "\<lambda>x. x\<lparr>cs_results := Some ((results_of cs)[i := v])\<rparr>"])
      (simp_all add: completed withContainer_def drop_instances_def items_of_def next_item_def)
next
  case (doomed blame)
  show ?thesis
    by (rule that [of "\<lambda>x. x\<lparr>cs_doomed := Some \<lparr>dm_blame = blame,
            dm_flipped = flipped_keys st (instanceKeysOf d st c)\<rparr>\<rparr>"])
      (simp_all add: doomed doom_items_def withContainer_def fold_withNode items_of_def next_item_def Let_def)
qed

lemma item_done_descends:
  assumes ok: "walkable d st"
    and c: "container_by_id d cid = Some c" "map_of (rs_containers st) cid = Some cs"
    and par: "isParallelForeach c" "cs_status cs = CActive" and s: "complete_item d st c cs i = Some s"
  shows "(sp_state s, st) \<in> descent d"
proof -
  have id: "c_id c = cid" using container_by_id_bound [OF c(1)] by simp
  have well: "plain_ids d" "cs_doomed cs \<noteq> None \<longrightarrow> c_children c \<noteq> []"
    using walkableD [OF ok c] par by (simp_all add: entered_well_def)
  obtain g where g: "rs_containers (sp_state s) = update_at cid g (rs_containers st)"
    "cs_status (g cs) = cs_status cs" "cs_round (g cs) = cs_round cs" "items_of (g cs) = items_of cs"
    "next_item (g cs) = next_item cs"
    using complete_item_containers [OF s] c(2) id by metis
  note keeps = over_containers_update(1) [OF c g(1)]
  have bounces: "rs_bounces (sp_state s) = rs_bounces st"
    using s by (cases rule: complete_item_cases)
      (simp_all add: drop_instances_def withContainer_def doom_items_def fold_withNode Let_def)
  have "map_of (rs_nodes (sp_state s)) j = map_of (rs_nodes st) j" if "64 \<notin> set j" for j
    using s
  proof (cases rule: complete_item_cases)
    case dropped
    then show ?thesis using that instance_not_plain by (auto simp: drop_instances_nodes)
  next
    case (completed v)
    then show ?thesis using that instance_not_plain by (auto simp: drop_instances_nodes withContainer_def)
  next
    case (doomed blame)
    have "j \<notin> set (instanceKeysOf d st c)" using that instanceKeysOf_at by blast
    then show ?thesis by (simp add: doomed doom_items_def withContainer_def fold_withNode Let_def)
  qed
  then have phases: "loop_phases d (sp_state s) = loop_phases d st" by (rule loop_phases_instances [OF well(1)])
  have unstarted: "over_containers d unstarted (sp_state s) \<le> over_containers d unstarted st"
    by (rule keeps) (simp add: unstarted_def g)
  have "over_containers d incomplete (sp_state s) < over_containers d incomplete st
      \<or> over_containers d incomplete (sp_state s) \<le> over_containers d incomplete st
        \<and> (over_containers d undoomed (sp_state s) < over_containers d undoomed st
           \<or> over_containers d undoomed (sp_state s) \<le> over_containers d undoomed st
             \<and> length (rs_nodes (sp_state s)) < length (rs_nodes st))"
    using s
  proof (cases rule: complete_item_cases)
    case dropped
    obtain ch where ch: "ch \<in> set (c_children c)" using well(2) dropped(1) by (cases "c_children c") auto
    have same: "rs_containers (sp_state s) = rs_containers st" by (simp add: dropped drop_instances_def)
    moreover have "length (rs_nodes (sp_state s)) < length (rs_nodes st)"
      unfolding dropped(2) by (rule drop_instances_length [of "instanceKey ch i"]) (use ch dropped(3) in auto)
    ultimately show ?thesis by (simp add: over_containers_same [OF same])
  next
    case (completed v)
    have "over_containers d incomplete (sp_state s) < over_containers d incomplete st"
      by (rule over_containers_update(2) [OF c, where g = "\<lambda>x. x\<lparr>cs_results := Some ((results_of cs)[i := v])\<rparr>"])
        (use count_nulls [OF completed(1,2,3)] in
          \<open>simp_all add: completed(4) withContainer_def drop_instances_def incomplete_def results_of_def id\<close>)
    then show ?thesis ..
  next
    case (doomed blame)
    let ?g = "\<lambda>x. x\<lparr>cs_doomed := Some \<lparr>dm_blame = blame, dm_flipped = flipped_keys st (instanceKeysOf d st c)\<rparr>\<rparr>"
    have st': "rs_containers (sp_state s) = update_at cid ?g (rs_containers st)"
      by (simp add: doomed doom_items_def withContainer_def fold_withNode id Let_def)
    have "over_containers d incomplete (sp_state s) \<le> over_containers d incomplete st"
      by (rule over_containers_update(1) [OF c st']) (simp add: incomplete_def results_of_def)
    moreover have "over_containers d undoomed (sp_state s) < over_containers d undoomed st"
      by (rule over_containers_update(2) [OF c st']) (simp add: undoomed_def doomed)
    ultimately show ?thesis by blast
  qed
  then show ?thesis
    using bounces phases unstarted
    by (intro descent_item keeps) (auto simp: open_weight_def rounds_left_def g)
qed

text \<open>Items start.\<close>

lemma start_items_cases:
  assumes "sp_changed (startParallelItems st c)"
  obtains cs upto keys where "map_of (rs_containers st) (c_id c) = Some cs" "cs_status cs = CActive"
    "next_item cs < upto" "upto \<le> length (items_of cs)"
    "sp_state (startParallelItems st c) =
       withContainer (st\<lparr>rs_nodes := foldl (\<lambda>m k. map_set k fresh_node m) (rs_nodes st) keys\<rparr>)
         (c_id c) (\<lambda>x. x\<lparr>cs_nextItem := Some upto\<rparr>)"
    "\<forall>k \<in> set keys. \<exists>ch \<in> set (c_children c). \<exists>n. k = instanceKey ch n"
proof (cases "map_of (rs_containers st) (c_id c)")
  case None
  then show ?thesis using assms by (simp add: startParallelItems_def stay_def)
next
  case (Some cs)
  define batch where "batch = (case c_batchCount c of Some b \<Rightarrow> b | None \<Rightarrow> 1)"
  define running where "running = length (filter (in_flight cs) [0..<next_item cs])"
  define upto where "upto = min (length (items_of cs)) (next_item cs + (batch - running))"
  define ks where "ks = concat (map (\<lambda>i. map (\<lambda>ch. instanceKey ch i) (c_children c)) [next_item cs..<upto])"
  have eq: "startParallelItems st c =
      (if cs_status cs \<noteq> CActive \<or> cs_doomed cs \<noteq> None then stay st
       else if batch \<le> running \<or> length (items_of cs) \<le> next_item cs then stay st
       else moved (withContainer (st\<lparr>rs_nodes := foldl (\<lambda>m k. map_set k fresh_node m) (rs_nodes st) ks\<rparr>)
              (c_id c) (\<lambda>x. x\<lparr>cs_nextItem := Some upto\<rparr>)) [] [])"
    unfolding startParallelItems_def Some option.case Let_def batch_def running_def upto_def ks_def ..
  then have ch: "cs_status cs = CActive" "batch > running" "length (items_of cs) > next_item cs"
    "sp_state (startParallelItems st c) = withContainer (st\<lparr>rs_nodes := foldl (\<lambda>m k. map_set k fresh_node m) (rs_nodes st) ks\<rparr>)
              (c_id c) (\<lambda>x. x\<lparr>cs_nextItem := Some upto\<rparr>)"
    using assms by (auto simp: stay_def moved_def split: if_splits)
  show ?thesis
    by (rule that [OF Some ch(1) _ _ ch(4)])
      (use ch(2,3) in \<open>auto simp: upto_def ks_def\<close>)
qed

lemma map_of_set_many:
  "i \<notin> set ks \<Longrightarrow> map_of (foldl (\<lambda>m k. map_set k v m) m ks) i = map_of m i"
  by (induction ks arbitrary: m) (simp_all add: map_of_map_set)

lemma items_start_descends:
  assumes ok: "walkable d st"
    and c: "container_by_id d cid = Some c" "isParallelForeach c" and s: "sp_changed (startParallelItems st c)"
  shows "(sp_state (startParallelItems st c), st) \<in> descent d" (is "(?st', st) \<in> _")
proof -
  have id: "c_id c = cid" using container_by_id_bound [OF c(1)] by simp
  obtain cs upto keys where cs: "map_of (rs_containers st) cid = Some cs" "cs_status cs = CActive"
    and upto: "next_item cs < upto" "upto \<le> length (items_of cs)"
    and st': "?st' = withContainer (st\<lparr>rs_nodes := foldl (\<lambda>m k. map_set k fresh_node m) (rs_nodes st) keys\<rparr>)
         cid (\<lambda>x. x\<lparr>cs_nextItem := Some upto\<rparr>)"
    and instances: "\<forall>k \<in> set keys. \<exists>ch \<in> set (c_children c). \<exists>n. k = instanceKey ch n"
    using start_items_cases [OF s] id by metis
  have keys: "\<forall>k \<in> set keys. 64 \<in> set k" using instances instance_not_plain by auto
  have plain: "plain_ids d" using walkableD [OF ok c(1) cs(1)] c(2) cs(2) by (simp add: entered_well_def)
  let ?g = "\<lambda>x. x\<lparr>cs_nextItem := Some upto\<rparr>"
  have g: "rs_containers ?st' = update_at cid ?g (rs_containers st)" by (simp add: st' withContainer_def)
  have "over_containers d unstarted ?st' < over_containers d unstarted st"
    using upto by (intro over_containers_update(2) [OF c(1) cs(1) g]) (simp add: unstarted_def items_of_def next_item_def)
  moreover have "loop_phases d ?st' = loop_phases d st"
    using keys by (intro loop_phases_instances [OF plain]) (auto simp: st' withContainer_def map_of_set_many)
  ultimately show ?thesis
    by (intro descent_item over_containers_update(1) [OF c(1) cs(1) g])
      (simp_all add: st' withContainer_def open_weight_def rounds_left_def items_of_def)
qed

text \<open>Nodes.\<close>

lemma withNode_descends:
  assumes ns: "map_of (rs_nodes st) sid = Some ns" "ns_status ns = Pending" and left: "ns_status (f ns) \<noteq> Pending"
    and late: "\<And>i c. container_by_id d i = Some c \<Longrightarrow> c_kind c = Loop \<Longrightarrow> sid \<in> set (c_children c)
        \<Longrightarrow> TERMINAL_NODE (ns_status (f ns)) \<Longrightarrow> round_phase st (c_children c) \<noteq> 1"
  shows "(withNode st sid f, st) \<in> descent d"
proof (rule descent_node)
  show "loop_phases d (withNode st sid f) \<le> loop_phases d st"
    by (rule loop_phases_withNode [where f = f, OF ns(1) left late ns(2)])
  show "pending_nodes (withNode st sid f) < pending_nodes st"
    by (rule pending_withNode [where f = f, OF ns left])
qed (simp_all add: withNode_def)

text \<open>A node that the walk visits and that is a child of a loop is visited as its child.\<close>

lemma visited_child:
  assumes flat: "flat d" and ok: "walkable d st" and v: "visits d st sc i incoming"
    and c: "container_by_id d cid = Some c" and sid: "ikey d sc i \<in> set (c_children c)"
  shows "sc = None \<and> i \<in> set (c_children c) \<and> incoming = entries (childIncoming d) i"
  using v
proof cases
  case at_top
  then have "i \<in> set (c_children c)" using sid by (simp add: ikey_def)
  then have "map_of (owners d) i \<noteq> None" "i \<notin> c_id ` set (bound_containers d)"
    using child_facts(1) [OF c] at_top(4) by (auto simp: container_by_id_def by_id_None)
  then have False using at_top(3) by (auto simp: topEntities_def map_of_eq_None_iff)
  then show ?thesis ..
next
  case (in_body cid' c')
  then show ?thesis using sid by (simp add: ikey_def)
next
  case (in_item cid' c' k)
  obtain cs where cs: "map_of (rs_containers st) cid' = Some cs" "cs_status cs = CActive"
    using in_item(5) by (auto simp: is_active_def split: option.splits)
  have "plain_ids d" using walkableD [OF ok in_item(3) cs(1)] in_item(4) cs(2) by (simp add: entered_well_def)
  then have plain: "64 \<notin> set (ikey d sc i)" by (rule plain_child [OF _ c sid])
  have "map_of (owners d) i = Some (c_id c')"
    using child_facts(1) [OF in_item(3,6)] container_by_id_bound [OF in_item(3)] by simp
  then have "ikey d sc i = instanceKey i k" using in_item(1) by (simp add: ikey_def)
  then show ?thesis using plain instance_not_plain by simp
qed

lemma advance_descends:
  assumes flat: "flat d" and ok: "walkable d st" and step: "advance d st cmds st'"
  shows "(st', st) \<in> descent d"
  using step
proof cases
  case (bounce be)
  then show ?thesis using bounce_descends by simp
next
  case (shift cid c cs f outs)
  then show ?thesis using shift_descends by simp
next
  case (next_item cid c cs rs)
  show ?thesis unfolding next_item(2) by (rule next_item_descends [OF next_item(3,5,8)])
next
  case (next_round cid c cs)
  show ?thesis unfolding next_round(2) by (rule next_round_descends [OF next_round(3,4,5,7,8)])
next
  case (item_done cid c cs i s)
  show ?thesis unfolding item_done(2) by (rule item_done_descends [OF ok item_done(3,5,4,6,8)])
next
  case (items_start cid c)
  show ?thesis unfolding items_start(2) by (rule items_start_descends [OF ok items_start(3,4,7)])
next
  case (node_start sc i incoming sid ns s c cb)
  have s: "\<not> TERMINAL_NODE s" "s \<noteq> Pending" using node_start(8) by (auto simp: TERMINAL_NODE_def)
  show ?thesis
    unfolding node_start(2) start_node_def
    by (rule withNode_descends [OF node_start(5,6)]) (simp_all add: s)
next
  case (node_skip sc i incoming sid ns jn r)
  show ?thesis
    unfolding node_skip(2) skip_node_def
  proof (rule withNode_descends [OF node_skip(5,6)])
    fix cid c assume c: "container_by_id d cid = Some c" "c_kind c = Loop" "sid \<in> set (c_children c)"
    then have in_loop: "sc = None" "i \<in> set (c_children c)" "incoming = entries (childIncoming d) i"
      using visited_child [OF flat ok node_skip(3) c(1)] node_skip(4) by auto
    then have "\<exists>f \<in> set (c_children c). node_terminal st f"
      using node_skip(7) by (intro skip_is_late [OF flat c(1) in_loop(2)]) simp
    then show "round_phase st (c_children c) \<noteq> 1" by (auto simp: round_phase_def list_ex_iff)
  qed simp
qed

text \<open>And they keep what the descent rests on.\<close>

lemma advance_walkable:
  assumes flat: "flat d" and ok: "walkable d st" and step: "advance d st cmds st'"
  shows "walkable d st'"
  using step
proof cases
  case (bounce be)
  then show ?thesis using ok walkable_same by (simp add: bounced_def resetNodes_keeps walkable_def)
next
  case (shift cid c cs f outs)
  have "entered_well d c cs" by (rule walkableD [OF ok shift(2,3)])
  moreover have "\<not> TERMINAL_CONTAINER (cs_status cs)" using shift(4) by (simp add: terminal_weight)
  ultimately have "entered_well d c (f cs)"
    unfolding entered_well_def shift(5) using shift(6) by blast
  then show ?thesis
    unfolding shift(1)
    by (intro walkable_update [OF ok flat shift(2,3), where g = f]) (simp_all add: update_container_def)
next
  case (next_item cid c cs rs)
  have id: "c_id c = cid" using container_by_id_bound [OF next_item(3)] by simp
  have "entered_well d c cs" by (rule walkableD [OF ok next_item(3,5)])
  then show ?thesis
    unfolding next_item(2)
    by (intro walkable_update [OF ok flat next_item(3,5),
          where g = "\<lambda>x. x\<lparr>cs_results := Some rs, cs_round := cs_round x + 1\<rparr>"])
      (simp_all add: resetContainerRound_keeps withContainer_def update_at_twice id entered_well_def)
next
  case (next_round cid c cs)
  have id: "c_id c = cid" using container_by_id_bound [OF next_round(3)] by simp
  have "entered_well d c cs" by (rule walkableD [OF ok next_round(3,5)])
  then show ?thesis
    unfolding next_round(2)
    by (intro walkable_update [OF ok flat next_round(3,5), where g = "\<lambda>x. x\<lparr>cs_round := cs_round x + 1\<rparr>"])
      (simp_all add: resetContainerRound_keeps id entered_well_def)
next
  case (item_done cid c cs i s)
  have id: "c_id c = cid" using container_by_id_bound [OF item_done(3)] by simp
  have well: "entered_well d c cs" by (rule walkableD [OF ok item_done(3,5)])
  obtain g where g: "rs_containers (sp_state s) = update_at cid g (rs_containers st)"
    "cs_status (g cs) = cs_status cs" "cs_doomed (g cs) \<noteq> None \<longrightarrow> cs_doomed cs \<noteq> None \<or> c_children c \<noteq> []"
    using complete_item_containers [OF item_done(8)] item_done(5) id by metis
  have "entered_well d c (g cs)" using well g(2,3) by (auto simp: entered_well_def)
  then show ?thesis unfolding item_done(2) by (rule walkable_update [OF ok flat item_done(3,5) g(1)])
next
  case (items_start cid c)
  have id: "c_id c = cid" using container_by_id_bound [OF items_start(3)] by simp
  obtain cs upto keys where cs: "map_of (rs_containers st) cid = Some cs"
    and st': "st' = withContainer (st\<lparr>rs_nodes := foldl (\<lambda>m k. map_set k fresh_node m) (rs_nodes st) keys\<rparr>)
         cid (\<lambda>x. x\<lparr>cs_nextItem := Some upto\<rparr>)"
    using start_items_cases [OF items_start(7)] id items_start(2) by metis
  have "entered_well d c cs" by (rule walkableD [OF ok items_start(3) cs])
  then show ?thesis
    unfolding st'
    by (intro walkable_update [OF ok flat items_start(3) cs, where g = "\<lambda>x. x\<lparr>cs_nextItem := Some upto\<rparr>"])
      (simp_all add: withContainer_def entered_well_def)
next
  case (node_start sc i incoming sid ns s c cb)
  then show ?thesis using ok by (simp add: start_node_def withNode_def walkable_def)
next
  case (node_skip sc i incoming sid ns jn r)
  then show ?thesis using ok by (simp add: skip_node_def withNode_def walkable_def)
qed

section \<open>The walk returns\<close>

lemma walks_descend:
  assumes "walks d st b cmds st'" "flat d" "walkable d st"
  shows "walkable d st' \<and> (b \<longrightarrow> (st', st) \<in> (descent d)\<^sup>+) \<and> (\<not> b \<longrightarrow> st' = st)"
  using assms
proof (induction rule: walks.induct)
  case (walks_more st b cmds st' cmds' st'')
  then have "walkable d st'" "(st'', st') \<in> descent d"
    using advance_descends by blast+
  then have "walkable d st''" using advance_walkable walks_more by blast
  moreover have "(st'', st) \<in> (descent d)\<^sup>+"
    using walks_more \<open>(st'', st') \<in> descent d\<close> by (cases b) (auto intro: trancl_into_trancl2)
  ultimately show ?case by simp
qed simp

lemma settle_walk_returns:
  assumes "flat d" "walkable d (wk_state w)"
  shows "\<exists>r. settle_walk h d w = Some r"
  using assms(2)
proof (induction "wk_state w" arbitrary: w rule: wf_induct_rule [OF wf_trancl [OF wf_descent [of d]]])
  case (1 w)
  show ?case
  proof (cases "settle_once h d w")
    case (Returns r)
    then show ?thesis by (subst settle_walk.simps) simp
  next
    case (Turns w')
    obtain cs where "walks d (wk_state w) True cs (wk_state w')" using settle_once_ok(1) [OF Turns] by blast
    then have "(wk_state w', wk_state w) \<in> (descent d)\<^sup>+" "walkable d (wk_state w')"
      using walks_descend assms(1) 1(2) by blast+
    then have "\<exists>r. settle_walk h d w' = Some r" using 1(1) by blast
    then show ?thesis using Turns by (subst settle_walk.simps) simp
  qed
qed

lemma settle_returns: "flat d \<Longrightarrow> walkable d st \<Longrightarrow> \<exists>r. settle h d st ds = Some r"
  unfolding settle_def by (rule settle_walk_returns) (simp_all add: start_walk_def)

text \<open>What \<open>settle\<close> returns keeps it walkable.\<close>

lemma settle_walkable:
  assumes "settle h d st ds = Some r" "flat d" "walkable d st"
  shows "walkable d (rr_state r)"
proof -
  obtain b cs st' where w: "walks d st b cs st'" "settled_by h d st' cs r" using settle_ok [OF assms(1)] by blast
  have "walkable d st'" using walks_descend [OF w(1) assms(2,3)] by blast
  moreover have "rs_containers (rr_state r) = rs_containers st'"
    using w(2) by (auto simp: settled_by_def ends_at_def fixpoint_def end_walk_def Let_def split: option.split)
  ultimately show ?thesis by (simp add: walkable_def)
qed

end
