(* ===== verification/RunInvariants.thy ===== *)
theory RunInvariants
  imports SettleTermination
begin

text \<open>
  Invariants of a run's state along the whole reducer. The interface \<open>node_invariant\<close> says what a
  property of node records has to survive; the lemmas carry it through every transition of the
  walk and every handler, and through the fold of a log. Its instances are that every node
  belongs to the document, which makes the reducer total, that retries stay within the budget,
  and that attempt ids are numbered.
\<close>

section \<open>The interface\<close>

text \<open>A change of a node that neither starts nor holds it.\<close>

definition edits :: "node_run_state \<Rightarrow> node_run_state \<Rightarrow> bool" where
  "edits ns ns' \<longleftrightarrow>
     ns_attempts ns' = ns_attempts ns \<and> ns_retries ns' = ns_retries ns
     \<and> (ns_currentAttemptId ns' = ns_currentAttemptId ns \<or> ns_currentAttemptId ns' = None)
     \<and> (ns_status ns' = RetryPending \<longrightarrow> ns_status ns = RetryPending)"

text \<open>A new attempt, after a hold or not.\<close>

definition attempts_again :: "jstr \<Rightarrow> node_run_state \<Rightarrow> node_run_state \<Rightarrow> bool" where
  "attempts_again i ns ns' \<longleftrightarrow>
     ns_status ns' \<noteq> RetryPending \<and> ns_attempts ns' = ns_attempts ns + 1
     \<and> ns_currentAttemptId ns' = Some (attempt_id i (ns_attempts ns))
     \<and> (ns_retries ns' = ns_retries ns
        \<or> ns_status ns = RetryPending \<and> ns_retries ns' = ns_retries ns + 1)"

text \<open>Ids that an instance key is parsed back from.\<close>

definition readable_ids :: "doc \<Rightarrow> bool" where
  "readable_ids d \<longleftrightarrow>
     list_all (\<lambda>n. doc_id (n_id n)) (d_nodes d)"

definition sound_doc :: "doc \<Rightarrow> bool" where
  "sound_doc d \<longleftrightarrow> flat d \<and> readable_ids d"

locale node_invariant =
  fixes d :: doc and P :: "jstr \<Rightarrow> node_run_state \<Rightarrow> bool"
  assumes known: "P i ns \<Longrightarrow> \<exists>n. docNodeFor d i = Some n"
    and fresh: "docNodeFor d i \<noteq> None \<Longrightarrow> P i fresh_node"
    and copied: "P i ns \<Longrightarrow> P i (fresh_node\<lparr>ns_status := Success\<rparr>)"
    and edited: "P i ns \<Longrightarrow> edits ns ns' \<Longrightarrow> P i ns'"
    and reset: "P i ns \<Longrightarrow> P i (reset_node ns)"
    and again: "P i ns \<Longrightarrow> attempts_again i ns ns' \<Longrightarrow> P i ns'"
    and held: "P i ns \<Longrightarrow> docNodeFor d i = Some n \<Longrightarrow> retryEligible n ns k \<Longrightarrow> P i (ns\<lparr>ns_status := RetryPending\<rparr>)"

definition nodes_sat :: "(jstr \<Rightarrow> node_run_state \<Rightarrow> bool) \<Rightarrow> run_state \<Rightarrow> bool" where
  "nodes_sat P st \<longleftrightarrow> list_all (\<lambda>p. P (fst p) (snd p)) (rs_nodes st)"

lemma nodes_satD: "nodes_sat P st \<Longrightarrow> map_of (rs_nodes st) i = Some ns \<Longrightarrow> P i ns"
  using map_of_SomeD [of "rs_nodes st" i ns] by (fastforce simp: nodes_sat_def list_all_iff)

lemma set_map_set: "set (map_set k v m) \<subseteq> insert (k, v) (set m)"
  by (induction k v m rule: map_set.induct) auto

lemma nodes_sat_put:
  assumes "nodes_sat P st" "rs_nodes st' = map_set i ns (rs_nodes st)" "P i ns"
  shows "nodes_sat P st'"
  using assms set_map_set [of i ns "rs_nodes st"] by (force simp: nodes_sat_def list_all_iff)

lemma nodes_sat_withNode:
  assumes "nodes_sat P st" "\<And>ns. P i ns \<Longrightarrow> map_of (rs_nodes st) i = Some ns \<Longrightarrow> P i (f ns)"
  shows "nodes_sat P (withNode st i f)"
proof (cases "map_of (rs_nodes st) i")
  case None
  then show ?thesis using assms(1) by (simp add: withNode_def update_at_def nodes_sat_def)
next
  case (Some ns)
  then have "P i (f ns)" using assms nodes_satD by blast
  then show ?thesis
    by (intro nodes_sat_put [OF assms(1), of _ i "f ns"]) (simp_all add: withNode_def update_at_def Some)
qed

lemma nodes_sat_sub: "nodes_sat P st \<Longrightarrow> set (rs_nodes st') \<subseteq> set (rs_nodes st) \<Longrightarrow> nodes_sat P st'"
  by (auto simp: nodes_sat_def list_all_iff)

lemma nodes_sat_eq: "rs_nodes st' = rs_nodes st \<Longrightarrow> nodes_sat P st' = nodes_sat P st"
  by (simp add: nodes_sat_def)

text \<open>Steps that keep a property keep it along a fold.\<close>

lemma foldl_keeps:
  assumes "Q s" "\<And>s x. x \<in> set xs \<Longrightarrow> Q s \<Longrightarrow> Q (f s x)"
  shows "Q (foldl f s xs)"
  using assms by (induction xs arbitrary: s) auto

lemma instance_known:
  assumes "readable_ids d" "is_node d ch"
  shows "docNodeFor d (instanceKey ch k) \<noteq> None"
proof -
  have "doc_id ch" using assms by (auto simp: readable_ids_def is_node_def list_all_iff)
  moreover have "node_by_id d ch \<noteq> None" using assms(2) by (simp add: node_by_id_None)
  ultimately show ?thesis by (simp add: docNodeFor_def docNodeIdOf_key split: option.split)
qed

section \<open>Transitions of the walk\<close>

context node_invariant begin

lemma nodes_sat_resetNodes:
  assumes "nodes_sat P st"
  shows "nodes_sat P (fst (resetNodes st ids))"
  unfolding resetNodes_def
proof (rule foldl_keeps [where Q = "\<lambda>p. nodes_sat P (fst p)"])
  fix p :: "run_state \<times> skip_reason table" and i assume p: "nodes_sat P (fst p)"
  show "nodes_sat P (fst (reset_one p i))"
  proof (cases "map_of (rs_nodes (fst p)) i")
    case None
    then show ?thesis using p by (cases p) (simp add: reset_one_def)
  next
    case (Some ns)
    show ?thesis
      by (rule nodes_sat_put [OF p, of _ i "reset_node ns"])
        (use Some nodes_satD [OF p Some] in \<open>auto simp: reset_one_def reset split: prod.split\<close>)
  qed
qed (use assms in simp)

lemma nodes_sat_round:
  "nodes_sat P st \<Longrightarrow> nodes_sat P (fst (resetContainerRound st c))"
  using nodes_sat_resetNodes nodes_sat_eq resetContainerRound_keeps(3) by blast

lemma doomed_node: "P k ns \<Longrightarrow> P k (doom_node cid blame ns)"
  by (erule edited) (auto simp: doom_node_def heldRetryToFailure_def edits_def)

lemma advance_nodes:
  assumes readable: "readable_ids d" and sat: "nodes_sat P st" and step: "advance d st cmds st'"
  shows "nodes_sat P st'"
  using step
proof cases
  case (bounce be)
  have "nodes_sat P (st\<lparr>rs_bounces := b\<rparr>)" for b using sat by (simp add: nodes_sat_def)
  then show ?thesis unfolding bounce(2) bounced_def by (rule nodes_sat_resetNodes)
next
  case (shift cid c cs f outs)
  then show ?thesis using sat by (simp add: update_container_def nodes_sat_def)
next
  case (next_item cid c cs rs)
  have "nodes_sat P (withContainer st cid (\<lambda>x. x\<lparr>cs_results := Some rs\<rparr>))"
    using sat by (simp add: withContainer_def nodes_sat_def)
  then show ?thesis unfolding next_item(2) by (rule nodes_sat_round)
next
  case (next_round cid c cs)
  show ?thesis unfolding next_round(2) by (rule nodes_sat_round [OF sat])
next
  case (item_done cid c cs i s)
  show ?thesis
    using item_done(8)
  proof (cases rule: complete_item_cases)
    case dropped
    then show ?thesis unfolding item_done(2) dropped(2) by (intro nodes_sat_sub [OF sat]) (auto simp: drop_instances_def delete_all)
  next
    case (completed v)
    show ?thesis
      unfolding item_done(2) completed(4) by (intro nodes_sat_sub [OF sat]) (auto simp: drop_instances_def delete_all withContainer_def)
  next
    case (doomed blame)
    have "nodes_sat P (foldl (\<lambda>s k. withNode s k (doom_node (c_id c) blame)) st (instanceKeysOf d st c))"
      by (rule foldl_keeps) (auto intro: sat nodes_sat_withNode doomed_node)
    then show ?thesis by (simp add: item_done(2) doomed doom_items_def withContainer_def nodes_sat_def Let_def)
  qed
next
  case (items_start cid c)
  obtain upto keys where
    st': "st' = withContainer (st\<lparr>rs_nodes := foldl (\<lambda>m k. map_set k fresh_node m) (rs_nodes st) keys\<rparr>)
         (c_id c) (\<lambda>x. x\<lparr>cs_nextItem := Some upto\<rparr>)"
    and keys: "\<forall>k \<in> set keys. \<exists>ch \<in> set (c_children c). \<exists>n. k = instanceKey ch n"
    using start_items_cases [OF items_start(7)] items_start(2) by metis
  have known: "P k fresh_node" if k: "k \<in> set keys" for k
  proof (rule fresh)
    obtain ch n where "ch \<in> set (c_children c)" "k = instanceKey ch n" using keys k by blast
    then show "docNodeFor d k \<noteq> None"
      using instance_known [OF readable child_facts(2) [OF items_start(3)]] by blast
  qed
  have "list_all (\<lambda>p. P (fst p) (snd p)) (foldl (\<lambda>m k. map_set k fresh_node m) (rs_nodes st) keys)"
  proof (rule foldl_keeps)
    show "list_all (\<lambda>p. P (fst p) (snd p)) (rs_nodes st)" using sat by (simp add: nodes_sat_def)
    show "list_all (\<lambda>p. P (fst p) (snd p)) (map_set k fresh_node m)"
      if "k \<in> set keys" "list_all (\<lambda>p. P (fst p) (snd p)) m" for m k
      using that(2) known [OF that(1)] set_map_set [of k fresh_node m]
      by (force simp: list_all_iff)
  qed
  then show ?thesis by (simp add: st' withContainer_def nodes_sat_def)
next
  case (node_start sc i incoming sid ns s c cb)
  show ?thesis
    unfolding node_start(2) start_node_def
    by (rule nodes_sat_withNode [OF sat], erule again)
      (use node_start(5,8) in \<open>auto simp: attempts_again_def\<close>)
next
  case (node_skip sc i incoming sid ns jn r)
  show ?thesis
    unfolding node_skip(2) skip_node_def
    by (rule nodes_sat_withNode [OF sat], erule edited) (simp add: edits_def)
qed

lemma walks_nodes: "walks d st b cmds st' \<Longrightarrow> readable_ids d \<Longrightarrow> nodes_sat P st \<Longrightarrow> nodes_sat P st'"
  by (induction rule: walks.induct) (auto intro: advance_nodes)

text \<open>A state of the invariant, and the results that are there and keep to it.\<close>

definition good :: "run_state \<Rightarrow> bool" where
  "good st \<longleftrightarrow> sound_doc d \<and> walkable d st \<and> nodes_sat P st"

definition keeps :: "outcome \<Rightarrow> bool" where
  "keeps m \<longleftrightarrow> (\<exists>r. m = Some r \<and> good (rr_state r))"

lemma settle_keeps:
  assumes "good st"
  shows "keeps (settle h d st ds)"
proof -
  have doc: "flat d" "readable_ids d" "walkable d st" using assms by (simp_all add: good_def sound_doc_def)
  obtain r where s: "settle h d st ds = Some r" using settle_returns [OF doc(1,3)] by blast
  obtain b cs st' where w: "walks d st b cs st'" "settled_by h d st' cs r" using settle_ok [OF s] by blast
  have "nodes_sat P st'" using walks_nodes [OF w(1) doc(2)] assms by (simp add: good_def)
  moreover have "rs_nodes (rr_state r) = rs_nodes st'"
    using w(2) by (auto simp: settled_by_def ends_at_def fixpoint_def end_walk_def Let_def split: option.split)
  ultimately have "good (rr_state r)"
    using settle_walkable [OF s doc(1,3)] assms by (simp add: good_def nodes_sat_def)
  then show ?thesis using s by (simp add: keeps_def)
qed

lemma good_node: "good st \<Longrightarrow> map_of (rs_nodes st) i = Some ns \<Longrightarrow> \<exists>n. docNodeFor d i = Some n"
  using nodes_satD known unfolding good_def by blast

section \<open>Changes of the handlers\<close>

lemma good_nodes: "good st \<Longrightarrow> rs_containers st' = rs_containers st \<Longrightarrow> nodes_sat P st' \<Longrightarrow> good st'"
  by (simp add: good_def walkable_def)

lemma good_same: "good st \<Longrightarrow> rs_containers st' = rs_containers st \<Longrightarrow> rs_nodes st' = rs_nodes st \<Longrightarrow> good st'"
  by (simp add: good_def walkable_def nodes_sat_def)

lemma good_put:
  assumes "good st" "P i ns"
  shows "good (st\<lparr>rs_nodes := map_set i ns (rs_nodes st)\<rparr>)"
proof (rule good_nodes [OF assms(1)])
  show "nodes_sat P (st\<lparr>rs_nodes := map_set i ns (rs_nodes st)\<rparr>)"
    by (rule nodes_sat_put [of P st _ i ns]) (use assms in \<open>simp_all add: good_def\<close>)
qed simp

lemma good_withNode:
  assumes "good st" "\<And>ns. P i ns \<Longrightarrow> map_of (rs_nodes st) i = Some ns \<Longrightarrow> P i (f ns)"
  shows "good (withNode st i f)"
proof -
  have "nodes_sat P (withNode st i f)"
    using assms by (intro nodes_sat_withNode) (simp_all add: good_def)
  then show ?thesis by (intro good_nodes [OF assms(1)]) (simp_all add: withNode_def)
qed

lemma good_edit: "good st \<Longrightarrow> (\<And>ns. edits ns (f ns)) \<Longrightarrow> good (withNode st i f)"
  by (rule good_withNode) (auto intro: edited)

lemma good_patches:
  assumes "good st"
  shows "good (st\<lparr>rs_branches := br\<rparr>)" "good (st\<lparr>rs_variables := vs\<rparr>)" "good (st\<lparr>rs_outputs := outs\<rparr>)"
    "good (st\<lparr>rs_status := rst\<rparr>)" "good (st\<lparr>rs_status := rst, rs_waitingReason := why\<rparr>)"
    "good (st\<lparr>rs_runId := rid\<rparr>)" "good (st\<lparr>rs_cancelRequested := cr\<rparr>)" "good (st\<lparr>rs_triggerContext := tc\<rparr>)"
    "good (st\<lparr>rs_runId := rid, rs_triggerContext := tc\<rparr>)"
    "good (with_outputs st i o1)" "good (unparkIfWaiting st)" "good (markStoppedWork st)" "good (withoutHeldWait st i)"
    "s \<noteq> RetryPending \<Longrightarrow> good (with_status st i s)" "good (cancelling st src)"
  using assms
  by (auto intro!: good_same [OF assms] good_edit
      simp: with_outputs_def unparkIfWaiting_def markStoppedWork_def withoutHeldWait_def with_status_def
        cancelling_def edits_def split: option.split)

lemma good_ends:
  assumes "good st"
  shows "good (failed st i)" "good (stopped st i)" "good (succeeded st i outs)"
  using assms by (simp_all add: failed_def stopped_def succeeded_def good_patches)

lemmas good_intros = good_patches good_ends

lemma good_hold:
  assumes "good st" "docNodeFor d i = Some n" "map_of (rs_nodes st) i = Some ns" "retryEligible n ns k"
  shows "good (with_status st i RetryPending)"
  unfolding with_status_def using assms(3,4) by (intro good_withNode [OF assms(1)] held [OF _ assms(2)]) auto

lemma good_again:
  assumes "good st" "\<And>ns. map_of (rs_nodes st) i = Some ns \<Longrightarrow> attempts_again i ns (f ns)"
  shows "good (withNode st i f)"
  by (rule good_withNode [OF assms(1)], erule again, erule assms(2))

lemma keeps_simps [simp]:
  "keeps (kept st) = good st" "keeps (reported st m) = good st" "keeps (refused st m) = good st"
  "keeps (asked st c) = good st" "\<not> keeps None" "keeps (Some (result_of st cmds ds)) = good st"
  
  by (simp_all add: keeps_def kept_def reported_def refused_def asked_def result_of_def)

lemma keeps_with_commands [simp]: "keeps (map_option (with_commands cmds) oc) = keeps oc"
  by (cases oc) (simp_all add: keeps_def with_commands_def)

section \<open>Handlers of a node's attempt\<close>

lemma onDispatched_keeps: "good st \<Longrightarrow> keeps (onDispatched st i a)"
  by (auto simp: onDispatched_def good_intros split: option.split)

lemma onSucceeded_keeps: "good st \<Longrightarrow> keeps (onSucceeded h d st i a outs)"
  by (auto simp: onSucceeded_def Let_def good_intros settle_keeps dest: good_node split: option.split)

lemma onControlBranchEvaluated_keeps: "good st \<Longrightarrow> keeps (onControlBranchEvaluated h d st i a b)"
  by (auto simp: onControlBranchEvaluated_def good_intros settle_keeps split: option.split)

lemma onVariableWritten_keeps: "good st \<Longrightarrow> keeps (onVariableWritten h d st i a op nm v)"
  by (auto simp: onVariableWritten_def good_intros settle_keeps dest: good_node split: option.split)

lemma onInactive_keeps: "good st \<Longrightarrow> keeps (onInactive h d st i a m)"
  by (auto simp: onInactive_def edits_def mark_status_def intro!: settle_keeps good_edit
      split: option.split inactive_mark.split)

lemma fail_live_keeps:
  assumes "good st" "map_of (rs_nodes st) i = Some ns"
  shows "keeps (fail_live h d st i a (docNodeFor d i) ns k after)"
  using assms good_node [OF assms] good_hold [OF assms(1) _ assms(2)] by (auto simp: fail_live_def eligible_for_retry_def good_intros settle_keeps)

lemma onFailed_keeps: "good st \<Longrightarrow> keeps (onFailed h d st i a k after)"
  by (auto simp: onFailed_def fail_live_keeps dest: good_node split: option.split)

lemma dispatch_again_keeps: "good st \<Longrightarrow> docNodeFor d i = Some n \<Longrightarrow> keeps (dispatch_again h d st i a)"
  by (auto simp: dispatch_again_def split: option.split sum.split)

lemma new_attempt_again:
  "ns_retries (f ns) = ns_retries ns \<or> ns_status ns = RetryPending \<and> ns_retries (f ns) = ns_retries ns + 1
     \<Longrightarrow> attempts_again i ns (new_attempt i f ns)"
  by (simp add: attempts_again_def new_attempt_def)

lemma onRetryDue_keeps:
  assumes "good st"
  shows "keeps (onRetryDue h d st i a)"
proof (cases "map_of (rs_nodes st) i")
  case (Some ns)
  obtain n where n: "docNodeFor d i = Some n" using good_node [OF assms Some] by blast
  show ?thesis
    using assms Some
    by (auto simp: onRetryDue_def redispatch_def intro!: dispatch_again_keeps [OF _ n] good_again new_attempt_again)
qed (simp add: onRetryDue_def assms)

lemma onRetryRequested_keeps:
  assumes "good st"
  shows "keeps (onRetryRequested h d st i a)"
proof (cases "map_of (rs_nodes st) i")
  case (Some ns)
  obtain n where n: "docNodeFor d i = Some n" using good_node [OF assms Some] by blast
  show ?thesis
    using assms Some
    by (auto simp: onRetryRequested_def Let_def good_intros
        intro!: settle_keeps dispatch_again_keeps [OF _ n] good_patches(3) good_again new_attempt_again)
qed (simp add: onRetryRequested_def assms)

lemma onCallReturned_keeps: "good st \<Longrightarrow> keeps (onCallReturned h d st i a ch oc outs)"
  by (auto simp: onCallReturned_def Let_def good_intros settle_keeps dest: good_node split: option.split)

lemma onCallDetached_keeps: "good st \<Longrightarrow> keeps (onCallDetached h d st i a ch)"
  by (auto simp: onCallDetached_def Let_def good_intros settle_keeps dest: good_node split: option.split)

lemma onNotReady_keeps: "good st \<Longrightarrow> keeps (onNotReady h d st i a why after g)"
  by (auto simp: onNotReady_def Let_def good_intros edits_def intro!: settle_keeps good_edit split: option.split)

lemma onAwaitingCallback_keeps: "good st \<Longrightarrow> keeps (onAwaitingCallback h d st i a outs t)"
  by (auto simp: onAwaitingCallback_def Let_def good_intros edits_def intro!: settle_keeps good_edit split: option.split)

lemma settleWebCallback_keeps:
  assumes "good st" "map_of (rs_nodes st) i = Some ns"
  shows "keeps (settleWebCallback h d st i req cb err)"
proof -
  obtain n where "docNodeFor d i = Some n" using good_node [OF assms] by blast
  then show ?thesis
    using assms(1) by (auto simp: settleWebCallback_def Let_def good_intros settle_keeps split: option.split)
qed

lemma unpark_nodes [simp]: "rs_nodes (unparkIfWaiting st) = rs_nodes st"
  by (simp add: unparkIfWaiting_def)

lemma parked_node: "parked_at st i a = Some ns \<Longrightarrow> map_of (rs_nodes st) i = Some ns"
  by (auto simp: parked_at_def split: option.splits if_splits)

lemma onRecheckScheduled_keeps: "good st \<Longrightarrow> keeps (onRecheckScheduled h d st i a t)"
  by (auto simp: onRecheckScheduled_def good_intros edits_def intro!: settle_keeps good_edit split: option.split)

lemma onRecheckDue_keeps:
  assumes "good st"
  shows "keeps (onRecheckDue h d st i a)"
proof (cases "map_of (rs_nodes st) i")
  case (Some ns)
  obtain n where n: "docNodeFor d i = Some n" using good_node [OF assms Some] by blast
  show ?thesis
    using assms Some
    by (auto simp: onRecheckDue_def redispatch_def good_intros
        intro!: dispatch_again_keeps [OF _ n] good_again new_attempt_again)
qed (simp add: onRecheckDue_def assms)

lemma onWaitScheduled_keeps: "good st \<Longrightarrow> keeps (onWaitScheduled h d st i a)"
  by (auto simp: onWaitScheduled_def good_intros settle_keeps split: option.split)

lemma onWaitDue_keeps: "good st \<Longrightarrow> keeps (onWaitDue h d st i a)"
  by (auto simp: onWaitDue_def good_intros settle_keeps split: option.split)

lemma onExternalWaitCreated_keeps: "good st \<Longrightarrow> keeps (onExternalWaitCreated h d st i a came)"
  by (auto simp: onExternalWaitCreated_def good_intros settle_keeps settleWebCallback_keeps dest: good_node split: option.split)

lemma onExternalWaitCompleted_keeps: "good st \<Longrightarrow> keeps (onExternalWaitCompleted h d st i a outs err)"
  by (auto simp: onExternalWaitCompleted_def good_intros settle_keeps settleWebCallback_keeps dest: parked_node good_node [OF _ parked_node] split: option.split)

lemma onExternalWaitExpired_keeps: "good st \<Longrightarrow> keeps (onExternalWaitExpired h d st i a)"
  by (auto simp: onExternalWaitExpired_def good_intros settle_keeps split: option.split)

lemmas attempt_keeps =
  onDispatched_keeps onSucceeded_keeps onControlBranchEvaluated_keeps onVariableWritten_keeps onInactive_keeps
  onFailed_keeps onRetryDue_keeps onRetryRequested_keeps onCallReturned_keeps onCallDetached_keeps
  onNotReady_keeps onAwaitingCallback_keeps onRecheckScheduled_keeps onRecheckDue_keeps onWaitScheduled_keeps
  onWaitDue_keeps onExternalWaitCreated_keeps onExternalWaitCompleted_keeps onExternalWaitExpired_keeps

lemma on_node_event_keeps: "good st \<Longrightarrow> keeps (on_node_event h d st i a e)"
  by (cases e) (simp_all add: on_node_event_def attempt_keeps)

section \<open>Handlers of the run\<close>


lemma good_container:
  assumes "good st" "\<And>c cs. entered_well d c cs \<Longrightarrow> entered_well d c (g cs)"
    and "rs_containers st' = update_at cid g (rs_containers st)" "nodes_sat P st'"
  shows "good st'"
  using assms by (auto simp: good_def walkable_def list_all_iff map_of_update_at split: option.splits if_splits)

lemma closed_well: "TERMINAL_CONTAINER (cs_status cs) \<Longrightarrow> entered_well d c cs"
  by (auto simp: entered_well_def)

lemma onContainerTimeoutScheduled_keeps:
  assumes "good st"
  shows "keeps (onContainerTimeoutScheduled st cid due)"
proof -
  have "good (withContainer st cid (\<lambda>x. x\<lparr>cs_timeoutDueAt := Some due\<rparr>))"
    using assms by (intro good_container [OF assms, where g = "\<lambda>x. x\<lparr>cs_timeoutDueAt := Some due\<rparr>"])
      (simp_all add: entered_well_def withContainer_def good_def nodes_sat_def)
  then show ?thesis using assms by (auto simp: onContainerTimeoutScheduled_def split: option.split)
qed

lemma good_abandon: "good st \<Longrightarrow> good (abandonLiveChildren st cid ids)"
  unfolding abandonLiveChildren_def
  by (rule foldl_keeps) (auto simp: abandon_def edits_def intro: good_edit)

lemma good_exit:
  assumes "good st" "TERMINAL_CONTAINER oc"
  shows "good (exitContainer st c oc r)"
  using assms(1) closed_well assms(2)
  by (intro good_container [OF assms(1), where g = "\<lambda>cs. cs\<lparr>cs_status := oc, cs_outputs := projectContainerOutputs c st,
          cs_reason := (case r of Some x \<Rightarrow> Some x | None \<Rightarrow> cs_reason cs)\<rparr>"])
    (simp_all add: exitContainer_def with_outputs_def withContainer_def good_def nodes_sat_def Let_def)

lemma onContainerTimedOut_keeps: "good st \<Longrightarrow> keeps (onContainerTimedOut h d st cid)"
  by (auto simp: onContainerTimedOut_def TERMINAL_CONTAINER_def
      intro!: settle_keeps good_exit good_abandon split: option.split)

lemma onCancelRequested_keeps:
  assumes "good st"
  shows "keeps (onCancelRequested h d st src)"
proof -
  let ?next = "cancelling (unparkIfWaiting st) src"
  have good: "good ?next" using assms by (simp add: good_patches)
  have "good (foldl cancel_hold ?next (rs_nodes ?next))"
  proof (rule foldl_keeps)
    fix s p assume p: "p \<in> set (rs_nodes ?next)" and s: "good s"
    have "P (fst p) (snd p)" using good p by (auto simp: good_def nodes_sat_def list_all_iff)
    then have "P (fst p) (heldRetryToFailure (snd p))"
      by (rule edited) (simp add: edits_def heldRetryToFailure_def)
    then have "good (s\<lparr>rs_nodes := map_set (fst p) (heldRetryToFailure (snd p)) (rs_nodes s)\<rparr>)"
      by (rule good_put [OF s])
    then show "good (cancel_hold s p)" using s by (simp add: cancel_hold_def good_intros)
  qed (rule good)
  then show ?thesis using assms by (simp add: onCancelRequested_def Let_def settle_keeps)
qed

lemma resumeCancelled_keeps: "good st \<Longrightarrow> keeps (resumeCancelled h d st)"
  unfolding resumeCancelled_def
  by (rule settle_keeps, rule foldl_keeps) (simp_all add: resume_lost_def good_intros)

lemma onResumed_keeps: "good st \<Longrightarrow> keeps (onResumed h d st)"
  by (auto simp: onResumed_def Let_def good_intros resumeCancelled_keeps settle_keeps split: sum.split)

text \<open>The start of a run, and what a rerun copies.\<close>

lemma start_nodes_sat: "list_all (\<lambda>p. P (fst p) (snd p)) (start_nodes d)"
  unfolding start_nodes_def
proof (rule foldl_keeps)
  fix m i assume i: "i \<in> set (filter (\<lambda>i. i \<notin> set (parallelChildIds d)) (map n_id (d_nodes d)))"
    and m: "list_all (\<lambda>p. P (fst p) (snd p)) m"
  have "is_node d i" using i by (auto simp: is_node_def)
  then have "docNodeFor d i \<noteq> None" using node_by_id_None by (auto simp: docNodeFor_def split: option.split)
  then have "P i fresh_node" by (rule fresh)
  then show "list_all (\<lambda>p. P (fst p) (snd p)) (map_set i fresh_node m)"
    using m set_map_set [of i fresh_node m] by (force simp: list_all_iff)
qed simp

lemma start_containers_fresh: "map_of (start_containers d) i = Some cs \<Longrightarrow> cs = fresh_container"
proof -
  have "\<forall>i cs. map_of (start_containers d) i = Some cs \<longrightarrow> cs = fresh_container"
    unfolding start_containers_def by (rule foldl_keeps) (auto simp: map_of_map_set)
  then show "map_of (start_containers d) i = Some cs \<Longrightarrow> cs = fresh_container" by blast
qed

lemma good_started: "sound_doc d \<Longrightarrow> good (started_state d st rid ev)"
proof -
  have "entered_well d c fresh_container" for c by (simp add: entered_well_def fresh_container_def)
  then show "sound_doc d \<Longrightarrow> good (started_state d st rid ev)"
    using start_nodes_sat start_containers_fresh
    by (auto simp: good_def nodes_sat_def walkable_def started_state_def list_all_iff split: option.split)
qed

lemma onRunStarted_keeps: "good st \<Longrightarrow> keeps (onRunStarted h d st rid ev)"
  by (auto simp: onRunStarted_def Let_def intro!: settle_keeps good_started) (simp_all add: good_def)

lemma onRunTriggerContext_keeps: "good st \<Longrightarrow> keeps (onRunTriggerContext st rid t s b)"
  by (simp add: onRunTriggerContext_def good_patches)

lemma good_set_container:
  assumes "good st" "TERMINAL_CONTAINER (cs_status cs)"
  shows "good (set_container st cid cs)"
  using assms closed_well [OF assms(2)]
  by (auto simp: good_def set_container_def walkable_def list_all_iff map_of_map_set nodes_sat_def)

lemma good_copy_node: "good (fst p) \<Longrightarrow> good (fst (copy_node ev p i))"
proof -
  assume g: "good (fst p)"
  obtain st applied ds where p: "p = (st, applied, ds)" by (cases p) auto
  show ?thesis
  proof (cases "map_of (rs_nodes st) i")
    case None
    then show ?thesis using g by (simp add: p copy_node_def)
  next
    case (Some ns)
    have "nodes_sat P st" using g by (simp add: p good_def)
    then have "P i (fresh_node\<lparr>ns_status := Success\<rparr>)" using Some nodes_satD copied by blast
    then have "good (st\<lparr>rs_nodes := map_set i (fresh_node\<lparr>ns_status := Success\<rparr>) (rs_nodes st)\<rparr>)"
      using g by (intro good_put) (simp_all add: p)
    then show ?thesis using Some by (simp add: p copy_node_def good_patches)
  qed
qed

lemma good_link_child: "good (fst p) \<Longrightarrow> good (fst (link_child d applied p x))"
  by (auto simp: link_child_def edits_def intro!: good_edit split: prod.split)

lemma good_mark_inactive: "good (fst p) \<Longrightarrow> good (fst (mark_inactive d applied p i))"
  by (auto simp: mark_inactive_def edits_def intro!: good_edit split: prod.split)

lemma good_copy_container: "good (fst p) \<Longrightarrow> good (fst (copy_container d p x))"
  by (auto simp: copy_container_def good_patches good_set_container split: prod.split)

lemma fold_pairs:
  "good (fst p) \<Longrightarrow> (\<And>p x. good (fst p) \<Longrightarrow> good (fst (f p x))) \<Longrightarrow> good (fst (foldl f p xs))"
  by (induction xs arbitrary: p) auto

lemma good_reseeded:
  assumes "good st"
  shows "good (fst (reseeded_state d st ev))"
proof -
  obtain s1 applied d1 where 1: "foldl (copy_node ev) (st, [], []) (re_frontier ev) = (s1, applied, d1)"
    by (metis prod_cases3)
  obtain s2 linked d2 where 2: "foldl (link_child d applied) (s1, [], d1) (re_childLinks ev) = (s2, linked, d2)"
    by (metis prod_cases3)
  obtain s3 d3 where 3: "foldl (mark_inactive d applied) (s2, d2) (js_set (re_copiedInactive ev)) = (s3, d3)"
    by fastforce
  obtain s4 d4 where 4: "foldl (copy_container d) (s3, d3) (re_copiedContainers ev) = (s4, d4)"
    by fastforce
  have "good s1" using fold_pairs [of "(st, [], [])" "copy_node ev"] assms good_copy_node 1 by (metis fst_conv)
  then have "good s2" using fold_pairs [of "(s1, [], d1)" "link_child d applied"] good_link_child 2 by (metis fst_conv)
  then have "good s3" using fold_pairs [of "(s2, d2)" "mark_inactive d applied"] good_mark_inactive 3 by (metis fst_conv)
  then have "good s4" using fold_pairs [of "(s3, d3)" "copy_container d"] good_copy_container 4 by (metis fst_conv)
  then show ?thesis by (simp add: reseeded_state_def 1 2 3 4 good_patches split: prod.split)
qed

lemma onReseeded_keeps:
  assumes "good st"
  shows "keeps (onReseeded h d st ev)"
proof -
  obtain nxt ds where n: "reseeded_state d st ev = (nxt, ds)" by fastforce
  have "good nxt" using good_reseeded [OF assms, of ev] n by simp
  then show ?thesis using assms by (simp add: onReseeded_def n settle_keeps)
qed

section \<open>The reducer\<close>

lemma on_live_event_keeps: "good st \<Longrightarrow> keeps (on_live_event h d st b)"
  by (cases b)
    (simp_all add: on_live_event_def on_node_event_keeps onContainerTimeoutScheduled_keeps onContainerTimedOut_keeps
      onCancelRequested_keeps onResumed_keeps onReseeded_keeps onRunFinished_def good_patches)

lemma on_pending_keeps: "good st \<Longrightarrow> keeps (on_pending st rid b)"
  by (cases b) (auto simp: on_pending_def good_patches split: run_outcome.split)

lemma reduce_keeps: "good st \<Longrightarrow> keeps (reduce h d st ev)"
  by (auto simp: reduce_def onRunStarted_keeps onRunTriggerContext_keeps on_pending_keeps on_live_event_keeps
      split: event_body.split)

lemma fold_log_keeps: "good st \<Longrightarrow> \<exists>st'. fold_log h d st evs = Some st' \<and> good st'"
proof (induction evs arbitrary: st)
  case (Cons ev evs)
  obtain r where "reduce h d st ev = Some r" "good (rr_state r)"
    using reduce_keeps [OF Cons.prems, of h ev] by (auto simp: keeps_def)
  then show ?case using Cons.IH by simp
qed simp

lemma good_seed: "sound_doc d \<Longrightarrow> good (seedState d)"
  by (auto simp: good_def seedState_def walkable_def nodes_sat_def list_all_iff)

lemma projected_good: "sound_doc d \<Longrightarrow> \<exists>st. projectRunState h d evs = Some st \<and> good st"
  using fold_log_keeps good_seed unfolding projectRunState_def by blast

lemma projected_node:
  assumes "projectRunState h d evs = Some st" "sound_doc d" "map_of (rs_nodes st) i = Some ns"
  shows "P i ns"
  using projected_good [OF assms(2), of h evs] nodes_satD [of P st i ns] assms(1,3) by (auto simp: good_def)

end

section \<open>Instances\<close>

text \<open>Every node of the state belongs to the document.\<close>

interpretation known: node_invariant d "\<lambda>i ns. docNodeFor d i \<noteq> None" for d
  by unfold_locales simp_all

text \<open>Retries stay within the budget of the policy.\<close>

definition retry_budget :: "doc \<Rightarrow> jstr \<Rightarrow> nat" where
  "retry_budget d i =
     (case docNodeFor d i of
        None \<Rightarrow> 0
      | Some n \<Rightarrow>
          (case n_policy n of
             None \<Rightarrow> 0
           | Some p \<Rightarrow> (case pl_retry p of None \<Rightarrow> 0 | Some budget \<Rightarrow> budget)))"

interpretation budget: node_invariant d
  "\<lambda>i ns. docNodeFor d i \<noteq> None \<and> ns_retries ns \<le> retry_budget d i \<and> (ns_status ns = RetryPending \<longrightarrow> ns_retries ns < retry_budget d i)" for d
  by unfold_locales
    (auto simp: fresh_node_def reset_node_def edits_def attempts_again_def retryEligible_def retry_budget_def)

text \<open>The current attempt of a node is the last one it was numbered with.\<close>

definition numbered :: "jstr \<Rightarrow> node_run_state \<Rightarrow> bool" where
  "numbered i ns \<longleftrightarrow>
     (case ns_currentAttemptId ns of
        None \<Rightarrow> True
      | Some a \<Rightarrow> 0 < ns_attempts ns \<and> a = attempt_id i (ns_attempts ns - 1))"

interpretation attempts: node_invariant d "\<lambda>i ns. docNodeFor d i \<noteq> None \<and> numbered i ns" for d
  by unfold_locales
    (auto simp: numbered_def fresh_node_def reset_node_def edits_def attempts_again_def split: option.splits)

end
