(* ===== verification/SettleFacts.thy ===== *)
theory SettleFacts
  imports RunInvariants
begin

text \<open>
  What \<open>settle\<close> asks for and where it leaves the run: it keeps the status and the cancellation
  of the run, starts nothing once the run is cancelled, gives a verdict that the reducer accepts,
  parks only a run that something wakes, and leaves no run without a next event.
\<close>

section \<open>What a transition leaves alone\<close>

definition same_run :: "run_state \<Rightarrow> run_state \<Rightarrow> bool" where
  "same_run st st' \<longleftrightarrow>
     rs_runId st' = rs_runId st \<and> rs_status st' = rs_status st
     \<and> rs_cancelRequested st' = rs_cancelRequested st \<and> rs_variables st' = rs_variables st"

lemma same_run_refl [simp]: "same_run st st"
  by (simp add: same_run_def)

lemma same_run_trans: "same_run a b \<Longrightarrow> same_run b c \<Longrightarrow> same_run a c"
  by (simp add: same_run_def)

lemma same_run_resets: "same_run st (fst (resetNodes st ids))"
  unfolding resetNodes_def
  by (rule foldl_keeps [where Q = "\<lambda>p. same_run st (fst p)"])
    (auto simp: reset_one_def same_run_def split: option.split prod.split)

lemma same_run_fold_nodes: "same_run st (foldl (\<lambda>s k. withNode s k (f k)) st ks)"
  by (rule foldl_keeps) (auto simp: withNode_def same_run_def)

lemma same_run_items: "same_run st (sp_state (startParallelItems st c))"
proof (cases "sp_changed (startParallelItems st c)")
  case True
  then show ?thesis by (rule start_items_cases) (simp add: withContainer_def same_run_def)
qed (simp add: startParallelItems_same)

lemma same_run_item:
  assumes "complete_item d st c cs i = Some s"
  shows "same_run st (sp_state s)"
  using assms
proof (cases rule: complete_item_cases)
  case (doomed blame)
  have "same_run (foldl (\<lambda>s k. withNode s k (doom_node (c_id c) blame)) st (instanceKeysOf d st c)) (sp_state s)"
    by (simp add: doomed doom_items_def withContainer_def same_run_def Let_def)
  then show ?thesis by (rule same_run_trans [OF same_run_fold_nodes])
qed (simp_all add: drop_instances_def withContainer_def same_run_def)

lemma same_run_round: "same_run st (fst (resetContainerRound st c))"
proof -
  have "same_run (fst (resetNodes st (c_children c))) (fst (resetContainerRound st c))"
    by (simp add: resetContainerRound_def withContainer_def same_run_def Let_def)
  then show ?thesis by (rule same_run_trans [OF same_run_resets])
qed

lemma advance_same_run:
  assumes "advance d st cmds st'"
  shows "same_run st st'"
  using assms
proof cases
  case (bounce be)
  have "same_run st (st\<lparr>rs_bounces := b\<rparr>)" for b by (simp add: same_run_def)
  then show ?thesis unfolding bounce(2) bounced_def by (rule same_run_trans [OF _ same_run_resets])
next
  case (next_item cid c cs rs)
  have "same_run st (withContainer st cid (\<lambda>x. x\<lparr>cs_results := Some rs\<rparr>))"
    by (simp add: withContainer_def same_run_def)
  then show ?thesis unfolding next_item(2) by (rule same_run_trans [OF _ same_run_round])
qed (simp_all add: update_container_def same_run_round same_run_item same_run_items start_node_def skip_node_def
      withNode_def same_run_def [of st "_\<lparr>rs_nodes := _\<rparr>"] same_run_def [of st "_\<lparr>rs_containers := _, rs_outputs := _\<rparr>"])

text \<open>The commands of the transitions start attempts or schedule timeouts; none once the run is cancelled.\<close>

definition is_work :: "command \<Rightarrow> bool" where
  "is_work c \<longleftrightarrow> is_timeout c \<or> attempt_of c \<noteq> None"

lemma advance_commands:
  assumes "advance d st cmds st'"
  shows "list_all is_work cmds" "rs_cancelRequested st \<noteq> None \<Longrightarrow> cmds = []"
  using assms by (cases; auto simp: is_work_def list_all_iff)+

lemma walks_run:
  assumes "walks d st b cmds st'"
  shows "same_run st st' \<and> list_all is_work cmds \<and> (rs_cancelRequested st \<noteq> None \<longrightarrow> cmds = [])"
  using assms
proof (induction rule: walks.induct)
  case (walks_more st b cmds st' cmds' st'')
  have "rs_cancelRequested st' = rs_cancelRequested st" using walks_more by (simp add: same_run_def)
  moreover have "same_run st st''" using walks_more same_run_trans advance_same_run by blast
  ultimately show ?case using walks_more advance_commands [OF walks_more(2)] by simp
qed simp

text \<open>\<open>settle\<close> is stopped, or comes to rest and asks for what its ending asks for.\<close>

lemma ends_same_run: "ends_at st st' \<Longrightarrow> same_run st st'"
  by (auto simp: ends_at_def same_run_def)

lemma stops_same_run: "same_run st st' \<Longrightarrow> stops st' c = stops st c"
  by (simp add: stops_def same_run_def)

definition endings :: "doc \<Rightarrow> walk \<Rightarrow> command list" where
  "endings d w =
     (case rs_cancelRequested (wk_state w) of
        Some cr \<Rightarrow> cancelled_ending d w cr | None \<Rightarrow> ending d (wk_state w))"

lemma fixpoint_parts:
  "rr_state (fixpoint d w) = wk_state w" "rr_commands (fixpoint d w) = wk_commands w @ endings d w"
  by (simp_all add: fixpoint_def end_walk_def endings_def Let_def split: option.split)

lemma settle_cases:
  assumes "settle h d st ds = Some r"
  obtains (stopped) c where "rr_commands r = [c]" "stops (rr_state r) c" "same_run st (rr_state r)"
    | (rested) w w' cs where "resting h d w" "wk_state w = rr_state r" "wk_state w' = rr_state r"
        "same_run st (rr_state r)" "list_all is_work cs" "rs_cancelRequested st \<noteq> None \<longrightarrow> cs = []"
        "rr_commands r = cs @ endings d w'"
proof -
  obtain b cs st' where w: "walks d st b cs st'" and s: "settled_by h d st' cs r"
    using settle_ok [OF assms] by blast
  note run = walks_run [OF w]
  from s show ?thesis
    unfolding settled_by_def
  proof
    assume a: "ends_at st' (rr_state r) \<and> (\<exists>c. rr_commands r = [c] \<and> stops st' c)"
    then obtain c where c: "rr_commands r = [c]" "stops st' c" by blast
    have same: "same_run st' (rr_state r)" using a ends_same_run by blast
    then have "same_run st (rr_state r)" using run same_run_trans by blast
    then show ?thesis using stopped c stops_same_run [OF same] by simp
  next
    assume "\<exists>w w'. resting h d w \<and> wk_state w = st' \<and> wk_state w' = st' \<and> wk_commands w' = cs \<and> r = fixpoint d w'"
    then obtain u u' where "resting h d u" "wk_state u = st'" "wk_state u' = st'" "wk_commands u' = cs"
      "r = fixpoint d u'" by blast
    then show ?thesis
      using run by (intro rested [of u u' cs]) (simp_all add: fixpoint_parts)
  qed
qed

section \<open>The commands of a settle\<close>

lemma endings_cases:
  assumes "c \<in> set (endings d w)"
  shows "(\<exists>cr. rs_cancelRequested (wk_state w) = Some cr \<and> c = cancelFinish (cr_source cr))
    \<or> allTopLevelTerminal d (wk_state w) \<and> c = outcomeFinish d (wk_state w)
    \<or> c = FinishRun OutFailure (Some Stalled)
    \<or> c = ParkRun (parkReason (wk_state w)) \<and> \<not> some_node isNodeInFlight (wk_state w)
       \<and> some_node awaitsExternalEvent (wk_state w)"
  using assms
  by (auto simp: endings_def cancelled_ending_def ending_def Let_def split: option.splits if_splits)

lemma not_work [simp]: "\<not> is_work (FinishRun oc why)" "\<not> is_work (ParkRun w)"
  by (simp_all add: is_work_def is_timeout_def)

text \<open>The verdict that \<open>settle\<close> asks for is one the reducer accepts.\<close>

lemma outcomeFinish_accepted:
  assumes "allTopLevelTerminal d st" "outcomeFinish d st = FinishRun oc why"
  shows "onRunFinished d st oc = kept (st\<lparr>rs_status := status_of_outcome oc\<rparr>)"
  using assms by (auto simp: outcomeFinish_def onRunFinished_def split: option.splits)

lemma stops_accepted:
  assumes "stops st (FinishRun oc why)"
  shows "onRunFinished d st oc = kept (st\<lparr>rs_status := status_of_outcome oc\<rparr>)"
  using assms by (auto simp: stops_def cancelFinish_def onRunFinished_def)

lemma settle_verdict:
  assumes "settle h d st ds = Some r" "FinishRun oc why \<in> set (rr_commands r)"
  shows "onRunFinished d (rr_state r) oc = kept ((rr_state r)\<lparr>rs_status := status_of_outcome oc\<rparr>)"
  using assms(1)
proof (cases rule: settle_cases)
  case (stopped c)
  then have "stops (rr_state r) (FinishRun oc why)" using assms(2) by auto
  then show ?thesis by (rule stops_accepted)
next
  case (rested w w' cs)
  then have "FinishRun oc why \<in> set (endings d w')" using assms(2) by (auto simp: list_all_iff)
  from endings_cases [OF this]
  have "stops (rr_state r) (FinishRun oc why)
      \<or> allTopLevelTerminal d (rr_state r) \<and> outcomeFinish d (rr_state r) = FinishRun oc why"
    using rested(3) by (auto simp: stops_def)
  then show ?thesis using outcomeFinish_accepted stops_accepted by blast
qed

text \<open>A cancelled run is asked for nothing but its end.\<close>

lemma settle_cancelled:
  assumes "settle h d st ds = Some r" "rs_cancelRequested st \<noteq> None"
  shows "\<forall>c \<in> set (rr_commands r). \<exists>oc why. c = FinishRun oc why"
  using assms(1)
proof (cases rule: settle_cases)
  case (stopped c)
  then show ?thesis by (auto simp: stops_def cancelFinish_def)
next
  case (rested w w' cs)
  have "rs_cancelRequested (wk_state w') \<noteq> None" using rested assms(2) by (simp add: same_run_def)
  then show ?thesis
    using rested assms(2)
    by (auto simp: endings_def cancelled_ending_def Let_def cancelFinish_def outcomeFinish_def split: if_splits option.splits)
qed

text \<open>A parked run waits for a timer or a callback, and nothing of it is under way.\<close>

lemma settle_parks:
  assumes "settle h d st ds = Some r" "ParkRun why \<in> set (rr_commands r)"
  shows "\<not> some_node isNodeInFlight (rr_state r) \<and> some_node awaitsExternalEvent (rr_state r)"
  using assms(1)
proof (cases rule: settle_cases)
  case (stopped c)
  then show ?thesis using assms(2) by (auto simp: stops_def cancelFinish_def)
next
  case (rested w w' cs)
  then have "ParkRun why \<in> set (endings d w')" using assms(2) by (auto simp: list_all_iff)
  from endings_cases [OF this] show ?thesis
    using rested(3) by (auto simp: cancelFinish_def outcomeFinish_def split: option.splits)
qed

text \<open>A running run is ended, parked, or has a node in flight whose event comes next.\<close>

definition ends_or_parks :: "command \<Rightarrow> bool" where
  "ends_or_parks c \<longleftrightarrow> (case c of FinishRun _ _ \<Rightarrow> True | ParkRun _ \<Rightarrow> True | _ \<Rightarrow> False)"

lemma ends_or_parks_simps [simp]:
  "ends_or_parks (FinishRun oc why)" "ends_or_parks (ParkRun w)" "ends_or_parks (cancelFinish src)"
  "ends_or_parks (outcomeFinish d st)"
  by (simp_all add: ends_or_parks_def cancelFinish_def outcomeFinish_def split: option.split)

lemma settle_progress:
  assumes "settle h d st ds = Some r" "rs_status st = RunRunning"
  shows "list_ex ends_or_parks (rr_commands r) \<or> some_node isNodeInFlight (rr_state r)"
  using assms(1)
proof (cases rule: settle_cases)
  case (stopped c)
  then show ?thesis by (auto simp: stops_def)
next
  case (rested w w' cs)
  have "rs_status (wk_state w') = RunRunning" using rested assms(2) by (simp add: same_run_def)
  then have "list_ex ends_or_parks (endings d w') \<or> some_node isNodeInFlight (wk_state w')"
    by (simp add: endings_def cancelled_ending_def ending_def Let_def split: option.split)
  then show ?thesis using rested(3,7) by simp
qed

section \<open>A settled run is settled\<close>

text \<open>What a turn does depends on the state of the walk, not on what the walk has gathered.\<close>

definition alike :: "walk \<Rightarrow> walk \<Rightarrow> bool" where
  "alike w v \<longleftrightarrow> wk_state w = wk_state v \<and> wk_changed w = wk_changed v"

definition alike_results :: "(reduce_result, walk) result \<Rightarrow> (reduce_result, walk) result \<Rightarrow> bool" where
  "alike_results m n \<longleftrightarrow>
     (case (m, n) of (Inr w, Inr v) \<Rightarrow> alike w v | (Inl _, Inl _) \<Rightarrow> True | _ \<Rightarrow> False)"

lemma alike_simps [simp]:
  "alike_results (Inr w) (Inr v) = alike w v" "alike_results (Inl a) (Inl b)"
  "\<not> alike_results (Inl a) (Inr v)" "\<not> alike_results (Inr w) (Inl b)"
  by (simp_all add: alike_results_def)

lemma alike_state: "alike w v \<Longrightarrow> wk_state v = wk_state w"
  by (simp add: alike_def)

lemma alike_take_step: "alike w v \<Longrightarrow> alike (take_step s w) (take_step s v)"
  by (simp add: alike_def take_step_def)

lemma alike_absorb:
  "alike w v \<Longrightarrow> sp_finish s = None \<longleftrightarrow> sp_finish s' = None \<Longrightarrow> sp_state s' = sp_state s \<Longrightarrow> sp_changed s' = sp_changed s
    \<Longrightarrow> alike_results (absorb s w) (absorb s' v)"
  by (auto simp: absorb_def alike_def take_step_def Let_def split: option.split)

lemma alike_bind:
  assumes "alike_results m n" "\<And>w v. alike w v \<Longrightarrow> alike_results (f w) (g v)"
  shows "alike_results (bindR m f) (bindR n g)"
  using assms by (cases m; cases n) auto

lemma alike_sweep:
  assumes "\<And>x w v. alike w v \<Longrightarrow> alike_results (f x w) (f x v)" "alike w v"
  shows "alike_results (sweep f xs w) (sweep f xs v)"
  using assms(2)
proof (induction xs arbitrary: w v)
  case (Cons x xs)
  then show ?case by (auto intro!: alike_bind assms(1))
qed simp

lemma alike_child_step: "alike w v \<Longrightarrow> alike_results (child_step h d sc ch w) (child_step h d sc ch v)"
  unfolding child_step_def by (simp add: alike_absorb alike_state)

lemma alike_sweep_top: "alike w v \<Longrightarrow> alike_results (sweep_top h d w) (sweep_top h d v)"
  unfolding sweep_top_def by (rule alike_sweep) (simp_all add: alike_absorb alike_state)

lemma alike_sweep_items:
  assumes "alike w v"
  shows "alike_results (sweep_items h d c w) (sweep_items h d c v)"
proof -
  define start where "start u = (if rs_cancelRequested (wk_state u) = None
                then take_step (startParallelItems (wk_state u) c) u else u)" for u
  have 1: "alike (start w) (start v)"
    using assms alike_take_step by (simp add: start_def alike_state)
  have "alike_results (sweep (\<lambda>p. child_step h d (Some (c, fst p)) (snd p)) xs (start w))
          (sweep (\<lambda>p. child_step h d (Some (c, fst p)) (snd p)) xs (start v))" for xs
    by (rule alike_sweep [OF alike_child_step 1])
  then show ?thesis
    unfolding sweep_items_def start_def [symmetric] Let_def alike_state [OF 1]
    using 1 by (simp split: option.split)
qed

lemma alike_sweep_children: "alike w v \<Longrightarrow> alike_results (sweep_children h d w) (sweep_children h d v)"
  unfolding sweep_children_def
proof (rule alike_sweep)
  fix c w v assume a: "alike w v"
  have "alike_results (sweep (child_step h d None) xs w) (sweep (child_step h d None) xs v)" for xs
    by (rule alike_sweep [OF alike_child_step a])
  then show "alike_results (sweep_container h d c w) (sweep_container h d c v)"
    unfolding sweep_container_def alike_state [OF a] using a alike_sweep_items [OF a] by (simp split: option.split)
qed

lemma alike_fire_step:
  assumes "alike w v"
  shows "alike_results (fire_step d w) (fire_step d v)"
proof -
  obtain s suppressed where f: "fireBackEdges d (wk_state w) = (s, suppressed)" by fastforce
  have "alike (w\<lparr>wk_prevented := p\<rparr>) (v\<lparr>wk_prevented := q\<rparr>)" for p q using assms by (simp add: alike_def)
  then show ?thesis
    unfolding fire_step_def alike_state [OF assms] f prod.case Let_def
    by (intro alike_absorb) (auto split: option.split)
qed

lemma alike_phases:
  assumes "\<And>f w v. f \<in> set fs \<Longrightarrow> alike w v \<Longrightarrow> alike_results (f w) (f v)" "alike w v"
  shows "alike_results (phases fs w) (phases fs v)"
  using assms
proof (induction fs arbitrary: w v)
  case (Cons f fs)
  have "alike_results (if wk_changed w' then Inr w' else phases fs w') (if wk_changed v' then Inr v' else phases fs v')"
    if "alike w' v'" for w' v'
    using that Cons by (auto simp: alike_def)
  then show ?case using Cons.prems by (auto intro!: alike_bind)
qed simp

lemma alike_settle_phases:
  assumes "f \<in> set (settle_phases h d)" "alike w v"
  shows "alike_results (f w) (f v)"
  using assms alike_bind [OF alike_sweep_top [OF assms(2)] alike_sweep_children]
  by (auto simp: settle_phases_def alike_fire_step alike_state intro!: alike_absorb)

lemma resting_alike:
  assumes "resting h d w" "wk_state v = wk_state w"
  obtains v' where "phases (settle_phases h d) (v\<lparr>wk_changed := False\<rparr>) = Inr v'" "\<not> wk_changed v'"
    "wk_state v' = wk_state v" "wk_commands v' = wk_commands v"
proof -
  let ?v = "v\<lparr>wk_changed := False\<rparr>"
  obtain w' where w': "phases (settle_phases h d) (w\<lparr>wk_changed := False\<rparr>) = Inr w'" "\<not> wk_changed w'"
    using assms(1) by (auto simp: resting_def)
  have "alike (w\<lparr>wk_changed := False\<rparr>) ?v" using assms(2) by (simp add: alike_def)
  then have "alike_results (Inr w') (phases (settle_phases h d) ?v)"
    using alike_phases [OF alike_settle_phases] w'(1) by metis
  then obtain v' where v': "phases (settle_phases h d) ?v = Inr v'" "alike w' v'"
    by (cases "phases (settle_phases h d) ?v") auto
  have "walk_ok d ?v (Inr v')"
    unfolding v'(1) [symmetric] by (rule phases_ok) (rule settle_phases_ok)
  then obtain b cs where b: "walks d (wk_state v) b cs (wk_state v')" "wk_commands v' = wk_commands v @ cs"
      "wk_changed v' = b"
    by (auto simp: walk_to_def)
  have "\<not> b" using w'(2) v'(2) b(3) by (simp add: alike_def)
  then have "wk_state v' = wk_state v" "cs = []" using b(1) walks_False by auto
  then show ?thesis using that v'(1) b(2,3) \<open>\<not> b\<close> by simp
qed

lemma settle_settled:
  assumes "settle h d st ds = Some r" "\<forall>oc why. FinishRun oc why \<notin> set (rr_commands r)"
  shows "\<exists>r'. settle h d (rr_state r) ds' = Some r' \<and> rr_state r' = rr_state r
    \<and> list_all (\<lambda>c. \<not> is_work c) (rr_commands r')"
  using assms(1)
proof (cases rule: settle_cases)
  case (stopped c)
  then show ?thesis using assms(2) by (auto simp: stops_def cancelFinish_def)
next
  case (rested w w' cs)
  let ?v = "start_walk (rr_state r) ds'"
  have "wk_state ?v = wk_state w" by (simp add: start_walk_def rested(2))
  then obtain v' where v': "phases (settle_phases h d) (?v\<lparr>wk_changed := False\<rparr>) = Inr v'" "\<not> wk_changed v'"
      "wk_state v' = wk_state ?v" "wk_commands v' = wk_commands ?v"
    using resting_alike [OF rested(1)] by blast
  then have "settle_once h d ?v = Returns (fixpoint d v')" by (simp add: settle_once_def)
  then have s: "settle h d (rr_state r) ds' = Some (fixpoint d v')"
    unfolding settle_def by (subst settle_walk.simps) simp
  have "\<not> is_work c" if "c \<in> set (endings d v')" for c
    using endings_cases [OF that] by (auto simp: cancelFinish_def outcomeFinish_def split: option.splits)
  then show ?thesis
    using s v'(3,4) by (simp add: fixpoint_parts list_all_iff start_walk_def)
qed

end
