(* ===== verification/ReducerFacts.thy ===== *)
theory ReducerFacts
  imports SettleFacts
begin

text \<open>
  Facts of the reducer around \<open>settle\<close>: what it ignores, the nodes a rerun copies, and that the
  redaction of a secure node's outputs leaves the verdict on them as it was.
\<close>

section \<open>What the reducer ignores\<close>

definition run_over :: "run_state \<Rightarrow> bool" where
  "run_over st \<longleftrightarrow>
     rs_status st = RunSuccess \<or> rs_status st = RunFailure \<or> rs_status st = RunInterrupted
     \<or> rs_status st = RunCancelled"

definition silent :: "run_state \<Rightarrow> outcome \<Rightarrow> bool" where
  "silent st m \<longleftrightarrow> (\<exists>ds. m = Some (result_of st [] ds))"

lemma silent_simps [simp]: "silent st (kept st)" "silent st (reported st m)"
  by (auto simp: silent_def kept_def reported_def)

lemma over_ignores:
  assumes "run_over st"
  shows "silent st (reduce h d st ev)"
proof -
  have over: "rs_status st \<noteq> RunPending" "rs_status st \<noteq> RunRunning" "rs_status st \<noteq> RunWaiting"
    using assms by (auto simp: run_over_def)
  show ?thesis
    by (cases "ev_body ev") (simp_all add: over reduce_def onRunStarted_def onRunTriggerContext_def)
qed

lemma over_stays: "run_over st \<Longrightarrow> fold_log h d st evs = Some st"
proof (induction evs)
  case (Cons ev evs)
  then show ?case using over_ignores [of st h d ev] by (auto simp: silent_def result_of_def)
qed simp

lemma foreign_ignored:
  assumes "rs_status st \<noteq> RunPending" "ev_runId ev \<noteq> rs_runId st"
  shows "silent st (reduce h d st ev)"
  using assms by (cases "ev_body ev") (simp_all add: reduce_def onRunStarted_def onRunTriggerContext_def)

text \<open>
  An event of an attempt that is not the current one of its node. The events that report the end of an
  attempt are checked against a pending node before they are checked against its attempt.
\<close>

fun ends_attempt :: "node_event \<Rightarrow> bool" where
  "ends_attempt (NodeSucceeded _) = True"
| "ends_attempt (NodeInactive _) = True"
| "ends_attempt (NodeFailedE _ _) = True"
| "ends_attempt (BranchEvaluated _ _) = True"
| "ends_attempt (VariableWritten _ _ _) = True"
| "ends_attempt (CallReturned _ _ _) = True"
| "ends_attempt (CallDetached _) = True"
| "ends_attempt _ = False"

definition heard :: "run_state \<Rightarrow> engine_event \<Rightarrow> bool" where
  "heard st ev \<longleftrightarrow>
     ev_runId ev = rs_runId st \<and> (rs_status st = RunRunning \<or> rs_status st = RunWaiting \<and> unparks (ev_body ev))"

lemma stale_node_event:
  assumes "map_of (rs_nodes st) i = Some ns" "ns_currentAttemptId ns \<noteq> Some a"
  shows "ns_status ns = Pending \<and> ends_attempt e \<Longrightarrow> on_node_event h d st i a e = refused st (ImpossibleEvent i)"
    "\<not> (ns_status ns = Pending \<and> ends_attempt e) \<Longrightarrow> silent st (on_node_event h d st i a e)"
proof -
  have "\<not> is_current ns a" using assms(2) by (simp add: is_current_def)
  note handlers = on_node_event_def onDispatched_def onSucceeded_def onInactive_def onFailed_def
    onControlBranchEvaluated_def onVariableWritten_def onCallReturned_def onCallDetached_def onRetryRequested_def
    onRetryDue_def onWaitScheduled_def onWaitDue_def onNotReady_def live_current_def onAwaitingCallback_def
    onRecheckScheduled_def onRecheckDue_def onExternalWaitCreated_def onExternalWaitCompleted_def
    onExternalWaitExpired_def parked_at_def
  show "ns_status ns = Pending \<and> ends_attempt e \<Longrightarrow> on_node_event h d st i a e = refused st (ImpossibleEvent i)"
    using assms(1) by (cases e) (simp_all add: handlers LIVE_NODE_def)
  show "\<not> (ns_status ns = Pending \<and> ends_attempt e) \<Longrightarrow> silent st (on_node_event h d st i a e)"
    using assms(1) \<open>\<not> is_current ns a\<close> by (cases e) (simp_all add: handlers)
qed

lemma stale_event:
  assumes "ev_body ev = NodeEvent i a e" "map_of (rs_nodes st) i = Some ns" "ns_currentAttemptId ns \<noteq> Some a"
  shows "ns_status ns = Pending \<and> ends_attempt e \<and> heard st ev \<Longrightarrow> reduce h d st ev = refused st (ImpossibleEvent i)"
    "\<not> (ns_status ns = Pending \<and> ends_attempt e \<and> heard st ev) \<Longrightarrow> silent st (reduce h d st ev)"
  using stale_node_event [OF assms(2,3), of e h d] assms(1)
  by (auto simp: reduce_def on_pending_def on_live_event_def heard_def)

section \<open>How a run ends\<close>

text \<open>Only \<open>run.finished\<close> and \<open>run.interrupted\<close> end a run.\<close>

definition goes_on :: "outcome \<Rightarrow> bool" where
  "goes_on m \<longleftrightarrow> (\<forall>r. m = Some r \<longrightarrow> \<not> run_over (rr_state r))"

lemma run_over_same: "rs_status st' = rs_status st \<Longrightarrow> run_over st' = run_over st"
  by (simp add: run_over_def)

lemma run_over_updates [simp]:
  "run_over (withNode st i f) = run_over st" "run_over (with_status st i s) = run_over st"
  "run_over (withoutHeldWait st i) = run_over st" "run_over (with_outputs st i outs) = run_over st"
  "run_over (failed st i) = run_over st" "run_over (succeeded st i outs) = run_over st"
  "run_over (markStoppedWork st) = run_over st" "run_over (stopped st i) = run_over st"
  "run_over (unparkIfWaiting st) = run_over st" "run_over (cancelling st src) = run_over st"
  "run_over (withContainer st i g) = run_over st" "run_over (exitContainer st c oc why) = run_over st"
  "run_over (st\<lparr>rs_branches := br\<rparr>) = run_over st" "run_over (st\<lparr>rs_variables := vs\<rparr>) = run_over st"
  "run_over (st\<lparr>rs_outputs := os\<rparr>) = run_over st" "run_over (st\<lparr>rs_nodes := ns\<rparr>) = run_over st"
  "run_over (set_container st i cs) = run_over st"
  by (auto simp: run_over_def withNode_def with_status_def withoutHeldWait_def with_outputs_def failed_def
      succeeded_def markStoppedWork_def stopped_def unparkIfWaiting_def cancelling_def withContainer_def
      exitContainer_def set_container_def Let_def split: option.split)

lemma goes_on_simps [simp]:
  "goes_on (kept st) = (\<not> run_over st)" "goes_on (reported st m) = (\<not> run_over st)"
  "goes_on (refused st m) = (\<not> run_over st)" "goes_on (asked st c) = (\<not> run_over st)" "goes_on None"
  by (simp_all add: goes_on_def kept_def reported_def refused_def asked_def result_of_def)

lemma goes_on_commands [simp]: "goes_on (map_option (with_commands cmds) oc) = goes_on oc"
  by (cases oc) (simp_all add: goes_on_def with_commands_def)

lemma goes_on_settle: "\<not> run_over st \<Longrightarrow> goes_on (settle h d st ds)"
  unfolding goes_on_def
proof (intro allI impI)
  fix r assume st: "\<not> run_over st" and s: "settle h d st ds = Some r"
  have "same_run st (rr_state r)" using s by (cases rule: settle_cases) auto
  then show "\<not> run_over (rr_state r)" using st by (simp add: same_run_def run_over_def)
qed

lemma goes_on_fold: "\<not> run_over st \<Longrightarrow> (\<And>s x. \<not> run_over s \<Longrightarrow> \<not> run_over (f s x)) \<Longrightarrow> \<not> run_over (foldl f st xs)"
  by (rule foldl_keeps)

lemma goes_on_again: "\<not> run_over st \<Longrightarrow> goes_on (dispatch_again h d st i a)"
  by (auto simp: dispatch_again_def split: option.split sum.split)

lemma goes_on_redispatch: "\<not> run_over st \<Longrightarrow> goes_on (redispatch h d st i f)"
  by (auto simp: redispatch_def goes_on_again split: option.split)

lemma goes_on_callback: "\<not> run_over st \<Longrightarrow> goes_on (settleWebCallback h d st i req cb err)"
  by (auto simp: settleWebCallback_def Let_def goes_on_settle split: option.split)

lemmas going_on = goes_on_settle goes_on_again goes_on_redispatch goes_on_callback

lemma node_event_goes_on:
  assumes "\<not> run_over st"
  shows "goes_on (on_node_event h d st i a e)"
proof (cases e)
  case NodeDispatched
  then show ?thesis using assms by (auto simp: on_node_event_def onDispatched_def split: option.split)
next
  case (NodeSucceeded outs)
  then show ?thesis using assms by (auto simp: on_node_event_def onSucceeded_def Let_def going_on split: option.split)
next
  case (NodeInactive m)
  then show ?thesis using assms by (auto simp: on_node_event_def onInactive_def going_on split: option.split)
next
  case (NodeFailedE k after)
  then show ?thesis
    using assms by (auto simp: on_node_event_def onFailed_def fail_live_def eligible_for_retry_def going_on split: option.split)
next
  case (BranchEvaluated ev b)
  then show ?thesis
    using assms by (auto simp: on_node_event_def onControlBranchEvaluated_def going_on split: option.split)
next
  case (VariableWritten op nm v)
  then show ?thesis using assms by (auto simp: on_node_event_def onVariableWritten_def going_on split: option.split)
next
  case (CallReturned ch oc outs)
  then show ?thesis
    using assms by (auto simp: on_node_event_def onCallReturned_def Let_def going_on split: option.split)
next
  case (CallDetached ch)
  then show ?thesis
    using assms by (auto simp: on_node_event_def onCallDetached_def Let_def going_on split: option.split)
next
  case RetryRequested
  then show ?thesis
    using assms by (auto simp: on_node_event_def onRetryRequested_def Let_def going_on split: option.split)
next
  case RetryDue
  then show ?thesis using assms by (auto simp: on_node_event_def onRetryDue_def going_on split: option.split)
next
  case WaitScheduled
  then show ?thesis using assms by (auto simp: on_node_event_def onWaitScheduled_def going_on split: option.split)
next
  case WaitDue
  then show ?thesis using assms by (auto simp: on_node_event_def onWaitDue_def going_on split: option.split)
next
  case (NotReady why after giveUp)
  then show ?thesis using assms by (auto simp: on_node_event_def onNotReady_def Let_def going_on split: option.split)
next
  case (AwaitingCallback outs t)
  then show ?thesis
    using assms by (auto simp: on_node_event_def onAwaitingCallback_def Let_def going_on split: option.split)
next
  case (RecheckScheduled t)
  then show ?thesis using assms by (auto simp: on_node_event_def onRecheckScheduled_def going_on split: option.split)
next
  case RecheckDue
  then show ?thesis using assms by (auto simp: on_node_event_def onRecheckDue_def going_on split: option.split)
next
  case (ExternalWaitCreated came)
  then show ?thesis
    using assms by (auto simp: on_node_event_def onExternalWaitCreated_def going_on split: option.split)
next
  case (ExternalWaitCompleted outs err)
  then show ?thesis
    using assms by (auto simp: on_node_event_def onExternalWaitCompleted_def going_on split: option.split)
next
  case ExternalWaitExpired
  then show ?thesis
    using assms by (auto simp: on_node_event_def onExternalWaitExpired_def going_on split: option.split)
qed

lemma container_timeout_goes_on:
  assumes "\<not> run_over st"
  shows "goes_on (onContainerTimedOut h d st cid)"
proof -
  have "\<not> run_over (abandonLiveChildren st cid' ids)" for cid' ids
    unfolding abandonLiveChildren_def using assms by (rule goes_on_fold) simp
  then show ?thesis using assms by (auto simp: onContainerTimedOut_def going_on split: option.split)
qed

lemma cancel_goes_on:
  assumes "\<not> run_over st"
  shows "goes_on (onCancelRequested h d st src)"
proof -
  have "\<not> run_over (foldl cancel_hold (cancelling (unparkIfWaiting st) src) ps)" for ps
    by (rule goes_on_fold) (simp_all add: assms cancel_hold_def)
  then show ?thesis using assms by (simp add: onCancelRequested_def Let_def going_on)
qed

lemma resume_goes_on:
  assumes "\<not> run_over st"
  shows "goes_on (onResumed h d st)"
proof -
  have "\<not> run_over (foldl (resume_lost d) (unparkIfWaiting st) ps)" for ps
    by (rule goes_on_fold) (simp_all add: assms resume_lost_def)
  then show ?thesis
    using assms by (auto simp: onResumed_def resumeCancelled_def Let_def going_on split: sum.split)
qed

lemma fold_pairs_over:
  "\<not> run_over (fst p) \<Longrightarrow> (\<And>p x. \<not> run_over (fst p) \<Longrightarrow> \<not> run_over (fst (f p x))) \<Longrightarrow> \<not> run_over (fst (foldl f p xs))"
  by (induction xs arbitrary: p) auto

lemma reseed_goes_on:
  assumes "\<not> run_over st"
  shows "goes_on (onReseeded h d st ev)"
proof -
  obtain s1 applied d1 where 1: "foldl (copy_node ev) (st, [], []) (re_frontier ev) = (s1, applied, d1)"
    by (metis prod_cases3)
  obtain s2 linked d2 where 2: "foldl (link_child d applied) (s1, [], d1) (re_childLinks ev) = (s2, linked, d2)"
    by (metis prod_cases3)
  obtain s3 d3 where 3: "foldl (mark_inactive d applied) (s2, d2) (js_set (re_copiedInactive ev)) = (s3, d3)"
    by fastforce
  obtain s4 d4 where 4: "foldl (copy_container d) (s3, d3) (re_copiedContainers ev) = (s4, d4)"
    by fastforce
  have "\<not> run_over (fst (copy_node ev p x))" if "\<not> run_over (fst p)" for p x
    using that by (cases p) (auto simp: copy_node_def)
  then have "\<not> run_over s1" using fold_pairs_over [of "(st, [], [])" "copy_node ev"] assms 1 by (metis fst_conv)
  moreover have "\<not> run_over (fst (link_child d applied p x))" if "\<not> run_over (fst p)" for p x
    using that by (cases p; cases x) (auto simp: link_child_def)
  ultimately have "\<not> run_over s2"
    using fold_pairs_over [of "(s1, [], d1)" "link_child d applied"] 2 by (metis fst_conv)
  moreover have "\<not> run_over (fst (mark_inactive d applied p x))" if "\<not> run_over (fst p)" for p x
    using that by (cases p) (auto simp: mark_inactive_def)
  ultimately have "\<not> run_over s3"
    using fold_pairs_over [of "(s2, d2)" "mark_inactive d applied"] 3 by (metis fst_conv)
  moreover have "\<not> run_over (fst (copy_container d p x))" if "\<not> run_over (fst p)" for p x
    using that by (cases p; cases x) (auto simp: copy_container_def)
  ultimately have "\<not> run_over s4"
    using fold_pairs_over [of "(s3, d3)" "copy_container d"] 4 by (metis fst_conv)
  then have "\<not> run_over (fst (reseeded_state d st ev))"
    by (simp add: reseeded_state_def 1 2 3 4 split: prod.split)
  then show ?thesis
    using assms by (cases "reseeded_state d st ev") (simp add: onReseeded_def going_on)
qed

text \<open>A run ends as its event says, and as a success only when it is one.\<close>

lemma started_goes_on: "\<not> run_over st \<Longrightarrow> goes_on (onRunStarted h d st rid ev)"
proof -
  have "\<not> run_over (started_state d st rid ev)" for rid by (simp add: run_over_def started_state_def)
  then show "\<not> run_over st \<Longrightarrow> goes_on (onRunStarted h d st rid ev)"
    by (simp add: onRunStarted_def Let_def going_on) (simp add: goes_on_def result_of_def)
qed

lemma context_goes_on: "\<not> run_over st \<Longrightarrow> goes_on (onRunTriggerContext st rid t s b)"
  by (simp add: onRunTriggerContext_def) (simp add: run_over_def)

lemma live_goes_on:
  assumes "\<not> run_over st" "\<forall>oc. b \<noteq> RunFinished oc" "b \<noteq> RunInterruptedE"
  shows "goes_on (on_live_event h d st b)"
  using assms
  by (cases b)
    (auto simp: on_live_event_def node_event_goes_on container_timeout_goes_on cancel_goes_on resume_goes_on
      reseed_goes_on onContainerTimeoutScheduled_def run_over_def [of "_\<lparr>rs_status := _, rs_waitingReason := _\<rparr>"]
      split: option.split)

lemma pending_goes_on:
  assumes "\<not> run_over st" "\<forall>oc. b \<noteq> RunFinished oc" "b \<noteq> RunInterruptedE"
  shows "goes_on (on_pending st rid b)"
proof -
  have "\<not> run_over (st\<lparr>rs_runId := i\<rparr>)" for i using assms(1) by (simp add: run_over_def)
  then show ?thesis using assms by (cases b) (simp_all add: on_pending_def)
qed

lemma other_events_go_on:
  assumes "\<not> run_over st" "\<forall>oc. ev_body ev \<noteq> RunFinished oc" "ev_body ev \<noteq> RunInterruptedE"
  shows "goes_on (reduce h d st ev)"
  using assms live_goes_on [OF assms(1)] pending_goes_on [OF assms(1)]
  by (cases "ev_body ev") (simp_all add: reduce_def started_goes_on context_goes_on)

lemma finished_ends:
  assumes "reduce h d st ev = Some r" "\<not> run_over st" "run_over (rr_state r)" "ev_body ev = RunFinished oc"
  shows "rs_status (rr_state r) = status_of_outcome oc
    \<and> (oc = OutSuccess \<longrightarrow> allTopLevelTerminal d st \<and> runOutcomeFailure d st = None)
    \<and> (oc = OutCancelled \<longrightarrow> rs_cancelRequested st \<noteq> None)"
proof (cases "rs_status st = RunPending")
  case True
  then have "reduce h d st ev = on_pending st (ev_runId ev) (RunFinished oc)" by (simp add: reduce_def assms(4))
  then show ?thesis
    using assms(1-3)
    by (cases oc) (auto simp: on_pending_def kept_def result_of_def status_of_outcome_def split: if_splits)
next
  case False
  then have "reduce h d st ev = kept st \<or> reduce h d st ev = onRunFinished d st oc"
    using assms(2) by (cases "rs_status st") (auto simp: reduce_def assms(4) on_live_event_def unparks_def terminalStatusOf_def run_over_def)
  then have "reduce h d st ev = onRunFinished d st oc"
    using assms(1-3) by (auto simp: kept_def result_of_def)
  then show ?thesis
    using assms(1-3) by (auto simp: onRunFinished_def refused_def kept_def result_of_def split: if_splits)
qed

lemma interrupted_ends:
  assumes "reduce h d st ev = Some r" "\<not> run_over st" "run_over (rr_state r)" "ev_body ev = RunInterruptedE"
  shows "rs_status (rr_state r) = RunInterrupted"
  using assms
  by (cases "rs_status st")
    (auto simp: reduce_def on_pending_def on_live_event_def unparks_def terminalStatusOf_def kept_def reported_def
      result_of_def split: if_splits)

definition ends_as :: "doc \<Rightarrow> run_state \<Rightarrow> event_body \<Rightarrow> run_status \<Rightarrow> bool" where
  "ends_as d st b s \<longleftrightarrow>
     (case b of
        RunFinished oc \<Rightarrow>
          s = status_of_outcome oc
          \<and> (oc = OutSuccess \<longrightarrow> allTopLevelTerminal d st \<and> runOutcomeFailure d st = None)
          \<and> (oc = OutCancelled \<longrightarrow> rs_cancelRequested st \<noteq> None)
      | RunInterruptedE \<Rightarrow> s = RunInterrupted
      | _ \<Rightarrow> False)"

lemma ends_by_event:
  assumes "reduce h d st ev = Some r" "\<not> run_over st" "run_over (rr_state r)"
  shows "ends_as d st (ev_body ev) (rs_status (rr_state r))"
proof -
  have "\<not> goes_on (reduce h d st ev)" using assms by (simp add: goes_on_def)
  then consider (finished) oc where "ev_body ev = RunFinished oc" | (interrupted) "ev_body ev = RunInterruptedE"
    using other_events_go_on [OF assms(2)] by blast
  then show ?thesis
  proof cases
    case finished
    then show ?thesis using finished_ends [OF assms finished] by (simp add: ends_as_def)
  next
    case interrupted
    then show ?thesis using interrupted_ends [OF assms interrupted] by (simp add: ends_as_def)
  qed
qed

section \<open>The frontier of a rerun\<close>

text \<open>An entity is copied when it succeeded, and all that led to it is copied.\<close>

inductive copyable :: "doc \<Rightarrow> run_state \<Rightarrow> jstr \<Rightarrow> bool" for d st where
  "\<lbrakk>i \<in> set (topEntities d); eligible d st i;
    \<And>e. \<lbrakk>e \<in> set (entries (topIncoming d) i); edgeState d st None e = Satisfied\<rbrakk> \<Longrightarrow> copyable d st (e_from e)\<rbrakk>
   \<Longrightarrow> copyable d st i"

lemma include_entity_cases:
  "include_entity d st xs i = xs \<or>
     include_entity d st xs i = xs @ [i] \<and> i \<notin> set xs \<and> eligible d st i \<and> \<not> gated d st xs i"
  by (simp add: include_entity_def)

lemma include_pass_sound:
  assumes "\<forall>i \<in> set xs. copyable d st i" "set is \<subseteq> set (topEntities d)"
  shows "\<forall>i \<in> set (foldl (include_entity d st) xs is). copyable d st i"
  using assms(1)
proof (rule foldl_keeps)
  fix ys i assume ys: "\<forall>i \<in> set ys. copyable d st i" and i: "i \<in> set is"
  have "copyable d st i" if "eligible d st i" "\<not> gated d st ys i"
  proof (rule copyable.intros)
    show "i \<in> set (topEntities d)" using i assms(2) by blast
    fix e assume "e \<in> set (entries (topIncoming d) i)" "edgeState d st None e = Satisfied"
    then have "e_from e \<in> set ys" using that(2) by (auto simp: gated_def list_ex_iff)
    then show "copyable d st (e_from e)" using ys by blast
  qed (rule that(1))
  then show "\<forall>i \<in> set (include_entity d st ys i). copyable d st i"
    using include_entity_cases [of d st ys i] ys by auto
qed

lemma include_grows:
  "\<exists>zs. foldl (include_entity d st) xs is = xs @ zs \<and> (distinct xs \<longrightarrow> distinct (xs @ zs)) \<and> set zs \<subseteq> set is"
proof (induction "is" arbitrary: xs)
  case (Cons i "is")
  obtain ys where ys: "include_entity d st xs i = xs @ ys" "set ys \<subseteq> {i}" "distinct xs \<longrightarrow> distinct (xs @ ys)"
    using include_entity_cases [of d st xs i] by auto
  obtain zs where zs: "foldl (include_entity d st) (xs @ ys) is = (xs @ ys) @ zs"
      "distinct (xs @ ys) \<longrightarrow> distinct ((xs @ ys) @ zs)" "set zs \<subseteq> set is"
    using Cons.IH by blast
  have "foldl (include_entity d st) xs (i # is) = xs @ (ys @ zs)" by (simp add: ys(1) zs(1))
  moreover have "distinct xs \<longrightarrow> distinct (xs @ (ys @ zs))" using ys(3) zs(2) unfolding append_assoc by blast
  moreover have "set (ys @ zs) \<subseteq> set (i # is)" using ys(2) zs(3) by auto
  ultimately show ?case by blast
qed simp

lemma unchanged_pass:
  assumes "foldl (include_entity d st) xs is = xs" "i \<in> set is" "eligible d st i" "\<not> gated d st xs i"
  shows "i \<in> set xs"
  using assms
proof (induction "is" arbitrary: xs)
  case (Cons j "is")
  obtain zs where zs: "foldl (include_entity d st) (include_entity d st xs j) is = include_entity d st xs j @ zs"
    using include_grows by blast
  then have same: "include_entity d st xs j = xs"
    using Cons.prems(1) include_entity_cases [of d st xs j] by auto
  show ?case
  proof (cases "i = j")
    case True
    then show ?thesis using same Cons.prems(3,4) by (simp add: include_entity_def split: if_splits)
  next
    case False
    then show ?thesis using Cons same by simp
  qed
qed simp

text \<open>As many passes as there are entities reach the fixed point.\<close>

lemma passes_distinct:
  "distinct ((include_pass d st ^^ n) []) \<and> set ((include_pass d st ^^ n) []) \<subseteq> set (topEntities d)"
proof (induction n)
  case (Suc n)
  obtain xs where xs: "(include_pass d st ^^ n) [] = xs" by blast
  obtain zs where "include_pass d st xs = xs @ zs" "distinct xs \<longrightarrow> distinct (xs @ zs)" "set zs \<subseteq> set (topEntities d)"
    using include_grows unfolding include_pass_def by blast
  then show ?case using Suc xs by auto
qed simp

lemma passes_fix_or_grow:
  "include_pass d st ((include_pass d st ^^ n) []) = (include_pass d st ^^ n) []
   \<or> n \<le> length ((include_pass d st ^^ n) [])"
proof (induction n)
  case (Suc n)
  let ?xs = "(include_pass d st ^^ n) []"
  show ?case
  proof (cases "include_pass d st ?xs = ?xs")
    case True
    then show ?thesis by simp
  next
    case False
    obtain zs where zs: "include_pass d st ?xs = ?xs @ zs"
      using include_grows unfolding include_pass_def by blast
    then have "zs \<noteq> []" using False by auto
    then have "length ?xs < length (include_pass d st ?xs)" using zs by simp
    then show ?thesis using Suc False by simp
  qed
qed simp

lemma included_fixed: "include_pass d st (included_entities d st) = included_entities d st"
proof -
  let ?n = "length (topEntities d)" and ?xs = "included_entities d st"
  have d: "distinct ?xs" "set ?xs \<subseteq> set (topEntities d)"
    using passes_distinct unfolding included_entities_def by blast+
  from passes_fix_or_grow [of d st ?n] show ?thesis
  proof
    assume "?n \<le> length ((include_pass d st ^^ ?n) [])"
    then have "?n \<le> card (set ?xs)" using d(1) by (simp add: included_entities_def distinct_card)
    then have "card (set (topEntities d)) \<le> card (set ?xs)" using card_length le_trans by blast
    then have all: "set ?xs = set (topEntities d)" using d(2) by (simp add: card_seteq)
    have "foldl (include_entity d st) ?xs is = ?xs" if "set is \<subseteq> set ?xs" for "is"
      using that by (induction "is") (auto simp: include_entity_def)
    then show ?thesis by (simp add: include_pass_def all)
  qed (simp add: included_entities_def)
qed

lemma included_copyable: "i \<in> set (included_entities d st) \<longleftrightarrow> copyable d st i"
proof
  have "\<forall>i \<in> set ((include_pass d st ^^ n) []). copyable d st i" for n
  proof (induction n)
    case (Suc n)
    obtain xs where xs: "(include_pass d st ^^ n) [] = xs" by blast
    have "\<forall>i \<in> set (include_pass d st xs). copyable d st i"
      unfolding include_pass_def by (rule include_pass_sound) (use Suc xs in auto)
    then show ?case using xs by simp
  qed simp
  then show "i \<in> set (included_entities d st) \<Longrightarrow> copyable d st i" by (simp add: included_entities_def)
next
  assume "copyable d st i"
  then show "i \<in> set (included_entities d st)"
  proof (induction rule: copyable.induct)
    case (1 i)
    have "\<not> gated d st (included_entities d st) i" using 1 by (auto simp: gated_def list_ex_iff)
    then show ?case using unchanged_pass [OF included_fixed [unfolded include_pass_def]] 1 by blast
  qed
qed

lemma frontier_exact:
  "i \<in> set (rf_frontier (reseedFrontier d st)) \<longleftrightarrow>
     is_node d i \<and> i \<notin> fst ` set (owners d) \<and> copyable d st i"
  by (auto simp: reseedFrontier_def Let_def included_copyable is_node_def)

section \<open>Redaction\<close>

lemma redact_as_assign:
  "redactOutputs n outs = foldl assign_key [] (map (\<lambda>p. (fst p, redact_value (declared_of (outputContract n)) (fst p) (snd p))) outs)"
  by (simp add: redactOutputs_def foldl_map)

lemma redact_get:
  assumes "distinct (map fst outs)" "k \<noteq> lit ''__proto__''"
  shows "map_of (redactOutputs n outs) k =
    map_option (redact_value (declared_of (outputContract n)) k) (map_of outs k)"
proof -
  let ?qs = "map (\<lambda>p. (fst p, redact_value (declared_of (outputContract n)) (fst p) (snd p))) outs"
  have keys: "map fst ?qs = map fst outs" by (simp add: comp_def)
  then have d: "distinct (map fst ?qs)" using assms(1) by (simp only:)
  then have "distinct (map fst (rev ?qs))" by (simp only: rev_map [symmetric] distinct_rev)
  then have "map_of (rev ?qs) = map_of ?qs" using d by (subst map_of_inject_set) simp_all
  moreover have "map_of ?qs k = map_option (redact_value (declared_of (outputContract n)) k) (map_of outs k)"
    by (induction outs) auto
  ultimately show ?thesis
    using assms(2) by (simp add: redact_as_assign assign_keys_get split: option.split del: lit_simps)
qed

lemma redact_proto: "map_of (redactOutputs n outs) (lit ''__proto__'') = None"
  by (simp add: redact_as_assign assign_keys_get del: lit_simps)

text \<open>A redacted record has no output called \<open>__proto__\<close>, so one that is required is missing.\<close>

lemma redacted_missing:
  assumes "outputContract n = Declared ds" "o1 \<in> set ds" "do_name o1 = lit ''__proto__''" "\<not> do_optional o1"
  shows "MissingOutput (lit ''__proto__'') \<in> set (validateOutputs secure (outputContract n) (redactOutputs n outs))"
proof -
  have "output_error_of secure (redactOutputs n outs) o1 = Some (MissingOutput (lit ''__proto__''))"
    using assms(3,4) redact_proto by (simp add: output_error_of_def del: lit_simps)
  then show ?thesis
    using assms(1,2) by (auto simp: validateOutputs_def List.map_filter_def image_iff simp del: lit_simps intro!: bexI [of _ o1])
qed

text \<open>A redacted output is an error exactly when the output is.\<close>

lemma redacted_error:
  assumes ct: "outputContract n = Declared ds" and o1: "o1 \<in> set ds" and proto: "do_name o1 \<noteq> lit ''__proto__''"
    and outs: "distinct (map fst outs)"
  shows "output_error_of True (redactOutputs n outs) o1 = output_error_of False outs o1"
proof -
  have find: "find (\<lambda>y. do_name y = do_name o1) ds = Some o1"
    by (rule find_declared [OF declared_contract(1) [OF ct] o1])
  have get: "map_of (redactOutputs n outs) (do_name o1) = map_option (redact_value ds (do_name o1)) (map_of outs (do_name o1))"
    using redact_get [OF outs proto, of n] by (simp add: ct declared_of_def)
  show ?thesis
    by (cases "map_of outs (do_name o1)")
      (auto simp: output_error_of_def get redact_value_def find isSecureOutputValue_def
        SECURE_REDACTED_def SECURE_REDACTED_INVALID_def)
qed

lemma map_filter_agree:
  "(\<And>x. x \<in> set xs \<Longrightarrow> f x = g x) \<Longrightarrow> List.map_filter f xs = List.map_filter g xs"
  by (induction xs) (auto simp: map_filter_simps split: option.split)

lemma redacted_verdict:
  assumes "outputContract n = Declared ds" "\<forall>o1 \<in> set ds. do_name o1 \<noteq> lit ''__proto__''" "distinct (map fst outs)"
  shows "validateOutputs True (outputContract n) (redactOutputs n outs) = validateOutputs False (outputContract n) outs"
proof -
  have "output_error_of True (redactOutputs n outs) o1 = output_error_of False outs o1" if "o1 \<in> set ds" for o1
    by (rule redacted_error [OF assms(1) that _ assms(3)]) (use assms(2) that in blast)
  then show ?thesis
    unfolding assms(1) validateOutputs_def output_contract.case by (rule map_filter_agree)
qed

text \<open>What the redaction leaves of a value.\<close>

lemma redact_value_range:
  "redact_value ds k v \<in> {JStr SECURE_REDACTED, JStr SECURE_REDACTED_INVALID, JNull, JUndef}"
  by (auto simp: redact_value_def split: option.split)

lemma obj_put_set: "set (obj_put k v ps) \<subseteq> insert (k, v) (set ps)"
proof -
  have "set (obj_insert k v ps) \<subseteq> insert (k, v) (set ps)"
    by (induction k v ps rule: obj_insert.induct) auto
  moreover have "set (obj_replace k v ps) \<subseteq> insert (k, v) (set ps)"
    by (induction k v ps rule: obj_replace.induct) auto
  ultimately show ?thesis by (simp add: obj_put_def)
qed

lemma redacted_hides:
  assumes "(k, v) \<in> set (redactOutputs n outs)"
  shows "v \<in> {JStr SECURE_REDACTED, JStr SECURE_REDACTED_INVALID, JNull, JUndef}"
proof -
  let ?R = "{JStr SECURE_REDACTED, JStr SECURE_REDACTED_INVALID, JNull, JUndef}"
  have "snd ` set (redactOutputs n outs) \<subseteq> ?R"
    unfolding redactOutputs_def
  proof (rule foldl_keeps)
      fix out :: jobj and p :: "jstr \<times> jval" assume out: "snd ` set out \<subseteq> ?R"
    let ?w = "redact_value (declared_of (outputContract n)) (fst p) (snd p)"
    have range: "?w \<in> ?R" by (rule redact_value_range)
    show "snd ` set (assign_key out (fst p, ?w)) \<subseteq> ?R"
    proof
      fix v assume "v \<in> snd ` set (assign_key out (fst p, ?w))"
      then obtain q where q: "q \<in> set (assign_key out (fst p, ?w))" "v = snd q" by blast
      have "q = (fst p, ?w) \<or> q \<in> set out"
        using q(1) obj_put_set [of "fst p" ?w out] unfolding assign_key_def by (simp split: if_splits) blast
      then show "v \<in> ?R" using range out q(2) by (metis image_subset_iff snd_conv)
    qed
  qed simp
  then show ?thesis using assms by fastforce
qed

end
