(* ===== verification/NestedLoop.thy ===== *)
theory NestedLoop
  imports SettleFacts
begin

text \<open>
  A document on which the walk of \<open>settle\<close> does not return. A loop lists another container as its
  child; \<open>createEngine\<close> drops that child and reports it, but the edge from it to a child of the
  loop still belongs to the loop's body. Once that container has ended without taking the edge,
  every round of the loop skips its only node at once, and no event ever comes in between.
\<close>

section \<open>The document\<close>

definition lone_node :: node where
  "lone_node =
     \<lparr>n_id = lit ''x'', n_type = lit ''http'', n_config = [], n_connectionId = None, n_connectionIds = None,
      n_datasetIds = None, n_inlineSource = None, n_datasetParams = None, n_connectionParams = None,
      n_call = None, n_policy = None, n_inactive = False, n_onInactiveMarkAs = None, n_userProperties = None\<rparr>"

definition box :: "jstr \<Rightarrow> container_kind \<Rightarrow> jstr list \<Rightarrow> jstr option \<Rightarrow> container" where
  "box i k chs exit =
     \<lparr>c_id = i, c_kind = k, c_children = chs, c_exitWhen = exit, c_maxRounds = None, c_timeout = None,
      c_items = None, c_batchCount = None, c_join = None, c_inactive = False, c_onInactiveMarkAs = None,
      c_userProperties = None, c_allowNondeterministicVars = None\<rparr>"

definition nested_doc :: doc where
  "nested_doc =
     \<lparr>d_nodes = [lone_node],
      d_edges = [\<lparr>e_id = lit ''e'', e_from = lit ''m'', e_to = lit ''x'', e_on = OnFailure, e_back = False,
                  e_maxBounces = None\<rparr>],
      d_containers = [box (lit ''l'') Loop [lit ''m'', lit ''x''] (Some (lit ''${false}'')),
                      box (lit ''m'') Stage [] None],
      d_variables = []\<rparr>"

definition bare_host :: host where
  "bare_host = \<lparr>h_lower = id, h_upper = id, h_inherited = \<lambda>_ _. None\<rparr>"

definition run_start :: started_event where
  "run_start = \<lparr>se_pipelineVersionId = lit ''v'', se_startedAt = None, se_params = [], se_globals = None,
     se_rerunOf = None\<rparr>"

definition nested_start :: run_state where
  "nested_start = started_state nested_doc (seedState nested_doc) (lit ''r'') run_start"

text \<open>The states the loop goes through, by its round.\<close>

definition in_round :: "nat \<Rightarrow> node_run_state \<Rightarrow> run_state" where
  "in_round k ns = nested_start\<lparr>
     rs_nodes := [(lit ''x'', ns)],
     rs_containers := [(lit ''l'', fresh_container\<lparr>cs_status := CActive, cs_round := k\<rparr>),
                       (lit ''m'', fresh_container\<lparr>cs_status := CSuccess\<rparr>)],
     rs_outputs := [(lit ''m'', [])]\<rparr>"

definition skipped_node :: node_run_state where
  "skipped_node = fresh_node\<lparr>ns_status := Skipped, ns_skipReason := Some (Upstream (lit ''m'') Success)\<rparr>"

definition moves_to :: "turn \<Rightarrow> run_state option" where
  "moves_to t = (case t of Returns r \<Rightarrow> None | Turns w \<Rightarrow> Some (wk_state w))"

lemma enters: "moves_to (settle_once bare_host nested_doc (start_walk nested_start [])) =
   Some (nested_start\<lparr>rs_containers := [(lit ''l'', fresh_container\<lparr>cs_status := CActive\<rparr>),
                       (lit ''m'', fresh_container\<lparr>cs_status := CActive\<rparr>)]\<rparr>)"
  by code_simp

lemma ends_inner: "moves_to (settle_once bare_host nested_doc (start_walk (nested_start\<lparr>rs_containers :=
     [(lit ''l'', fresh_container\<lparr>cs_status := CActive\<rparr>), (lit ''m'', fresh_container\<lparr>cs_status := CActive\<rparr>)]\<rparr>) [])) =
   Some (in_round 0 fresh_node)"
  by code_simp

lemma skips: "moves_to (settle_once bare_host nested_doc (start_walk (in_round k fresh_node) [])) =
   Some (in_round k skipped_node)"
  by code_simp

lemma resets: "moves_to (settle_once bare_host nested_doc (start_walk (in_round k skipped_node) [])) =
   Some (in_round (k + 1) fresh_node)"
  by code_simp

section \<open>The walk\<close>

lemma turn_alike:
  assumes "moves_to (settle_once h d v) = Some st" "wk_state w = wk_state v"
  shows "\<exists>w'. settle_once h d w = Turns w' \<and> wk_state w' = st"
proof -
  let ?p = "\<lambda>w. phases (settle_phases h d) (w\<lparr>wk_changed := False\<rparr>)"
  have "alike_results (?p v) (?p w)"
    by (rule alike_phases [OF alike_settle_phases]) (simp_all add: alike_def assms(2))
  then show ?thesis
    using assms(1)
    by (cases "?p v"; cases "?p w") (auto simp: settle_once_def moves_to_def alike_def split: if_splits)
qed

lemma spins:
  assumes "settle_walk bare_host nested_doc w = Some r"
  shows "wk_state w \<noteq> in_round k fresh_node \<and> wk_state w \<noteq> in_round k skipped_node"
proof -
  have "settle_walk h d w = Some r \<Longrightarrow> h = bare_host \<longrightarrow> d = nested_doc \<longrightarrow>
      (\<forall>k. wk_state w \<noteq> in_round k fresh_node \<and> wk_state w \<noteq> in_round k skipped_node)" for h d
  proof (induction rule: settle_walk.raw_induct [rotated, consumes 1])
    case (1 settle_walk h d w r)
    show ?case
    proof (intro impI allI conjI notI)
      fix k assume hd: "h = bare_host" "d = nested_doc" and w: "wk_state w = in_round k fresh_node"
      obtain w' where "settle_once h d w = Turns w'" "wk_state w' = in_round k skipped_node"
        using turn_alike [OF skips [of k]] w by (auto simp: hd start_walk_def)
      then show False using 1 hd by fastforce
    next
      fix k assume hd: "h = bare_host" "d = nested_doc" and w: "wk_state w = in_round k skipped_node"
      obtain w' where "settle_once h d w = Turns w'" "wk_state w' = in_round (k + 1) fresh_node"
        using turn_alike [OF resets [of k]] w by (auto simp: hd start_walk_def)
      then show False using 1 hd by fastforce
    qed
  qed
  then show ?thesis using assms by blast
qed

lemma settle_turn:
  assumes "settle_once h d w = Turns w'"
  shows "settle_walk h d w = settle_walk h d w'"
  using assms by (subst settle_walk.simps) simp

lemma nested_spins: "settle bare_host nested_doc nested_start ds = None"
proof -
  obtain w1 where w1: "settle_once bare_host nested_doc (start_walk nested_start ds) = Turns w1"
    "wk_state w1 = nested_start\<lparr>rs_containers := [(lit ''l'', fresh_container\<lparr>cs_status := CActive\<rparr>),
                       (lit ''m'', fresh_container\<lparr>cs_status := CActive\<rparr>)]\<rparr>"
    using turn_alike [OF enters, of "start_walk nested_start ds"] by (auto simp: start_walk_def)
  obtain w2 where w2: "settle_once bare_host nested_doc w1 = Turns w2" "wk_state w2 = in_round 0 fresh_node"
    using turn_alike [OF ends_inner, of w1] w1(2) by (auto simp: start_walk_def)
  have "settle_walk bare_host nested_doc w2 = None"
    using spins [of w2 _ 0] w2(2) by (cases "settle_walk bare_host nested_doc w2") auto
  then show ?thesis by (simp add: settle_def settle_turn [OF w1(1)] settle_turn [OF w2(1)])
qed

end
