(* ===== verification/ReducerProperties.thy ===== *)
theory ReducerProperties
  imports ReducerFacts NestedLoop EngineProperties
begin

text \<open>
  The properties of the run reducer: that it answers every event, what its walk consists of, which
  verdicts it gives and which it accepts, what it ignores, the bounds on its attempts, what a rerun
  copies, and what the redaction of a secure node keeps. The witnesses run a document of two nodes.
\<close>

section \<open>Samples\<close>

definition start_event :: engine_event where
  "start_event = \<lparr>ev_runId = lit ''r'', ev_body = RunStarted run_start\<rparr>"

definition chain_start :: run_state where
  "chain_start = started_state chain_doc (seedState chain_doc) (lit ''r'') run_start"

definition chain_done :: run_state where
  "chain_done = run_with [(lit ''a'', Success), (lit ''b'', Success)]"

definition chain_cancelled :: run_state where
  "chain_cancelled = (run_with [(lit ''a'', Success), (lit ''b'', Pending)])
     \<lparr>rs_cancelRequested := Some \<lparr>cr_source = Operator, cr_stoppedWork = False\<rparr>\<rparr>"

text \<open>A walk run for a number of turns: enough to evaluate one that returns.\<close>

fun run_turns :: "nat \<Rightarrow> host \<Rightarrow> doc \<Rightarrow> walk \<Rightarrow> reduce_result option" where
  "run_turns 0 h d w = None"
| "run_turns (Suc n) h d w =
     (case settle_once h d w of Returns r \<Rightarrow> Some r | Turns w' \<Rightarrow> run_turns n h d w')"

lemma run_turns_settle: "run_turns n h d w = Some r \<Longrightarrow> settle_walk h d w = Some r"
proof (induction n arbitrary: w)
  case (Suc n)
  then show ?case by (subst settle_walk.simps) (auto split: turn.splits)
qed simp

definition settles_to :: "nat \<Rightarrow> doc \<Rightarrow> run_state \<Rightarrow> (reduce_result \<Rightarrow> bool) \<Rightarrow> bool" where
  "settles_to n d st Q \<longleftrightarrow>
     (case run_turns n bare_host d (start_walk st []) of None \<Rightarrow> False | Some r \<Rightarrow> Q r)"

lemma settles_toE:
  assumes "settles_to n d st Q"
  obtains r where "settle bare_host d st [] = Some r" "Q r"
  using assms run_turns_settle [of n bare_host d "start_walk st []"]
  by (auto simp: settles_to_def settle_def split: option.splits)

section \<open>The reducer answers\<close>

text \<open>
  C1: the reducer is total. Whatever the log of a run holds, in whatever order, folding it returns
  a state: no event makes \<open>settle\<close> run on for ever, and none makes the reducer throw. The document
  has containers with distinct ids that hold no containers, and ids that make instance keys.
\<close>

theorem reducer_total:
  assumes "sound_doc d"
  shows "\<exists>st. projectRunState h d evs = Some st"
  using known.projected_good [OF assms] by blast

theorem reducer_total_witness:
  "\<exists>st. projectRunState bare_host chain_doc [start_event, start_event] = Some st"
  by (rule reducer_total) code_simp

text \<open>
  C14: without the condition on the document the reducer may hang. A loop that lists a container as
  its child, which the reducer drops and reports, skips its only node in every round, and the
  start of the run never returns.
\<close>

theorem nested_loop_hangs:
  "projectRunState bare_host nested_doc [\<lparr>ev_runId = lit ''r'', ev_body = RunStarted run_start\<rparr>] = None"
proof -
  have "rs_status (seedState nested_doc) = RunPending" "se_rerunOf run_start = None"
    by (simp_all add: seedState_def run_start_def)
  then have "reduce bare_host nested_doc (seedState nested_doc) \<lparr>ev_runId = lit ''r'', ev_body = RunStarted run_start\<rparr> = None"
    using nested_spins by (simp add: reduce_def onRunStarted_def nested_start_def Let_def)
  then show ?thesis by (simp add: projectRunState_def)
qed

text \<open>
  C2: \<open>settle\<close> refines the transition relation. What it returns is reached by transitions, with the
  commands they emit, and then it either stops the run where it stands or has come to rest.
\<close>

theorem settle_refines:
  assumes "settle h d st ds = Some r"
  shows "\<exists>b cs st'. walks d st b cs st' \<and> settled_by h d st' cs r"
  using settle_ok [OF assms] by blast

theorem settle_refines_witness:
  "\<exists>r b cs st'. settle bare_host chain_doc chain_start [] = Some r \<and>
     walks chain_doc chain_start b cs st' \<and> settled_by bare_host chain_doc st' cs r"
proof -
  have "flat chain_doc" "walkable chain_doc chain_start" by code_simp+
  then obtain r where r: "settle bare_host chain_doc chain_start [] = Some r"
    using settle_returns by blast
  with settle_refines [OF r] show ?thesis by blast
qed

section \<open>Verdicts\<close>

text \<open>
  C4: every end that \<open>settle\<close> asks for is accepted when it comes back as the run's \<open>run.finished\<close>
  event: a success is one, a cancellation was asked for, and the run takes that status.
\<close>

theorem verdict_accepted:
  assumes "settle h d st ds = Some r" "FinishRun oc why \<in> set (rr_commands r)"
  shows "onRunFinished d (rr_state r) oc = kept ((rr_state r)\<lparr>rs_status := status_of_outcome oc\<rparr>)"
  using settle_verdict [OF assms] .

theorem verdict_accepted_witness:
  "\<exists>st. onRunFinished chain_doc st OutSuccess = kept (st\<lparr>rs_status := RunSuccess\<rparr>)"
proof -
  have "settles_to 1 chain_doc chain_done (\<lambda>r. rr_commands r = [FinishRun OutSuccess None])" by code_simp
  then obtain r where r: "settle bare_host chain_doc chain_done [] = Some r"
    "rr_commands r = [FinishRun OutSuccess None]" by (rule settles_toE)
  have "FinishRun OutSuccess None \<in> set (rr_commands r)" using r(2) by simp
  from verdict_accepted [OF r(1) this] show ?thesis by (auto simp: status_of_outcome_def)
qed

text \<open>
  C5: a run is never left without a next event. After \<open>settle\<close> a running run is ended, parked, or
  has a node in flight.
\<close>

theorem always_a_next_event:
  assumes "settle h d st ds = Some r" "rs_status st = RunRunning"
  shows "list_ex ends_or_parks (rr_commands r) \<or> some_node isNodeInFlight (rr_state r)"
  using settle_progress [OF assms] .

theorem always_a_next_event_witness:
  "\<exists>r. settle bare_host chain_doc chain_start [] = Some r
     \<and> (list_ex ends_or_parks (rr_commands r) \<or> some_node isNodeInFlight (rr_state r))"
proof -
  have ok: "flat chain_doc" "walkable chain_doc chain_start" "rs_status chain_start = RunRunning" by code_simp+
  then obtain r where r: "settle bare_host chain_doc chain_start [] = Some r"
    using settle_returns by blast
  with always_a_next_event [OF r ok(3)] show ?thesis by blast
qed

text \<open>A run is parked only when none of its nodes is in flight and one of them will be woken.\<close>

theorem parked_run_wakes:
  assumes "settle h d st ds = Some r" "ParkRun why \<in> set (rr_commands r)"
  shows "\<not> some_node isNodeInFlight (rr_state r) \<and> some_node awaitsExternalEvent (rr_state r)"
  using settle_parks [OF assms] .

theorem parked_run_wakes_witness:
  "\<exists>r. settle bare_host chain_doc (run_with [(lit ''a'', WaitPending), (lit ''b'', Pending)]) [] = Some r
     \<and> some_node awaitsExternalEvent (rr_state r)"
proof -
  have "settles_to 1 chain_doc (run_with [(lit ''a'', WaitPending), (lit ''b'', Pending)])
      (\<lambda>r. rr_commands r = [ParkRun WaitingTimer])" by code_simp
  then obtain r where r: "settle bare_host chain_doc (run_with [(lit ''a'', WaitPending), (lit ''b'', Pending)]) [] = Some r"
    "rr_commands r = [ParkRun WaitingTimer]" by (rule settles_toE)
  have "ParkRun WaitingTimer \<in> set (rr_commands r)" using r(2) by simp
  from parked_run_wakes [OF r(1) this] r(1) show ?thesis by blast
qed

text \<open>C15: once its cancellation is requested, a run starts no work: all it can ask for is its end.\<close>

theorem cancelled_starts_nothing:
  assumes "settle h d st ds = Some r" "rs_cancelRequested st \<noteq> None"
  shows "\<forall>c \<in> set (rr_commands r). \<exists>oc why. c = FinishRun oc why"
  using settle_cancelled [OF assms] .

theorem cancelled_starts_nothing_witness:
  "\<exists>r. settle bare_host chain_doc chain_cancelled [] = Some r
     \<and> (\<forall>c \<in> set (rr_commands r). \<exists>oc why. c = FinishRun oc why)"
proof -
  have ok: "flat chain_doc" "walkable chain_doc chain_cancelled" by code_simp+
  have cr: "rs_cancelRequested chain_cancelled \<noteq> None" by (simp add: chain_cancelled_def)
  obtain r where r: "settle bare_host chain_doc chain_cancelled [] = Some r"
    using settle_returns [OF ok] by blast
  with cancelled_starts_nothing [OF r cr] show ?thesis by blast
qed

text \<open>
  C16: settling is idempotent. Settling a state that \<open>settle\<close> returned for a run that goes on
  changes nothing and starts nothing again.
\<close>

theorem settle_idempotent:
  assumes "settle h d st ds = Some r" "\<forall>oc why. FinishRun oc why \<notin> set (rr_commands r)"
  shows "\<exists>r'. settle h d (rr_state r) ds' = Some r' \<and> rr_state r' = rr_state r
    \<and> list_all (\<lambda>c. \<not> is_work c) (rr_commands r')"
  using settle_settled [OF assms] .

theorem settle_idempotent_witness:
  "\<exists>r r'. settle bare_host chain_doc chain_start [] = Some r
     \<and> settle bare_host chain_doc (rr_state r) [] = Some r' \<and> rr_state r' = rr_state r"
proof -
  have "settles_to 3 chain_doc chain_start (\<lambda>r. list_all (\<lambda>c. attempt_of c \<noteq> None) (rr_commands r))" by code_simp
  then obtain r where r: "settle bare_host chain_doc chain_start [] = Some r"
    "list_all (\<lambda>c. attempt_of c \<noteq> None) (rr_commands r)" by (rule settles_toE)
  have "\<forall>oc why. FinishRun oc why \<notin> set (rr_commands r)" using r(2) by (auto simp: list_all_iff)
  from settle_idempotent [OF r(1) this, of "[]"] r(1) show ?thesis by blast
qed

text \<open>
  C3: a run ends only by the event that ends it. When a step turns a run that goes on into one that
  is over, its event is \<open>run.finished\<close> or \<open>run.interrupted\<close>, the status is the one it names, a
  success has every top-level entity settled without an unhandled failure, and a cancellation was
  asked for.
\<close>

theorem run_ends_by_its_event:
  assumes "reduce h d st ev = Some r" "\<not> run_over st" "run_over (rr_state r)"
  shows "ends_as d st (ev_body ev) (rs_status (rr_state r))"
  using ends_by_event [OF assms] .

theorem run_ends_by_its_event_witness:
  "ends_as chain_doc chain_done (RunFinished OutSuccess) RunSuccess"
proof -
  let ?ev = "\<lparr>ev_runId = lit ''r'', ev_body = RunFinished OutSuccess\<rparr>"
  have "case reduce bare_host chain_doc chain_done ?ev of None \<Rightarrow> False | Some r \<Rightarrow> rs_status (rr_state r) = RunSuccess"
    by code_simp
  then obtain r where r: "reduce bare_host chain_doc chain_done ?ev = Some r" "rs_status (rr_state r) = RunSuccess"
    by (auto split: option.splits)
  have "\<not> run_over chain_done" "run_over (rr_state r)"
    using r(2) by (simp_all add: run_over_def chain_done_def run_with_def)
  from run_ends_by_its_event [OF r(1) this] show ?thesis by (simp add: r(2))
qed

section \<open>What is ignored\<close>

text \<open>A run that is over stays as it is, whatever is still appended to its log.\<close>

theorem over_absorbs:
  assumes "run_over st"
  shows "fold_log h d st evs = Some st"
  using over_stays [OF assms] .

theorem over_absorbs_witness:
  "fold_log bare_host chain_doc (chain_done\<lparr>rs_status := RunSuccess\<rparr>) [start_event] = Some (chain_done\<lparr>rs_status := RunSuccess\<rparr>)"
  by (rule over_absorbs) (simp add: run_over_def)

text \<open>An event of another run changes nothing and asks for nothing, once the run has started.\<close>

theorem foreign_event_ignored:
  assumes "rs_status st \<noteq> RunPending" "ev_runId ev \<noteq> rs_runId st"
  shows "silent st (reduce h d st ev)"
  using foreign_ignored [OF assms] .

theorem foreign_event_ignored_witness:
  "silent chain_done (reduce bare_host chain_doc chain_done \<lparr>ev_runId = lit ''q'', ev_body = RunInterruptedE\<rparr>)"
  by (rule foreign_event_ignored) (simp_all add: chain_done_def run_with_def)

text \<open>
  C17: an event of an attempt that is not the current one of its node leaves the state as it is, and
  asks for nothing, so that a late or repeated answer of an earlier attempt has no effect; with one
  exception. The end of an attempt that is reported for a pending node is refused before its attempt is
  looked at: the run that hears it keeps its state and is asked to end as a failure.
\<close>

theorem stale_event_exact:
  assumes "ev_body ev = NodeEvent i a e" "map_of (rs_nodes st) i = Some ns" "ns_currentAttemptId ns \<noteq> Some a"
  shows "if ns_status ns = Pending \<and> ends_attempt e \<and> heard st ev
    then reduce h d st ev = Some (result_of st [invalid_event] [ImpossibleEvent i])
    else \<exists>ds. reduce h d st ev = Some (result_of st [] ds)"
  using stale_event [OF assms, of h d] by (simp add: refused_def silent_def)

theorem stale_event_exact_witness:
  "\<exists>ds. reduce bare_host chain_doc chain_done
     \<lparr>ev_runId = lit ''r'', ev_body = NodeEvent (lit ''a'') (lit ''a#0'') (NodeSucceeded [])\<rparr>
     = Some (result_of chain_done [] ds)"
  using stale_event_exact [where i = "lit ''a''" and a = "lit ''a#0''" and e = "NodeSucceeded []"
        and ns = "node_done Success" and st = chain_done and h = bare_host and d = chain_doc
        and ev = "\<lparr>ev_runId = lit ''r'', ev_body = NodeEvent (lit ''a'') (lit ''a#0'') (NodeSucceeded [])\<rparr>"]
  by (simp add: chain_done_def run_with_def node_done_def)

section \<open>Attempts\<close>

text \<open>C23: in every state a log projects to, no node has been retried more often than its policy allows.\<close>

theorem retries_within_budget:
  assumes "projectRunState h d evs = Some st" "sound_doc d" "map_of (rs_nodes st) i = Some ns"
  shows "ns_retries ns \<le> retry_budget d i"
  using budget.projected_node [OF assms] by blast

theorem retries_within_budget_witness:
  "\<exists>st ns. projectRunState bare_host chain_doc [start_event] = Some st
     \<and> map_of (rs_nodes st) (lit ''a'') = Some ns \<and> ns_retries ns \<le> retry_budget chain_doc (lit ''a'')"
proof -
  have "settles_to 3 chain_doc chain_start (\<lambda>r. map_of (rs_nodes (rr_state r)) (lit ''a'') \<noteq> None)" by code_simp
  then obtain r ns where r: "settle bare_host chain_doc chain_start [] = Some r"
    and ns: "map_of (rs_nodes (rr_state r)) (lit ''a'') = Some ns" by (auto elim!: settles_toE)
  have "docDefects chain_doc = []" by code_simp
  then have p: "projectRunState bare_host chain_doc [start_event] = Some (rr_state r)"
    using r by (simp add: projectRunState_def start_event_def reduce_def onRunStarted_def chain_start_def
        seedState_def run_start_def Let_def)
  have "sound_doc chain_doc" by code_simp
  from retries_within_budget [OF p this ns] p ns show ?thesis by blast
qed

text \<open>
  The current attempt of a node is the last one it was numbered with, so a new attempt never
  reuses the id of an earlier one.
\<close>

theorem attempts_numbered:
  assumes "projectRunState h d evs = Some st" "sound_doc d" "map_of (rs_nodes st) i = Some ns"
    and "ns_currentAttemptId ns = Some a"
  shows "0 < ns_attempts ns \<and> a = attempt_id i (ns_attempts ns - 1)"
  using attempts.projected_node [OF assms(1-3)] assms(4) by (simp add: numbered_def)

theorem attempts_numbered_witness:
  "\<exists>st ns a. projectRunState bare_host chain_doc [start_event] = Some st
     \<and> map_of (rs_nodes st) (lit ''a'') = Some ns \<and> ns_currentAttemptId ns = Some a
     \<and> 0 < ns_attempts ns \<and> a = attempt_id (lit ''a'') (ns_attempts ns - 1)"
proof -
  have "settles_to 3 chain_doc chain_start (\<lambda>r. case map_of (rs_nodes (rr_state r)) (lit ''a'') of
      None \<Rightarrow> False | Some ns \<Rightarrow> ns_currentAttemptId ns \<noteq> None)" by code_simp
  then obtain r ns a where r: "settle bare_host chain_doc chain_start [] = Some r"
    and ns: "map_of (rs_nodes (rr_state r)) (lit ''a'') = Some ns" "ns_currentAttemptId ns = Some a"
    by (auto elim!: settles_toE split: option.splits)
  have "docDefects chain_doc = []" by code_simp
  then have p: "projectRunState bare_host chain_doc [start_event] = Some (rr_state r)"
    using r by (simp add: projectRunState_def start_event_def reduce_def onRunStarted_def chain_start_def
        seedState_def run_start_def Let_def)
  have "sound_doc chain_doc" by code_simp
  from attempts_numbered [OF p this ns] p ns show ?thesis by blast
qed

section \<open>Reruns and redaction\<close>

text \<open>
  C24: a rerun copies exactly the nodes that are no children of a container and, with all that led
  to them, succeeded in a way that can be copied: the fixed number of passes reaches the fixed point.
\<close>

theorem reseed_frontier_exact:
  "i \<in> set (rf_frontier (reseedFrontier d st)) \<longleftrightarrow>
     is_node d i \<and> i \<notin> fst ` set (owners d) \<and> copyable d st i"
  by (rule frontier_exact)

text \<open>
  Redaction keeps the verdict. The recorded, redacted outputs of a secure node are refused on
  replay exactly when the outputs themselves were, with the same errors, unless an output is
  called \<open>__proto__\<close>.
\<close>

theorem redaction_keeps_verdict:
  assumes "outputContract n = Declared ds" "\<forall>o1 \<in> set ds. do_name o1 \<noteq> lit ''__proto__''" "distinct (map fst outs)"
  shows "validateOutputs True (outputContract n) (redactOutputs n outs) = validateOutputs False (outputContract n) outs"
  using redacted_verdict [OF assms] .

definition secret_node :: "jstr \<Rightarrow> node" where
  "secret_node name = (plain_node (lit ''s''))
     \<lparr>n_config := [(lit ''outputs'', JArr [JObj [(lit ''name'', JStr name), (lit ''type'', JStr (lit ''string''))]])]\<rparr>"

theorem redaction_keeps_verdict_witness:
  "validateOutputs True (outputContract (secret_node (lit ''k''))) (redactOutputs (secret_node (lit ''k'')) [(lit ''k'', JNull)])
     = validateOutputs False (outputContract (secret_node (lit ''k''))) [(lit ''k'', JNull)]"
  by (rule redaction_keeps_verdict [where ds = "[\<lparr>do_name = lit ''k'', do_type = OutString, do_optional = False\<rparr>]"])
    code_simp+

text \<open>
  C25: a node with secure outputs that declares a required output called \<open>__proto__\<close> never succeeds.
  Whatever outputs its attempt returns, valid or not, the redaction that the event goes through before it is
  recorded loses that output, so the reducer finds it missing in the record and fails the node.
\<close>

theorem redacted_proto_fails:
  assumes "outputContract n = Declared ds" "dec \<in> set ds" "do_name dec = lit ''__proto__''" "\<not> do_optional dec"
    and "docNodeFor d i = Some n" "hasSecureOutput n"
    and "map_of (rs_nodes st) i = Some ns" "LIVE_NODE (ns_status ns)" "is_current ns a"
  shows "onSucceeded h d st i a (redactOutputs n outs) = settle h d (failed st i) [InvalidOutputs i]"
proof -
  have "validateOutputs True (outputContract n) (redactOutputs n outs) \<noteq> []"
    using redacted_missing [OF assms(1-4), of True outs] by (metis empty_iff empty_set)
  then show ?thesis using assms by (simp add: onSucceeded_def Let_def)
qed

text \<open>A secure node whose only output is called \<open>__proto__\<close>, and a text returned for it, which is valid.\<close>

definition proto_node :: node where
  "proto_node = (secret_node (lit ''__proto__''))
     \<lparr>n_policy := Some \<lparr>pl_retry = None, pl_secureInput = None, pl_secureOutput = Some True\<rparr>\<rparr>"

definition proto_doc :: doc where
  "proto_doc = \<lparr>d_nodes = [proto_node], d_edges = [], d_containers = [], d_variables = []\<rparr>"

definition proto_state :: run_state where
  "proto_state = (run_with [])
     \<lparr>rs_nodes := [(lit ''s'', (node_done Dispatched)\<lparr>ns_currentAttemptId := Some (lit ''s#0'')\<rparr>)]\<rparr>"

theorem redacted_proto_fails_witness:
  "validateOutputs False (outputContract proto_node) [(lit ''__proto__'', JStr (lit ''v''))] = []
   \<and> onSucceeded bare_host proto_doc proto_state (lit ''s'') (lit ''s#0'')
       (redactOutputs proto_node [(lit ''__proto__'', JStr (lit ''v''))])
     = settle bare_host proto_doc (failed proto_state (lit ''s'')) [InvalidOutputs (lit ''s'')]"
proof
  show "validateOutputs False (outputContract proto_node) [(lit ''__proto__'', JStr (lit ''v''))] = []" by code_simp
  show "onSucceeded bare_host proto_doc proto_state (lit ''s'') (lit ''s#0'')
       (redactOutputs proto_node [(lit ''__proto__'', JStr (lit ''v''))])
     = settle bare_host proto_doc (failed proto_state (lit ''s'')) [InvalidOutputs (lit ''s'')]"
    by (rule redacted_proto_fails [where ns = "(node_done Dispatched)\<lparr>ns_currentAttemptId := Some (lit ''s#0'')\<rparr>"
          and ds = "[\<lparr>do_name = lit ''__proto__'', do_type = OutString, do_optional = False\<rparr>]"
          and dec = "\<lparr>do_name = lit ''__proto__'', do_type = OutString, do_optional = False\<rparr>"]) code_simp+
qed

text \<open>Nothing of an output's value is left by its redaction but whether it is valid, or null.\<close>

theorem redaction_hides_values:
  assumes "(k, v) \<in> set (redactOutputs n outs)"
  shows "v \<in> {JStr SECURE_REDACTED, JStr SECURE_REDACTED_INVALID, JNull, JUndef}"
  using redacted_hides [OF assms] .

theorem redaction_hides_values_witness:
  "JStr SECURE_REDACTED \<in> {JStr SECURE_REDACTED, JStr SECURE_REDACTED_INVALID, JNull, JUndef}"
  by (rule redaction_hides_values [where k = "lit ''k''" and n = "secret_node (lit ''k'')" and outs = "[(lit ''k'', JStr (lit ''v''))]"])
    code_simp

end
