(* ===== verification/StaticCheck.thy ===== *)
theory StaticCheck
  imports Outputs
begin

text \<open>
  The static check of the \<open>${}\<close> expressions of a document, \<open>engine/params.ts\<close>: the inferred types
  (\<open>inferExprType\<close>), the rules of a call and of a reference (\<open>checkExprStatic\<close>, \<open>checkRefRoot\<close>),
  the walk over a configuration (\<open>scan\<close>) and the bindings of a trigger. The check collects what it
  finds in order: refusals, the variables and globals it reads, and warnings. A message is
  represented by the site that writes it. \<open>None\<close> is the \<open>TypeError\<close> of a call whose name is a
  member that the catalog inherits.
\<close>

section \<open>What a check finds\<close>

datatype root_kind =
    KItem | KParams | KVars | KGlobal | KNodeOutput | KNodeStatus | KRun | KTrigger | KTool

definition kind_of_root :: "ref_root \<Rightarrow> root_kind" where
  "kind_of_root r =
     (case r of RItem \<Rightarrow> KItem | RParams _ \<Rightarrow> KParams | RVars _ \<Rightarrow> KVars | RGlobal _ \<Rightarrow> KGlobal
      | RNodeOutput _ _ \<Rightarrow> KNodeOutput | RNodeStatus _ \<Rightarrow> KNodeStatus | RRun _ \<Rightarrow> KRun
      | RTrigger _ \<Rightarrow> KTrigger | RTool _ \<Rightarrow> KTool)"

datatype static_defect =
    Unparsable exn
  | UnknownFn jstr | WrongArity jstr nat | WrongArgument jstr nat sig_type sig_type
  | UnresolvableRoot jstr | RootNotAllowed jstr root_kind | TooDeepPath jstr nat
  | OperatorInField jstr jstr | IndexMistyped jstr sig_type | DeepIntoTyped jstr sig_type
  | ItemOutOfScope jstr | UndeclaredParam jstr | SecretParam jstr | UndeclaredVariable jstr
  | NoSuchGlobal jstr | SecureOutputRead jstr jstr | NoSuchOutput jstr jstr
  | NotGuaranteedHere jstr jstr | OutputNotUpstream jstr jstr
  | StatusNotSettled jstr | StatusNotUpstream jstr
  | ToolOutOfScope jstr | NoToolParameter jstr | WindowOutOfScope jstr
  | NoTriggerField jstr | NoRunField jstr
  | ConfigNesting | UnterminatedField

datatype advisory = InactiveRead jstr jstr | NullRead jstr jstr

datatype finding =
    Refuse static_defect
  | ReadsVariable jstr
  | ReadsGlobal jstr
  | Advise advisory

type_synonym check = "finding list option"

abbreviation nothing :: check where "nothing \<equiv> Some []"

abbreviation refuse :: "static_defect \<Rightarrow> check" where "refuse d \<equiv> Some [Refuse d]"

text \<open>One check after another, whatever they find: what each finds is appended.\<close>

definition andAlso :: "'f list option \<Rightarrow> 'f list option \<Rightarrow> 'f list option" where
  "andAlso a b = (case a of None \<Rightarrow> None | Some xs \<Rightarrow> map_option (append xs) b)"

fun allChecks :: "'f list option list \<Rightarrow> 'f list option" where
  "allChecks [] = Some []"
| "allChecks (c # cs) = andAlso c (allChecks cs)"

section \<open>The scope of a check\<close>

definition RUN_FIELDS :: "jstr list" where
  "RUN_FIELDS = [lit ''runId'', lit ''startedAt'', lit ''pipelineVersionId'', lit ''triggerId'', lit ''parentRunId'']"

definition TRIGGER_FIELDS :: "jstr list" where
  "TRIGGER_FIELDS = [lit ''triggerId'', lit ''scheduledTime'', lit ''body'']"

definition TRIGGER_WINDOW_FIELDS :: "jstr list" where
  "TRIGGER_WINDOW_FIELDS = [lit ''windowStart'', lit ''windowEnd'']"

text \<open>
  \<open>ScanScope\<close>. A \<open>Map\<close> is the list of its insertions; the sets that are only given when warnings
  are collected are empty when they are not.
\<close>

record scan_scope =
  sn_declared :: "(jstr \<times> param) list"
  sn_variables :: "(jstr \<times> variable_def) list"
  sn_globals :: "(jstr \<times> param_type) list"
  sn_guaranteed :: "jstr list"
  sn_settled :: "jstr list"
  sn_reachable :: "jstr list"
  sn_soft :: "jstr list"
  sn_outputs :: "(jstr \<times> output_contract) list"
  sn_secure :: "jstr list"
  sn_windowFields :: bool
  sn_toolArgs :: "(jstr \<times> sig_type) list option"
  sn_inactive :: "jstr list"
  sn_nulls :: "(jstr \<times> jstr list) list"

definition sig_of_output :: "output_type \<Rightarrow> sig_type" where
  "sig_of_output t =
     sigOfDeclared (case t of OutString \<Rightarrow> PString | OutNumber \<Rightarrow> PNumber | OutBoolean \<Rightarrow> PBoolean | OutJson \<Rightarrow> PJson)"

text \<open>The outputs a producer declares, when it has a contract that does.\<close>

definition declared_outputs :: "scan_scope \<Rightarrow> jstr \<Rightarrow> declared_output list option" where
  "declared_outputs ss i =
     (case js_map_of (sn_outputs ss) i of Some (Declared ds) \<Rightarrow> Some ds | _ \<Rightarrow> None)"

section \<open>Inferred types\<close>

definition refRootType :: "ref_root \<Rightarrow> scan_scope \<Rightarrow> sig_type" where
  "refRootType rt ss =
     (case rt of
        RItem \<Rightarrow> SAny
      | RParams k \<Rightarrow> (case js_map_of (sn_declared ss) k of None \<Rightarrow> SAny | Some p \<Rightarrow> sigOfDeclared (p_type p))
      | RVars k \<Rightarrow> (case js_map_of (sn_variables ss) k of None \<Rightarrow> SAny | Some v \<Rightarrow> sig_of_variable (v_type v))
      | RGlobal k \<Rightarrow> (case js_map_of (sn_globals ss) k of None \<Rightarrow> SAny | Some t \<Rightarrow> sigOfDeclared t)
      | RNodeOutput i k \<Rightarrow>
          (case declared_outputs ss i of
             None \<Rightarrow> SAny
           | Some ds \<Rightarrow> (case find (\<lambda>o1. do_name o1 = k) ds of None \<Rightarrow> SAny | Some o1 \<Rightarrow> sig_of_output (do_type o1)))
      | RNodeStatus i \<Rightarrow> SString
      | RRun f \<Rightarrow> if f \<in> set RUN_FIELDS then SString else SAny
      | RTrigger f \<Rightarrow>
          if f = lit ''body'' then SAny
          else if f \<in> set TRIGGER_FIELDS \<or> f \<in> set TRIGGER_WINDOW_FIELDS then SString else SAny
      | RTool k \<Rightarrow>
          (case sn_toolArgs ss of
             None \<Rightarrow> SAny
           | Some ts \<Rightarrow> (case js_map_of ts k of None \<Rightarrow> SAny | Some t \<Rightarrow> t)))"

definition inferExprType :: "host \<Rightarrow> scan_scope \<Rightarrow> expr \<Rightarrow> sig_type" where
  "inferExprType h ss e =
     (case e of
        EStr _ \<Rightarrow> SString
      | ENum _ \<Rightarrow> SNumber
      | EBool _ \<Rightarrow> SBoolean
      | ECall name _ \<Rightarrow> (case fn_lookup h name :: unit fn_lookup of Entry spec \<Rightarrow> fs_ret spec | _ \<Rightarrow> SAny)
      | ERef _ segs \<Rightarrow>
          (case refRoot (leadingFields segs) of
             None \<Rightarrow> SAny
           | Some rt \<Rightarrow> if root_arity rt < length segs then SAny else refRootType rt ss))"

section \<open>References\<close>

definition checkRefRoot :: "jstr \<Rightarrow> ref_root \<Rightarrow> scan_scope \<Rightarrow> bool \<Rightarrow> bool \<Rightarrow> check" where
  "checkRefRoot src rt ss softOk itemInScope =
     (case rt of
        RItem \<Rightarrow> if itemInScope then nothing else refuse (ItemOutOfScope src)
      | RParams k \<Rightarrow>
          (case js_map_of (sn_declared ss) k of
             None \<Rightarrow> refuse (UndeclaredParam k)
           | Some p \<Rightarrow> if p_type p = PSecret then refuse (SecretParam k) else nothing)
      | RVars k \<Rightarrow>
          Some (ReadsVariable k # (if js_map_of (sn_variables ss) k = None then [Refuse (UndeclaredVariable k)] else []))
      | RGlobal k \<Rightarrow>
          if js_map_of (sn_globals ss) k = None then refuse (NoSuchGlobal k) else Some [ReadsGlobal k]
      | RNodeOutput i k \<Rightarrow>
          if i \<in> set (sn_secure ss) then refuse (SecureOutputRead i k)
          else if \<not> softOk \<and> (case declared_outputs ss i of None \<Rightarrow> False | Some ds \<Rightarrow> k \<notin> do_name ` set ds)
          then refuse (NoSuchOutput i k)
          else if i \<in> set (sn_guaranteed ss)
          then (if \<not> softOk \<and> i \<in> set (sn_inactive ss) then Some [Advise (InactiveRead i k)]
                else if \<not> softOk \<and> (case js_map_of (sn_nulls ss) i of None \<Rightarrow> False | Some ks \<Rightarrow> k \<in> set ks)
                then Some [Advise (NullRead i k)] else nothing)
          else if i \<in> set (sn_reachable ss) \<or> i \<in> set (sn_soft ss)
          then (if softOk then nothing else refuse (NotGuaranteedHere i k))
          else refuse (OutputNotUpstream i k)
      | RNodeStatus i \<Rightarrow>
          if i \<in> set (sn_settled ss) then nothing
          else if i \<in> set (sn_reachable ss) \<or> i \<in> set (sn_soft ss) then refuse (StatusNotSettled i)
          else refuse (StatusNotUpstream i)
      | RTool k \<Rightarrow>
          (case sn_toolArgs ss of
             None \<Rightarrow> refuse (ToolOutOfScope src)
           | Some ts \<Rightarrow> if js_map_of ts k = None then refuse (NoToolParameter k) else nothing)
      | RTrigger f \<Rightarrow>
          if f \<in> set TRIGGER_FIELDS then nothing
          else if f \<in> set TRIGGER_WINDOW_FIELDS
          then (if sn_windowFields ss then nothing else refuse (WindowOutOfScope f))
          else refuse (NoTriggerField f)
      | RRun f \<Rightarrow> if f \<in> set RUN_FIELDS then nothing else refuse (NoRunField f))"

section \<open>Expressions\<close>

type_synonym root_restriction = "root_kind list option"

definition root_allowed :: "root_restriction \<Rightarrow> ref_root \<Rightarrow> bool" where
  "root_allowed roots rt \<longleftrightarrow> (case roots of None \<Rightarrow> True | Some ks \<Rightarrow> kind_of_root rt \<in> set ks)"

text \<open>The arguments of a call, each checked in the scope of its position and then typed.\<close>

fun check_args ::
  "jstr \<Rightarrow> unit fnspec \<Rightarrow> bool \<Rightarrow> nat \<Rightarrow> ((bool \<Rightarrow> bool \<Rightarrow> check) \<times> sig_type) list \<Rightarrow> check" where
  "check_args name spec itemInScope i [] = nothing"
| "check_args name spec itemInScope i ((c, t) # cs) =
     andAlso (c (fs_staticSoftArg spec = Some i) (itemInScope \<or> i \<in> set (fs_lambdaArgs spec)))
       (andAlso (if assignableTo t (argSigAt spec i) then nothing
                 else refuse (WrongArgument name (i + 1) (argSigAt spec i) t))
         (check_args name spec itemInScope (i + 1) cs))"

definition check_call ::
  "host \<Rightarrow> jstr \<Rightarrow> ((bool \<Rightarrow> bool \<Rightarrow> check) \<times> sig_type) list \<Rightarrow> bool \<Rightarrow> check" where
  "check_call h name args itemInScope =
     (case fn_lookup h name of
        Absent \<Rightarrow> refuse (UnknownFn name)
      | Inherited \<Rightarrow> None
      | Entry spec \<Rightarrow>
          andAlso (if arity_ok spec (length args) then nothing else refuse (WrongArity name (length args)))
            (check_args name spec itemInScope 0 args))"

text \<open>A tail field that holds an operator sign.\<close>

fun operator_field :: "segment \<Rightarrow> bool" where
  "operator_field (SField f) = (infixOperatorHint f \<noteq> None)"
| "operator_field (SIndex e) = False"

definition check_ref ::
  "scan_scope \<Rightarrow> root_restriction \<Rightarrow> jstr \<Rightarrow> segment list \<Rightarrow> (bool \<Rightarrow> bool \<Rightarrow> check) list \<Rightarrow> bool \<Rightarrow> bool \<Rightarrow> check" where
  "check_ref ss roots src segs cs softOk itemInScope =
     (case refRoot (leadingFields segs) of
        None \<Rightarrow> refuse (UnresolvableRoot src)
      | Some rt \<Rightarrow>
          if \<not> root_allowed roots rt then refuse (RootNotAllowed src (kind_of_root rt))
          else if MAX_PATH_DEPTH < length segs then refuse (TooDeepPath src (length segs))
          else let tail = drop (root_arity rt) segs
               in case find operator_field tail of
                    Some (SField f) \<Rightarrow> refuse (OperatorInField src f)
                  | _ \<Rightarrow>
                      andAlso (allChecks (map (\<lambda>c. c softOk itemInScope) (drop (root_arity rt) cs)))
                        (andAlso (checkRefRoot src rt ss softOk itemInScope)
                          (if tail = [] then nothing
                           else let t = refRootType rt ss;
                                    indexed = (t = SArray \<and> (case hd tail of SIndex _ \<Rightarrow> True | _ \<Rightarrow> False))
                                in if t \<noteq> SAny \<and> \<not> indexed then refuse (DeepIntoTyped src t) else nothing)))"

fun checkExprStatic :: "host \<Rightarrow> scan_scope \<Rightarrow> root_restriction \<Rightarrow> expr \<Rightarrow> bool \<Rightarrow> bool \<Rightarrow> check"
  and check_index :: "host \<Rightarrow> scan_scope \<Rightarrow> root_restriction \<Rightarrow> jstr \<Rightarrow> segment \<Rightarrow> bool \<Rightarrow> bool \<Rightarrow> check" where
  "checkExprStatic h ss roots (EStr s) = (\<lambda>softOk itemInScope. nothing)"
| "checkExprStatic h ss roots (ENum n) = (\<lambda>softOk itemInScope. nothing)"
| "checkExprStatic h ss roots (EBool b) = (\<lambda>softOk itemInScope. nothing)"
| "checkExprStatic h ss roots (ECall name args) =
     (\<lambda>softOk itemInScope.
        check_call h name (map (\<lambda>a. (checkExprStatic h ss roots a, inferExprType h ss a)) args) itemInScope)"
| "checkExprStatic h ss roots (ERef src segs) =
     (\<lambda>softOk itemInScope.
        check_ref ss roots src segs (map (check_index h ss roots src) segs) softOk itemInScope)"
| "check_index h ss roots src (SField f) = (\<lambda>softOk itemInScope. nothing)"
| "check_index h ss roots src (SIndex e) =
     (\<lambda>softOk itemInScope.
        andAlso (checkExprStatic h ss roots e softOk itemInScope)
          (let t = inferExprType h ss e
           in if t \<noteq> SAny \<and> t \<noteq> SNumber \<and> t \<noteq> SString then refuse (IndexMistyped src t) else nothing))"

section \<open>Configurations\<close>

text \<open>A finding with the path of its field and, for a refusal, the hint on the operator it holds.\<close>

type_synonym located = "jstr \<times> finding \<times> (jstr \<times> jstr) option"

definition locate :: "jstr \<Rightarrow> (jstr \<times> jstr) option \<Rightarrow> finding \<Rightarrow> located" where
  "locate wh hint f = (wh, f, case f of Refuse _ \<Rightarrow> hint | _ \<Rightarrow> None)"

fun mode_matches :: "template_mode \<Rightarrow> refmatch list" where
  "mode_matches (Literal _ ms _) = ms"
| "mode_matches (Whole _ ms _ _) = ms"
| "mode_matches (Interpolated _ ms _) = ms"

fun mode_unterminated :: "template_mode \<Rightarrow> nat option" where
  "mode_unterminated (Literal _ _ u) = u"
| "mode_unterminated (Whole _ _ u _) = u"
| "mode_unterminated (Interpolated _ _ u) = u"

text \<open>\<open>parseExprSafe\<close>, and the check of what it gives: a body that does not parse is reported once.\<close>

definition check_body :: "host \<Rightarrow> scan_scope \<Rightarrow> root_restriction \<Rightarrow> bool \<Rightarrow> jstr \<Rightarrow> check" where
  "check_body h ss roots itemInScope body =
     (case parseExpr body of
        Inl e \<Rightarrow> refuse (Unparsable e)
      | Inr x \<Rightarrow> checkExprStatic h ss roots x False itemInScope)"

definition scan_field ::
  "host \<Rightarrow> scan_scope \<Rightarrow> root_restriction \<Rightarrow> bool \<Rightarrow> jstr \<Rightarrow> jstr \<Rightarrow> located list option" where
  "scan_field h ss roots itemInScope wh s =
     (let mode = interpolationMode s
      in andAlso (Some (if mode_unterminated mode \<noteq> None then [locate wh None (Refuse UnterminatedField)] else []))
           (allChecks (map (\<lambda>m. map_option (map (locate wh (infixOperatorHint (m_body m))))
                                  (check_body h ss roots itemInScope (m_body m)))
                        (mode_matches mode))))"

definition too_nested :: "jstr \<Rightarrow> located list option" where
  "too_nested wh = Some [locate wh None (Refuse ConfigNesting)]"

fun scan :: "host \<Rightarrow> scan_scope \<Rightarrow> root_restriction \<Rightarrow> bool \<Rightarrow> jval \<Rightarrow> jstr \<Rightarrow> nat \<Rightarrow> located list option" where
  "scan h ss roots itemInScope (JStr s) =
     (\<lambda>wh depth. if MAX_CONFIG_DEPTH < depth then too_nested wh else scan_field h ss roots itemInScope wh s)"
| "scan h ss roots itemInScope (JArr xs) =
     (\<lambda>wh depth.
        if MAX_CONFIG_DEPTH < depth then too_nested wh
        else allChecks (map (\<lambda>(i, f). f (wh @ lit ''['' @ nat_digits i @ lit '']'') (depth + 1))
               (zip [0..<length xs] (map (scan h ss roots itemInScope) xs))))"
| "scan h ss roots itemInScope (JObj ps) =
     (\<lambda>wh depth.
        if MAX_CONFIG_DEPTH < depth then too_nested wh
        else allChecks (map (\<lambda>(k, f). f (wh @ lit ''.'' @ k) (depth + 1))
               (sort_key fst (map (\<lambda>(k, v). (k, scan h ss roots itemInScope v)) ps))))"
| "scan h ss roots itemInScope v = (\<lambda>wh depth. if MAX_CONFIG_DEPTH < depth then too_nested wh else Some [])"

definition refusals :: "located list \<Rightarrow> located list" where
  "refusals fs = filter (\<lambda>(wh, f, hint). case f of Refuse _ \<Rightarrow> True | _ \<Rightarrow> False) fs"

section \<open>The bindings of a trigger\<close>

definition TRIGGER_BINDING_ROOTS :: root_restriction where
  "TRIGGER_BINDING_ROOTS = Some [KTrigger]"

definition TOOL_EXPRESSION_ROOTS :: root_restriction where
  "TOOL_EXPRESSION_ROOTS = Some [KTool, KItem]"

definition empty_scope :: scan_scope where
  "empty_scope =
     \<lparr>sn_declared = [], sn_variables = [], sn_globals = [], sn_guaranteed = [], sn_settled = [],
      sn_reachable = [], sn_soft = [], sn_outputs = [], sn_secure = [], sn_windowFields = False,
      sn_toolArgs = None, sn_inactive = [], sn_nulls = []\<rparr>"

definition validateTriggerBindings :: "host \<Rightarrow> jobj \<Rightarrow> bool \<Rightarrow> located list option" where
  "validateTriggerBindings h ps windowFields =
     map_option refusals
       (allChecks (map (\<lambda>(k, v). scan h (empty_scope\<lparr>sn_windowFields := windowFields\<rparr>)
                                  TRIGGER_BINDING_ROOTS False v (lit ''params.'' @ k) 0) ps))"

definition windowBindingErrors :: "host \<Rightarrow> jobj \<Rightarrow> located list option" where
  "windowBindingErrors h ps =
     (case (validateTriggerBindings h ps True, validateTriggerBindings h ps False) of
        (Some permitted, Some strict) \<Rightarrow> Some (filter (\<lambda>e. e \<notin> set permitted) strict)
      | _ \<Rightarrow> None)"

text \<open>The values of the bindings when the trigger fires: a fire whose values cannot be replayed fails.\<close>

datatype binding_error = BindingLanguage exn | BindingReplay replay_error

definition trigger_ctx :: "trigger_context \<Rightarrow> sub_ctx" where
  "trigger_ctx tc = empty_ctx\<lparr>cx_trigger := triggerRoot (Some tc)\<rparr>"

definition resolveTriggerBindings :: "host \<Rightarrow> jobj \<Rightarrow> trigger_context \<Rightarrow> (binding_error, jval) result" where
  "resolveTriggerBindings h ps tc =
     (case substitute h (trigger_ctx tc) None 0 (JObj ps) of
        Inl e \<Rightarrow> Inl (BindingLanguage e)
      | Inr v \<Rightarrow>
          (case jsonReplaySafetyErrors (lit ''trigger param binding'') v of
             [] \<Rightarrow> Inr v
           | e # _ \<Rightarrow> Inl (BindingReplay e)))"

end
