(* ===== verification/StaticSoundness.thy ===== *)
theory StaticSoundness
  imports StaticCheck
begin

text \<open>
  What the static check of an expression promises: an accepted expression fails only for what a run
  alone can know, its value has the inferred type, and it reads only what the check reported.
\<close>

section \<open>What the catalog throws\<close>

text \<open>The errors of a function of the catalog, and those of the host that it lets through.\<close>

fun fn_exn :: "exn \<Rightarrow> bool" where
  "fn_exn (SubstituteE (FnReason f r)) = True"
| "fn_exn (SubstituteE (DateReason f r)) = True"
| "fn_exn HostE = True"
| "fn_exn e = False"

definition raises_fn :: "'a jres \<Rightarrow> bool" where
  "raises_fn r \<longleftrightarrow> (\<forall>e. r = Inl e \<longrightarrow> fn_exn e)"

lemma raises_fn_simps [simp]:
  "raises_fn (Inr x)" "raises_fn (throw_fn f r)" "raises_fn (throw (DateReason f d))" "raises_fn (Inl HostE)"
  by (simp_all add: raises_fn_def)

lemma raises_fn_bind: "raises_fn m \<Longrightarrow> (\<And>x. m = Inr x \<Longrightarrow> raises_fn (f x)) \<Longrightarrow> raises_fn (bindR m f)"
  by (cases m) (auto simp: raises_fn_def)

lemma raises_fn_map: "(\<And>x. raises_fn (f x)) \<Longrightarrow> raises_fn (mapR f xs)"
  by (induction xs) (auto intro!: raises_fn_bind)

lemma raises_checks:
  "raises_fn (expect f v t)" "raises_fn (str f v)" "raises_fn (num f v)" "raises_fn (arr f v)"
  "raises_fn (cap f n)" "raises_fn (capped f xs)" "raises_fn (loopArr f v)" "raises_fn (finite_num f x)"
  "raises_fn (expectBool f v)" "raises_fn (order f v w)" "raises_fn (sized f v)" "raises_fn (at_end f v b)"
  "raises_fn (numbers f v)" "raises_fn (count0 f v)"
  by (auto simp: expect_def str_def num_def arr_def cap_def capped_def loopArr_def finite_num_def
      expectBool_def order_def sized_def at_end_def numbers_def count0_def
      intro!: raises_fn_bind raises_fn_map split: jval.split)

lemma raises_union: "raises_fn (union_elems out els)" "raises_fn (union_args out xs)"
proof -
  show elems: "raises_fn (union_elems out els)" for out els
    by (induction out els rule: union_elems.induct) (auto simp: Let_def raises_checks intro!: raises_fn_bind)
  show "raises_fn (union_args out xs)"
    by (induction out xs rule: union_args.induct) (auto simp: elems raises_checks intro!: raises_fn_bind)
qed

lemma raises_dates:
  "raises_fn (throw_date f d)" "raises_fn (str_arg f v)" "raises_fn (parseTs f v)" "raises_fn (isoOf f ms)"
  "raises_fn (interval f v)" "raises_fn (addFixed f vs k)" "raises_fn (shiftBy f vs n)" "raises_fn (startOf f vs u)"
  "raises_fn (format_run f t s)" "raises_fn (formatDateTime f vs)"
proof -
  show throw: "raises_fn (throw_date f d)" for f d by (simp add: throw_date_def)
  show str: "raises_fn (str_arg f v)" for f v by (simp add: str_arg_def split: jval.split)
  show ts: "raises_fn (parseTs f v)" for f v
    unfolding parseTs_def
    by (rule raises_fn_bind, rule str) (simp add: Let_def throw split: option.split)
  show iso: "raises_fn (isoOf f ms)" for f ms by (simp add: isoOf_def throw split: option.split)
  show int: "raises_fn (interval f v)" for f v by (simp add: interval_def throw split: jval.split)
  show run: "raises_fn (format_run f t s)" for f t s by (simp add: format_run_def throw)
  show "raises_fn (addFixed f vs k)" unfolding addFixed_def by (intro raises_fn_bind ts int iso)
  show "raises_fn (shiftBy f vs n)"
    unfolding shiftBy_def by (intro raises_fn_bind ts int str) (simp add: Let_def iso throw split: option.split)
  show "raises_fn (startOf f vs u)" unfolding startOf_def by (intro raises_fn_bind ts iso)
  show "raises_fn (formatDateTime f vs)"
    unfolding formatDateTime_def by (intro raises_fn_bind raises_fn_map ts str run raises_fn_simps)
qed

lemma raises_text:
  "raises_fn (utf8_tail n bs)" "raises_fn (utf8Str bs)" "raises_fn (base64Decode s)" "raises_fn (uri_encode s)"
  "raises_fn (parse_json s)"
proof -
  show tail: "raises_fn (utf8_tail n bs)" for n bs
    by (induction n bs rule: utf8_tail.induct) (simp_all add: utf8_tail.simps)
  show utf8: "raises_fn (utf8Str bs)" for bs
    by (induction bs rule: utf8Str.induct) (auto intro!: raises_fn_bind tail split: option.split)
  show "raises_fn (base64Decode s)" by (simp add: base64Decode_def Let_def utf8)
  show "raises_fn (uri_encode s)"
    by (induction s rule: uri_encode.induct) (auto simp: Let_def intro!: raises_fn_bind)
  show "raises_fn (parse_json s)" by (simp add: parse_json_def split: option.split)
qed

definition throws_fn :: "'x fnspec \<Rightarrow> bool" where
  "throws_fn spec \<longleftrightarrow>
     (case fs_call spec of
        Special run \<Rightarrow> True
      | Eager impl \<Rightarrow> fs_staticSoftArg spec = None \<and> fs_lambdaArgs spec = [] \<and> (\<forall>vs. raises_fn (impl vs)))"

lemma throws_fn_eager:
  assumes "\<And>vs. raises_fn (impl vs)"
  shows "throws_fn (eager args k ret impl)" "throws_fn ((eager args k ret impl)\<lparr>fs_variadic := True\<rparr>)"
  using assms by (simp_all add: throws_fn_def eager_def)

lemma throws_fn_special: "fs_call spec = Special run \<Longrightarrow> throws_fn spec"
  by (simp add: throws_fn_def)

lemma catalog_throws: "(f, spec) \<in> set (FUNCTIONS h) \<Longrightarrow> throws_fn spec"
proof -
  have "list_all (\<lambda>(f, spec). throws_fn spec) (FUNCTIONS h)"
    unfolding FUNCTIONS_def catalog_defs list.pred_inject prod.case
    by (intro conjI TrueI;
        ((rule throws_fn_special, simp; fail) | (simp; fail)
        | (rule throws_fn_eager; (auto simp: Let_def raises_checks raises_dates raises_text raises_union
             intro!: raises_fn_bind raises_fn_map split: jval.split option.split sum.split; fail))))
  then show "(f, spec) \<in> set (FUNCTIONS h) \<Longrightarrow> throws_fn spec" by (auto simp: list_all_iff)
qed

section \<open>Computations that throw only certain errors\<close>

definition throws_only :: "(exn \<Rightarrow> bool) \<Rightarrow> 'a ev \<Rightarrow> bool" where
  "throws_only P m \<longleftrightarrow> (\<forall>b e. fst (m b) = Inl e \<longrightarrow> P e)"

lemma throws_onlyD: "throws_only P m \<Longrightarrow> m b = (Inl e, b') \<Longrightarrow> P e"
  by (metis throws_only_def fst_conv)

lemma throws_ret: "throws_only P (retE x)"
  by (simp add: throws_only_def retE_def)

lemma throws_lift: "(\<And>e. m = Inl e \<Longrightarrow> P e) \<Longrightarrow> throws_only P (liftE m)"
  by (simp add: throws_only_def liftE_def)

lemma throws_bind:
  assumes "throws_only P m" "\<And>x. throws_only P (f x)"
  shows "throws_only P (bindE m f)"
  unfolding throws_only_def
proof (intro allI impI)
  fix b e
  assume e: "fst (bindE m f b) = Inl e"
  show "P e"
  proof (cases "m b")
    case (Pair r b1)
    then have "\<forall>e. r = Inl e \<longrightarrow> P e" using throws_onlyD [OF assms(1)] by blast
    then show ?thesis
      using e assms(2) Pair by (cases r) (auto simp: bindE_def throws_only_def)
  qed
qed

lemma throws_mapE: "(\<And>x. x \<in> set xs \<Longrightarrow> throws_only P (f x)) \<Longrightarrow> throws_only P (mapE f xs)"
  by (induction xs) (auto intro: throws_bind throws_ret)

lemma throws_filterE: "(\<And>x. throws_only P (f x)) \<Longrightarrow> throws_only P (filterE f xs)"
  by (induction xs) (auto intro: throws_bind throws_ret)

lemma throws_soft: "throws_only (\<lambda>e. P e \<or> (\<exists>r. e = MissingE r)) m \<Longrightarrow> throws_only P (soft m)"
  unfolding throws_only_def
proof (intro allI impI)
  fix b e
  assume a: "\<forall>b e. fst (m b) = Inl e \<longrightarrow> P e \<or> (\<exists>r. e = MissingE r)" and e: "fst (soft m b) = Inl e"
  obtain r b1 where m: "m b = (r, b1)" by (cases "m b")
  then have "r = Inl e \<and> (\<forall>r. e \<noteq> MissingE r)" using e
    by (cases r rule: ended.cases) (auto simp: soft_def)
  then show "P e" using a m by (metis fst_conv)
qed

lemma throws_wrap:
  assumes "throws_only (\<lambda>e. e = HostE \<or> P e) m" "P (SubstituteE (EvalReason (FunctionFailed f)))"
  shows "throws_only P (wrap_host f m)"
  unfolding throws_only_def
proof (intro allI impI)
  fix b e
  assume e: "fst (wrap_host f m b) = Inl e"
  obtain r b1 where m: "m b = (r, b1)" by (cases "m b")
  then have "\<forall>e. r = Inl e \<longrightarrow> e = HostE \<or> P e" using throws_onlyD [OF assms(1)] by blast
  then show "P e" using e assms(2) m by (cases r rule: ended.cases) (auto simp: wrap_host_def)
qed

lemma throws_weaker: "throws_only P m \<Longrightarrow> (\<And>e. P e \<Longrightarrow> Q e) \<Longrightarrow> throws_only Q m"
  by (auto simp: throws_only_def)

section \<open>What evaluation throws\<close>

text \<open>Errors that depend on the values of a run: the shape of data, a function's own refusals, the budget.\<close>

fun value_reason :: "eval_reason \<Rightarrow> bool" where
  "value_reason (UnknownFunction f) = False"
| "value_reason (BadArity f) = False"
| "value_reason ConfigTooDeep = False"
| "value_reason UnterminatedRef = False"
| "value_reason (NotAnExpression f) = False"
| "value_reason (TextAround f) = False"
| "value_reason (EmptyFilterField f) = False"
| "value_reason r = True"

fun run_time_only :: "exn \<Rightarrow> bool" where
  "run_time_only (SubstituteE (FnReason f r)) = True"
| "run_time_only (SubstituteE (DateReason f r)) = True"
| "run_time_only (SubstituteE (EvalReason r)) = value_reason r"
| "run_time_only (MissingE (EvalReason r)) = value_reason r"
| "run_time_only e = False"

lemma fn_exn_run_time: "fn_exn e \<Longrightarrow> e = HostE \<or> run_time_only e"
  by (cases e rule: fn_exn.cases) auto

text \<open>The position \<open>i\<close> of a call is only evaluated the way its entry declares.\<close>

definition position_ok :: "(exn \<Rightarrow> bool) \<Rightarrow> 'x fnspec \<Rightarrow> 'x eval_in \<Rightarrow> nat \<Rightarrow> 'x \<Rightarrow> bool" where
  "position_ok P spec ev i t \<longleftrightarrow>
     (if fs_staticSoftArg spec = Some i then throws_only P (ev_soft ev t)
      else if i \<in> set (fs_lambdaArgs spec) then \<forall>x. throws_only P (ev_withItem ev t x)
      else throws_only P (ev_eval ev t))"

text \<open>Classes of errors that contain every error of a run's values.\<close>

locale escapes =
  fixes P :: "exn \<Rightarrow> bool"
  assumes run_time: "run_time_only e \<Longrightarrow> P e"
begin

lemma throws_check: "raises_fn r \<Longrightarrow> r \<noteq> Inl HostE \<Longrightarrow> throws_only P (liftE r)"
  using fn_exn_run_time run_time by (fastforce simp: raises_fn_def intro: throws_lift)

lemma expect_never_host: "expectBool f v \<noteq> Inl HostE" "loopArr f v \<noteq> Inl HostE"
  by (simp_all add: budget.expectBool_no_host budget.loopArr_no_host)

lemma throws_expectBool: "throws_only P (liftE (expectBool f v))"
  by (rule throws_check) (simp_all add: raises_checks expect_never_host)

lemma throws_loopArr: "throws_only P (liftE (loopArr f v))"
  by (rule throws_check) (simp_all add: raises_checks expect_never_host)

lemma throws_run_and: "(\<forall>t \<in> set args. throws_only P (ev_eval ev t)) \<Longrightarrow> throws_only P (run_and args ev)"
  by (induction args) (auto intro!: throws_bind throws_ret throws_expectBool)

lemma throws_run_or: "(\<forall>t \<in> set args. throws_only P (ev_eval ev t)) \<Longrightarrow> throws_only P (run_or args ev)"
  by (induction args) (auto intro!: throws_bind throws_ret throws_expectBool)

lemma throws_special:
  assumes "(f, spec) \<in> set (FUNCTIONS h)" "fs_call spec = Special run" "arity_ok spec (length args)"
    and "\<And>i. i < length args \<Longrightarrow> position_ok P spec ev i (args ! i)"
  shows "throws_only P (run args ev)"
proof -
  have spec: "spec \<in> {fn_and, fn_or, fn_if, fn_default, fn_filter, fn_map, fn_count}"
    using special_entries [of h] assms(1,2) by (fastforce simp: list_all_iff)
  have all: "\<forall>t \<in> set args. throws_only P (ev_eval ev t)" if "spec = fn_and \<or> spec = fn_or"
    using assms(4) that by (auto simp: in_set_conv_nth position_ok_def fn_and_def fn_or_def special_def)
  have pos: "position_ok P spec ev i (args ! i)" if "i < fs_minArgs spec" for i
    using assms(3,4) that by (simp add: arity_ok_def arity_def)
  have second: "length args \<noteq> Suc 0 \<Longrightarrow> position_ok P spec ev (Suc 0) (args ! Suc 0)" if "spec = fn_count"
    using assms(3,4) that by (simp add: arity_ok_def arity_def fn_count_def)
  show ?thesis
    using spec assms(2) all pos [of 0] pos [of 1] pos [of 2] second
    by (auto simp: fn_and_def fn_or_def fn_if_def fn_default_def fn_filter_def fn_map_def fn_count_def special_def
        position_ok_def throws_run_and throws_run_or throws_ret throws_expectBool throws_loopArr
        intro!: throws_bind throws_filterE throws_mapE split: option.split)
qed

lemma throws_charged: "throws_only P m \<Longrightarrow> throws_only P (charged m)"
proof -
  assume m: "throws_only P m"
  have "throws_only P (charge v)" for v
    using run_time [of "SubstituteE (EvalReason TooManyElements)"]
    by (auto simp: throws_only_def charge_def Let_def split: jval.splits if_splits)
  with m show ?thesis unfolding charged_def by (intro throws_bind throws_ret)
qed

lemma throws_call:
  assumes entry: "(fn_lookup h f :: thunk fn_lookup) = Entry spec" and ar: "arity_ok spec (length args)"
    and pos: "\<And>i. i < length args \<Longrightarrow> position_ok P spec (evalIn sc) i (args ! i)"
  shows "throws_only P (eval_call h f args sc)"
proof -
  note mem = fn_lookup_entry [OF entry]
  have "throws_only (\<lambda>e. e = HostE \<or> P e) (case fs_call spec of
      Special run \<Rightarrow> run args (evalIn sc) | Eager impl \<Rightarrow> callEager f spec impl args sc)"
  proof (cases "fs_call spec")
    case (Special run)
    then show ?thesis using throws_weaker [OF throws_special [OF mem Special ar pos]] by simp
  next
    case (Eager impl)
    then have e: "fs_staticSoftArg spec = None" "fs_lambdaArgs spec = []" "raises_fn (impl vs)" for vs
      using catalog_throws [OF mem] by (simp_all add: throws_fn_def)
    have thunks: "throws_only P (t sc)" if "t \<in> set args" for t
      using pos that e by (fastforce simp: in_set_conv_nth position_ok_def evalIn_def)
    have lift: "throws_only (\<lambda>e. e = HostE \<or> P e) (liftE r)" if "raises_fn r" for r :: "'b jres"
      using that fn_exn_run_time run_time by (fastforce simp: raises_fn_def intro: throws_lift)
    have "raises_fn (check_types_from f spec i vs)" for i vs
      by (induction f spec i vs rule: check_types_from.induct) (auto simp: raises_checks intro!: raises_fn_bind)
    then show ?thesis
      using thunks e(3)
      by (auto simp: Eager callEager_def checkArgTypes_def intro!: throws_bind throws_mapE lift
          intro: throws_weaker)
  qed
  then have "throws_only P (wrap_host f (case fs_call spec of
      Special run \<Rightarrow> run args (evalIn sc) | Eager impl \<Rightarrow> callEager f spec impl args sc))"
    by (rule throws_wrap) (simp add: run_time)
  with ar show ?thesis
    by (simp add: eval_call_def entry checkArity_def)
qed

lemma throws_walk:
  "list_all (\<lambda>s. case s of StField f \<Rightarrow> True | StIndex t \<Rightarrow> throws_only P (t sc)) steps \<Longrightarrow>
     throws_only P (walkPath v steps sc)"
proof (induction v steps sc rule: walkPath.induct)
  case (2 cur f steps sc)
  have "stepField cur f = Inl e \<Longrightarrow> P e" for e
    by (cases cur) (auto simp: stepField_def run_time split: option.splits)
  with 2 show ?case by (auto intro!: throws_bind throws_lift)
next
  case (3 cur t steps sc)
  have "stepIndex cur idx = Inl e \<Longrightarrow> P e" for idx e
    by (cases idx; cases cur) (auto simp: stepIndex_def index_object_def Let_def run_time split: option.splits if_splits)
  with 3 show ?case by (auto intro!: throws_bind throws_lift)
qed (simp add: throws_ret)

end

section \<open>An accepted expression fails only for what a run alone can know\<close>

text \<open>The entries that the checker and the evaluator read are declared alike.\<close>

definition same_shape :: "'x fnspec \<Rightarrow> 'y fnspec \<Rightarrow> bool" where
  "same_shape s t \<longleftrightarrow>
     fs_args s = fs_args t \<and> fs_variadic s = fs_variadic t \<and> fs_minArgs s = fs_minArgs t \<and> fs_ret s = fs_ret t
     \<and> fs_lambdaArgs s = fs_lambdaArgs t \<and> fs_staticSoftArg s = fs_staticSoftArg t"

lemma same_shape_rules:
  "same_shape (eager as k r f) (eager as k r g)"
  "same_shape (special as k r f') (special as k r g')"
  "same_shape s t \<Longrightarrow> same_shape (s\<lparr>fs_variadic := b\<rparr>) (t\<lparr>fs_variadic := b\<rparr>)"
  "same_shape s t \<Longrightarrow> same_shape (s\<lparr>fs_lambdaArgs := ls\<rparr>) (t\<lparr>fs_lambdaArgs := ls\<rparr>)"
  "same_shape s t \<Longrightarrow> same_shape (s\<lparr>fs_staticSoftArg := i\<rparr>) (t\<lparr>fs_staticSoftArg := i\<rparr>)"
  by (simp_all add: same_shape_def eager_def special_def)

lemma catalog_shape:
  "list_all2 (\<lambda>p q. fst p = fst q \<and> same_shape (snd p) (snd q)) (FUNCTIONS h) (FUNCTIONS h)"
  unfolding FUNCTIONS_def catalog_defs
  by (intro list.rel_intros; (intro conjI; (simp only: fst_conv snd_conv; intro same_shape_rules refl)))

lemma map_of_shape:
  "list_all2 (\<lambda>p q. fst p = fst q \<and> R (snd p) (snd q)) xs ys \<Longrightarrow> rel_option R (map_of xs k) (map_of ys k)"
  by (induction rule: list_all2_induct) (auto split: prod.splits)

lemma lookup_shape:
  fixes spec :: "'x fnspec"
  assumes "fn_lookup h f = Entry spec"
  obtains spec' :: "'y fnspec" where "fn_lookup h f = Entry spec'" "same_shape spec spec'"
proof -
  have "rel_option same_shape (map_of (FUNCTIONS h :: (jstr \<times> 'x fnspec) list) f)
      (map_of (FUNCTIONS h :: (jstr \<times> 'y fnspec) list) f)"
    by (rule map_of_shape [OF catalog_shape])
  with assms that show thesis
    by (auto simp: fn_lookup_def rel_option_iff split: option.splits if_splits)
qed

lemma shape_arity: "same_shape s t \<Longrightarrow> arity_ok s n = arity_ok t n"
  by (simp add: same_shape_def arity_ok_def arity_def)

text \<open>A parameter that is optional and has no default may be unset in a run.\<close>

definition may_be_unset :: "scan_scope \<Rightarrow> jstr \<Rightarrow> bool" where
  "may_be_unset ss k \<longleftrightarrow>
     (case js_map_of (sn_declared ss) k of None \<Rightarrow> False | Some p \<Rightarrow> \<not> p_required p \<and> p_default p = None)"

text \<open>
  What an accepted expression may still fail with: an error of the values, an unset optional
  parameter, or an output that its producer does not have, where no contract names it, the producer
  is one that records none, or \<open>default()\<close> rescues the read.
\<close>

definition run_failure :: "scan_scope \<Rightarrow> jstr set \<Rightarrow> bool \<Rightarrow> exn \<Rightarrow> bool" where
  "run_failure ss off softOk e \<longleftrightarrow>
     run_time_only e
     \<or> (\<exists>k. e = SubstituteE (RootReason (UnknownParam k)) \<and> may_be_unset ss k)
     \<or> (\<exists>i k. e = MissingE (RootReason (root_reason.MissingOutput i k))
              \<and> (i \<in> set (sn_guaranteed ss) \<or> i \<in> set (sn_reachable ss) \<or> i \<in> set (sn_soft ss))
              \<and> (softOk \<or> declared_outputs ss i = None \<or> i \<in> off))"

interpretation failures: escapes "run_failure ss off softOk" for ss off softOk
  by unfold_locales (simp add: run_failure_def)

text \<open>A run's context has what the scope of the check promised, root by root.\<close>

definition root_fits :: "scan_scope \<Rightarrow> jstr set \<Rightarrow> scope \<Rightarrow> ref_root \<Rightarrow> bool" where
  "root_fits ss off sc rt \<longleftrightarrow>
     (let ctx = sc_ctx sc in
      case rt of
        RItem \<Rightarrow> True
      | RParams k \<Rightarrow>
          (case js_map_of (sn_declared ss) k of
             None \<Rightarrow> True
           | Some p \<Rightarrow> p_type p = PSecret \<or> may_be_unset ss k \<or> map_of (cx_params ctx) k \<noteq> None)
      | RVars k \<Rightarrow> js_map_of (sn_variables ss) k \<noteq> None \<longrightarrow> map_of (cx_variables ctx) k \<noteq> None
      | RGlobal k \<Rightarrow> js_map_of (sn_globals ss) k \<noteq> None \<longrightarrow> map_of (cx_globals ctx) k \<noteq> None
      | RNodeOutput i k \<Rightarrow>
          i \<in> set (sn_guaranteed ss) \<longrightarrow> i \<notin> off \<longrightarrow>
          (case declared_outputs ss i of
             None \<Rightarrow> True
           | Some ds \<Rightarrow> k \<in> do_name ` set ds \<longrightarrow>
               (case map_of (cx_nodeOutputs ctx) i of None \<Rightarrow> False | Some outs \<Rightarrow> map_of outs k \<noteq> None))
      | RNodeStatus i \<Rightarrow>
          i \<in> set (sn_settled ss) \<longrightarrow>
          (case map_of (cx_nodeStatuses ctx) i of None \<Rightarrow> False | Some s \<Rightarrow> TERMINAL_NODE s)
      | RRun f \<Rightarrow> f \<in> set RUN_FIELDS \<longrightarrow> map_of (cx_run ctx) f \<noteq> None
      | RTrigger f \<Rightarrow>
          f \<in> set TRIGGER_FIELDS \<or> (f \<in> set TRIGGER_WINDOW_FIELDS \<and> sn_windowFields ss) \<longrightarrow>
          map_of (cx_trigger ctx) f \<noteq> None
      | RTool k \<Rightarrow>
          (case sn_toolArgs ss of
             None \<Rightarrow> True
           | Some ts \<Rightarrow>
               (case sc_toolArgs sc of None \<Rightarrow> False
                | Some args \<Rightarrow> js_map_of ts k \<noteq> None \<longrightarrow> map_of args k \<noteq> None)))"

definition fits :: "root_restriction \<Rightarrow> scan_scope \<Rightarrow> jstr set \<Rightarrow> scope \<Rightarrow> bool" where
  "fits roots ss off sc \<longleftrightarrow> (\<forall>rt. root_allowed roots rt \<longrightarrow> root_fits ss off sc rt)"

lemma root_fits_item: "root_fits ss off (sc\<lparr>sc_item := x\<rparr>) rt = root_fits ss off sc rt"
  by (cases rt) (simp_all add: root_fits_def split: option.split)

lemma fits_item: "fits roots ss off sc \<Longrightarrow> fits roots ss off (sc\<lparr>sc_item := x\<rparr>)"
  by (simp add: fits_def root_fits_item)

text \<open>A check that finds only what \<open>A\<close> admits; an accepted check refuses nothing.\<close>

definition admits :: "('f \<Rightarrow> bool) \<Rightarrow> 'f list option \<Rightarrow> bool" where
  "admits A c \<longleftrightarrow> (case c of None \<Rightarrow> False | Some fs \<Rightarrow> list_all A fs)"

fun no_refusal :: "finding \<Rightarrow> bool" where
  "no_refusal (Refuse d) = False"
| "no_refusal f = True"

abbreviation accepted :: "check \<Rightarrow> bool" where
  "accepted \<equiv> admits no_refusal"

lemma admits_simps [simp]: "admits A (Some fs) = list_all A fs" "admits A None = False"
  by (simp_all add: admits_def)

lemma admits_andAlso [simp]: "admits A (andAlso a b) \<longleftrightarrow> admits A a \<and> admits A b"
  by (cases a; cases b) (auto simp: andAlso_def)

lemma admits_all [simp]: "admits A (allChecks cs) \<longleftrightarrow> (\<forall>c \<in> set cs. admits A c)"
  by (induction cs) auto

lemma admits_mono: "admits A c \<Longrightarrow> (\<And>f. A f \<Longrightarrow> B f) \<Longrightarrow> admits B c"
  by (cases c) (auto simp: list_all_iff)

text \<open>A refusal is never admitted.\<close>

definition strict :: "(finding \<Rightarrow> bool) \<Rightarrow> bool" where
  "strict A \<longleftrightarrow> (\<forall>f. A f \<longrightarrow> no_refusal f)"

lemma strictD: "strict A \<Longrightarrow> \<not> A (Refuse d)"
  by (auto simp: strict_def)

lemma strict_no_refusal [simp]: "strict no_refusal"
  by (simp add: strict_def)

lemma admits_args:
  assumes "strict A"
  shows "admits A (check_args name spec itemIn k cs) \<longleftrightarrow>
     (\<forall>i < length cs. admits A (fst (cs ! i) (fs_staticSoftArg spec = Some (k + i)) (itemIn \<or> k + i \<in> set (fs_lambdaArgs spec)))
        \<and> assignableTo (snd (cs ! i)) (argSigAt spec (k + i)))"
  by (induction name spec itemIn k cs rule: check_args.induct)
    (auto simp: nth_Cons less_Suc_eq_0_disj strictD [OF assms] split: nat.splits)

lemma admits_call:
  assumes "admits A (check_call h f cs itemIn)" "strict A"
  obtains spec :: "'x fnspec" where "fn_lookup h f = Entry spec" "arity_ok spec (length cs)"
    "\<And>i. i < length cs \<Longrightarrow> admits A (fst (cs ! i) (fs_staticSoftArg spec = Some i) (itemIn \<or> i \<in> set (fs_lambdaArgs spec)))"
proof -
  obtain spec :: "unit fnspec" where spec: "fn_lookup h f = Entry spec"
    and ar: "arity_ok spec (length cs)" and acc: "admits A (check_args f spec itemIn 0 cs)"
    using assms by (auto simp: check_call_def strictD split: fn_lookup.splits if_splits)
  obtain spec' :: "'x fnspec" where spec': "fn_lookup h f = Entry spec'" and shape: "same_shape spec spec'"
    using lookup_shape [OF spec] .
  from ar have "arity_ok spec' (length cs)" by (simp add: shape_arity [OF shape])
  then show thesis
    by (rule that [OF spec']) (use acc shape in \<open>simp add: admits_args [OF assms(2)] same_shape_def\<close>)
qed

lemma admits_ref:
  assumes "admits A (check_ref ss roots src segs cs softOk itemIn)" "strict A"
  obtains rt where "refRoot (leadingFields segs) = Some rt" "root_allowed roots rt" "\<not> MAX_PATH_DEPTH < length segs"
    "admits A (checkRefRoot src rt ss softOk itemIn)"
    "\<And>i. i < length (drop (root_arity rt) cs) \<Longrightarrow> admits A ((drop (root_arity rt) cs ! i) softOk itemIn)"
proof -
  obtain rt where rt: "refRoot (leadingFields segs) = Some rt" "root_allowed roots rt" "\<not> MAX_PATH_DEPTH < length segs"
    using assms by (auto simp: check_ref_def strictD split: option.splits if_splits)
  have "admits A (allChecks (map (\<lambda>c. c softOk itemIn) (drop (root_arity rt) cs)))"
    "admits A (checkRefRoot src rt ss softOk itemIn)"
    using assms rt by (auto simp: check_ref_def Let_def strictD split: option.splits segment.splits)
  then show thesis using rt nth_mem [of _ "drop (root_arity rt) cs"] by (intro that) auto
qed

lemma accepted_root:
  assumes "accepted (checkRefRoot src rt ss softOk itemIn)" "root_fits ss off sc rt"
    and "itemIn \<longrightarrow> sc_item sc \<noteq> None" and "resolveRoot h sc rt = Inl e"
  shows "run_failure ss off softOk e"
proof (cases rt)
  case (RNodeOutput i k)
  then have e: "e = MissingE (RootReason (root_reason.MissingOutput i k))"
    using assms(4) by (auto simp: resolveRoot_def Let_def split: option.splits if_splits)
  have "(i \<in> set (sn_guaranteed ss) \<or> i \<in> set (sn_reachable ss) \<or> i \<in> set (sn_soft ss))
      \<and> (softOk \<or> declared_outputs ss i = None \<or> i \<in> off)"
    using assms RNodeOutput
    by (auto simp: checkRefRoot_def root_fits_def resolveRoot_def Let_def split: option.splits if_splits)
  with e show ?thesis by (auto simp: run_failure_def)
qed (use assms in \<open>auto simp: checkRefRoot_def root_fits_def resolveRoot_def own_def run_failure_def Let_def
      split: option.splits if_splits\<close>)

lemma accepted_ref:
  assumes ok: "accepted (check_ref ss roots src segs cs softOk itemIn)"
    and fit: "fits roots ss off sc" and item: "itemIn \<longrightarrow> sc_item sc \<noteq> None"
    and len: "length cs = length segs" "length steps = length segs"
    and idx: "\<And>i. i < length segs \<Longrightarrow> accepted ((cs ! i) softOk itemIn) \<Longrightarrow>
      (case steps ! i of StField f \<Rightarrow> True | StIndex t \<Rightarrow> throws_only (run_failure ss off softOk) (t sc))"
  shows "throws_only (run_failure ss off softOk) (resolveRef h segs steps sc)"
proof -
  obtain rt where rt: "refRoot (leadingFields segs) = Some rt" "root_allowed roots rt" "\<not> MAX_PATH_DEPTH < length segs"
    and root: "accepted (checkRefRoot src rt ss softOk itemIn)"
    and tail: "\<And>i. i < length (drop (root_arity rt) cs) \<Longrightarrow> accepted ((drop (root_arity rt) cs ! i) softOk itemIn)"
    using admits_ref [OF ok strict_no_refusal] by blast
  have "list_all (\<lambda>s. case s of StField f \<Rightarrow> True | StIndex t \<Rightarrow> throws_only (run_failure ss off softOk) (t sc))
      (drop (root_arity rt) steps)"
    using tail idx len by (simp add: list_all_length)
  then have walk: "throws_only (run_failure ss off softOk) (walkPath v (drop (root_arity rt) steps) sc)" for v
    by (rule failures.throws_walk)
  have "resolveRoot h sc rt = Inl e \<Longrightarrow> run_failure ss off softOk e" for e
    using accepted_root [OF root _ item] fit rt(2) by (simp add: fits_def)
  with walk rt show ?thesis
    by (auto simp: resolveRef_def intro!: throws_bind throws_lift)
qed

lemma run_failure_mono: "run_failure ss off False e \<Longrightarrow> run_failure ss off softOk e"
  by (auto simp: run_failure_def)

lemma run_failure_missing: "run_failure ss off True e \<Longrightarrow> run_failure ss off softOk e \<or> (\<exists>r. e = MissingE r)"
  by (auto simp: run_failure_def)

lemma soft_not_lambda:
  "(f, spec) \<in> set (FUNCTIONS h) \<Longrightarrow> fs_staticSoftArg spec = Some i \<Longrightarrow> i \<notin> set (fs_lambdaArgs spec)"
proof -
  have "list_all (\<lambda>(f, spec). case fs_staticSoftArg spec of None \<Rightarrow> True | Some i \<Rightarrow> i \<notin> set (fs_lambdaArgs spec))
      (FUNCTIONS h)"
    unfolding FUNCTIONS_def catalog_defs by (simp add: eager_def special_def)
  then show "(f, spec) \<in> set (FUNCTIONS h) \<Longrightarrow> fs_staticSoftArg spec = Some i \<Longrightarrow> i \<notin> set (fs_lambdaArgs spec)"
    by (fastforce simp: list_all_iff)
qed

lemma accepted_call:
  assumes ok: "accepted (check_call h f cs itemIn)" and len: "length cs = length args"
    and arg: "\<And>i softOk itemIn sc. i < length args \<Longrightarrow> accepted (fst (cs ! i) softOk itemIn) \<Longrightarrow>
      fits roots ss off sc \<Longrightarrow> itemIn \<longrightarrow> sc_item sc \<noteq> None \<Longrightarrow> throws_only (run_failure ss off softOk) ((args ! i) sc)"
    and fit: "fits roots ss off sc" and item: "itemIn \<longrightarrow> sc_item sc \<noteq> None"
  shows "throws_only (run_failure ss off softOk) (eval_call h f args sc)"
proof -
  obtain spec' :: "thunk fnspec" where spec': "fn_lookup h f = Entry spec'" and ar: "arity_ok spec' (length cs)"
    and acc: "\<And>i. i < length cs \<Longrightarrow>
      accepted (fst (cs ! i) (fs_staticSoftArg spec' = Some i) (itemIn \<or> i \<in> set (fs_lambdaArgs spec')))"
    using admits_call [OF ok strict_no_refusal] by blast
  have pos: "position_ok (run_failure ss off softOk) spec' (evalIn sc) i (args ! i)" if i: "i < length args" for i
  proof -
    note c = acc [of i, unfolded len, OF i]
    note run = arg [OF i c]
    show ?thesis
    proof (cases "fs_staticSoftArg spec' = Some i")
      case True
      then have "throws_only (run_failure ss off True) ((args ! i) sc)"
        using run [OF fit] item soft_not_lambda [OF fn_lookup_entry [OF spec']] by auto
      then have "throws_only (run_failure ss off softOk) (soft ((args ! i) sc))"
        by (intro throws_soft) (rule throws_weaker, assumption, rule run_failure_missing)
      with True show ?thesis by (simp add: position_ok_def evalIn_def)
    next
      case hard: False
      show ?thesis
      proof (cases "i \<in> set (fs_lambdaArgs spec')")
        case True
        have "throws_only (run_failure ss off softOk) ((args ! i) (sc\<lparr>sc_item := Some x\<rparr>))" for x
          using run [OF fits_item [OF fit, of "Some x"]] hard run_failure_mono by (auto intro: throws_weaker)
        with True hard show ?thesis by (simp add: position_ok_def evalIn_def)
      next
        case False
        then have "throws_only (run_failure ss off softOk) ((args ! i) sc)"
          using run [OF fit] item hard run_failure_mono by (auto intro: throws_weaker)
        with False hard show ?thesis by (simp add: position_ok_def evalIn_def)
      qed
    qed
  qed
  show ?thesis
    by (rule failures.throws_call [OF spec' _ pos]) (use ar len in simp)
qed

lemma accepted_eval:
  shows "accepted (checkExprStatic h ss roots e softOk itemIn) \<Longrightarrow> fits roots ss off sc \<Longrightarrow>
      itemIn \<longrightarrow> sc_item sc \<noteq> None \<Longrightarrow> throws_only (run_failure ss off softOk) (evalExpr h e sc)"
    and "accepted (check_index h ss roots src seg softOk itemIn) \<Longrightarrow> fits roots ss off sc \<Longrightarrow>
      itemIn \<longrightarrow> sc_item sc \<noteq> None \<Longrightarrow>
      (case eval_segment h seg of StField f \<Rightarrow> True | StIndex t \<Rightarrow> throws_only (run_failure ss off softOk) (t sc))"
proof (induction h ss roots e and h ss roots src seg arbitrary: softOk itemIn sc and softOk itemIn sc
    rule: checkExprStatic_check_index.induct)
  case (4 h ss roots name args)
  then show ?case
    by (auto intro!: failures.throws_charged accepted_call [where roots = roots and cs =
          "map (\<lambda>a. (checkExprStatic h ss roots a, inferExprType h ss a)) args"] nth_mem)
next
  case (5 h ss roots src segs)
  then show ?case
    by (auto intro!: failures.throws_charged accepted_ref [where roots = roots and src = src and itemIn = itemIn
          and cs = "map (check_index h ss roots src) segs"])
qed (auto intro: failures.throws_charged throws_ret)

section \<open>An accepted expression reads only what its check reports\<close>

text \<open>The findings of a check whose reads lie in given sets.\<close>

fun reads_only :: "jstr set \<Rightarrow> jstr set \<Rightarrow> finding \<Rightarrow> bool" where
  "reads_only vars globs (Refuse d) = False"
| "reads_only vars globs (ReadsVariable k) = (k \<in> vars)"
| "reads_only vars globs (ReadsGlobal k) = (k \<in> globs)"
| "reads_only vars globs (Advise a) = True"

lemma strict_reads [simp]: "strict (reads_only vars globs)"
  unfolding strict_def
proof (intro allI impI)
  show "reads_only vars globs f \<Longrightarrow> no_refusal f" for f by (cases f) auto
qed

text \<open>
  Two scopes that agree, root by root, on what the check lets an expression read: no secret
  parameter, no output of a secure producer, and only the reported variables and globals.
\<close>

definition root_agrees :: "scan_scope \<Rightarrow> jstr set \<Rightarrow> jstr set \<Rightarrow> scope \<Rightarrow> scope \<Rightarrow> ref_root \<Rightarrow> bool" where
  "root_agrees ss vars globs sc sc' rt \<longleftrightarrow>
     (let same = (\<lambda>sel k. map_of (sel (sc_ctx sc)) k = map_of (sel (sc_ctx sc')) k) in
      case rt of
        RItem \<Rightarrow> sc_item sc = sc_item sc'
      | RParams k \<Rightarrow>
          (case js_map_of (sn_declared ss) k of None \<Rightarrow> True | Some p \<Rightarrow> p_type p = PSecret \<or> same cx_params k)
      | RVars k \<Rightarrow> k \<in> vars \<longrightarrow> same cx_variables k
      | RGlobal k \<Rightarrow> k \<in> globs \<longrightarrow> same cx_globals k
      | RNodeOutput i k \<Rightarrow>
          i \<notin> set (sn_secure ss) \<and> (i \<in> set (sn_guaranteed ss) \<or> i \<in> set (sn_reachable ss) \<or> i \<in> set (sn_soft ss)) \<longrightarrow>
          map_of (cx_nodeOutputs (sc_ctx sc)) i = map_of (cx_nodeOutputs (sc_ctx sc')) i
      | RNodeStatus i \<Rightarrow>
          i \<in> set (sn_settled ss) \<longrightarrow>
          map_of (cx_nodeStatuses (sc_ctx sc)) i = map_of (cx_nodeStatuses (sc_ctx sc')) i
      | RRun f \<Rightarrow> f \<in> set RUN_FIELDS \<longrightarrow> same cx_run f
      | RTrigger f \<Rightarrow>
          f \<in> set TRIGGER_FIELDS \<or> (f \<in> set TRIGGER_WINDOW_FIELDS \<and> sn_windowFields ss) \<longrightarrow> same cx_trigger f
      | RTool k \<Rightarrow> sn_toolArgs ss \<noteq> None \<longrightarrow> sc_toolArgs sc = sc_toolArgs sc')"

definition agrees :: "root_restriction \<Rightarrow> scan_scope \<Rightarrow> jstr set \<Rightarrow> jstr set \<Rightarrow> scope \<Rightarrow> scope \<Rightarrow> bool" where
  "agrees roots ss vars globs sc sc' \<longleftrightarrow> (\<forall>rt. root_allowed roots rt \<longrightarrow> root_agrees ss vars globs sc sc' rt)"

lemma root_agrees_item:
  "root_agrees ss vars globs sc sc' rt \<Longrightarrow>
     root_agrees ss vars globs (sc\<lparr>sc_item := x\<rparr>) (sc'\<lparr>sc_item := x\<rparr>) rt"
  by (cases rt) (simp_all add: root_agrees_def)

lemma agrees_item:
  "agrees roots ss vars globs sc sc' \<Longrightarrow> agrees roots ss vars globs (sc\<lparr>sc_item := x\<rparr>) (sc'\<lparr>sc_item := x\<rparr>)"
  by (simp add: agrees_def root_agrees_item)

lemma alike_root:
  assumes "admits (reads_only vars globs) (checkRefRoot src rt ss softOk itemIn)" "root_agrees ss vars globs sc sc' rt"
  shows "resolveRoot h sc rt = resolveRoot h sc' rt"
proof (cases rt)
  case (RNodeOutput i k)
  then have "i \<notin> set (sn_secure ss) \<and> (i \<in> set (sn_guaranteed ss) \<or> i \<in> set (sn_reachable ss) \<or> i \<in> set (sn_soft ss))"
    using assms(1) by (auto simp: checkRefRoot_def split: option.splits if_splits)
  then have "map_of (cx_nodeOutputs (sc_ctx sc)) i = map_of (cx_nodeOutputs (sc_ctx sc')) i"
    using assms(2) RNodeOutput by (simp add: root_agrees_def)
  then show ?thesis using RNodeOutput by (simp add: resolveRoot_def)
next
  case (RNodeStatus i)
  then show ?thesis
    using assms by (simp add: checkRefRoot_def root_agrees_def resolveRoot_def split: if_splits)
next
  case (RTrigger f)
  then show ?thesis
    using assms by (simp add: checkRefRoot_def root_agrees_def resolveRoot_def own_def split: if_splits)
next
  case (RTool k)
  then show ?thesis
    using assms by (simp add: checkRefRoot_def root_agrees_def resolveRoot_def split: option.splits)
qed (use assms in \<open>auto simp: checkRefRoot_def root_agrees_def resolveRoot_def own_def split: option.splits if_splits\<close>)

lemma alike_walk:
  "length ts = length us \<Longrightarrow>
   (\<And>i. i < length ts \<Longrightarrow> (case (ts ! i, us ! i) of
      (StField f, StField g) \<Rightarrow> f = g | (StIndex t, StIndex u) \<Rightarrow> t sc = u sc' | _ \<Rightarrow> False)) \<Longrightarrow>
   walkPath v ts sc = walkPath v us sc'"
proof (induction ts us arbitrary: v rule: list_induct2)
  case (Cons t ts u us)
  have rest: "walkPath w ts sc = walkPath w us sc'" for w
  proof (rule Cons.IH)
    show "i < length ts \<Longrightarrow> (case (ts ! i, us ! i) of
        (StField f, StField g) \<Rightarrow> f = g | (StIndex t, StIndex u) \<Rightarrow> t sc = u sc' | _ \<Rightarrow> False)" for i
      using Cons.prems [of "Suc i"] by simp
  qed
  show ?case
    using Cons.prems [of 0] by (cases t; cases u) (auto simp: rest)
qed simp

text \<open>A position of a call that is evaluated alike under two evaluators.\<close>

definition same_position :: "'x fnspec \<Rightarrow> 'x eval_in \<Rightarrow> 'x eval_in \<Rightarrow> nat \<Rightarrow> 'x \<Rightarrow> bool" where
  "same_position spec ev ev' i t \<longleftrightarrow>
     (if fs_staticSoftArg spec = Some i then ev_soft ev t = ev_soft ev' t
      else if i \<in> set (fs_lambdaArgs spec) then ev_withItem ev t = ev_withItem ev' t
      else ev_eval ev t = ev_eval ev' t)"

lemma alike_run_and: "(\<forall>t \<in> set args. ev_eval ev t = ev_eval ev' t) \<Longrightarrow> run_and args ev = run_and args ev'"
  by (induction args) (auto cong: if_cong)

lemma alike_run_or: "(\<forall>t \<in> set args. ev_eval ev t = ev_eval ev' t) \<Longrightarrow> run_or args ev = run_or args ev'"
  by (induction args) (auto cong: if_cong)

lemma alike_special:
  assumes "(f, spec) \<in> set (FUNCTIONS h)" "fs_call spec = Special run" "arity_ok spec (length args)"
    and "\<And>i. i < length args \<Longrightarrow> same_position spec ev ev' i (args ! i)"
  shows "run args ev = run args ev'"
proof -
  have spec: "spec \<in> {fn_and, fn_or, fn_if, fn_default, fn_filter, fn_map, fn_count}"
    using special_entries [of h] assms(1,2) by (fastforce simp: list_all_iff)
  have all: "\<forall>t \<in> set args. ev_eval ev t = ev_eval ev' t" if "spec = fn_and \<or> spec = fn_or"
    using assms(4) that by (auto simp: in_set_conv_nth same_position_def fn_and_def fn_or_def special_def)
  have pos: "same_position spec ev ev' i (args ! i)" if "i < fs_minArgs spec" for i
    using assms(3,4) that by (simp add: arity_ok_def arity_def)
  have second: "length args \<noteq> Suc 0 \<Longrightarrow> same_position spec ev ev' (Suc 0) (args ! Suc 0)" if "spec = fn_count"
    using assms(3,4) that by (simp add: arity_ok_def arity_def fn_count_def)
  have branch: "ev_eval ev (args ! (if c then Suc 0 else 2)) = ev_eval ev' (args ! (if c then Suc 0 else 2))"
    if "spec = fn_if" for c
    using pos [of 1] pos [of 2] that by (simp add: fn_if_def same_position_def special_def)
  show ?thesis
    using spec assms(2) all pos [of 0] pos [of 1] pos [of 2] second branch
    by (auto simp: fn_and_def fn_or_def fn_if_def fn_default_def fn_filter_def fn_map_def fn_count_def special_def
        same_position_def alike_run_and alike_run_or cong: option.case_cong if_cong)
qed

lemma alike_call:
  assumes ok: "admits (reads_only vars globs) (check_call h f cs itemIn)" and len: "length cs = length args"
    and arg: "\<And>i softOk itemIn sc sc'. i < length args \<Longrightarrow> admits (reads_only vars globs) (fst (cs ! i) softOk itemIn) \<Longrightarrow>
      agrees roots ss vars globs sc sc' \<Longrightarrow> (args ! i) sc = (args ! i) sc'"
    and agree: "agrees roots ss vars globs sc sc'"
  shows "eval_call h f args sc = eval_call h f args sc'"
proof -
  obtain spec :: "thunk fnspec" where spec: "fn_lookup h f = Entry spec" and ar: "arity_ok spec (length cs)"
    and acc: "\<And>i. i < length cs \<Longrightarrow>
      admits (reads_only vars globs) (fst (cs ! i) (fs_staticSoftArg spec = Some i) (itemIn \<or> i \<in> set (fs_lambdaArgs spec)))"
    using admits_call [OF ok strict_reads] by blast
  have same: "(args ! i) sc = (args ! i) sc'" "(args ! i) (sc\<lparr>sc_item := x\<rparr>) = (args ! i) (sc'\<lparr>sc_item := x\<rparr>)"
    if "i < length args" for i x
    using arg [OF that acc [of i, unfolded len, OF that]] agree agrees_item by blast+
  have pos: "same_position spec (evalIn sc) (evalIn sc') i (args ! i)" if "i < length args" for i
    using same [OF that] by (simp add: same_position_def evalIn_def)
  have ar': "arity_ok spec (length args)" using ar len by simp
  have "run args (evalIn sc) = run args (evalIn sc')" if "fs_call spec = Special run" for run
    using alike_special [OF fn_lookup_entry [OF spec] that ar' pos] .
  moreover have "mapE (\<lambda>t. t sc) args = mapE (\<lambda>t. t sc') args"
  proof -
    have "\<forall>t \<in> set args. t sc = t sc'" using same(1) by (auto simp: in_set_conv_nth)
    then show ?thesis by (induction args) auto
  qed
  ultimately show ?thesis
    by (simp add: eval_call_def spec callEager_def split: fn_call.split)
qed

lemma alike_ref:
  assumes ok: "admits (reads_only vars globs) (check_ref ss roots src segs cs softOk itemIn)"
    and agree: "agrees roots ss vars globs sc sc'"
    and len: "length cs = length segs" "length steps = length segs"
    and idx: "\<And>i. i < length segs \<Longrightarrow> admits (reads_only vars globs) ((cs ! i) softOk itemIn) \<Longrightarrow>
      (case steps ! i of StField f \<Rightarrow> True | StIndex t \<Rightarrow> t sc = t sc')"
  shows "resolveRef h segs steps sc = resolveRef h segs steps sc'"
proof -
  obtain rt where rt: "refRoot (leadingFields segs) = Some rt" "root_allowed roots rt" "\<not> MAX_PATH_DEPTH < length segs"
    and root: "admits (reads_only vars globs) (checkRefRoot src rt ss softOk itemIn)"
    and tail: "\<And>i. i < length (drop (root_arity rt) cs) \<Longrightarrow>
      admits (reads_only vars globs) ((drop (root_arity rt) cs ! i) softOk itemIn)"
    using admits_ref [OF ok strict_reads] by blast
  have "walkPath v (drop (root_arity rt) steps) sc = walkPath v (drop (root_arity rt) steps) sc'" for v
  proof (rule alike_walk)
    show "case (drop (root_arity rt) steps ! i, drop (root_arity rt) steps ! i) of
        (StField f, StField g) \<Rightarrow> f = g | (StIndex t, StIndex u) \<Rightarrow> t sc = u sc' | _ \<Rightarrow> False"
      if "i < length (drop (root_arity rt) steps)" for i
      using idx [of "root_arity rt + i"] tail [of i] len that by (auto split: step.splits)
  qed simp
  moreover have "resolveRoot h sc rt = resolveRoot h sc' rt"
    using alike_root [OF root] agree rt(2) by (simp add: agrees_def)
  ultimately show ?thesis by (simp add: resolveRef_def rt)
qed

lemma reads_eval:
  shows "admits (reads_only vars globs) (checkExprStatic h ss roots e softOk itemIn) \<Longrightarrow>
      agrees roots ss vars globs sc sc' \<Longrightarrow> evalExpr h e sc = evalExpr h e sc'"
    and "admits (reads_only vars globs) (check_index h ss roots src seg softOk itemIn) \<Longrightarrow>
      agrees roots ss vars globs sc sc' \<Longrightarrow>
      (case eval_segment h seg of StField f \<Rightarrow> True | StIndex t \<Rightarrow> t sc = t sc')"
proof (induction h ss roots e and h ss roots src seg arbitrary: softOk itemIn sc sc' and softOk itemIn sc sc'
    rule: checkExprStatic_check_index.induct)
  case (4 h ss roots name args)
  have "eval_call h name (map (evalExpr h) args) sc = eval_call h name (map (evalExpr h) args) sc'"
    using 4 by (intro alike_call [where roots = roots and ss = ss and vars = vars and globs = globs and itemIn = itemIn
          and cs = "map (\<lambda>a. (checkExprStatic h ss roots a, inferExprType h ss a)) args"]) (auto intro!: nth_mem)
  then show ?case by simp
next
  case (5 h ss roots src segs)
  have "resolveRef h segs (map (eval_segment h) segs) sc = resolveRef h segs (map (eval_segment h) segs) sc'"
    using 5 by (intro alike_ref [where roots = roots and ss = ss and vars = vars and globs = globs and itemIn = itemIn
          and softOk = softOk and src = src and cs = "map (check_index h ss roots src) segs"]) auto
  then show ?case by simp
qed auto

section \<open>Configurations\<close>

definition passes :: "(finding \<Rightarrow> bool) \<Rightarrow> located list option \<Rightarrow> bool" where
  "passes A = admits (\<lambda>(wh, f, hint). A f)"

lemma passes_simps [simp]:
  "passes A (andAlso a b) \<longleftrightarrow> passes A a \<and> passes A b"
  "passes A (allChecks cs) \<longleftrightarrow> (\<forall>c \<in> set cs. passes A c)"
  "passes A (Some []) = True" "passes A None = False"
  by (simp_all add: passes_def)

lemma passes_located: "passes A (map_option (map (locate wh hint)) c) \<longleftrightarrow> admits A c"
  by (cases c) (auto simp: passes_def locate_def list_all_iff)

lemma passes_refused [simp]: "strict A \<Longrightarrow> \<not> passes A (Some [locate wh hint (Refuse d)])"
  by (simp add: passes_def locate_def strictD)

lemma passes_too_nested [simp]: "strict A \<Longrightarrow> \<not> passes A (too_nested wh)"
  by (simp add: too_nested_def)

lemma passes_refusals: "map_option refusals c = Some [] \<longleftrightarrow> passes no_refusal c"
proof -
  have "no_refusal f \<longleftrightarrow> (case f of Refuse d \<Rightarrow> False | _ \<Rightarrow> True)" for f by (cases f) auto
  then show ?thesis
    by (cases c) (auto simp: passes_def refusals_def filter_empty_conv list_all_iff split: finding.splits)
qed

lemma mode_whole: "interpolationMode s = Whole scanned ms u body \<Longrightarrow> \<exists>m. ms = [m] \<and> m_body m = body"
  by (auto simp: interpolationMode_def Let_def length_Suc_conv split: prod.splits if_splits)

text \<open>Every reference of a field that passes parses, and its expression passes.\<close>

definition body_passes ::
  "host \<Rightarrow> scan_scope \<Rightarrow> root_restriction \<Rightarrow> bool \<Rightarrow> (finding \<Rightarrow> bool) \<Rightarrow> jstr \<Rightarrow> bool" where
  "body_passes h ss roots itemIn A body \<longleftrightarrow>
     (\<exists>x. parseExpr body = Inr x \<and> admits A (checkExprStatic h ss roots x False itemIn))"

lemma field_passes:
  assumes "passes A (scan_field h ss roots itemIn wh s)" "strict A"
  shows "mode_unterminated (interpolationMode s) = None
    \<and> (\<forall>m \<in> set (mode_matches (interpolationMode s)). body_passes h ss roots itemIn A (m_body m))"
proof
  have field: "passes A (Some (if mode_unterminated (interpolationMode s) \<noteq> None
        then [locate wh None (Refuse UnterminatedField)] else []))"
    and refs: "\<forall>m \<in> set (mode_matches (interpolationMode s)). admits A (check_body h ss roots itemIn (m_body m))"
    using assms(1) by (auto simp: scan_field_def Let_def passes_located)
  show "mode_unterminated (interpolationMode s) = None" using field assms(2) by (auto split: if_splits)
  show "\<forall>m \<in> set (mode_matches (interpolationMode s)). body_passes h ss roots itemIn A (m_body m)"
  proof
    fix m assume "m \<in> set (mode_matches (interpolationMode s))"
    with refs have "admits A (check_body h ss roots itemIn (m_body m))" by blast
    then show "body_passes h ss roots itemIn A (m_body m)"
      using strictD [OF assms(2)] by (cases "parseExpr (m_body m)") (auto simp: check_body_def body_passes_def)
  qed
qed

lemma interpolate_throws:
  assumes "\<forall>m \<in> set ms. body_passes h ss roots itemIn no_refusal (m_body m)"
    and "fits roots ss off sc" "itemIn \<longrightarrow> sc_item sc \<noteq> None"
  shows "throws_only (run_failure ss off False) (interpolate h sc scanned c ms)"
  using assms(1)
proof (induction ms arbitrary: c)
  case (Cons m ms)
  then obtain x where x: "parseExpr (m_body m) = Inr x" "accepted (checkExprStatic h ss roots x False itemIn)"
    by (auto simp: body_passes_def)
  then show ?case
    using Cons accepted_eval(1) [OF x(2) assms(2,3)] by (auto intro!: throws_bind throws_ret)
qed (simp add: throws_ret)

lemma throws_onlyI: "throws_only P m \<Longrightarrow> fst (m b) = Inl e \<Longrightarrow> P e"
  by (auto simp: throws_only_def)

lemma substitute_field_throws:
  assumes ok: "passes no_refusal (scan_field h ss roots itemIn wh s)"
    and fit: "fits roots ss off (newEnv ctx item)" "itemIn \<longrightarrow> item \<noteq> None"
    and e: "substitute_field h ctx item s = Inl e"
  shows "run_failure ss off False e"
proof -
  note parts = field_passes [OF ok strict_no_refusal]
  have item: "itemIn \<longrightarrow> sc_item (newEnv ctx item) \<noteq> None" using fit(2) by (simp add: newEnv_def)
  show ?thesis
  proof (cases "interpolationMode s")
    case (Literal scanned ms u)
    then show ?thesis using e by (simp add: substitute_field_def)
  next
    case (Whole scanned ms u body)
    obtain m where m: "ms = [m]" "m_body m = body" using mode_whole [OF Whole] by blast
    then obtain x where x: "parseExpr body = Inr x" "accepted (checkExprStatic h ss roots x False itemIn)"
      using parts Whole by (auto simp: body_passes_def)
    then have "fst (evalExpr h x (newEnv ctx item) 0) = Inl e"
      using e Whole by (auto simp: substitute_field_def bindR_Inl_iff)
    then show ?thesis by (rule throws_onlyI [OF accepted_eval(1) [OF x(2) fit(1) item]])
  next
    case (Interpolated scanned ms u)
    then have "fst (interpolate h (newEnv ctx item) scanned 0 ms 0) = Inl e"
      using e parts by (auto simp: substitute_field_def bindR_Inl_iff)
    then show ?thesis
      by (rule throws_onlyI [OF interpolate_throws [OF _ fit(1) item], rotated]) (use parts Interpolated in auto)
  qed
qed

lemma mapR_Inl: "mapR f xs = Inl e \<Longrightarrow> \<exists>x \<in> set xs. f x = Inl e"
  by (induction xs) (auto simp: bindR_Inl_iff)

text \<open>Every field of a configuration passes, whatever its path and its depth.\<close>

fun fields_pass ::
  "host \<Rightarrow> scan_scope \<Rightarrow> root_restriction \<Rightarrow> bool \<Rightarrow> (finding \<Rightarrow> bool) \<Rightarrow> jval \<Rightarrow> bool" where
  "fields_pass h ss roots itemIn A (JStr s) = (\<exists>wh. passes A (scan_field h ss roots itemIn wh s))"
| "fields_pass h ss roots itemIn A (JArr xs) = list_all (fields_pass h ss roots itemIn A) xs"
| "fields_pass h ss roots itemIn A (JObj ps) = list_all (\<lambda>(k, v). fields_pass h ss roots itemIn A v) ps"
| "fields_pass h ss roots itemIn A v = True"

lemma scan_fields:
  assumes "strict A"
  shows "passes A (scan h ss roots itemIn v wh d) \<Longrightarrow>
    fields_pass h ss roots itemIn A v \<and> d + nesting v \<le> MAX_CONFIG_DEPTH"
proof (induction h ss roots itemIn v arbitrary: wh d rule: scan.induct)
  case (2 h ss roots itemIn xs)
  have d: "\<not> MAX_CONFIG_DEPTH < d" using 2(2) assms by (auto split: if_splits)
  have el: "fields_pass h ss roots itemIn A x \<and> d + 1 + nesting x \<le> MAX_CONFIG_DEPTH" if "x \<in> set xs" for x
  proof -
    obtain i where "i < length xs" "x = xs ! i" using \<open>x \<in> set xs\<close> by (auto simp: in_set_conv_nth)
    then have "(i, scan h ss roots itemIn x) \<in> set (zip [0..<length xs] (map (scan h ss roots itemIn) xs))"
      unfolding in_set_zip by (intro exI [of _ i]) simp
    then show ?thesis using 2(1) [OF d that] 2(2) d by fastforce
  qed
  then show ?case using d unfolding nesting.simps by (auto simp: list_all_iff intro!: nesting_le)
next
  case (3 h ss roots itemIn ps)
  have d: "\<not> MAX_CONFIG_DEPTH < d" using 3(2) assms by (auto split: if_splits)
  have el: "fields_pass h ss roots itemIn A v \<and> d + 1 + nesting v \<le> MAX_CONFIG_DEPTH" if kv: "(k, v) \<in> set ps" for k v
  proof -
    have "(k, scan h ss roots itemIn v) \<in> set (sort_key fst (map (\<lambda>(k, v). (k, scan h ss roots itemIn v)) ps))"
      using kv by force
    then show ?thesis using 3(1) [OF d kv refl] 3(2) d by fastforce
  qed
  then have "\<forall>(k, v) \<in> set ps. fields_pass h ss roots itemIn A v" by blast
  moreover have "d + nesting (JObj ps) \<le> MAX_CONFIG_DEPTH"
    using d el unfolding nesting.simps by (intro nesting_le) fastforce+
  ultimately show ?case by (simp add: list_all_iff)
qed (use assms in \<open>auto split: if_splits\<close>)

abbreviation too_deep :: exn where
  "too_deep \<equiv> SubstituteE (EvalReason ConfigTooDeep)"

lemma deep_member:
  "x \<in> set xs \<Longrightarrow> n < d + 1 + f x \<Longrightarrow> n < d + foldr max (map (\<lambda>x. Suc (f x)) xs) (0 :: nat)"
  by (induction xs) (auto simp: less_max_iff_disj)

lemma fields_throws:
  assumes "fits roots ss off (newEnv ctx item)" "itemIn \<longrightarrow> item \<noteq> None"
  shows "substitute h ctx item d v = Inl e \<Longrightarrow> fields_pass h ss roots itemIn no_refusal v \<Longrightarrow>
    run_failure ss off False e \<or> e = too_deep \<and> MAX_CONFIG_DEPTH < d + nesting v"
  using assms
proof (induction h ctx item d v arbitrary: e rule: substitute.induct)
  case (1 h ctx item depth xs)
  show ?case
  proof (cases "MAX_CONFIG_DEPTH < depth")
    case False
    then obtain x where x: "x \<in> set xs" "substitute h ctx item (depth + 1) x = Inl e"
      using 1(2) by (auto simp: bindR_Inl_iff dest: mapR_Inl)
    then have "fields_pass h ss roots itemIn no_refusal x" using 1(3) by (simp add: list_all_iff)
    then show ?thesis using 1(1) [OF False x(1) x(2) _ 1(4,5)] deep_member [OF x(1)] by (auto simp: add.assoc)
  qed (use 1(2) in auto)
next
  case (2 h ctx item depth ps)
  show ?case
  proof (cases "MAX_CONFIG_DEPTH < depth")
    case False
    then obtain k v where kv: "(k, v) \<in> set (sort_key fst ps)" "substitute h ctx item (depth + 1) v = Inl e"
      using 2(2) by (auto simp: bindR_Inl_iff dest!: mapR_Inl)
    then have mem: "(k, v) \<in> set ps" by simp
    then have "fields_pass h ss roots itemIn no_refusal v" using 2(3) by (auto simp: list_all_iff)
    then have "run_failure ss off False e \<or> e = too_deep \<and> MAX_CONFIG_DEPTH < depth + 1 + nesting v"
      using 2(1) [OF False kv(1) refl kv(2) _ 2(4,5)] by simp
    moreover have "MAX_CONFIG_DEPTH < depth + 1 + nesting v \<Longrightarrow> MAX_CONFIG_DEPTH < depth + nesting (JObj ps)"
      using deep_member [OF mem, of MAX_CONFIG_DEPTH depth "\<lambda>(k, v). nesting v"]
      by (simp add: case_prod_unfold)
    ultimately show ?thesis by blast
  qed (use 2(2) in auto)
next
  case (3 h ctx item depth s)
  then show ?case by (auto intro: substitute_field_throws split: if_splits)
qed (auto split: if_splits)

lemma scanned_throws:
  assumes "fits roots ss off (newEnv ctx item)" "itemIn \<longrightarrow> item \<noteq> None"
    and "substitute h ctx item d v = Inl e" "passes no_refusal (scan h ss roots itemIn v wh d)"
  shows "run_failure ss off False e"
  using fields_throws [OF assms(1-3)] scan_fields [OF strict_no_refusal assms(4)] by auto

text \<open>A configuration that passes reads nothing else.\<close>

lemma interpolate_alike:
  assumes "\<forall>m \<in> set ms. body_passes h ss roots itemIn (reads_only vars globs) (m_body m)"
    and "agrees roots ss vars globs sc sc'"
  shows "interpolate h sc scanned c ms = interpolate h sc' scanned c ms"
  using assms(1)
proof (induction ms arbitrary: c)
  case (Cons m ms)
  then obtain x where x: "parseExpr (m_body m) = Inr x"
    "admits (reads_only vars globs) (checkExprStatic h ss roots x False itemIn)"
    by (auto simp: body_passes_def)
  then show ?case using Cons reads_eval(1) [OF x(2) assms(2)] by simp
qed simp

lemma substitute_field_alike:
  assumes ok: "passes (reads_only vars globs) (scan_field h ss roots itemIn wh s)"
    and agree: "agrees roots ss vars globs (newEnv ctx item) (newEnv ctx' item')"
  shows "substitute_field h ctx item s = substitute_field h ctx' item' s"
proof -
  note parts = field_passes [OF ok strict_reads]
  show ?thesis
  proof (cases "interpolationMode s")
    case (Literal scanned ms u)
    then show ?thesis by (simp add: substitute_field_def)
  next
    case (Whole scanned ms u body)
    obtain m where m: "ms = [m]" "m_body m = body" using mode_whole [OF Whole] by blast
    then obtain x where x: "parseExpr body = Inr x"
      "admits (reads_only vars globs) (checkExprStatic h ss roots x False itemIn)"
      using parts Whole by (auto simp: body_passes_def)
    then show ?thesis using reads_eval(1) [OF x(2) agree] Whole by (simp add: substitute_field_def)
  next
    case (Interpolated scanned ms u)
    have "interpolate h (newEnv ctx item) scanned 0 ms = interpolate h (newEnv ctx' item') scanned 0 ms"
      by (rule interpolate_alike [OF _ agree]) (use parts Interpolated in auto)
    then show ?thesis using Interpolated by (simp add: substitute_field_def)
  qed
qed

lemma mapR_alike: "(\<And>x. x \<in> set xs \<Longrightarrow> f x = g x) \<Longrightarrow> mapR f xs = mapR g xs"
  by (induction xs) auto

lemma fields_alike:
  assumes "agrees roots ss vars globs (newEnv ctx item) (newEnv ctx' item')"
  shows "fields_pass h ss roots itemIn (reads_only vars globs) v \<Longrightarrow>
    substitute h ctx item d v = substitute h ctx' item' d v"
  using assms
proof (induction h ctx item d v rule: substitute.induct)
  case (1 h ctx item depth xs)
  have "mapR (substitute h ctx item (depth + 1)) xs = mapR (substitute h ctx' item' (depth + 1)) xs"
    if "\<not> MAX_CONFIG_DEPTH < depth"
    using 1(1) [OF that] 1(2,3) by (intro mapR_alike) (auto simp: list_all_iff)
  then show ?case by simp
next
  case (2 h ctx item depth ps)
  have "mapR (\<lambda>(k, v). bindR (substitute h ctx item (depth + 1) v) (\<lambda>w. Inr (k, w))) (sort_key fst ps)
      = mapR (\<lambda>(k, v). bindR (substitute h ctx' item' (depth + 1) v) (\<lambda>w. Inr (k, w))) (sort_key fst ps)"
    if d: "\<not> MAX_CONFIG_DEPTH < depth"
  proof (intro mapR_alike, clarify)
    fix k v assume kv: "(k, v) \<in> set (sort_key fst ps)"
    then have "fields_pass h ss roots itemIn (reads_only vars globs) v" using 2(2) by (auto simp: list_all_iff)
    then have "substitute h ctx item (depth + 1) v = substitute h ctx' item' (depth + 1) v"
      using 2(1) [OF d kv refl _ 2(3)] by blast
    then show "bindR (substitute h ctx item (depth + 1) v) (\<lambda>w. Inr (k, w))
        = bindR (substitute h ctx' item' (depth + 1) v) (\<lambda>w. Inr (k, w))" by simp
  qed
  then show ?case by simp
next
  case (3 h ctx item depth s)
  then show ?case by (auto intro: substitute_field_alike split: if_splits)
qed auto

lemma scanned_alike:
  assumes "agrees roots ss vars globs (newEnv ctx item) (newEnv ctx' item')"
    and "passes (reads_only vars globs) (scan h ss roots itemIn v wh d)"
  shows "substitute h ctx item d' v = substitute h ctx' item' d' v"
  using fields_alike [OF assms(1)] scan_fields [OF strict_reads assms(2)] by blast

section \<open>The bindings of a trigger\<close>

definition trigger_scope :: "bool \<Rightarrow> scan_scope" where
  "trigger_scope windowFields = empty_scope\<lparr>sn_windowFields := windowFields\<rparr>"

lemma bindings_pass:
  "validateTriggerBindings h ps windowFields = Some [] \<longleftrightarrow>
     (\<forall>(k, v) \<in> set ps. passes no_refusal
        (scan h (trigger_scope windowFields) TRIGGER_BINDING_ROOTS False v (lit ''params.'' @ k) 0))"
  unfolding validateTriggerBindings_def passes_refusals passes_simps trigger_scope_def by auto

lemma trigger_fits: "fits TRIGGER_BINDING_ROOTS (trigger_scope w) {} (newEnv (trigger_ctx tc) None)"
proof -
  have "root_fits (trigger_scope w) {} (newEnv (trigger_ctx tc) None) (RTrigger f)" for f
    by (auto simp: root_fits_def trigger_scope_def trigger_ctx_def newEnv_def empty_ctx_def empty_scope_def
        TRIGGER_FIELDS_def TRIGGER_WINDOW_FIELDS_def triggerRoot_def Let_def)
  then show ?thesis
    unfolding fits_def
  proof (intro allI impI)
    fix rt assume "root_allowed TRIGGER_BINDING_ROOTS rt"
    then obtain f where "rt = RTrigger f"
      by (cases rt) (auto simp: root_allowed_def TRIGGER_BINDING_ROOTS_def kind_of_root_def)
    then show "root_fits (trigger_scope w) {} (newEnv (trigger_ctx tc) None) rt"
      using \<open>\<And>f. root_fits (trigger_scope w) {} (newEnv (trigger_ctx tc) None) (RTrigger f)\<close> by simp
  qed
qed

lemma trigger_failure: "run_failure (trigger_scope w) {} False e \<Longrightarrow> run_time_only e"
  by (auto simp: run_failure_def may_be_unset_def trigger_scope_def empty_scope_def js_map_of_def)

lemma bindings_throw:
  assumes "validateTriggerBindings h ps w = Some []" "resolveTriggerBindings h ps tc = Inl (BindingLanguage e)"
  shows "run_time_only e \<or> e = too_deep \<and> nesting (JObj ps) = MAX_CONFIG_DEPTH + 1"
proof -
  have sub: "substitute h (trigger_ctx tc) None 0 (JObj ps) = Inl e"
    using assms(2) by (auto simp: resolveTriggerBindings_def split: sum.splits list.splits)
  have each: "fields_pass h (trigger_scope w) TRIGGER_BINDING_ROOTS False no_refusal v \<and> nesting v \<le> MAX_CONFIG_DEPTH"
    if "(k, v) \<in> set ps" for k v
    using assms(1) that scan_fields [OF strict_no_refusal, of h "trigger_scope w" TRIGGER_BINDING_ROOTS False v _ 0]
    by (fastforce simp: bindings_pass)
  then have fields: "fields_pass h (trigger_scope w) TRIGGER_BINDING_ROOTS False no_refusal (JObj ps)"
    by (auto simp: list_all_iff)
  have "0 + nesting (JObj ps) \<le> MAX_CONFIG_DEPTH + 1"
    unfolding nesting.simps by (rule nesting_le) (use each in fastforce)+
  then show ?thesis
    using fields_throws [OF trigger_fits _ sub fields] trigger_failure by fastforce
qed

end
