(* ===== verification/StaticProperties.thy ===== *)
theory StaticProperties
  imports StaticSoundness LanguageProperties
begin

text \<open>
  The properties of the static check: what it accepts runs with the failures of values only, it
  reports everything an accepted configuration reads, and it decides the bindings of a trigger.
\<close>

section \<open>What passes the check\<close>

text \<open>A field that the check accepts for every scope, and that fails when it is evaluated.\<close>

definition dividing :: jval where
  "dividing = JStr (lit ''${div(1, 0)}'')"

lemma dividing_mode:
  "interpolationMode (lit ''${div(1, 0)}'') =
     Whole (lit ''${div(1, 0)}'') [\<lparr>m_start = 0, m_end = 11, m_body = lit ''div(1, 0)''\<rparr>] None (lit ''div(1, 0)'')"
  by code_simp

fun divides_by_zero :: "expr \<Rightarrow> bool" where
  "divides_by_zero (ECall f [ENum x, ENum y]) = (f = lit ''div'' \<and> is_finite x \<and> is_finite y \<and> is_zero y)"
| "divides_by_zero e = False"

lemma dividing_parsed:
  obtains x y where "parseExpr (lit ''div(1, 0)'') = Inr (ECall (lit ''div'') [ENum x, ENum y])"
    "is_finite x" "is_finite y" "is_zero y"
proof -
  have "case parseExpr (lit ''div(1, 0)'') of Inl e \<Rightarrow> False | Inr e \<Rightarrow> divides_by_zero e"
    by code_simp
  with that show thesis
    by (auto simp del: lit_simps split: sum.splits elim!: divides_by_zero.elims(2))
qed

lemma dividing_passes: "scan h ss roots itemIn dividing wh 0 = Some []"
proof -
  obtain x y where p: "parseExpr (lit ''div(1, 0)'') = Inr (ECall (lit ''div'') [ENum x, ENum y])"
    by (rule dividing_parsed)
  have "check_body h ss roots itemIn (lit ''div(1, 0)'') = Some []"
    by (simp add: check_body_def p check_call_def lookup_names fn_div_def eager_def inferExprType_def arity_ok_def arity_def
        argSigAt_def andAlso_def assignableTo_def del: lit_simps)
  then show ?thesis
    by (simp add: dividing_def scan_field_def dividing_mode andAlso_def del: lit_simps)
qed

lemma dividing_fails:
  "substitute h ctx item 0 dividing = Inl (SubstituteE (FnReason (lit ''div'') DivisionByZero))"
proof -
  obtain x y where p: "parseExpr (lit ''div(1, 0)'') = Inr (ECall (lit ''div'') [ENum x, ENum y])"
    and args: "is_finite x" "is_finite y" "is_zero y"
    by (rule dividing_parsed)
  have "fst (evalExpr h (ECall (lit ''div'') [ENum x, ENum y]) (newEnv ctx item) 0)
      = Inl (SubstituteE (FnReason (lit ''div'') DivisionByZero))"
    using args by (simp add: eval_call_def lookup_names fn_div_def eager_def bindE_def retE_def liftE_def
        arity_ok_def arity_def callEager_def charged_def charge_def argSigAt_def checkArity_def wrap_host_def checkArgTypes_def expect_def as_num_def del: lit_simps)
  then show ?thesis
    by (simp add: dividing_def substitute_field_def dividing_mode p del: lit_simps)
qed

text \<open>
  C7: the check is sound: a configuration it accepts, evaluated where the context has what the scope
  promises, fails only with an error of the values it meets, or with an optional parameter or an
  undeclared output that is unset. It never fails with an unknown function, a wrong number of
  arguments, an unresolvable reference, an unset variable or an unterminated field.
\<close>

theorem checked_config_runs:
  assumes "scan h ss roots itemIn v wh d = Some fs" "refusals fs = []"
    and "fits roots ss off (newEnv ctx item)" "itemIn \<longrightarrow> item \<noteq> None"
    and "substitute h ctx item d v = Inl e"
  shows "run_failure ss off False e"
proof -
  have "passes no_refusal (scan h ss roots itemIn v wh d)"
    using assms(1,2) by (simp add: passes_refusals [symmetric])
  then show ?thesis using scanned_throws [OF assms(3-5)] by blast
qed

theorem checked_config_runs_witness:
  "run_failure (trigger_scope True) {} False (SubstituteE (FnReason (lit ''div'') DivisionByZero))"
  by (rule checked_config_runs [OF dividing_passes _ trigger_fits _ dividing_fails, of False])
    (simp_all add: refusals_def)

text \<open>
  C8: the check is complete for reads: two contexts that agree on the variables and globals it
  reports, on the parameters that are not secrets, and on the outputs and statuses it lets the
  configuration name, give the same result. An accepted configuration tells nothing about a secret
  parameter or an output of a secure node.
\<close>

theorem checked_config_reads:
  assumes "scan h ss roots itemIn v wh d = Some fs" "refusals fs = []"
    and "agrees roots ss {k. ReadsVariable k \<in> (fst \<circ> snd) ` set fs} {k. ReadsGlobal k \<in> (fst \<circ> snd) ` set fs}
           (newEnv ctx item) (newEnv ctx' item')"
  shows "substitute h ctx item d' v = substitute h ctx' item' d' v"
proof (rule scanned_alike [OF assms(3)])
  have "reads_only {k. ReadsVariable k \<in> (fst \<circ> snd) ` set fs} {k. ReadsGlobal k \<in> (fst \<circ> snd) ` set fs} f"
    if "(w, f, hint) \<in> set fs" for w f hint
  proof -
    have "f \<in> (fst \<circ> snd) ` set fs" using that by force
    moreover have "no_refusal f" using that assms(2) by (cases f) (auto simp: refusals_def filter_empty_conv)
    ultimately show ?thesis by (cases f) auto
  qed
  then show "passes (reads_only {k. ReadsVariable k \<in> (fst \<circ> snd) ` set fs} {k. ReadsGlobal k \<in> (fst \<circ> snd) ` set fs})
      (scan h ss roots itemIn v wh d)"
    by (auto simp: assms(1) passes_def list_all_iff)
qed

text \<open>A field that reads one variable of two.\<close>

definition counter_field :: jval where
  "counter_field = JStr (lit ''${vars.n}'')"

definition counting :: "jval \<Rightarrow> sub_ctx" where
  "counting v = empty_ctx\<lparr>cx_variables := [(lit ''n'', JBool True), (lit ''other'', v)]\<rparr>"

definition counting_scope :: scan_scope where
  "counting_scope = empty_scope\<lparr>sn_variables :=
     [(lit ''n'', \<lparr>v_name = lit ''n'', v_type = VBoolean, v_default = JBool False\<rparr>)]\<rparr>"

lemma counter_scanned:
  "scan plain_host counting_scope None False counter_field [] 0 = Some [([], ReadsVariable (lit ''n''), None)]"
proof -
  have mode: "interpolationMode (lit ''${vars.n}'') =
      Whole (lit ''${vars.n}'') [\<lparr>m_start = 0, m_end = 8, m_body = lit ''vars.n''\<rparr>] None (lit ''vars.n'')"
    by code_simp
  have parsed: "parseExpr (lit ''vars.n'') = Inr (ERef (lit ''vars.n'') [SField (lit ''vars''), SField (lit ''n'')])"
    by code_simp
  have sort: "refRoot (leadingFields [SField (lit ''vars''), SField (lit ''n'')]) = Some (RVars (lit ''n''))"
    by code_simp
  show ?thesis
    by (simp add: counter_field_def scan_field_def mode check_body_def parsed check_ref_def sort andAlso_def
        root_allowed_def root_arity_def MAX_PATH_DEPTH_def checkRefRoot_def counting_scope_def js_map_of_def
        locate_def infixOperatorHint_def del: lit_simps leadingFields.simps)
qed

lemma counting_agree: "agrees None counting_scope {lit ''n''} {} (newEnv (counting v) None) (newEnv (counting w) None)"
  unfolding agrees_def
proof (intro allI impI)
  show "root_agrees counting_scope {lit ''n''} {} (newEnv (counting v) None) (newEnv (counting w) None) rt" for rt
    by (cases rt) (simp_all add: root_agrees_def counting_def newEnv_def empty_ctx_def split: option.split)
qed

theorem checked_config_reads_witness:
  "substitute plain_host (counting (JBool True)) None 0 counter_field
     = substitute plain_host (counting (JStr (lit ''x''))) None 0 counter_field"
  by (rule checked_config_reads [OF counter_scanned]) (use counting_agree in \<open>simp_all add: refusals_def\<close>)

section \<open>The bindings of a trigger\<close>

text \<open>
  A trigger whose bindings are valid fires with an error of the values only, or because its record
  of bindings is nested one level deeper than a configuration may be.
\<close>

theorem valid_bindings_fire:
  assumes "validateTriggerBindings h ps windowFields = Some []"
    and "resolveTriggerBindings h ps tc = Inl (BindingLanguage e)"
  shows "run_time_only e \<or> e = too_deep \<and> nesting (JObj ps) = MAX_CONFIG_DEPTH + 1"
  using bindings_throw [OF assms] .

lemma dividing_binding:
  "validateTriggerBindings h [(lit ''p'', dividing)] False = Some []"
  "resolveTriggerBindings h [(lit ''p'', dividing)] tc =
     Inl (BindingLanguage (SubstituteE (FnReason (lit ''div'') DivisionByZero)))"
proof -
  show "validateTriggerBindings h [(lit ''p'', dividing)] False = Some []"
    by (simp add: validateTriggerBindings_def dividing_passes andAlso_def refusals_def)
  have "substitute h ctx item 1 dividing = Inl (SubstituteE (FnReason (lit ''div'') DivisionByZero))" for ctx item
    using dividing_fails [of h ctx item] by (simp add: dividing_def MAX_CONFIG_DEPTH_def)
  then show "resolveTriggerBindings h [(lit ''p'', dividing)] tc =
      Inl (BindingLanguage (SubstituteE (FnReason (lit ''div'') DivisionByZero)))"
    by (simp add: resolveTriggerBindings_def MAX_CONFIG_DEPTH_def)
qed

theorem valid_bindings_fire_witness:
  "run_time_only (SubstituteE (FnReason (lit ''div'') DivisionByZero))
   \<or> SubstituteE (FnReason (lit ''div'') DivisionByZero) = too_deep
     \<and> nesting (JObj [(lit ''p'', dividing)]) = MAX_CONFIG_DEPTH + 1"
  by (rule valid_bindings_fire [OF dividing_binding])

fun nested :: "nat \<Rightarrow> jval" where
  "nested 0 = JNull"
| "nested (Suc n) = JArr [nested n]"

lemma nested_passes: "d + n \<le> MAX_CONFIG_DEPTH \<Longrightarrow> scan h ss roots itemIn (nested n) wh d = Some []"
  by (induction n arbitrary: wh d) (simp_all add: andAlso_def)

lemma nested_fails: "MAX_CONFIG_DEPTH < d + n \<Longrightarrow> substitute h ctx item d (nested n) = Inl too_deep"
  by (induction n arbitrary: d) simp_all

text \<open>
  C9: the check of a trigger counts the levels of each binding from 0, the resolution counts them from
  1: a literal of exactly \<open>MAX_CONFIG_DEPTH\<close> levels is saved, and no fire resolves it.
\<close>

theorem deep_binding_never_fires:
  "validateTriggerBindings h [(k, nested MAX_CONFIG_DEPTH)] windowFields = Some []
   \<and> jsonReplaySafetyErrors k (nested MAX_CONFIG_DEPTH) = []
   \<and> resolveTriggerBindings h [(k, nested MAX_CONFIG_DEPTH)] tc = Inl (BindingLanguage too_deep)"
proof -
  have "nesting (nested n) = n \<and> all_finite (nested n)" for n by (induction n) simp_all
  then have "jsonReplaySafetyErrors k (nested MAX_CONFIG_DEPTH) = []"
    by (simp add: jsonReplaySafetyErrors_def walkReplaySafe_iff)
  moreover have "substitute h (trigger_ctx tc) None 0 (JObj [(k, nested MAX_CONFIG_DEPTH)]) = Inl too_deep"
    using nested_fails [of 1 MAX_CONFIG_DEPTH] by simp
  ultimately show ?thesis
    by (simp add: validateTriggerBindings_def nested_passes andAlso_def refusals_def resolveTriggerBindings_def)
qed

section \<open>Bindings to a window\<close>

fun window_refusal :: "finding \<Rightarrow> bool" where
  "window_refusal (Refuse (WindowOutOfScope f)) = True"
| "window_refusal f = False"

abbreviation outside :: "check \<Rightarrow> check" where
  "outside \<equiv> map_option (filter (\<lambda>f. \<not> window_refusal f))"

abbreviation located_outside :: "located list option \<Rightarrow> located list option" where
  "located_outside \<equiv> map_option (filter (\<lambda>(wh, f, hint). \<not> window_refusal f))"

lemma filter_andAlso: "map_option (filter P) (andAlso a b) = andAlso (map_option (filter P) a) (map_option (filter P) b)"
  by (cases a; cases b) (simp_all add: andAlso_def)

lemma filter_all: "map_option (filter P) (allChecks cs) = allChecks (map (map_option (filter P)) cs)"
  by (induction cs) (simp_all add: filter_andAlso)

lemma inferred_alike: "inferExprType h (ss\<lparr>sn_windowFields := w\<rparr>) e = inferExprType h ss e"
  by (simp add: inferExprType_def refRootType_def declared_outputs_def split: expr.split option.split ref_root.split)

lemma typed_alike: "refRootType rt (ss\<lparr>sn_windowFields := w\<rparr>) = refRootType rt ss"
  by (simp add: refRootType_def declared_outputs_def split: ref_root.split)

lemma root_outside:
  "checkRefRoot src rt (ss\<lparr>sn_windowFields := True\<rparr>) softOk itemIn
     = outside (checkRefRoot src rt (ss\<lparr>sn_windowFields := False\<rparr>) softOk itemIn)"
  by (cases rt) (auto simp: checkRefRoot_def declared_outputs_def split: option.split)

lemma args_outside:
  assumes "\<forall>(c, c') \<in> set (zip cs cs'). \<forall>softOk itemIn. c softOk itemIn = outside (c' softOk itemIn)" "length cs = length cs'"
  shows "check_args name spec itemIn i (zip cs ts) = outside (check_args name spec itemIn i (zip cs' ts))"
  using assms
proof (induction cs arbitrary: cs' ts i)
  case (Cons c cs)
  then obtain c' cs2 where [simp]: "cs' = c' # cs2" by (cases cs') auto
  show ?case
  proof (cases ts)
    case (Cons t ts')
    then show ?thesis using Cons.prems Cons.IH [of cs2 "i + 1" ts'] by (simp add: filter_andAlso)
  qed simp
qed simp

lemma expr_outside:
  shows "checkExprStatic h (ss\<lparr>sn_windowFields := True\<rparr>) roots e softOk itemIn
      = outside (checkExprStatic h (ss\<lparr>sn_windowFields := False\<rparr>) roots e softOk itemIn)"
    and "check_index h (ss\<lparr>sn_windowFields := True\<rparr>) roots src s softOk itemIn
      = outside (check_index h (ss\<lparr>sn_windowFields := False\<rparr>) roots src s softOk itemIn)"
proof (induction h ss roots e and h ss roots src s arbitrary: softOk itemIn and softOk itemIn
    rule: checkExprStatic_check_index.induct)
  case (4 h ss roots name args)
  let ?c = "\<lambda>w a. checkExprStatic h (ss\<lparr>sn_windowFields := w\<rparr>) roots a"
  have "map (\<lambda>a. (?c w a, inferExprType h (ss\<lparr>sn_windowFields := w\<rparr>) a)) args
      = zip (map (?c w) args) (map (inferExprType h ss) args)" for w
    by (simp add: inferred_alike zip_map_map zip_same_conv_map)
  moreover have "check_args name spec itemIn 0 (zip (map (?c True) args) (map (inferExprType h ss) args))
      = outside (check_args name spec itemIn 0 (zip (map (?c False) args) (map (inferExprType h ss) args)))" for spec
    by (rule args_outside) (use 4 in \<open>auto simp: zip_map_map zip_same_conv_map\<close>)
  ultimately show ?case
    by (auto simp: check_call_def filter_andAlso split: fn_lookup.split)
next
  case (5 h ss roots src segs)
  then have tails: "map (\<lambda>c. c softOk itemIn) (map (check_index h (ss\<lparr>sn_windowFields := True\<rparr>) roots src) segs)
      = map (outside \<circ> (\<lambda>c. c softOk itemIn)) (map (check_index h (ss\<lparr>sn_windowFields := False\<rparr>) roots src) segs)"
    by simp
  have "map (\<lambda>c. c softOk itemIn) (drop n (map (check_index h (ss\<lparr>sn_windowFields := True\<rparr>) roots src) segs))
      = map (outside \<circ> (\<lambda>c. c softOk itemIn)) (drop n (map (check_index h (ss\<lparr>sn_windowFields := False\<rparr>) roots src) segs))" for n
    using arg_cong [OF tails, of "drop n"] by (simp add: drop_map)
  then show ?case
    by (auto simp: check_ref_def typed_alike filter_andAlso filter_all root_outside Let_def
        split: option.split segment.split)
next
  case (7 h ss roots src e)
  then show ?case by (simp add: filter_andAlso inferred_alike Let_def)
qed simp_all

lemma body_outside:
  "map_option (map (locate wh hint)) (check_body h (ss\<lparr>sn_windowFields := True\<rparr>) roots itemIn body)
     = located_outside (map_option (map (locate wh hint)) (check_body h (ss\<lparr>sn_windowFields := False\<rparr>) roots itemIn body))"
proof -
  have "check_body h (ss\<lparr>sn_windowFields := True\<rparr>) roots itemIn body
      = outside (check_body h (ss\<lparr>sn_windowFields := False\<rparr>) roots itemIn body)"
    by (simp add: check_body_def expr_outside split: sum.split)
  then show ?thesis
    by (simp add: option.map_comp comp_def filter_map locate_def)
qed

lemma insort_values:
  "insort_key fst (k, f k v) (map (\<lambda>(k, v). (k, f k v)) ps)
     = map (\<lambda>(k, v). (k, f k v)) (insort_key fst (k, v) ps)"
  by (induction ps) auto

lemma sort_values:
  "sort_key fst (map (\<lambda>(k, v). (k, f v)) ps) = map (\<lambda>(k, v). (k, f v)) (sort_key fst ps)"
proof (induction ps)
  case (Cons p ps)
  then show ?case using insort_values [of "fst p" "\<lambda>_. f" "snd p" "sort_key fst ps"]
    by (cases p) simp
qed simp

lemma scan_outside:
  "scan h (ss\<lparr>sn_windowFields := True\<rparr>) roots itemIn v wh d
     = located_outside (scan h (ss\<lparr>sn_windowFields := False\<rparr>) roots itemIn v wh d)"
proof (induction h ss roots itemIn v arbitrary: wh d rule: scan.induct)
  case (1 h ss roots itemIn s)
  then show ?case
    by (simp add: too_nested_def locate_def scan_field_def Let_def filter_andAlso filter_all body_outside comp_def)
next
  case (2 h ss roots itemIn xs)
  then show ?case
    by (auto simp: too_nested_def locate_def filter_all comp_def zip_map2
        dest!: set_zip_rightD intro!: arg_cong [of _ _ allChecks])
next
  case (3 h ss roots itemIn ps)
  let ?m = "\<lambda>w. map (\<lambda>(k, v). (k, scan h (ss\<lparr>sn_windowFields := w\<rparr>) roots itemIn v)) ps"
  have "scan h (ss\<lparr>sn_windowFields := True\<rparr>) roots itemIn v wh' (Suc d)
      = located_outside (scan h (ss\<lparr>sn_windowFields := False\<rparr>) roots itemIn v wh' (Suc d))"
    if "(k, v) \<in> set ps" "\<not> MAX_CONFIG_DEPTH < d" for k v wh'
    using 3 [OF that(2) that(1) refl] .
  then show ?case
    by (auto simp: too_nested_def locate_def filter_all comp_def sort_values intro!: arg_cong [of _ _ allChecks])
qed (simp_all add: too_nested_def locate_def)

lemma refusals_outside: "map_option refusals (located_outside c) = located_outside (map_option refusals c)"
  by (cases c) (auto simp: refusals_def intro: filter_cong)

lemma bindings_outside:
  "validateTriggerBindings h ps True = located_outside (validateTriggerBindings h ps False)"
  unfolding validateTriggerBindings_def refusals_outside [symmetric] filter_all
  by (simp add: scan_outside comp_def case_prod_unfold)

text \<open>
  The errors that a trigger without a window is refused for are exactly the errors of its check
  that name a field of the window: the difference of the two runs of the check loses none and adds
  none.
\<close>

theorem window_errors_exact:
  "windowBindingErrors h ps
     = map_option (filter (\<lambda>(wh, f, hint). window_refusal f)) (validateTriggerBindings h ps False)"
proof (cases "validateTriggerBindings h ps False")
  case (Some fs)
  have "filter (\<lambda>e. e \<notin> set (filter (\<lambda>(wh, f, hint). \<not> window_refusal f) fs)) fs
      = filter (\<lambda>(wh, f, hint). window_refusal f) fs"
    by (rule filter_cong) auto
  then show ?thesis by (simp add: windowBindingErrors_def bindings_outside Some)
qed (simp add: windowBindingErrors_def bindings_outside)

text \<open>
  The check finds members that the catalog object inherits: a binding that calls one makes the
  check raise a host error instead of reporting an unknown function.
\<close>

theorem static_check_crashes:
  "validateTriggerBindings h [(k, JStr (lit ''${constructor()}''))] windowFields = None"
proof -
  have mode: "interpolationMode (lit ''${constructor()}'') =
      Whole (lit ''${constructor()}'') [\<lparr>m_start = 0, m_end = 15, m_body = lit ''constructor()''\<rparr>] None
        (lit ''constructor()'')"
    by code_simp
  have parsed: "parseExpr (lit ''constructor()'') = Inr (ECall (lit ''constructor'') [])"
    by code_simp
  have "(fn_lookup h (lit ''constructor'') :: unit fn_lookup) = Inherited"
    by (simp add: OBJECT_PROTOTYPE_def fn_lookup_def FUNCTIONS_def lit_inj del: lit_simps)
  then show ?thesis
    by (simp add: validateTriggerBindings_def scan_field_def mode check_body_def parsed check_call_def andAlso_def
        del: lit_simps)
qed

end
