(* ===== verification/DocRules.thy ===== *)
theory DocRules
  imports Control
begin

text \<open>
  The structural rules of the save gate, \<open>validateDoc\<close> of \<open>engine/params.ts\<close>: ids, endpoints of
  edges, containers and their children, boundaries, branches, cycles, back-edges, and the graph of
  calls between pipelines. An error is represented by the rule that writes it. The rules on the
  configuration of a single activity and the scans of expressions are not part of these definitions.
\<close>

section \<open>Errors\<close>

datatype container_field = FExitWhen | FItems | FTimeout | FMaxRounds | FBatchCount | FAllowNondeterministicVars

datatype rule_error =
    DuplicateNodeId jstr
  | ContainerIdTaken jstr
  | EdgeFromUnknown edge
  | EdgeToUnknown edge
  | ChildUnknown jstr jstr
  | ChildOfAnother jstr jstr jstr
  | LoopNeedsExit jstr
  | LoopNeedsChild jstr
  | DeadField jstr container_field
  | ForeachNeedsItems jstr
  | ForeachNeedsChild jstr
  | ParallelBackEdge jstr edge
  | ParallelReservesAt jstr jstr
  | EdgeCrossesBoundary edge
  | SourceNotBranching edge
  | BranchUndeclared edge jstr
  | ForwardCycle "jstr list"
  | BackEdgeUnbounded edge
  | TargetNotAncestor edge
  | BackEdgeNoProgress edge

section \<open>Ids and endpoints\<close>

text \<open>The members of a list that were seen before them.\<close>

fun repeated :: "jstr set \<Rightarrow> jstr list \<Rightarrow> jstr list" where
  "repeated seen [] = []"
| "repeated seen (x # xs) = (if x \<in> seen then x # repeated seen xs else repeated (insert x seen) xs)"

definition id_errors :: "doc \<Rightarrow> rule_error list" where
  "id_errors d =
     (let nodeIds = map n_id (d_nodes d)
      in map DuplicateNodeId (repeated {} nodeIds)
         @ map ContainerIdTaken (repeated (set nodeIds) (map c_id (d_containers d))))"

definition known_id :: "doc \<Rightarrow> jstr \<Rightarrow> bool" where
  "known_id d i \<longleftrightarrow> i \<in> set (map n_id (d_nodes d) @ map c_id (d_containers d))"

definition endpointsExist :: "doc \<Rightarrow> edge \<Rightarrow> bool" where
  "endpointsExist d e \<longleftrightarrow> known_id d (e_from e) \<and> known_id d (e_to e)"

definition endpoint_errors :: "doc \<Rightarrow> rule_error list" where
  "endpoint_errors d =
     concat (map (\<lambda>e. (if known_id d (e_from e) then [] else [EdgeFromUnknown e])
                      @ (if known_id d (e_to e) then [] else [EdgeToUnknown e])) (d_edges d))"

section \<open>Containers\<close>

definition child_errors :: "doc \<Rightarrow> container \<Rightarrow> rule_error list" where
  "child_errors d c =
     concat (map (\<lambda>ch. (if ch \<in> set (map n_id (d_nodes d)) then [] else [ChildUnknown (c_id c) ch])
                       @ (case owner_of (d_containers d) ch of
                            None \<Rightarrow> []
                          | Some cid \<Rightarrow> if cid \<noteq> c_id c then [ChildOfAnother (c_id c) ch cid] else []))
                 (c_children c))"

definition node_children :: "doc \<Rightarrow> container \<Rightarrow> jstr list" where
  "node_children d c = filter (\<lambda>ch. ch \<in> set (map n_id (d_nodes d))) (c_children c)"

text \<open>The rules of a parallel body: no back-edge touches it, and no id of the document holds an \<open>@\<close>.\<close>

definition parallel_errors :: "doc \<Rightarrow> container \<Rightarrow> rule_error list" where
  "parallel_errors d c =
     (if isParallelForeach c
      then map (ParallelBackEdge (c_id c)) (filter (\<lambda>e. e_back e \<and> touchesParallelBody c e) (d_edges d))
           @ map (ParallelReservesAt (c_id c))
               (filter (\<lambda>i. 64 \<in> set i) (map n_id (d_nodes d) @ map c_id (d_containers d)))
      else [])"

definition container_errors :: "doc \<Rightarrow> container \<Rightarrow> rule_error list" where
  "container_errors d c =
     (let live = (\<not> c_inactive c); k = c_kind c; i = c_id c
      in child_errors d c
         @ (if live \<and> k = Loop \<and> c_exitWhen c = None then [LoopNeedsExit i] else [])
         @ (if live \<and> k = Loop \<and> node_children d c = [] then [LoopNeedsChild i] else [])
         @ (if k = Stage \<and> c_exitWhen c \<noteq> None then [DeadField i FExitWhen] else [])
         @ (if k \<noteq> Foreach \<and> c_items c \<noteq> None then [DeadField i FItems] else [])
         @ (if k \<noteq> Loop \<and> c_timeout c \<noteq> None then [DeadField i FTimeout] else [])
         @ (if k \<noteq> Loop \<and> c_maxRounds c \<noteq> None then [DeadField i FMaxRounds] else [])
         @ (if k \<noteq> Foreach \<and> c_batchCount c \<noteq> None then [DeadField i FBatchCount] else [])
         @ (if k \<noteq> Foreach \<and> c_allowNondeterministicVars c \<noteq> None then [DeadField i FAllowNondeterministicVars] else [])
         @ (if k = Foreach
            then (if live \<and> c_items c = None then [ForeachNeedsItems i] else [])
                 @ (if c_exitWhen c \<noteq> None then [DeadField i FExitWhen] else [])
                 @ (if live \<and> node_children d c = [] then [ForeachNeedsChild i] else [])
                 @ parallel_errors d c
            else []))"

section \<open>Edges\<close>

definition boundary_errors :: "doc \<Rightarrow> rule_error list" where
  "boundary_errors d =
     (let owner = mb_owner (containerMembership (d_containers d))
      in map EdgeCrossesBoundary
           (filter (\<lambda>e. \<not> e_back e \<and> endpointsExist d e \<and> crossesContainerBoundary owner (e_from e) (e_to e))
              (d_edges d)))"

definition declaredBranchesOf :: "node \<Rightarrow> jstr list option" where
  "declaredBranchesOf n =
     (if n_type n = lit ''if'' then Some [lit ''true'', lit ''false'']
      else if n_type n = lit ''switch''
      then Some (js_set ((case map_of (n_config n) (lit ''cases'') of
                            Some (JArr vs) \<Rightarrow> concat (map (\<lambda>v. case v of JStr s \<Rightarrow> [s] | _ \<Rightarrow> []) vs)
                          | _ \<Rightarrow> []) @ [SWITCH_DEFAULT_BRANCH]))
      else None)"

definition branch_errors :: "doc \<Rightarrow> rule_error list" where
  "branch_errors d =
     concat (map (\<lambda>e. case e_on e of
          OnBranch l \<Rightarrow>
            if \<not> known_id d (e_from e) then []
            else (case Option.bind (js_map_of (map (\<lambda>n. (n_id n, n)) (d_nodes d)) (e_from e)) declaredBranchesOf of
                    None \<Rightarrow> [SourceNotBranching e]
                  | Some bs \<Rightarrow> if l \<notin> set bs then [BranchUndeclared e l] else [])
        | _ \<Rightarrow> []) (d_edges d))"

definition cycle_errors :: "doc \<Rightarrow> rule_error list" where
  "cycle_errors d = (case forwardCycleErrors d (d_containers d) of None \<Rightarrow> [] | Some stuck \<Rightarrow> [ForwardCycle stuck])"

definition back_edge_errors :: "doc \<Rightarrow> rule_error list" where
  "back_edge_errors d =
     (let reach = forwardReach d (d_containers d); descendants = nodeDescendants d;
          containerById = by_id (d_containers d)
      in concat (map (\<lambda>e.
           (if e_maxBounces e = None then [BackEdgeUnbounded e] else [])
           @ (if endpointsExist d e
              then (if reachesAncestor reach e then [] else [TargetNotAncestor e])
                   @ (if resetsOwnSource e (map n_id (d_nodes d)) descendants containerById then []
                      else [BackEdgeNoProgress e])
              else [])) (filter e_back (d_edges d))))"

text \<open>The structural errors, in the order in which \<open>validateDoc\<close> collects them.\<close>

definition structure_errors :: "doc \<Rightarrow> rule_error list" where
  "structure_errors d =
     id_errors d @ endpoint_errors d @ concat (map (container_errors d) (d_containers d))
     @ boundary_errors d @ branch_errors d @ cycle_errors d @ back_edge_errors d"

section \<open>Calls\<close>

definition switchedOffNodeIds :: "node list \<Rightarrow> container list \<Rightarrow> jstr list" where
  "switchedOffNodeIds ns cs =
     js_set (map n_id (filter n_inactive ns) @ concat (map c_children (filter c_inactive cs)))"

text \<open>What the graph of calls reads of a version: its nodes and its containers.\<close>

type_synonym call_doc = "node list \<times> container list"

definition literalCallTargets :: "call_doc \<Rightarrow> jstr list" where
  "literalCallTargets cd =
     (let off = switchedOffNodeIds (fst cd) (snd cd)
      in concat (map (\<lambda>n. case n_call n of
             None \<Rightarrow> []
           | Some call \<Rightarrow>
               if n_id n \<in> set off then []
               else (case interpolationMode (cc_pipelineVersionId call) of
                       Literal scanned _ _ \<Rightarrow> [restoreEscapes scanned]
                     | _ \<Rightarrow> [])) (fst cd)))"

definition MAX_CALL_DEPTH :: nat where "MAX_CALL_DEPTH = 3"

datatype call_error = CallsItself jstr | CallTooDeep jstr | CallCycle jstr

text \<open>The search, with the number of hops that are still allowed below a version and the path to it.\<close>

fun call_search :: "(jstr \<Rightarrow> call_doc option) \<Rightarrow> nat \<Rightarrow> jstr list \<Rightarrow> call_doc \<Rightarrow> call_error list" where
  "call_search resolve allowed path cd =
     concat (map (\<lambda>t.
       if t \<in> set path then [CallCycle t]
       else (case resolve t of
               None \<Rightarrow> []
             | Some child \<Rightarrow>
                 (case allowed of
                    0 \<Rightarrow> [CallTooDeep t]
                  | Suc n \<Rightarrow> call_search resolve n (path @ [t]) child))) (literalCallTargets cd))"

definition validateCallGraph ::
  "nat option \<Rightarrow> jstr option \<Rightarrow> (jstr \<Rightarrow> call_doc option) option \<Rightarrow> call_doc \<Rightarrow> call_error list" where
  "validateCallGraph maxCallDepth selfId resolvePipeline cd =
     (let maxDepth = (case maxCallDepth of None \<Rightarrow> MAX_CALL_DEPTH | Some m \<Rightarrow> m)
      in (case selfId of
            None \<Rightarrow> []
          | Some self \<Rightarrow>
              map CallsItself (filter (\<lambda>t. t = self) (literalCallTargets cd))
              @ (case resolvePipeline of
                   None \<Rightarrow> []
                 | Some resolve \<Rightarrow> call_search resolve maxDepth [self] cd)))"

end
