(* ===== verification/DocProperties.thy ===== *)
theory DocProperties
  imports DocRules ReducerProperties
begin

text \<open>
  What a document that passes the structural rules of the save gate is worth: the run binds it
  without a defect, every edge it authors gates its target, and no log of events stops the reducer.
  The last section is about the graph of calls.
\<close>

section \<open>Rules and their errors\<close>

lemma repeated_distinct: "repeated seen xs = [] \<longleftrightarrow> distinct xs \<and> seen \<inter> set xs = {}"
  by (induction xs arbitrary: seen) auto

lemma id_errors_none:
  "id_errors d = [] \<longleftrightarrow>
     distinct (map n_id (d_nodes d)) \<and> distinct (map c_id (d_containers d))
     \<and> set (map n_id (d_nodes d)) \<inter> set (map c_id (d_containers d)) = {}"
  by (auto simp: id_errors_def Let_def repeated_distinct)

lemma endpoint_errors_none: "endpoint_errors d = [] \<longleftrightarrow> (\<forall>e \<in> set (d_edges d). endpointsExist d e)"
  by (auto simp: endpoint_errors_def endpointsExist_def)

lemma child_errors_none:
  "child_errors d c = [] \<longleftrightarrow>
     (\<forall>ch \<in> set (c_children c). is_node d ch \<and> (\<forall>p. owner_of (d_containers d) ch = Some p \<longrightarrow> p = c_id c))"
proof -
  have "(case owner_of (d_containers d) ch of None \<Rightarrow> []
      | Some cid \<Rightarrow> if cid \<noteq> c_id c then [ChildOfAnother (c_id c) ch cid] else []) = []
    \<longleftrightarrow> (\<forall>p. owner_of (d_containers d) ch = Some p \<longrightarrow> p = c_id c)" for ch
    by (cases "owner_of (d_containers d) ch") auto
  then show ?thesis by (auto simp: child_errors_def is_node_def)
qed

lemma structure_rules:
  assumes "structure_errors d = []"
  shows "id_errors d = []" "endpoint_errors d = []" "boundary_errors d = []" "branch_errors d = []"
    "cycle_errors d = []" "back_edge_errors d = []" "c \<in> set (d_containers d) \<Longrightarrow> container_errors d c = []"
  using assms by (auto simp: structure_errors_def)

lemma container_rules:
  assumes "container_errors d c = []"
  shows "child_errors d c = []"
  using assms by (simp add: container_errors_def Let_def)

lemma saved_child:
  assumes "structure_errors d = []" "c \<in> set (d_containers d)" "ch \<in> set (c_children c)"
  shows "is_node d ch" "owner_of (d_containers d) ch = Some (c_id c)"
proof -
  have ok: "is_node d ch" "\<forall>p. owner_of (d_containers d) ch = Some p \<longrightarrow> p = c_id c"
    using child_errors_none [of d c] container_rules [OF structure_rules(7) [OF assms(1,2)]] assms(3) by blast+
  then show "is_node d ch" by blast
  have "\<exists>c. c \<in> set (d_containers d) \<and> ch \<in> set (c_children c)" using assms(2,3) by blast
  then have "find (\<lambda>c. ch \<in> set (c_children c)) (d_containers d) \<noteq> None" by (auto simp: find_None_iff)
  then obtain p where "owner_of (d_containers d) ch = Some p" by (auto simp: owner_of_find)
  with ok(2) show "owner_of (d_containers d) ch = Some (c_id c)" by auto
qed

lemma owned_is_node:
  assumes "structure_errors d = []" "owner_of (d_containers d) i = Some cid"
  shows "is_node d i"
proof -
  obtain c where "c \<in> set (d_containers d)" "i \<in> set (c_children c)"
    using assms(2) by (auto simp: owner_of_find find_Some_iff) (metis nth_mem)
  then show ?thesis using saved_child(1) [OF assms(1)] by blast
qed

lemma saved_flat:
  assumes "structure_errors d = []"
  shows "flat d"
proof -
  have ids: "distinct (map c_id (d_containers d))" "set (map n_id (d_nodes d)) \<inter> set (map c_id (d_containers d)) = {}"
    using structure_rules(1) [OF assms] by (simp_all add: id_errors_none)
  have "map_of (owners d) (c_id c) = None" if "c \<in> set (d_containers d)" for c
    using owned_is_node [OF assms, of "c_id c"] that ids(2) by (force simp: owners_def owner_of_def is_node_def)
  then show ?thesis using ids(1) by (auto simp: flat_def list_all_iff)
qed

section \<open>A saved document runs\<close>

text \<open>
  C10: the save gate is strong enough for the reducer. A document without structural errors, whose
  ids are lines of text, can be run: whatever its log holds, folding it returns a state.
\<close>

theorem saved_document_runs:
  assumes "structure_errors d = []" "\<forall>n \<in> set (d_nodes d). doc_id (n_id n)"
  shows "\<exists>st. projectRunState h d evs = Some st"
proof -
  have "sound_doc d"
    using saved_flat [OF assms(1)] assms(2) by (simp add: sound_doc_def readable_ids_def list_all_iff)
  then show ?thesis using known.projected_good by blast
qed

lemma chain_saved: "structure_errors chain_doc = []"
  by code_simp

theorem saved_document_runs_witness:
  "\<exists>st. projectRunState bare_host chain_doc [start_event] = Some st"
  by (rule saved_document_runs [OF chain_saved]) code_simp

lemma saved_edge_ends:
  assumes "structure_errors d = []" "e \<in> set (d_edges d)" "\<not> e_back e"
  shows "map_of (owners d) (e_from e) = map_of (owners d) (e_to e)" "known_id d (e_from e)" "known_id d (e_to e)"
proof -
  have ends: "endpointsExist d e" using structure_rules(2) [OF assms(1)] assms(2) by (simp add: endpoint_errors_none)
  then show "known_id d (e_from e)" "known_id d (e_to e)" by (simp_all add: endpointsExist_def)
  show "map_of (owners d) (e_from e) = map_of (owners d) (e_to e)"
    using structure_rules(3) [OF assms(1)] assms(2,3) ends
    by (auto simp: boundary_errors_def Let_def filter_empty_conv crossesContainerBoundary_def owners_def)
qed

lemma saved_edge_reports_nothing:
  assumes "structure_errors d = []" "d_edges d \<noteq> []" "e \<in> set (p_topForward (part d))"
  shows "edge_defects d e = []"
proof -
  have e: "e \<in> set (d_edges d)" "\<not> e_back e" and top: "\<not> internal_edge (owners d) e"
    using assms(2,3) by (auto simp: topForward_part effectiveEdges_def)
  note ends = saved_edge_ends [OF assms(1) e]
  have cross: "\<not> cross_boundary d e" using ends(1) by (simp add: cross_boundary_def)
  have none: "map_of (owners d) (e_to e) = None"
    using top ends(1) by (auto simp: internal_edge_def split: option.splits)
  then have "map_of (owners d) (e_from e) \<noteq> Some (e_to e)" using ends(1) by simp
  moreover have "e_to e \<in> keys (topIncoming d)"
  proof -
    have "e_to e \<notin> fst ` set (owners d)" using none by (simp add: map_of_eq_None_iff)
    then show ?thesis
      using ends(3) by (auto simp: keys_topIncoming topEntities_def known_id_def bound_container_ids image_iff)
  qed
  ultimately show ?thesis using cross by (simp add: edge_defects_def Let_def)
qed

lemma saved_no_duplicates:
  assumes "structure_errors d = []"
  shows "mb_duplicates (containerMembership (d_containers d)) = []"
proof (rule ccontr)
  assume "mb_duplicates (containerMembership (d_containers d)) \<noteq> []"
  then obtain u where "u \<in> set (mb_duplicates (containerMembership (d_containers d)))" by (cases "mb_duplicates (containerMembership (d_containers d))") auto
  moreover have "\<lparr>dup_child = dup_child u, dup_first = dup_first u, dup_container = dup_container u\<rparr> = u" by simp
  ultimately have "duplicate_in (containerMembership (d_containers d)) (dup_child u) (dup_first u) (dup_container u)"
    by (simp only: duplicate_in_def)
  then obtain c where "c \<in> set (d_containers d)" "c_id c = dup_container u" "dup_child u \<in> set (c_children c)"
    "owner_of (d_containers d) (dup_child u) = Some (dup_first u)" "dup_first u \<noteq> dup_container u"
    by (auto simp: duplicates_exact)
  then show False using saved_child(2) [OF assms] by fastforce
qed

lemma saved_binds_clean:
  assumes "structure_errors d = []" "d_edges d \<noteq> []"
  shows "docDefects d = []"
  using saved_no_duplicates [OF assms(1)] saved_child(1) [OF assms(1)] saved_edge_reports_nothing [OF assms]
  by (auto simp: docDefects_def filter_empty_conv)

text \<open>
  C11: what the structural rules of the save gate accept, the run binds without a defect, if the document
  has at least one edge of its own: no child is claimed twice, none is missing, and no edge is ignored for
  crossing a boundary. A document without edges is excluded: the run chains its nodes in their order, and that
  chain can cross the boundary of a container.
\<close>

theorem saved_document_binds_clean:
  assumes "structure_errors d = []" "d_edges d \<noteq> []"
  shows "docDefects d = []"
  using saved_binds_clean [OF assms] .

theorem saved_document_binds_clean_witness: "docDefects chain_doc = []"
  by (rule saved_document_binds_clean [OF chain_saved]) code_simp

text \<open>The edge that the binding of a document without edges reports: into a stage.\<close>

definition edgeless_doc :: doc where
  "edgeless_doc =
     \<lparr>d_nodes = [plain_node (lit ''a''), plain_node (lit ''b'')], d_edges = [],
      d_containers = [plain_container (lit ''s'') Stage [lit ''b'']], d_variables = []\<rparr>"

lemma edgeless_chain_crosses:
  "structure_errors edgeless_doc = [] \<and> docDefects edgeless_doc = [CrossesBoundary (implicit_edge (d_nodes edgeless_doc) 0)]"
  by code_simp

text \<open>
  C12: every forward edge of a saved document is followed: it gates its target, at the top level or
  in the body of the container that owns both its ends.
\<close>

theorem saved_edge_gates:
  assumes "structure_errors d = []" "e \<in> set (d_edges d)" "\<not> e_back e"
  shows "e \<in> set (entries (topIncoming d) (e_to e)) \<or> e \<in> set (entries (childIncoming d) (e_to e))"
proof -
  have authored: "d_edges d \<noteq> []" using assms(2) by auto
  then have e: "e \<in> set (effectiveEdges d)" using assms(2) by (simp add: effectiveEdges_def)
  have ends: "e_from e \<in> set (p_endpointIds (part d))" "e_to e \<in> set (p_endpointIds (part d))"
    using saved_edge_ends(2,3) [OF assms]
    by (auto simp: known_id_def part_def partitionReadiness_def Let_def bound_container_ids)
  have "docDefects d = []" using saved_binds_clean [OF assms(1) authored] .
  with edge_gates_or_reported [OF e assms(3) ends] show ?thesis by simp
qed

theorem saved_edge_gates_witness:
  "plain_edge (lit ''a'') (lit ''b'') OnSuccess \<in> set (entries (topIncoming chain_doc) (lit ''b''))
   \<or> plain_edge (lit ''a'') (lit ''b'') OnSuccess \<in> set (entries (childIncoming chain_doc) (lit ''b''))"
proof -
  let ?e = "plain_edge (lit ''a'') (lit ''b'') OnSuccess"
  have "?e \<in> set (d_edges chain_doc)" "\<not> e_back ?e" and to: "e_to ?e = lit ''b''"
    by (simp_all add: chain_doc_def plain_edge_def)
  from saved_edge_gates [OF chain_saved this(1,2)] show ?thesis unfolding to .
qed

section \<open>Back-edges on the canvas\<close>

text \<open>The edge that an error of the gate is about.\<close>

fun blamed_edge :: "rule_error \<Rightarrow> edge option" where
  "blamed_edge (EdgeFromUnknown e) = Some e"
| "blamed_edge (EdgeToUnknown e) = Some e"
| "blamed_edge (ParallelBackEdge i e) = Some e"
| "blamed_edge (EdgeCrossesBoundary e) = Some e"
| "blamed_edge (SourceNotBranching e) = Some e"
| "blamed_edge (BranchUndeclared e l) = Some e"
| "blamed_edge (BackEdgeUnbounded e) = Some e"
| "blamed_edge (TargetNotAncestor e) = Some e"
| "blamed_edge (BackEdgeNoProgress e) = Some e"
| "blamed_edge _ = None"

definition blames_edge :: "edge \<Rightarrow> rule_error list \<Rightarrow> bool" where
  "blames_edge e errs \<longleftrightarrow> (\<exists>err \<in> set errs. blamed_edge err = Some e)"

lemma blames_append [simp]: "blames_edge e (xs @ ys) \<longleftrightarrow> blames_edge e xs \<or> blames_edge e ys"
  by (auto simp: blames_edge_def)

lemma blames_concat [simp]: "blames_edge e (concat xss) \<longleftrightarrow> (\<exists>xs \<in> set xss. blames_edge e xs)"
  by (auto simp: blames_edge_def)

lemma blames_simps [simp]: "\<not> blames_edge e []" "blames_edge e (err # errs) \<longleftrightarrow> blamed_edge err = Some e \<or> blames_edge e errs"
  by (auto simp: blames_edge_def)

lemma blames_if [simp]: "blames_edge e (if b then xs else ys) \<longleftrightarrow> (if b then blames_edge e xs else blames_edge e ys)"
  by simp

lemma blames_own:
  assumes "\<And>f. blames_edge e (F f) \<Longrightarrow> f = e"
  shows "blames_edge e (concat (map F xs)) \<longleftrightarrow> e \<in> set xs \<and> blames_edge e (F e)"
  using assms by auto

lemma blames_ids: "\<not> blames_edge e (id_errors d)" "\<not> blames_edge e (cycle_errors d)" "\<not> blames_edge e (child_errors d c)"
  by (auto simp: blames_edge_def id_errors_def Let_def cycle_errors_def child_errors_def split: option.splits if_splits)

lemma blames_container:
  "blames_edge e (container_errors d c) \<longleftrightarrow> isParallelForeach c \<and> e \<in> set (d_edges d) \<and> e_back e \<and> touchesParallelBody c e"
proof -
  have "blames_edge e (parallel_errors d c) \<longleftrightarrow> isParallelForeach c \<and> e \<in> set (d_edges d) \<and> e_back e \<and> touchesParallelBody c e"
    by (auto simp: blames_edge_def parallel_errors_def)
  moreover have "isParallelForeach c \<Longrightarrow> c_kind c = Foreach" by (simp add: isParallelForeach_def)
  ultimately show ?thesis by (auto simp: container_errors_def Let_def blames_ids)
qed

lemma blames_back_edge:
  assumes "e \<in> set (d_edges d)" "e_back e" "e_on e = OnSuccess" "e_maxBounces e \<noteq> None" "endpointsExist d e"
  shows "blames_edge e (structure_errors d) \<longleftrightarrow>
    (\<exists>c \<in> set (d_containers d). touchesParallelBody c e)
    \<or> \<not> reachesAncestor (forwardReach d (d_containers d)) e
    \<or> \<not> resetsOwnSource e (map n_id (d_nodes d)) (nodeDescendants d) (by_id (d_containers d))"
proof -
  have ends: "\<not> blames_edge e (endpoint_errors d)"
    using assms(5) by (auto simp: blames_edge_def endpoint_errors_def endpointsExist_def split: if_splits)
  have boundary: "\<not> blames_edge e (boundary_errors d)"
    using assms(2) by (auto simp: blames_edge_def boundary_errors_def Let_def)
  have branch: "\<not> blames_edge e (branch_errors d)"
    using assms(3) by (auto simp: blames_edge_def branch_errors_def split: edge_on.splits option.splits if_splits)
  have backward: "blames_edge e (back_edge_errors d) \<longleftrightarrow>
      \<not> reachesAncestor (forwardReach d (d_containers d)) e
      \<or> \<not> resetsOwnSource e (map n_id (d_nodes d)) (nodeDescendants d) (by_id (d_containers d))"
  proof -
    let ?errs = "\<lambda>e. (if e_maxBounces e = None then [BackEdgeUnbounded e] else [])
        @ (if endpointsExist d e
           then (if reachesAncestor (forwardReach d (d_containers d)) e then [] else [TargetNotAncestor e])
                @ (if resetsOwnSource e (map n_id (d_nodes d)) (nodeDescendants d) (by_id (d_containers d)) then []
                   else [BackEdgeNoProgress e])
           else [])"
    have "blames_edge e (?errs f) \<longrightarrow> f = e" for f by simp
    then have "blames_edge e (concat (map ?errs (filter e_back (d_edges d)))) \<longleftrightarrow>
        e \<in> set (filter e_back (d_edges d)) \<and> blames_edge e (?errs e)"
      by (intro blames_own) blast
    then have "blames_edge e (back_edge_errors d) \<longleftrightarrow> blames_edge e (?errs e)"
      unfolding back_edge_errors_def Let_def using assms(1,2) by simp
    then show ?thesis using assms(4,5) by simp
  qed
  have "isParallelForeach c \<and> touchesParallelBody c e \<longleftrightarrow> touchesParallelBody c e" for c
    by (auto simp: touchesParallelBody_def)
  then have body: "blames_edge e (concat (map (container_errors d) (d_containers d))) \<longleftrightarrow>
      (\<exists>c \<in> set (d_containers d). touchesParallelBody c e)"
    using assms(1,2) by (simp add: blames_container)
  show ?thesis
    unfolding structure_errors_def blames_append backward body by (simp only: ends boundary branch blames_ids) simp
qed

text \<open>
  C20: the canvas and the save gate agree on back-edges. A back-edge between two entities is accepted
  while it is drawn exactly when the document with that edge has no error about it.
\<close>

theorem drawn_back_edge_exact:
  assumes "known_id d frm" "known_id d to"
  shows "backEdgeDefect d (d_containers d) frm to = None \<longleftrightarrow>
    \<not> blames_edge (probe_edge frm to True (Some 1)) (structure_errors (with_edge d (probe_edge frm to True (Some 1))))"
proof -
  let ?e = "probe_edge frm to True (Some 1)"
  have "endpointsExist (with_edge d ?e) ?e"
    using assms by (simp add: endpointsExist_def known_id_def with_edge_def probe_edge_def)
  then have "blames_edge ?e (structure_errors (with_edge d ?e)) \<longleftrightarrow>
      (\<exists>c \<in> set (d_containers d). touchesParallelBody c ?e)
      \<or> \<not> reachesAncestor (forwardReach (with_edge d ?e) (d_containers d)) ?e
      \<or> \<not> resetsOwnSource ?e (map n_id (d_nodes d)) (nodeDescendants (with_edge d ?e)) (by_id (d_containers d))"
    using blames_back_edge [of ?e "with_edge d ?e"] by (simp add: with_edge_def probe_edge_def)
  then show ?thesis by (simp add: backEdgeDefect_def Let_def list_ex_iff with_edge_def)
qed

theorem drawn_back_edge_exact_witness:
  "backEdgeDefect chain_doc (d_containers chain_doc) (lit ''b'') (lit ''a'') = None \<longleftrightarrow>
     \<not> blames_edge (probe_edge (lit ''b'') (lit ''a'') True (Some 1))
         (structure_errors (with_edge chain_doc (probe_edge (lit ''b'') (lit ''a'') True (Some 1))))"
  by (rule drawn_back_edge_exact) code_simp+

section \<open>Ids that are not lines\<close>

text \<open>A node whose id holds a line feed, in a parallel foreach over the parameter \<open>xs\<close>, and the start
  of a run of it with one item.\<close>

definition line_id :: jstr where "line_id = [97, 10, 98]"

definition line_doc :: doc where
  "line_doc =
     \<lparr>d_nodes = [plain_node line_id], d_edges = [],
      d_containers = [(plain_container (lit ''f'') Foreach [line_id])
        \<lparr>c_items := Some (lit ''${params.xs}''), c_batchCount := Some 2\<rparr>],
      d_variables = []\<rparr>"

definition line_params :: started_event where
  "line_params = run_start\<lparr>se_params := [(lit ''xs'', JArr [JNull])]\<rparr>"

definition line_start :: run_state where
  "line_start = started_state line_doc (seedState line_doc) (lit ''r'') line_params"

abbreviation line_key :: jstr where "line_key \<equiv> instanceKey line_id 0"

abbreviation line_event :: "event_body \<Rightarrow> engine_event" where
  "line_event b \<equiv> \<lparr>ev_runId = lit ''r'', ev_body = b\<rparr>"

lemma line_key_unknown: "docNodeFor line_doc line_key = None"
proof -
  have "\<not> doc_id line_id" by code_simp
  then have "docNodeIdOf line_key = line_key" by (simp add: docNodeIdOf_def parse_other)
  moreover have "line_key \<noteq> line_id" by (simp add: instanceKey_def)
  ultimately show ?thesis
    using node_by_id_None [of line_doc line_key]
    by (simp add: docNodeFor_def is_node_def) (simp add: line_doc_def plain_node_def)
qed

text \<open>The start asks for the attempt of the instance.\<close>

definition line_asked :: "reduce_result \<Rightarrow> bool" where
  "line_asked r \<longleftrightarrow>
     list_ex (\<lambda>c. attempt_of c = Some (line_key, attempt_id line_key 0)) (rr_commands r)
     \<and> rs_status (rr_state r) = RunRunning \<and> rs_runId (rr_state r) = lit ''r''
     \<and> (case map_of (rs_nodes (rr_state r)) line_key of
           None \<Rightarrow> False
         | Some ns \<Rightarrow> ns_status ns = Ready \<and> ns_currentAttemptId ns = Some (attempt_id line_key 0))"

lemma line_started:
  obtains r where "reduce bare_host line_doc (seedState line_doc) (line_event (RunStarted line_params)) = Some r"
    "line_asked r"
proof -
  have "settles_to 4 line_doc line_start line_asked" by code_simp
  then obtain r where r: "settle bare_host line_doc line_start [] = Some r" "line_asked r" by (rule settles_toE)
  have "docDefects line_doc = []" by code_simp
  then have "reduce bare_host line_doc (seedState line_doc) (line_event (RunStarted line_params)) = Some r"
    using r(1) by (simp add: reduce_def onRunStarted_def line_start_def seedState_def Let_def line_params_def run_start_def)
  with r(2) show thesis using that by blast
qed

text \<open>
  C19: the condition on ids is not enforced. The structural rules of the save gate accept an id with a
  line feed, but the key of an instance of such a node is not parsed back, for the pattern of the key stops at a
  line end. In a parallel foreach over such a node the start of the run asks for an attempt of the first
  instance, and once the answer to it is in the log, whatever its outputs, no continuation of the log can be
  folded: the reducer throws.
\<close>

theorem line_feed_id_throws:
  "structure_errors line_doc = []
   \<and> (\<exists>r c. reduce bare_host line_doc (seedState line_doc) (line_event (RunStarted line_params)) = Some r
        \<and> c \<in> set (rr_commands r) \<and> attempt_of c = Some (line_key, attempt_id line_key 0))
   \<and> projectRunState bare_host line_doc
       (line_event (RunStarted line_params)
        # line_event (NodeEvent line_key (attempt_id line_key 0) NodeDispatched)
        # line_event (NodeEvent line_key (attempt_id line_key 0) (NodeSucceeded outs)) # evs) = None"
proof -
  obtain r where r: "reduce bare_host line_doc (seedState line_doc) (line_event (RunStarted line_params)) = Some r"
    "line_asked r" by (rule line_started)
  then obtain ns where ns: "map_of (rs_nodes (rr_state r)) line_key = Some ns" "ns_status ns = Ready"
    "ns_currentAttemptId ns = Some (attempt_id line_key 0)"
    by (auto simp: line_asked_def split: option.splits)
  have live: "rs_status (rr_state r) = RunRunning" "rs_runId (rr_state r) = lit ''r''"
    using r(2) by (simp_all add: line_asked_def)
  let ?st = "with_status (rr_state r) line_key Dispatched"
  have "reduce bare_host line_doc (rr_state r) (line_event (NodeEvent line_key (attempt_id line_key 0) NodeDispatched)) = kept ?st"
    using live ns by (simp add: reduce_def on_live_event_def on_node_event_def onDispatched_def is_current_def)
  moreover have "reduce bare_host line_doc ?st (line_event (NodeEvent line_key (attempt_id line_key 0) (NodeSucceeded outs))) = None"
  proof -
    have "map_of (rs_nodes ?st) line_key = Some (ns\<lparr>ns_status := Dispatched\<rparr>)"
      using ns(1) by (simp add: with_status_def withNode_def map_of_update_at)
    moreover have "rs_status ?st = RunRunning" "rs_runId ?st = lit ''r''"
      using live by (simp_all add: with_status_def withNode_def)
    ultimately show ?thesis
      using ns(3) line_key_unknown
      by (simp add: reduce_def on_live_event_def on_node_event_def onSucceeded_def is_current_def LIVE_NODE_def)
  qed
  moreover have "structure_errors line_doc = []" by code_simp
  moreover have "\<exists>c \<in> set (rr_commands r). attempt_of c = Some (line_key, attempt_id line_key 0)"
    using r(2) by (simp add: line_asked_def list_ex_iff)
  ultimately show ?thesis using r(1) by (auto simp: projectRunState_def kept_def result_of_def)
qed

section \<open>Calls between pipelines\<close>

text \<open>The chains of literal calls that can be followed: the versions on the way, and the last one.\<close>

inductive call_chain :: "(jstr \<Rightarrow> call_doc option) \<Rightarrow> jstr list \<Rightarrow> call_doc \<Rightarrow> jstr list \<Rightarrow> call_doc \<Rightarrow> bool"
  for resolve where
  here: "call_chain resolve p cd p cd"
| hop: "t \<in> set (literalCallTargets cd) \<Longrightarrow> resolve t = Some child \<Longrightarrow> call_chain resolve (p @ [t]) child q cd'
    \<Longrightarrow> call_chain resolve p cd q cd'"

inductive_cases call_chainE: "call_chain resolve p cd q cd'"

declare call_search.simps [simp del]

lemma call_search_0:
  "call_search resolve 0 p cd = [] \<longleftrightarrow>
     (\<forall>t \<in> set (literalCallTargets cd). t \<notin> set p \<and> resolve t = None)"
proof -
  have "(if t \<in> set p then [CallCycle t]
         else case resolve t of None \<Rightarrow> [] | Some child \<Rightarrow> [CallTooDeep t]) = [] \<longleftrightarrow> t \<notin> set p \<and> resolve t = None" for t
    by (cases "resolve t") simp_all
  then show ?thesis
    by (subst call_search.simps) (simp only: concat_eq_Nil_conv set_map ball_simps nat.case)
qed

lemma call_search_Suc:
  "call_search resolve (Suc n) p cd = [] \<longleftrightarrow>
     (\<forall>t \<in> set (literalCallTargets cd). t \<notin> set p \<and>
        (\<forall>child. resolve t = Some child \<longrightarrow> call_search resolve n (p @ [t]) child = []))"
proof -
  have "(if t \<in> set p then [CallCycle t]
         else case resolve t of None \<Rightarrow> [] | Some child \<Rightarrow> call_search resolve n (p @ [t]) child) = []
      \<longleftrightarrow> t \<notin> set p \<and> (\<forall>child. resolve t = Some child \<longrightarrow> call_search resolve n (p @ [t]) child = [])" for t
    by (cases "resolve t") simp_all
  then show ?thesis
    by (subst call_search.simps) (simp only: concat_eq_Nil_conv set_map ball_simps nat.case)
qed

lemma call_search_exact:
  "call_search resolve n p cd = [] \<longleftrightarrow>
     (\<forall>q cd'. call_chain resolve p cd q cd' \<longrightarrow> length q \<le> length p + n \<and> set (literalCallTargets cd') \<inter> set q = {})"
proof (induction n arbitrary: p cd)
  case 0
  show ?case
  proof
    assume clean: "call_search resolve 0 p cd = []"
    show "\<forall>q cd'. call_chain resolve p cd q cd' \<longrightarrow>
        length q \<le> length p + 0 \<and> set (literalCallTargets cd') \<inter> set q = {}"
    proof (intro allI impI)
      fix q cd' assume "call_chain resolve p cd q cd'"
      then show "length q \<le> length p + 0 \<and> set (literalCallTargets cd') \<inter> set q = {}"
        using clean unfolding call_search_0 by (cases rule: call_chainE) auto
    qed
  next
    assume chains: "\<forall>q cd'. call_chain resolve p cd q cd' \<longrightarrow>
        length q \<le> length p + 0 \<and> set (literalCallTargets cd') \<inter> set q = {}"
    have "resolve t = None" if "t \<in> set (literalCallTargets cd)" for t
    proof (rule ccontr)
      assume "resolve t \<noteq> None"
      then obtain child where "resolve t = Some child" by auto
      then have "call_chain resolve p cd (p @ [t]) child" using that by (blast intro: call_chain.intros)
      then show False using chains by fastforce
    qed
    then show "call_search resolve 0 p cd = []"
      using chains [rule_format, OF here] unfolding call_search_0 by blast
  qed
next
  case (Suc n)
  show ?case
  proof
    assume clean: "call_search resolve (Suc n) p cd = []"
    show "\<forall>q cd'. call_chain resolve p cd q cd' \<longrightarrow>
        length q \<le> length p + Suc n \<and> set (literalCallTargets cd') \<inter> set q = {}"
    proof (intro allI impI)
      fix q cd' assume "call_chain resolve p cd q cd'"
      then show "length q \<le> length p + Suc n \<and> set (literalCallTargets cd') \<inter> set q = {}"
      proof cases
        case here
        then show ?thesis using clean unfolding call_search_Suc by auto
      next
        case (hop t child)
        then have "call_search resolve n (p @ [t]) child = []" using clean unfolding call_search_Suc by blast
        then have "length q \<le> length (p @ [t]) + n \<and> set (literalCallTargets cd') \<inter> set q = {}"
          using Suc.IH [of "p @ [t]" child] hop(3) by blast
        then show ?thesis by simp
      qed
    qed
  next
    assume chains: "\<forall>q cd'. call_chain resolve p cd q cd' \<longrightarrow>
        length q \<le> length p + Suc n \<and> set (literalCallTargets cd') \<inter> set q = {}"
    have "call_search resolve n (p @ [t]) child = []"
      if "t \<in> set (literalCallTargets cd)" "resolve t = Some child" for t child
      unfolding Suc.IH
    proof (intro allI impI)
      fix q cd' assume "call_chain resolve (p @ [t]) child q cd'"
      from chains [rule_format, OF hop [of t cd resolve, OF that this]]
      show "length q \<le> length (p @ [t]) + n \<and> set (literalCallTargets cd') \<inter> set q = {}" by simp
    qed
    then show "call_search resolve (Suc n) p cd = []"
      using chains [rule_format, OF here] unfolding call_search_Suc by blast
  qed
qed

text \<open>
  C21: the check of calls is exact. It reports an error exactly when some chain of literal calls that
  starts at the version is longer than the allowed number of hops, or calls a version on its way.
\<close>

theorem call_graph_exact:
  "validateCallGraph (Some m) (Some self) (Some resolve) cd \<noteq> [] \<longleftrightarrow>
     (\<exists>q cd'. call_chain resolve [self] cd q cd'
        \<and> (m + 1 < length q \<or> (\<exists>t. t \<in> set (literalCallTargets cd') \<and> t \<in> set q)))"
proof -
  have "call_search resolve m [self] cd = [] \<Longrightarrow> filter (\<lambda>t. t = self) (literalCallTargets cd) = []"
    by (cases m) (auto simp: call_search_0 call_search_Suc filter_empty_conv)
  then have "validateCallGraph (Some m) (Some self) (Some resolve) cd = [] \<longleftrightarrow> call_search resolve m [self] cd = []"
    by (auto simp: validateCallGraph_def)
  moreover have "call_search resolve m [self] cd = [] \<longleftrightarrow> \<not> (\<exists>q cd'. call_chain resolve [self] cd q cd'
      \<and> (m + 1 < length q \<or> (\<exists>t. t \<in> set (literalCallTargets cd') \<and> t \<in> set q)))"
    unfolding call_search_exact by (force simp: disjoint_iff)
  ultimately show ?thesis by blast
qed

end
