(* ===== verification/Delimited.thy ===== *)
theory Delimited
  imports JsNumber
begin

text \<open>
  Delimited text, \<open>shared/src/datamove/delimited.ts\<close>: the row grammar of a copy as a machine over
  the characters of a document, its bounds, and the batches it yields; and the writer of
  \<open>server/src/util/csv.ts\<close>. A character is a code point, given by its one or two units.
  A batch size is a natural number: the code refuses a fraction or a negative number as it refuses zero.
\<close>

section \<open>Characters\<close>

text \<open>The iteration over a string: a surrogate pair is one character.\<close>

fun characters :: "jstr \<Rightarrow> jstr list" where
  "characters [] = []"
| "characters [u] = [[u]]"
| "characters (u # v # us) =
     (if 55296 \<le> u \<and> u < 56320 \<and> 56320 \<le> v \<and> v < 57344 then [u, v] # characters us
      else [u] # characters (v # us))"

section \<open>The machine\<close>

datatype delimited_failure =
    UnterminatedQuote | UnexpectedAfterQuote | FieldTooLarge | RowTooLarge | InvalidBatchRows

text \<open>A refusal: its code and the line it names.\<close>

type_synonym delimited_error = "delimited_failure \<times> nat option"

record delimited_options =
  do_delimiter :: jstr
  do_quote :: jstr
  do_escape :: "jstr option"
  do_batchRows :: nat
  do_maxFieldChars :: "nat option"
  do_maxRowChars :: "nat option"

text \<open>What crosses a character: the batches already yielded, the batch, row and field in progress.\<close>

record delimited_state =
  ds_yielded :: "jstr list list list"
  ds_batch :: "jstr list list"
  ds_row :: "jstr list"
  ds_field :: jstr
  ds_rowChars :: nat
  ds_fieldChars :: nat
  ds_lineNumber :: nat
  ds_inQuotes :: bool
  ds_atFieldStart :: bool
  ds_pendingQuote :: bool
  ds_pendingEscape :: bool

type_synonym delimited_step = "(delimited_error \<times> jstr list list list, delimited_state) result"

definition delimited_init :: delimited_state where
  "delimited_init =
     \<lparr>ds_yielded = [], ds_batch = [], ds_row = [], ds_field = [], ds_rowChars = 0, ds_fieldChars = 0,
      ds_lineNumber = 1, ds_inQuotes = False, ds_atFieldStart = True, ds_pendingQuote = False,
      ds_pendingEscape = False\<rparr>"

definition newline :: "jstr \<Rightarrow> bool" where
  "newline c \<longleftrightarrow> c = [10] \<or> c = [13]"

definition parse_fail :: "delimited_state \<Rightarrow> delimited_failure \<Rightarrow> delimited_step" where
  "parse_fail s code = Inl ((code, Some (ds_lineNumber s)), ds_yielded s)"

definition over :: "nat option \<Rightarrow> nat \<Rightarrow> bool" where
  "over limit n \<longleftrightarrow> (case limit of None \<Rightarrow> False | Some m \<Rightarrow> m < n)"

definition pushChar :: "delimited_options \<Rightarrow> delimited_state \<Rightarrow> jstr \<Rightarrow> delimited_step" where
  "pushChar opt s c =
     (let s' = s\<lparr>ds_field := ds_field s @ c, ds_fieldChars := ds_fieldChars s + 1\<rparr>
      in if over (do_maxFieldChars opt) (ds_fieldChars s') then parse_fail s' FieldTooLarge else Inr s')"

definition endField :: "delimited_state \<Rightarrow> delimited_state" where
  "endField s =
     s\<lparr>ds_row := ds_row s @ [ds_field s], ds_field := [], ds_fieldChars := 0, ds_atFieldStart := True\<rparr>"

text \<open>The row that ends, unless the line was blank.\<close>

definition endRow :: "delimited_state \<Rightarrow> delimited_state \<times> jstr list option" where
  "endRow s =
     (let blank = (ds_rowChars s = 0); s' = endField s
      in (s'\<lparr>ds_row := [], ds_rowChars := 0, ds_lineNumber := ds_lineNumber s' + 1\<rparr>,
          if blank then None else Some (ds_row s')))"

definition push_row :: "delimited_options \<Rightarrow> delimited_state \<Rightarrow> jstr list \<Rightarrow> delimited_state" where
  "push_row opt s row =
     (let b = ds_batch s @ [row]
      in if do_batchRows opt \<le> length b then s\<lparr>ds_yielded := ds_yielded s @ [b], ds_batch := []\<rparr>
         else s\<lparr>ds_batch := b\<rparr>)"

text \<open>A character outside quotes.\<close>

definition take_plain :: "delimited_options \<Rightarrow> delimited_state \<Rightarrow> jstr \<Rightarrow> delimited_step" where
  "take_plain opt s c =
     (if ds_inQuotes s
      then if do_escape opt = Some c then Inr (s\<lparr>ds_pendingEscape := True\<rparr>)
           else if c = do_quote opt then Inr (s\<lparr>ds_inQuotes := False, ds_pendingQuote := True\<rparr>)
           else pushChar opt s c
      else if ds_atFieldStart s \<and> c = do_quote opt
      then Inr (s\<lparr>ds_inQuotes := True, ds_atFieldStart := False\<rparr>)
      else if c = do_delimiter opt then Inr (endField s)
      else if newline c
      then (case endRow s of
              (s', None) \<Rightarrow> Inr s'
            | (s', Some row) \<Rightarrow> Inr (push_row opt s' row))
      else pushChar opt (s\<lparr>ds_atFieldStart := False\<rparr>) c)"

definition take_char :: "delimited_options \<Rightarrow> delimited_state \<Rightarrow> jstr \<Rightarrow> delimited_step" where
  "take_char opt s0 c =
     (let terminates = (\<not> ds_inQuotes s0 \<and> \<not> ds_pendingEscape s0 \<and> newline c);
          s = (if terminates then s0 else s0\<lparr>ds_rowChars := ds_rowChars s0 + 1\<rparr>)
      in if \<not> terminates \<and> over (do_maxRowChars opt) (ds_rowChars s) then parse_fail s RowTooLarge
         else if ds_pendingEscape s then pushChar opt (s\<lparr>ds_pendingEscape := False\<rparr>) c
         else if ds_pendingQuote s
         then let s1 = s\<lparr>ds_pendingQuote := False\<rparr>
              in if c = do_quote opt then pushChar opt (s1\<lparr>ds_inQuotes := True\<rparr>) (do_quote opt)
                 else if c = do_delimiter opt then Inr (endField s1)
                 else if \<not> newline c then parse_fail s1 UnexpectedAfterQuote
                 else take_plain opt s1 c
         else take_plain opt s c)"

fun take_chars :: "delimited_options \<Rightarrow> delimited_state \<Rightarrow> jstr list \<Rightarrow> delimited_step" where
  "take_chars opt s [] = Inr s"
| "take_chars opt s (c # cs) = bindR (take_char opt s c) (\<lambda>s'. take_chars opt s' cs)"

text \<open>The loop over the chunks: what is in progress at the end of one is in progress at the start of the next.\<close>

fun take_chunks :: "delimited_options \<Rightarrow> delimited_state \<Rightarrow> jstr list \<Rightarrow> delimited_step" where
  "take_chunks opt s [] = Inr s"
| "take_chunks opt s (chunk # chunks) =
     bindR (take_chars opt s (characters chunk)) (\<lambda>s'. take_chunks opt s' chunks)"

text \<open>The end of the document. A result is what was yielded, with the refusal if there was one.\<close>

definition parse_end :: "delimited_state \<Rightarrow> (delimited_error \<times> jstr list list list, jstr list list list) result" where
  "parse_end s =
     (if ds_inQuotes s \<or> ds_pendingEscape s then Inl ((UnterminatedQuote, Some (ds_lineNumber s)), ds_yielded s)
      else let batch = (if 0 < ds_rowChars s
                        then case snd (endRow s) of None \<Rightarrow> ds_batch s | Some row \<Rightarrow> ds_batch s @ [row]
                        else ds_batch s)
           in Inr (if batch \<noteq> [] then ds_yielded s @ [batch] else ds_yielded s))"

definition parseDelimitedRows ::
  "delimited_options \<Rightarrow> jstr list \<Rightarrow> (delimited_error \<times> jstr list list list, jstr list list list) result" where
  "parseDelimitedRows opt chunks =
     (if do_batchRows opt < 1 then Inl ((InvalidBatchRows, None), [])
      else bindR (take_chunks opt delimited_init chunks) parse_end)"

section \<open>The writer\<close>

datatype csv_value = CsvText jstr | CsvNumber jnum | CsvBool bool | CsvNull

definition formula_lead :: "jstr \<Rightarrow> bool" where
  "formula_lead s = (case s of [] \<Rightarrow> False | u # us \<Rightarrow> u \<in> set [61, 43, 45, 64, 9, 13])"

definition needs_quotes :: "jstr \<Rightarrow> bool" where
  "needs_quotes s \<longleftrightarrow> list_ex (\<lambda>u. u \<in> set [34, 44, 13, 10]) s"

definition CSV_BOM :: jstr where "CSV_BOM = [65279]"

definition double_quotes :: "jstr \<Rightarrow> jstr" where
  "double_quotes s = concat (map (\<lambda>u. if u = 34 then [34, 34] else [u]) s)"

definition csvCell :: "csv_value \<Rightarrow> jstr" where
  "csvCell v =
     (case v of
        CsvNull \<Rightarrow> []
      | CsvNumber n \<Rightarrow> num_to_str n
      | CsvBool b \<Rightarrow> (if b then lit ''true'' else lit ''false'')
      | CsvText s \<Rightarrow>
          let text = (if formula_lead s then 39 # s else s)
          in if needs_quotes text then [34] @ double_quotes text @ [34] else text)"

definition csvLine :: "csv_value list \<Rightarrow> jstr" where
  "csvLine cells = joinS [44] (map csvCell cells) @ [13, 10]"

definition toCsv :: "jstr list \<Rightarrow> csv_value list list \<Rightarrow> jstr" where
  "toCsv header rows = CSV_BOM @ csvLine (map CsvText header) @ concat (map csvLine rows)"

end
