(* ===== verification/DelimitedFacts.thy ===== *)
theory DelimitedFacts
  imports Delimited
begin

text \<open>
  The row grammar does not depend on where the chunks of a document end, keeps its buffers within
  its limits, fills its batches, and reads back what the writer writes.
\<close>

section \<open>Chunks\<close>

definition splits_pair :: "jstr \<Rightarrow> jstr \<Rightarrow> bool" where
  "splits_pair a b \<longleftrightarrow> a \<noteq> [] \<and> b \<noteq> [] \<and> 55296 \<le> last a \<and> last a < 56320 \<and> 56320 \<le> hd b \<and> hd b < 57344"

lemma characters_append: "\<not> splits_pair a b \<Longrightarrow> characters (a @ b) = characters a @ characters b"
proof (induction a rule: characters.induct)
  case (2 u)
  then show ?case by (cases b) (auto simp: splits_pair_def)
next
  case (3 u v us)
  then have "\<not> splits_pair us b" "\<not> splits_pair (v # us) b" by (auto simp: splits_pair_def)
  with 3 show ?case by simp
qed simp

lemma concat_characters: "concat (characters s) = s"
  by (induction s rule: characters.induct) auto

lemma take_chars_append: "take_chars opt s (cs @ cs') = bindR (take_chars opt s cs) (\<lambda>s'. take_chars opt s' cs')"
  by (induction cs arbitrary: s) (simp_all add: bindR_assoc)

lemma take_chunks_chars: "take_chunks opt s chunks = take_chars opt s (concat (map characters chunks))"
  by (induction chunks arbitrary: s) (simp_all add: take_chars_append)

lemma characters_single: "c \<in> set (characters s) \<Longrightarrow> characters c = [c]"
  by (induction s rule: characters.induct) (auto split: if_splits)

lemma characters_append_le: "length (characters (a @ b)) \<le> length (characters a) + length (characters b)"
proof (induction a rule: characters.induct)
  case (2 u)
  then show ?case
  proof (induction b arbitrary: u rule: characters.induct)
    case (3 v w us)
    then show ?case using "3.IH" by auto
  qed auto
qed auto

section \<open>Buffers\<close>

text \<open>The rows that are complete, and the characters of a row.\<close>

definition rows_read :: "delimited_state \<Rightarrow> jstr list list" where
  "rows_read s = concat (ds_yielded s) @ ds_batch s"

lemma rows_read_updates [simp]:
  "rows_read (s\<lparr>ds_row := r\<rparr>) = rows_read s" "rows_read (s\<lparr>ds_field := f\<rparr>) = rows_read s"
  "rows_read (s\<lparr>ds_rowChars := k\<rparr>) = rows_read s" "rows_read (s\<lparr>ds_fieldChars := k\<rparr>) = rows_read s"
  "rows_read (s\<lparr>ds_lineNumber := k\<rparr>) = rows_read s" "rows_read (s\<lparr>ds_inQuotes := b\<rparr>) = rows_read s"
  "rows_read (s\<lparr>ds_atFieldStart := b\<rparr>) = rows_read s" "rows_read (s\<lparr>ds_pendingQuote := b\<rparr>) = rows_read s"
  "rows_read (s\<lparr>ds_pendingEscape := b\<rparr>) = rows_read s"
  by (simp_all add: rows_read_def)

lemma push_reads: "rows_read (push_row opt s r) = rows_read s @ [r]"
  by (simp add: push_row_def Let_def rows_read_def)

definition row_characters :: "jstr list \<Rightarrow> nat" where
  "row_characters row = sum_list (map (\<lambda>f. length (characters f)) row)"

lemma row_characters_simps: "row_characters [] = 0" "row_characters (row @ [f]) = row_characters row + length (characters f)"
  by (simp_all add: row_characters_def)

text \<open>A complete row: its characters and the delimiters between its fields, and each of its fields.\<close>

definition row_fits :: "delimited_options \<Rightarrow> jstr list \<Rightarrow> bool" where
  "row_fits opt row \<longleftrightarrow>
     \<not> over (do_maxRowChars opt) (row_characters row + (length row - 1))
     \<and> (\<forall>f \<in> set row. \<not> over (do_maxFieldChars opt) (length (characters f)))"

text \<open>A row in progress has taken a character for each field but the last, and for each character of it.\<close>

definition holds_row :: "delimited_options \<Rightarrow> delimited_state \<Rightarrow> bool" where
  "holds_row opt s \<longleftrightarrow>
     length (characters (ds_field s)) \<le> ds_fieldChars s
     \<and> \<not> over (do_maxFieldChars opt) (ds_fieldChars s) \<and> \<not> over (do_maxRowChars opt) (ds_rowChars s)
     \<and> (\<forall>f \<in> set (ds_row s). \<not> over (do_maxFieldChars opt) (length (characters f)))
     \<and> (\<forall>row \<in> set (rows_read s). row_fits opt row)"

definition spent :: "delimited_state \<Rightarrow> nat" where
  "spent s = length (ds_row s) + row_characters (ds_row s) + ds_fieldChars s"

definition within_limits :: "delimited_options \<Rightarrow> delimited_state \<Rightarrow> bool" where
  "within_limits opt s \<longleftrightarrow> holds_row opt s \<and> spent s \<le> ds_rowChars s"

lemma over_mono: "over m k \<Longrightarrow> k \<le> n \<Longrightarrow> over m n"
  by (auto simp: over_def split: option.splits)

lemma over_0: "\<not> over m 0"
  by (auto simp: over_def split: option.splits)

text \<open>What a step does to a state it has charged the character to.\<close>

definition charged_to :: "delimited_options \<Rightarrow> delimited_state \<Rightarrow> bool" where
  "charged_to opt s \<longleftrightarrow> holds_row opt s \<and> spent s < ds_rowChars s"

lemma charged_within: "charged_to opt s \<Longrightarrow> within_limits opt s"
  by (simp add: charged_to_def within_limits_def)

lemma charged_push:
  assumes "charged_to opt s" "length (characters c) \<le> 1" "pushChar opt s c = Inr s'"
  shows "within_limits opt s'"
  using assms characters_append_le [of "ds_field s" c]
  by (auto simp: charged_to_def pushChar_def parse_fail_def within_limits_def holds_row_def spent_def Let_def
      split: if_splits)

lemma field_fits: "holds_row opt s \<Longrightarrow> \<not> over (do_maxFieldChars opt) (length (characters (ds_field s)))"
  unfolding holds_row_def by (blast dest: over_mono)

lemma charged_end:
  assumes "charged_to opt s"
  shows "within_limits opt (endField s)"
  using assms field_fits [of opt s]
  by (auto simp: charged_to_def within_limits_def holds_row_def spent_def endField_def over_0
      row_characters_simps)

lemma charged_flags:
  "charged_to opt (s\<lparr>ds_pendingQuote := b\<rparr>) = charged_to opt s"
  "charged_to opt (s\<lparr>ds_pendingEscape := b\<rparr>) = charged_to opt s"
  "charged_to opt (s\<lparr>ds_inQuotes := b\<rparr>) = charged_to opt s"
  "charged_to opt (s\<lparr>ds_atFieldStart := b\<rparr>) = charged_to opt s"
  "charged_to opt (s\<lparr>ds_inQuotes := b, ds_pendingQuote := b'\<rparr>) = charged_to opt s"
  "charged_to opt (s\<lparr>ds_inQuotes := b, ds_atFieldStart := b'\<rparr>) = charged_to opt s"
  "charged_to opt (s\<lparr>ds_pendingQuote := b', ds_inQuotes := b\<rparr>) = charged_to opt s"
  by (simp_all add: charged_to_def holds_row_def spent_def)

lemma row_complete:
  assumes "within_limits opt s"
  shows "row_fits opt (ds_row s @ [ds_field s])"
proof -
  have "row_characters (ds_row s @ [ds_field s]) + length (ds_row s) \<le> ds_rowChars s"
    using assms by (auto simp: within_limits_def holds_row_def spent_def row_characters_simps)
  then show ?thesis
    using assms field_fits [of opt s] over_mono [of "do_maxRowChars opt"]
    by (auto simp: row_fits_def within_limits_def holds_row_def)
qed

lemma row_limits:
  assumes "endRow s = (s', r)" "within_limits opt s"
  shows "within_limits opt s'" "r = Some row \<Longrightarrow> row_fits opt row"
  using assms row_complete [OF assms(2)]
  by (auto simp: endRow_def endField_def Let_def within_limits_def holds_row_def spent_def over_0
      row_characters_simps split: if_splits)

lemma push_row_limits: "within_limits opt s \<Longrightarrow> row_fits opt r \<Longrightarrow> within_limits opt (push_row opt s r)"
  unfolding within_limits_def holds_row_def spent_def push_reads by (auto simp: push_row_def Let_def)

lemma plain_newline:
  assumes "take_plain opt s c = Inr s'" "newline c" "\<not> ds_inQuotes s" "c \<noteq> do_delimiter opt" "c \<noteq> do_quote opt"
    "within_limits opt s"
  shows "within_limits opt s'"
  using assms by (auto simp: take_plain_def intro: push_row_limits row_limits split: prod.splits option.splits)

lemma plain_charged:
  assumes "take_plain opt s c = Inr s'" "charged_to opt s" "length (characters c) \<le> 1"
  shows "within_limits opt s'"
proof -
  have push: "pushChar opt s c = Inr s' \<Longrightarrow> within_limits opt s'"
    "pushChar opt (s\<lparr>ds_atFieldStart := False\<rparr>) c = Inr s' \<Longrightarrow> within_limits opt s'"
    using charged_push [OF _ assms(3)] assms(2) charged_flags(4) by blast+
  note flags = charged_flags [THEN iffD2, OF assms(2), THEN charged_within]
  show ?thesis
    using assms(1) push charged_within [OF assms(2)]
    by (auto simp: take_plain_def intro: flags charged_end [OF assms(2)] row_limits push_row_limits
        split: if_splits prod.splits option.splits)
qed

lemma within_flags: "within_limits opt (s\<lparr>ds_pendingQuote := b\<rparr>) = within_limits opt s"
  by (simp add: within_limits_def holds_row_def spent_def)

lemma take_limits:
  assumes "take_char opt s c = Inr s'" "within_limits opt s" "\<not> newline (do_delimiter opt)" "\<not> newline (do_quote opt)"
    and single: "length (characters c) \<le> 1"
  shows "within_limits opt s'"
proof (cases "\<not> ds_inQuotes s \<and> \<not> ds_pendingEscape s \<and> newline c")
  case True
  then have "c \<noteq> do_delimiter opt" "c \<noteq> do_quote opt" using assms(3,4) by auto
  moreover have "take_plain opt (s\<lparr>ds_pendingQuote := False\<rparr>) c = Inr s' \<or> take_plain opt s c = Inr s'"
    using True calculation assms(1) by (auto simp: take_char_def Let_def split: if_splits)
  ultimately show ?thesis using True plain_newline assms(2) within_flags by fastforce
next
  case False
  let ?s = "s\<lparr>ds_rowChars := ds_rowChars s + 1\<rparr>"
  have step: "\<not> over (do_maxRowChars opt) (ds_rowChars ?s)"
    using False assms(1) by (auto simp: take_char_def Let_def parse_fail_def split: if_splits)
  then have charged: "charged_to opt ?s"
    using assms(2) by (auto simp: charged_to_def within_limits_def holds_row_def spent_def)
  show ?thesis
  proof (cases "ds_pendingEscape s")
    case True
    then have "pushChar opt (?s\<lparr>ds_pendingEscape := False\<rparr>) c = Inr s'"
      using False step assms(1) by (simp add: take_char_def Let_def)
    then show ?thesis using charged_push [OF _ single] charged by (metis charged_flags(2))
  next
    case pe: False
    show ?thesis
    proof (cases "ds_pendingQuote s")
      case pq: True
      let ?q = "?s\<lparr>ds_pendingQuote := False\<rparr>"
      have q: "charged_to opt ?q" using charged by (simp only: charged_flags)
      have "pushChar opt (?q\<lparr>ds_inQuotes := True\<rparr>) c = Inr s' \<or> s' = endField ?q \<or> take_plain opt ?q c = Inr s'"
        using False pe pq step assms(1) by (auto simp: take_char_def Let_def parse_fail_def split: if_splits)
      then show ?thesis
        using q charged_push [OF _ single] charged_end plain_charged [OF _ _ single] charged_flags(3) by metis
    next
      case npq: False
      then have "take_plain opt ?s c = Inr s'" using False pe step assms(1) by (auto simp: take_char_def Let_def)
      then show ?thesis using plain_charged [OF _ charged single] by blast
    qed
  qed
qed

lemma chars_limits:
  assumes "\<not> newline (do_delimiter opt)" "\<not> newline (do_quote opt)"
  shows "take_chars opt s cs = Inr s' \<Longrightarrow> \<forall>c \<in> set cs. length (characters c) \<le> 1 \<Longrightarrow> within_limits opt s
    \<Longrightarrow> within_limits opt s'"
proof (induction cs arbitrary: s)
  case (Cons c cs)
  then obtain s1 where "take_char opt s c = Inr s1" "take_chars opt s1 cs = Inr s'" by (auto simp: bindR_Inr_iff)
  then show ?case using Cons take_limits [OF _ _ assms] by simp
qed simp

lemma init_limits: "within_limits opt delimited_init"
  by (simp add: within_limits_def holds_row_def spent_def rows_read_def delimited_init_def over_0 row_characters_simps)

lemma chunks_limits:
  assumes "take_chunks opt delimited_init chunks = Inr s" "\<not> newline (do_delimiter opt)" "\<not> newline (do_quote opt)"
  shows "within_limits opt s"
proof (rule chars_limits [OF assms(2,3) assms(1) [unfolded take_chunks_chars] _ init_limits])
  show "\<forall>c \<in> set (concat (map characters chunks)). length (characters c) \<le> 1"
    using characters_single by fastforce
qed

section \<open>Batches\<close>

definition batched :: "delimited_options \<Rightarrow> delimited_state \<Rightarrow> bool" where
  "batched opt s \<longleftrightarrow>
     (\<forall>b \<in> set (ds_yielded s). length b = do_batchRows opt) \<and> length (ds_batch s) < do_batchRows opt"

lemma batched_updates:
  "batched opt (s\<lparr>ds_rowChars := k\<rparr>) = batched opt s" "batched opt (s\<lparr>ds_pendingQuote := f\<rparr>) = batched opt s"
  "batched opt (s\<lparr>ds_pendingEscape := f\<rparr>) = batched opt s" "batched opt (s\<lparr>ds_inQuotes := f\<rparr>) = batched opt s"
  "batched opt (s\<lparr>ds_atFieldStart := f\<rparr>) = batched opt s"
  by (simp_all add: batched_def)

lemma batched_end: "batched opt (endField s) = batched opt s"
  by (simp add: batched_def endField_def)

lemma batched_row: "endRow s = (s', r) \<Longrightarrow> batched opt s' = batched opt s"
  by (auto simp: endRow_def endField_def Let_def batched_def)

lemma batched_push: "batched opt s \<Longrightarrow> batched opt (push_row opt s r)"
  by (auto simp: batched_def push_row_def Let_def)

lemma batched_char: "pushChar opt s c = Inr s' \<Longrightarrow> batched opt s' = batched opt s"
  by (auto simp: pushChar_def parse_fail_def Let_def batched_def split: if_splits)

lemma batched_plain:
  assumes "take_plain opt s c = Inr s'" "batched opt s"
  shows "batched opt s'"
  using assms
  by (auto simp: take_plain_def batched_updates batched_end batched_row split: if_splits prod.splits option.splits
      intro: batched_push dest!: batched_char)

lemma batched_step:
  assumes "take_char opt s c = Inr s'" "batched opt s"
  shows "batched opt s'"
  using assms
  by (auto simp: take_char_def Let_def parse_fail_def batched_updates batched_end split: if_splits
      dest: batched_char batched_plain)

lemma batched_chars: "take_chars opt s cs = Inr s' \<Longrightarrow> batched opt s \<Longrightarrow> batched opt s'"
  by (induction cs arbitrary: s) (auto simp: bindR_Inr_iff dest: batched_step)

lemma parsed_batches:
  assumes "parseDelimitedRows opt chunks = Inr bs" "bs \<noteq> []"
  shows "(\<forall>b \<in> set (butlast bs). length b = do_batchRows opt) \<and> last bs \<noteq> [] \<and> length (last bs) \<le> do_batchRows opt"
proof -
  obtain s where s: "take_chars opt delimited_init (concat (map characters chunks)) = Inr s" "parse_end s = Inr bs"
    and n: "1 \<le> do_batchRows opt"
    using assms(1) by (auto simp: parseDelimitedRows_def take_chunks_chars bindR_Inr_iff split: if_splits)
  have "batched opt delimited_init" using n by (simp add: batched_def delimited_init_def)
  then have filled: "batched opt s" using batched_chars [OF s(1)] by blast
  let ?last = "if 0 < ds_rowChars s then case snd (endRow s) of None \<Rightarrow> ds_batch s | Some row \<Rightarrow> ds_batch s @ [row]
      else ds_batch s"
  have bs: "bs = (if ?last \<noteq> [] then ds_yielded s @ [?last] else ds_yielded s)"
    using s(2) by (simp add: parse_end_def Let_def split: if_splits)
  have len: "length ?last \<le> do_batchRows opt"
    using filled by (auto simp: batched_def split: option.split)
  show ?thesis
  proof (cases "?last = []")
    case True
    then have "bs = ds_yielded s" by (simp only: bs) simp
    moreover from this have "last bs \<in> set (ds_yielded s)" using assms(2) last_in_set by blast
    ultimately show ?thesis using filled n by (auto simp: batched_def dest: in_set_butlastD)
  next
    case False
    then have "bs = ds_yielded s @ [?last]" by (simp only: bs) simp
    then show ?thesis using filled False len by (simp add: batched_def)
  qed
qed

section \<open>Reading what is written\<close>

definition csv_options :: "nat \<Rightarrow> delimited_options" where
  "csv_options n =
     \<lparr>do_delimiter = [44], do_quote = [34], do_escape = None, do_batchRows = n, do_maxFieldChars = None,
      do_maxRowChars = None\<rparr>"

text \<open>The text of a cell, with the guard of a formula.\<close>

definition cell_text :: "csv_value \<Rightarrow> jstr" where
  "cell_text v =
     (case v of
        CsvNull \<Rightarrow> []
      | CsvNumber n \<Rightarrow> num_to_str n
      | CsvBool b \<Rightarrow> (if b then lit ''true'' else lit ''false'')
      | CsvText s \<Rightarrow> if formula_lead s then 39 # s else s)"

subsection \<open>Characters of what is written\<close>

definition plain_unit :: "nat \<Rightarrow> bool" where
  "plain_unit u \<longleftrightarrow> u \<notin> {34, 44, 13, 10}"

lemma digits_plain: "list_all is_digit s \<Longrightarrow> list_all plain_unit s"
  by (auto simp: list_all_iff is_digit_def plain_unit_def)

lemma written_units: "list_all plain_unit [39, 43, 45, 46, 48, 101]" "list_all plain_unit (lit ''NaN'')"
  "list_all plain_unit (lit ''Infinity'')" "list_all plain_unit (lit ''true'')" "list_all plain_unit (lit ''false'')"
  by (simp_all add: plain_unit_def)

lemma replicate_plain: "plain_unit u \<Longrightarrow> list_all plain_unit (replicate n u)"
  by (induction n) auto

lemma place_point_plain: "list_all plain_unit ds \<Longrightarrow> list_all plain_unit (place_point ds n)"
proof -
  assume ds: "list_all plain_unit ds"
  have nd: "list_all plain_unit (nat_digits k)" for k by (rule digits_plain [OF nat_digits_all])
  show ?thesis
    using ds written_units(1) replicate_plain [of 48] nd
    by (simp add: place_point_def Let_def list_all_take list_all_drop)
qed

lemma number_plain: "list_all plain_unit (num_to_str n)"
proof -
  have pos: "list_all plain_unit (pos_to_str q)" for q
    unfolding pos_to_str_def Let_def using digits_plain [OF nat_digits_all] place_point_plain by simp
  show ?thesis
  proof (cases n)
    case (Fin q)
    then show ?thesis using pos [of q] pos [of "- q"] written_units(1) by simp
  qed (use written_units in simp_all)
qed

lemma csvCell_cases: "csvCell v =
  (if list_all plain_unit (cell_text v) then cell_text v else [34] @ double_quotes (cell_text v) @ [34])"
proof (cases v)
  case (CsvText s)
  have "needs_quotes t \<longleftrightarrow> \<not> list_all plain_unit t" for t
    by (auto simp: needs_quotes_def list_ex_iff list_all_iff plain_unit_def)
  then show ?thesis using CsvText by (simp add: csvCell_def cell_text_def Let_def)
qed (use number_plain written_units in \<open>auto simp: csvCell_def cell_text_def simp del: lit_simps\<close>)

text \<open>A character of plain text is none of those the grammar knows.\<close>

definition plain_char :: "jstr \<Rightarrow> bool" where
  "plain_char c \<longleftrightarrow> c \<noteq> [34] \<and> c \<noteq> [44] \<and> \<not> newline c"

lemma characters_plain: "list_all plain_unit s \<Longrightarrow> list_all plain_char (characters s)"
  by (induction s rule: characters.induct) (auto simp: plain_unit_def plain_char_def newline_def)

lemma characters_low: "\<not> (55296 \<le> u \<and> u < 56320) \<Longrightarrow> characters (u # s) = [u] # characters s"
  by (cases s) auto

lemma characters_before: "\<not> (56320 \<le> u \<and> u < 57344) \<Longrightarrow> characters (a @ u # s) = characters a @ characters (u # s)"
  by (rule characters_append) (simp add: splits_pair_def)

definition doubled :: "jstr list \<Rightarrow> jstr list" where
  "doubled cs = concat (map (\<lambda>c. if c = [34] then [[34], [34]] else [c]) cs)"

lemma characters_doubled: "characters (double_quotes s) = doubled (characters s)"
proof (induction s rule: characters.induct)
  case (2 u)
  then show ?case by (simp add: double_quotes_def doubled_def)
next
  case (3 u v us)
  show ?case
  proof (cases "55296 \<le> u \<and> u < 56320 \<and> 56320 \<le> v \<and> v < 57344")
    case True
    then show ?thesis using 3(1) by (simp add: double_quotes_def doubled_def)
  next
    case False
    have split: "double_quotes (u # v # us) = (if u = 34 then [34, 34] else [u]) @ double_quotes (v # us)"
      by (simp add: double_quotes_def)
    obtain w ws where w: "double_quotes (v # us) = w # ws" "w = v"
      by (cases "v = 34") (auto simp: double_quotes_def)
    show ?thesis
    proof (cases "u = 34")
      case True
      then show ?thesis using 3(2) [OF False] unfolding split by (simp add: characters_low doubled_def)
    next
      case u: False
      then have "characters (u # w # ws) = [u] # characters (w # ws)" using False w(2) by simp
      moreover have "characters (u # v # us) = [u] # characters (v # us)" using False by simp
      ultimately show ?thesis using 3(2) [OF False] u unfolding split w by (simp add: doubled_def)
    qed
  qed
qed (simp add: double_quotes_def doubled_def)

subsection \<open>Runs of the machine\<close>

definition kept_row :: "delimited_state \<Rightarrow> delimited_state \<Rightarrow> bool" where
  "kept_row s s' \<longleftrightarrow> ds_yielded s' = ds_yielded s \<and> ds_batch s' = ds_batch s \<and> ds_row s' = ds_row s"

definition fresh_field :: "delimited_state \<Rightarrow> bool" where
  "fresh_field s \<longleftrightarrow>
     ds_field s = [] \<and> ds_atFieldStart s \<and> \<not> ds_inQuotes s \<and> \<not> ds_pendingQuote s \<and> \<not> ds_pendingEscape s"

lemmas run_defs = take_char_def take_plain_def pushChar_def over_def csv_options_def Let_def newline_def

lemma plain_run:
  assumes "list_all plain_char cs" "\<not> ds_inQuotes s" "\<not> ds_pendingQuote s" "\<not> ds_pendingEscape s"
  shows "\<exists>s'. take_chars (csv_options n) s cs = Inr s' \<and> ds_field s' = ds_field s @ concat cs \<and> kept_row s s'
    \<and> \<not> ds_inQuotes s' \<and> \<not> ds_pendingEscape s' \<and> ds_rowChars s' = ds_rowChars s + length cs"
  using assms
proof (induction cs arbitrary: s)
  case (Cons c cs)
  let ?s = "s\<lparr>ds_rowChars := ds_rowChars s + 1, ds_atFieldStart := False, ds_field := ds_field s @ c,
      ds_fieldChars := ds_fieldChars s + 1\<rparr>"
  have "take_char (csv_options n) s c = Inr ?s"
    using Cons.prems by (simp add: run_defs plain_char_def)
  then show ?case using Cons.IH [of ?s] Cons.prems by (simp add: kept_row_def)
qed (simp add: kept_row_def)

lemma quoted_run:
  assumes "ds_inQuotes s" "\<not> ds_pendingQuote s" "\<not> ds_pendingEscape s"
  shows "\<exists>s'. take_chars (csv_options n) s (doubled cs) = Inr s' \<and> ds_field s' = ds_field s @ concat cs \<and> kept_row s s'
    \<and> ds_inQuotes s' \<and> \<not> ds_pendingQuote s' \<and> \<not> ds_pendingEscape s' \<and> ds_rowChars s \<le> ds_rowChars s'"
  using assms
proof (induction cs arbitrary: s)
  case (Cons c cs)
  show ?case
  proof (cases "c = [34]")
    case True
    let ?s = "s\<lparr>ds_rowChars := ds_rowChars s + 1 + 1, ds_pendingQuote := False, ds_inQuotes := True,
        ds_field := ds_field s @ [34], ds_fieldChars := ds_fieldChars s + 1\<rparr>"
    have "take_chars (csv_options n) s [[34], [34]] = Inr ?s"
      using Cons.prems by (simp add: run_defs)
    then have "take_chars (csv_options n) s (doubled (c # cs)) = take_chars (csv_options n) ?s (doubled cs)"
      using True take_chars_append [of "csv_options n" s "[[34], [34]]" "doubled cs"] by (simp add: doubled_def)
    moreover have "ds_inQuotes ?s" "\<not> ds_pendingQuote ?s" "\<not> ds_pendingEscape ?s" using Cons.prems by simp_all
    ultimately show ?thesis using Cons.IH [of ?s] True by (fastforce simp: kept_row_def)
  next
    case False
    let ?s = "s\<lparr>ds_rowChars := ds_rowChars s + 1, ds_field := ds_field s @ c, ds_fieldChars := ds_fieldChars s + 1\<rparr>"
    have "take_char (csv_options n) s c = Inr ?s" using Cons.prems False by (simp add: run_defs)
    then have "take_chars (csv_options n) s (doubled (c # cs)) = take_chars (csv_options n) ?s (doubled cs)"
      using False by (simp add: doubled_def)
    then show ?thesis using Cons.IH [of ?s] Cons.prems by (fastforce simp: kept_row_def)
  qed
qed (simp add: doubled_def kept_row_def)

lemma cell_run:
  assumes "fresh_field s"
  shows "\<exists>s'. take_chars (csv_options n) s (characters (csvCell v)) = Inr s' \<and> ds_field s' = cell_text v
    \<and> kept_row s s' \<and> \<not> ds_inQuotes s' \<and> \<not> ds_pendingEscape s'
    \<and> (if cell_text v = [] then ds_rowChars s \<le> ds_rowChars s' else ds_rowChars s < ds_rowChars s')"
proof (cases "list_all plain_unit (cell_text v)")
  case True
  let ?cs = "characters (cell_text v)"
  have "list_all plain_char ?cs" using True by (rule characters_plain)
  then obtain s' where "take_chars (csv_options n) s ?cs = Inr s'" "ds_field s' = concat ?cs" "kept_row s s'"
    "\<not> ds_inQuotes s'" "\<not> ds_pendingEscape s'" "ds_rowChars s' = ds_rowChars s + length ?cs"
    using plain_run [of ?cs s n] assms by (auto simp: fresh_field_def)
  moreover have "cell_text v \<noteq> [] \<Longrightarrow> ?cs \<noteq> []" using concat_characters [of "cell_text v"] by auto
  ultimately show ?thesis using True by (auto simp: csvCell_cases concat_characters)
next
  case False
  let ?cs = "characters (cell_text v)"
  let ?q = "s\<lparr>ds_rowChars := ds_rowChars s + 1, ds_inQuotes := True, ds_atFieldStart := False\<rparr>"
  have chars: "characters (csvCell v) = [34] # doubled ?cs @ [[34]]"
    using False by (simp add: csvCell_cases characters_low characters_before characters_doubled)
  have opens: "take_char (csv_options n) s [34] = Inr ?q"
    using assms by (simp add: run_defs fresh_field_def)
  obtain s1 where s1: "take_chars (csv_options n) ?q (doubled ?cs) = Inr s1" "ds_field s1 = cell_text v" "kept_row ?q s1"
    "ds_inQuotes s1" "\<not> ds_pendingQuote s1" "\<not> ds_pendingEscape s1" "ds_rowChars ?q \<le> ds_rowChars s1"
    using quoted_run [of ?q n ?cs] assms by (auto simp: fresh_field_def concat_characters)
  let ?e = "s1\<lparr>ds_rowChars := ds_rowChars s1 + 1, ds_inQuotes := False, ds_pendingQuote := True\<rparr>"
  have "take_char (csv_options n) s1 [34] = Inr ?e" using s1 by (simp add: run_defs)
  then have "take_chars (csv_options n) s (characters (csvCell v)) = Inr ?e"
    unfolding chars using opens s1(1) by (simp add: take_chars_append)
  then show ?thesis using s1 by (auto simp: kept_row_def)
qed

lemma delimiter_run:
  assumes "\<not> ds_inQuotes s" "\<not> ds_pendingEscape s" "\<not> (ds_atFieldStart s \<and> False)"
  shows "\<exists>s'. take_char (csv_options n) s [44] = Inr s' \<and> fresh_field s' \<and> ds_row s' = ds_row s @ [ds_field s]
    \<and> ds_yielded s' = ds_yielded s \<and> ds_batch s' = ds_batch s \<and> 0 < ds_rowChars s'"
  using assms by (auto simp: run_defs endField_def fresh_field_def)

lemma cells_run:
  assumes "fresh_field s" "cells \<noteq> []"
  shows "\<exists>s'. take_chars (csv_options n) s (characters (joinS [44] (map csvCell cells))) = Inr s'
    \<and> ds_row s' @ [ds_field s'] = ds_row s @ map cell_text cells
    \<and> ds_yielded s' = ds_yielded s \<and> ds_batch s' = ds_batch s \<and> \<not> ds_inQuotes s' \<and> \<not> ds_pendingEscape s'
    \<and> (0 < ds_rowChars s \<or> map cell_text cells \<noteq> [[]] \<longrightarrow> 0 < ds_rowChars s')"
  using assms
proof (induction cells arbitrary: s)
  case (Cons v cells)
  obtain s1 where s1: "take_chars (csv_options n) s (characters (csvCell v)) = Inr s1" "ds_field s1 = cell_text v"
    "kept_row s s1" "\<not> ds_inQuotes s1" "\<not> ds_pendingEscape s1"
    "if cell_text v = [] then ds_rowChars s \<le> ds_rowChars s1 else ds_rowChars s < ds_rowChars s1"
    using cell_run [OF Cons.prems(1)] by blast
  show ?case
  proof (cases "cells = []")
    case True
    then show ?thesis using s1 by (auto simp: kept_row_def split: if_splits)
  next
    case False
    obtain s2 where s2: "take_char (csv_options n) s1 [44] = Inr s2" "fresh_field s2" "ds_row s2 = ds_row s1 @ [ds_field s1]"
      "ds_yielded s2 = ds_yielded s1" "ds_batch s2 = ds_batch s1" "0 < ds_rowChars s2"
      using delimiter_run [of s1 n] s1(4,5) by auto
    have "joinS [44] (map csvCell (v # cells)) = csvCell v @ 44 # joinS [44] (map csvCell cells)"
      using False by (simp add: joinS_Cons)
    then have "characters (joinS [44] (map csvCell (v # cells)))
        = characters (csvCell v) @ [44] # characters (joinS [44] (map csvCell cells))"
      by (simp add: characters_before characters_low)
    then have "take_chars (csv_options n) s (characters (joinS [44] (map csvCell (v # cells))))
        = take_chars (csv_options n) s2 (characters (joinS [44] (map csvCell cells)))"
      using s1(1) s2(1) by (simp add: take_chars_append)
    then show ?thesis using Cons.IH [OF s2(2) False] s1 s2 by (auto simp: kept_row_def)
  qed
qed simp

text \<open>Between two rows.\<close>

definition between_rows :: "delimited_state \<Rightarrow> bool" where
  "between_rows s \<longleftrightarrow> fresh_field s \<and> ds_row s = [] \<and> ds_rowChars s = 0"

lemma push_between: "between_rows (push_row opt s r) = between_rows s"
  by (simp add: push_row_def Let_def between_rows_def fresh_field_def)

lemma push_line: "ds_lineNumber (push_row opt s r) = ds_lineNumber s"
  by (simp add: push_row_def Let_def)

lemma return_run:
  assumes "\<not> ds_inQuotes s" "\<not> ds_pendingEscape s" "0 < ds_rowChars s"
  shows "\<exists>s'. take_char (csv_options n) s [13] = Inr s' \<and> between_rows s'
    \<and> rows_read s' = rows_read s @ [ds_row s @ [ds_field s]] \<and> ds_lineNumber s' = ds_lineNumber s + 1"
proof -
  let ?s = "s\<lparr>ds_pendingQuote := False\<rparr>"
  have kept: "\<not> ds_pendingQuote s \<Longrightarrow> ?s = s" by (cases s) simp
  have "take_char (csv_options n) s [13] = take_plain (csv_options n) (if ds_pendingQuote s then ?s else s) [13]"
    using assms by (simp add: take_char_def csv_options_def newline_def Let_def)
  also have "(if ds_pendingQuote s then ?s else s) = ?s" using kept by simp
  also have "take_plain (csv_options n) ?s [13] = Inr (push_row (csv_options n) (fst (endRow ?s)) (ds_row s @ [ds_field s]))"
    using assms by (simp add: take_plain_def csv_options_def newline_def endRow_def endField_def Let_def)
  finally show ?thesis
    using assms(1,2)
    by (simp add: push_between push_reads push_line)
      (simp add: endRow_def endField_def Let_def between_rows_def fresh_field_def rows_read_def)
qed

lemma feed_run:
  assumes "between_rows s"
  shows "\<exists>s'. take_char (csv_options n) s [10] = Inr s' \<and> between_rows s'
    \<and> rows_read s' = rows_read s \<and> ds_lineNumber s' = ds_lineNumber s + 1"
  using assms
  by (simp add: run_defs between_rows_def fresh_field_def endRow_def endField_def rows_read_def)

lemma line_run:
  assumes "between_rows s" "cells \<noteq> []" "map cell_text cells \<noteq> [[]]"
  shows "\<exists>s'. take_chars (csv_options n) s (characters (csvLine cells)) = Inr s' \<and> between_rows s'
    \<and> rows_read s' = rows_read s @ [map cell_text cells]"
proof -
  let ?cs = "characters (joinS [44] (map csvCell cells))"
  have fresh: "fresh_field s" "ds_row s = []" using assms(1) by (simp_all add: between_rows_def)
  obtain s1 where s1: "take_chars (csv_options n) s ?cs = Inr s1" "ds_row s1 @ [ds_field s1] = map cell_text cells"
    "ds_yielded s1 = ds_yielded s" "ds_batch s1 = ds_batch s" "\<not> ds_inQuotes s1" "\<not> ds_pendingEscape s1"
    "0 < ds_rowChars s1"
    using cells_run [OF fresh(1) assms(2), of n] assms(3) fresh(2) by auto
  obtain s2 where s2: "take_char (csv_options n) s1 [13] = Inr s2" "between_rows s2"
    "rows_read s2 = rows_read s1 @ [ds_row s1 @ [ds_field s1]]"
    using return_run [OF s1(5,6,7)] by blast
  obtain s3 where s3: "take_char (csv_options n) s2 [10] = Inr s3" "between_rows s3" "rows_read s3 = rows_read s2"
    using feed_run [OF s2(2)] by blast
  have "characters (csvLine cells) = ?cs @ [[13], [10]]"
    by (simp add: csvLine_def characters_before characters_low)
  then have "take_chars (csv_options n) s (characters (csvLine cells)) = Inr s3"
    using s1(1) s2(1) s3(1) by (simp add: take_chars_append)
  then show ?thesis using s1 s2 s3 by (simp add: rows_read_def)
qed

lemma file_run:
  assumes "between_rows s" "\<forall>cells \<in> set rows. cells \<noteq> [] \<and> map cell_text cells \<noteq> [[]]"
  shows "\<exists>s'. take_chars (csv_options n) s (characters (concat (map csvLine rows))) = Inr s' \<and> between_rows s'
    \<and> rows_read s' = rows_read s @ map (map cell_text) rows"
  using assms
proof (induction rows arbitrary: s)
  case (Cons cells rows)
  then obtain s1 where s1: "take_chars (csv_options n) s (characters (csvLine cells)) = Inr s1" "between_rows s1"
    "rows_read s1 = rows_read s @ [map cell_text cells]"
    using line_run [of s cells n] by auto
  have "characters (csvLine cells @ concat (map csvLine rows))
      = characters (csvLine cells) @ characters (concat (map csvLine rows))"
    by (rule characters_append) (simp add: splits_pair_def csvLine_def)
  then show ?case using s1 Cons.IH [OF s1(2)] Cons.prems(2) by (auto simp: take_chars_append)
qed simp

end
