(* ===== verification/DelimitedProperties.thy ===== *)
theory DelimitedProperties
  imports DelimitedFacts
begin

text \<open>
  What a copy relies on from delimited text: a file the writer makes reads back, the chunks it
  arrives in do not matter, the buffers of the machine stay within its limits, and the line a
  refusal names.
\<close>

section \<open>Chunks\<close>

text \<open>No chunk ends between the two units of a character.\<close>

fun whole_chunks :: "jstr list \<Rightarrow> bool" where
  "whole_chunks [] = True"
| "whole_chunks (a # bs) = (\<not> splits_pair a (concat bs) \<and> whole_chunks bs)"

lemma characters_chunks: "whole_chunks chunks \<Longrightarrow> concat (map characters chunks) = characters (concat chunks)"
  by (induction chunks) (simp_all add: characters_append)

lemma parse_chunks: "whole_chunks chunks \<Longrightarrow> parseDelimitedRows opt chunks = parseDelimitedRows opt [concat chunks]"
  by (simp add: parseDelimitedRows_def take_chunks_chars characters_chunks)

text \<open>C34: Where the chunks of a document end does not matter to its rows, its batches or its refusal,
  provided no chunk of either division ends between the two units of a surrogate pair: whatever is in progress
  at the end of a chunk, a quoted field, a closing quote not yet decided, an escape or a line ending, any two
  such divisions of one document give one result.\<close>

theorem chunks_irrelevant:
  assumes "whole_chunks chunks" "whole_chunks chunks'" "concat chunks = concat chunks'"
  shows "parseDelimitedRows opt chunks = parseDelimitedRows opt chunks'"
  using assms parse_chunks by metis

theorem chunks_irrelevant_witness:
  "parseDelimitedRows (csv_options 2) [[34, 97, 34], [34, 13], [10, 34, 13, 10]]
   = parseDelimitedRows (csv_options 2) [[34], [97, 34, 34, 13, 10, 34], [13, 10]]"
  by (rule chunks_irrelevant) (simp_all add: splits_pair_def)

section \<open>Buffers\<close>

text \<open>C35: Whatever the chunks read so far, the characters of the row in progress together with the
  delimiters between its fields never exceed the row limit, and the characters of none of its fields, nor of the
  one in progress, exceed the field limit; the same holds of every row completed. Neither the delimiter nor the
  quote may be a line ending.\<close>

theorem row_buffer_bounded:
  assumes "take_chunks opt delimited_init chunks = Inr s" "\<not> newline (do_delimiter opt)" "\<not> newline (do_quote opt)"
    "do_maxRowChars opt = Some m" "do_maxFieldChars opt = Some k"
    and "row = ds_row s @ [ds_field s] \<or> row \<in> set (rows_read s)"
  shows "row_characters row + (length row - 1) \<le> m \<and> (\<forall>f \<in> set row. length (characters f) \<le> k)"
proof -
  note limits = chunks_limits [OF assms(1-3)]
  have "row_fits opt row"
    using assms(6) row_complete [OF limits] limits by (auto simp: within_limits_def holds_row_def)
  then show ?thesis using assms(4,5) by (simp add: row_fits_def over_def not_less)
qed

text \<open>A row of two fields in two chunks, at both limits.\<close>

theorem row_buffer_bounded_witness:
  "row_characters [[97, 98], [99]] + (length [[97, 98], [99::nat]] - 1) \<le> 4
   \<and> length (characters [97, 98]) \<le> 2 \<and> length (characters [99]) \<le> 2"
proof -
  let ?opt = "csv_options 1\<lparr>do_maxRowChars := Some 4, do_maxFieldChars := Some 2\<rparr>"
  obtain s where "take_chunks ?opt delimited_init [[97], [98, 44, 99]] = Inr s" "ds_row s @ [ds_field s] = [[97, 98], [99]]"
    by (simp add: run_defs delimited_init_def endField_def)
  from row_buffer_bounded [OF this(1) _ _ _ _ disjI1 [OF this(2) [symmetric]], of 4 2]
  show ?thesis by (simp add: csv_options_def newline_def)
qed

section \<open>Reading what is written\<close>

text \<open>C33: A file the writer makes reads back: after its byte order mark, in whatever chunks it
  arrives, its header and its rows come back in their order as the texts of their cells, in batches of the
  size asked for, whatever quotes, delimiters and line endings the cells hold. A row needs a cell, and a row
  of one empty cell is a blank line, which the reader skips.\<close>

theorem csv_roundtrip:
  assumes "1 \<le> n" "toCsv header rows = CSV_BOM @ concat chunks" "whole_chunks chunks"
    "\<forall>cells \<in> set (map CsvText header # rows). cells \<noteq> [] \<and> map cell_text cells \<noteq> [[]]"
  shows "\<exists>bs. parseDelimitedRows (csv_options n) chunks = Inr bs
    \<and> concat bs = map (map cell_text) (map CsvText header # rows)
    \<and> (\<forall>b \<in> set (butlast bs). length b = n)"
proof -
  let ?rows = "map CsvText header # rows"
  have whole: "concat chunks = concat (map csvLine ?rows)" using assms(2) by (simp add: toCsv_def)
  have "between_rows delimited_init" by (simp add: delimited_init_def between_rows_def fresh_field_def)
  then obtain s where s: "take_chars (csv_options n) delimited_init (characters (concat (map csvLine ?rows))) = Inr s"
    "between_rows s" "rows_read s = map (map cell_text) ?rows"
    using file_run [OF _ assms(4), of delimited_init n] by (auto simp: rows_read_def delimited_init_def)
  let ?bs = "if ds_batch s \<noteq> [] then ds_yielded s @ [ds_batch s] else ds_yielded s"
  have "parse_end s = Inr ?bs" using s(2) by (simp add: parse_end_def between_rows_def fresh_field_def)
  then have parsed: "parseDelimitedRows (csv_options n) chunks = Inr ?bs"
    using s(1) assms(1) characters_chunks [OF assms(3)] whole
    by (simp add: parseDelimitedRows_def take_chunks_chars csv_options_def)
  moreover have "concat ?bs = map (map cell_text) ?rows" using s(3) by (auto simp: rows_read_def)
  moreover have "?bs \<noteq> []" using s(3) by (auto simp: rows_read_def)
  ultimately show ?thesis using parsed_batches [OF parsed] by (auto simp: csv_options_def)
qed

text \<open>A header of two columns, one with a quote and a delimiter, and a row with a formula and a number, in
  two chunks.\<close>

theorem csv_roundtrip_witness:
  "\<exists>bs. parseDelimitedRows (csv_options 1)
      [take 3 (tl (toCsv [[34, 44], [98]] [[CsvText [61, 49], CsvBool True]])),
       drop 3 (tl (toCsv [[34, 44], [98]] [[CsvText [61, 49], CsvBool True]]))] = Inr bs
    \<and> concat bs = [[[34, 44], [98]], [[39, 61, 49], lit ''true'']]"
proof -
  let ?file = "toCsv [[34, 44], [98]] [[CsvText [61, 49], CsvBool True]]"
  have "\<exists>bs. parseDelimitedRows (csv_options 1) [take 3 (tl ?file), drop 3 (tl ?file)] = Inr bs
    \<and> concat bs = map (map cell_text) (map CsvText [[34, 44], [98]] # [[CsvText [61, 49], CsvBool True]])
    \<and> (\<forall>b \<in> set (butlast bs). length b = 1)"
    by (rule csv_roundtrip)
      (simp_all add: toCsv_def CSV_BOM_def csvLine_def csvCell_def needs_quotes_def formula_lead_def double_quotes_def
        splits_pair_def cell_text_def)
  then show ?thesis by (auto simp: cell_text_def formula_lead_def)
qed

section \<open>The line of a refusal\<close>

lemma crlf_lines:
  assumes "between_rows s"
  shows "\<exists>s'. take_chars (csv_options n) s (concat (replicate k [[97], [13], [10]])) = Inr s' \<and> between_rows s'
    \<and> ds_lineNumber s' = ds_lineNumber s + 2 * k"
  using assms
proof (induction k arbitrary: s)
  case (Suc k)
  let ?a = "s\<lparr>ds_rowChars := 1, ds_atFieldStart := False, ds_field := [97], ds_fieldChars := ds_fieldChars s + 1\<rparr>"
  have "take_char (csv_options n) s [97] = Inr ?a"
    using Suc.prems by (simp add: run_defs between_rows_def fresh_field_def)
  moreover obtain s2 where s2: "take_char (csv_options n) ?a [13] = Inr s2" "between_rows s2"
    "ds_lineNumber s2 = ds_lineNumber s + 1"
    using return_run [of ?a n] Suc.prems by (auto simp: between_rows_def fresh_field_def)
  moreover obtain s1 where s1: "take_char (csv_options n) s2 [10] = Inr s1" "between_rows s1"
    "ds_lineNumber s1 = ds_lineNumber s + 2"
    using feed_run [OF s2(2), of n] s2(3) by auto
  ultimately have run: "take_chars (csv_options n) s [[97], [13], [10]] = Inr s1" by simp
  have "take_chars (csv_options n) s (concat (replicate (Suc k) [[97], [13], [10]]))
      = take_chars (csv_options n) s1 (concat (replicate k [[97], [13], [10]]))"
    using run take_chars_append [of "csv_options n" s "[[97], [13], [10]]"] by simp
  then show ?case using Suc.IH [OF s1(2)] s1(3) by auto
qed simp

text \<open>C36: The line a refusal names is not the line of the file where its lines end with a carriage
  return and a line feed, as the writer's do: after k such lines, a letter behind a closing quote on line
  k + 1 is refused as on line 2 k + 1, because each half of the ending counts.\<close>

theorem crlf_counts_twice:
  "\<exists>bs. parseDelimitedRows (csv_options (Suc n)) [concat (replicate k (csvLine [CsvText [97]])) @ [34, 97, 34, 120]]
    = Inl ((UnexpectedAfterQuote, Some (2 * k + 1)), bs)"
proof -
  have line: "csvLine [CsvText [97]] = [97, 13, 10]"
    by (simp add: csvLine_def csvCell_def formula_lead_def needs_quotes_def)
  have chars: "characters (concat (replicate k [97, 13, 10]) @ [34, 97, 34, 120])
      = concat (replicate k [[97], [13], [10]]) @ [[34], [97], [34], [120]]"
    by (induction k) (simp_all add: characters_low)
  have "between_rows delimited_init" by (simp add: delimited_init_def between_rows_def fresh_field_def)
  then obtain s where s: "take_chars (csv_options (Suc n)) delimited_init (concat (replicate k [[97], [13], [10]])) = Inr s"
    "between_rows s" "ds_lineNumber s = 2 * k + 1"
    using crlf_lines [of delimited_init "Suc n" k] by (auto simp: delimited_init_def)
  have "take_chars (csv_options (Suc n)) s [[34], [97], [34], [120]]
      = Inl ((UnexpectedAfterQuote, Some (2 * k + 1)), ds_yielded s)"
    using s(2,3) by (simp add: run_defs between_rows_def fresh_field_def parse_fail_def)
  then show ?thesis
    using s(1) by (simp add: parseDelimitedRows_def take_chunks_chars csv_options_def line chars take_chars_append)
qed

end
