(* ===== verification/Coerce.thy ===== *)
theory Coerce
  imports Catalog
begin

text \<open>
  The coercion of a value of a copied row to the declared type of a column,
  \<open>shared/src/datamove/coerce.ts\<close>. A refusal is its code; the sentence beside it is not modelled.
  The formats a compiled one is kept for are a cache without an effect on the result.
\<close>

section \<open>Values\<close>

text \<open>What a source yields. A date is its time value, if it has one; a \<open>bigint\<close> is an integer.\<close>

datatype source_value =
    SvAbsent | SvNull | SvText jstr | SvNumber jnum | SvBigint int | SvBool bool | SvBytes "nat list"
  | SvDate "int option" | SvList | SvStructured | SvFunction

datatype coerced_value =
    CvNull | CvText jstr | CvNumber jnum | CvBigint int | CvBool bool | CvBytes "nat list"

datatype coercion_code =
    UnsupportedSourceType | AbsentValue | NotANumber | NotIntegral | NonFiniteValue | LossyInteger
  | IntegerOutOfRange | NotABoolean | NoDateFormat | InvalidDateFormat | UnparseableDate | DateOutOfRange

datatype data_type = DtString | DtInteger | DtNumber | DtBoolean | DtDate | DtTimestamp | DtBinary

record coercion_options =
  co_nullValue :: "jstr option"
  co_dateFormat :: "jstr option"

text \<open>\<open>None\<close> is an escaping \<open>RangeError\<close>: a string longer than the host makes.\<close>

type_synonym coercion = "(coercion_code, coerced_value) result option"

definition co_fail :: "coercion_code \<Rightarrow> coercion" where "co_fail code = Some (Inl code)"
definition co_ok :: "coerced_value \<Rightarrow> coercion" where "co_ok v = Some (Inr v)"

section \<open>Numbers\<close>

text \<open>The parts of a decimal literal: \<open>[+-]?(\d+(\.\d*)?|\.\d+)([eE][+-]?\d+)?\<close>.\<close>

record literal_parts =
  dl_sign :: jstr
  dl_whole :: jstr
  dl_fraction :: jstr
  dl_exponent :: int

definition literal_sign :: "jstr \<Rightarrow> jstr" where
  "literal_sign s = (case s of [] \<Rightarrow> [] | u # t \<Rightarrow> if u = 43 \<or> u = 45 then [u] else [])"

definition literal_fraction :: "jstr \<Rightarrow> jstr option \<times> jstr" where
  "literal_fraction s =
     (case s of
        [] \<Rightarrow> (None, s)
      | u # t \<Rightarrow> if u = 46 then (Some (takeWhile is_digit t), dropWhile is_digit t) else (None, s))"

definition DECIMAL_RE :: "jstr \<Rightarrow> literal_parts option" where
  "DECIMAL_RE s =
     (let sign = literal_sign s;
          t = drop (length sign) s;
          whole = takeWhile is_digit t;
          (fraction, r) = literal_fraction (dropWhile is_digit t);
          (ex, rest) = scan_exp r
      in if (whole = [] \<and> (fraction = None \<or> fraction = Some [])) \<or> rest \<noteq> [] then None
         else Some \<lparr>dl_sign = sign, dl_whole = whole, dl_fraction = (case fraction of None \<Rightarrow> [] | Some f \<Rightarrow> f),
                    dl_exponent = ex\<rparr>)"

text \<open>The digits of an integer literal, \<open>[+-]?\d+\<close>, as \<open>BigInt\<close> reads it.\<close>

definition INTEGER_RE :: "jstr \<Rightarrow> int option" where
  "INTEGER_RE s =
     (let sign = literal_sign s; t = drop (length sign) s
      in if t \<noteq> [] \<and> list_all is_digit t
         then Some (if sign = [45] then - int (digits_val t) else int (digits_val t)) else None)"

text \<open>\<open>Number\<close> of a decimal literal.\<close>

definition literal_number :: "literal_parts \<Rightarrow> jnum" where
  "literal_number l = dec_value (dl_sign l = [45]) (dl_whole l) (dl_fraction l) (dl_exponent l)"

definition MAX_INT64 :: int where "MAX_INT64 = 2 ^ 63 - 1"
definition MIN_INT64 :: int where "MIN_INT64 = - (2 ^ 63)"
definition MAX_SAFE :: int where "MAX_SAFE = 2 ^ 53 - 1"
definition MIN_SAFE :: int where "MIN_SAFE = - (2 ^ 53 - 1)"

definition okInteger :: "int \<Rightarrow> coercion" where
  "okInteger v = (if v < MIN_INT64 \<or> MAX_INT64 < v then co_fail IntegerOutOfRange else co_ok (CvBigint v))"

text \<open>
  \<open>limit\<close> is the length of the longest string of the host, and the outer \<open>None\<close> the \<open>RangeError\<close> of a longer
  one.
\<close>

definition exactIntegerFromDecimal :: "nat \<Rightarrow> literal_parts \<Rightarrow> int option option" where
  "exactIntegerFromDecimal limit l =
     (let digits = dl_whole l @ dl_fraction l;
          point = int (length (dl_whole l)) + dl_exponent l;
          signed = (\<lambda>n. if dl_sign l = [45] then - n else n)
      in if int (length digits) \<le> point
         then if int limit < int (length (dl_sign l)) + point then None
              else Some (Some (signed (int (digits_val digits) * 10 ^ nat (point - int (length digits)))))
         else if point \<le> 0
         then Some (if list_all (\<lambda>u. u = 48) digits then Some 0 else None)
         else if \<not> list_all (\<lambda>u. u = 48) (drop (nat point) digits) then Some None
         else Some (Some (signed (int (digits_val (take (nat point) digits))))))"

definition integerFromString :: "nat \<Rightarrow> jstr \<Rightarrow> coercion" where
  "integerFromString limit s =
     (case INTEGER_RE s of
        Some v \<Rightarrow> okInteger v
      | None \<Rightarrow>
          (case DECIMAL_RE s of
             None \<Rightarrow> co_fail NotANumber
           | Some l \<Rightarrow>
               let n = literal_number l
               in if \<not> is_finite n then co_fail NonFiniteValue
                  else if \<not> is_integer n then co_fail NotIntegral
                  else (case exactIntegerFromDecimal limit l of
                          None \<Rightarrow> None
                        | Some None \<Rightarrow> co_fail NotIntegral
                        | Some (Some v) \<Rightarrow> okInteger v)))"

definition numberFromString :: "jstr \<Rightarrow> coercion" where
  "numberFromString s =
     (case DECIMAL_RE s of
        None \<Rightarrow> co_fail NotANumber
      | Some l \<Rightarrow> let n = literal_number l in if is_finite n then co_ok (CvNumber n) else co_fail NonFiniteValue)"

section \<open>Dates\<close>

datatype date_field = FYear | FMonth | FDay | FHour | FMinute | FSecond | FMs

definition PARSE_TOKENS :: "jstr \<Rightarrow> nat \<times> date_field" where
  "PARSE_TOKENS r =
     (if r = lit ''yyyy'' then (4, FYear)
      else if r = lit ''MM'' then (2, FMonth)
      else if r = lit ''dd'' then (2, FDay)
      else if r = lit ''HH'' then (2, FHour)
      else if r = lit ''mm'' then (2, FMinute)
      else if r = lit ''ss'' then (2, FSecond)
      else (3, FMs))"

text \<open>The assembled pattern: literal text, and groups of a fixed number of digits.\<close>

datatype format_piece = Literally jstr | Digits nat date_field

fun compile_runs :: "jstr list \<Rightarrow> jstr list \<Rightarrow> format_piece list option" where
  "compile_runs seen [] = Some []"
| "compile_runs seen (r # rs) =
     (if \<not> is_letter (hd r) then map_option ((#) (Literally r)) (compile_runs seen rs)
      else if \<not> isFormatToken r \<or> r \<in> set seen then None
      else map_option ((#) (case PARSE_TOKENS r of (k, f) \<Rightarrow> Digits k f)) (compile_runs (seen @ [r]) rs))"

text \<open>\<open>None\<close> is \<open>invalid_date_format\<close>.\<close>

definition compileFormat :: "jstr \<Rightarrow> format_piece list option" where
  "compileFormat format = compile_runs [] (char_runs format)"

definition isValidDateFormat :: "jstr \<Rightarrow> bool" where
  "isValidDateFormat format \<longleftrightarrow> compileFormat format \<noteq> None"

fun match_pieces :: "format_piece list \<Rightarrow> jstr \<Rightarrow> (date_field \<times> nat) list option" where
  "match_pieces [] s = (if s = [] then Some [] else None)"
| "match_pieces (Literally r # ps) s =
     (if starts_with s r then match_pieces ps (drop (length r) s) else None)"
| "match_pieces (Digits k f # ps) s =
     (case digits_at k s of None \<Rightarrow> None | Some (v, t) \<Rightarrow> map_option ((#) (f, v)) (match_pieces ps t))"

record date_parts =
  dp_year :: int
  dp_month :: int
  dp_day :: int
  dp_hour :: int
  dp_minute :: int
  dp_second :: int
  dp_ms :: int

definition no_parts :: date_parts where
  "no_parts =
     \<lparr>dp_year = -1, dp_month = -1, dp_day = -1, dp_hour = 0, dp_minute = 0, dp_second = 0, dp_ms = 0\<rparr>"

fun put_part :: "date_parts \<Rightarrow> date_field \<times> nat \<Rightarrow> date_parts" where
  "put_part p (FYear, v) = p\<lparr>dp_year := int v\<rparr>"
| "put_part p (FMonth, v) = p\<lparr>dp_month := int v\<rparr>"
| "put_part p (FDay, v) = p\<lparr>dp_day := int v\<rparr>"
| "put_part p (FHour, v) = p\<lparr>dp_hour := int v\<rparr>"
| "put_part p (FMinute, v) = p\<lparr>dp_minute := int v\<rparr>"
| "put_part p (FSecond, v) = p\<lparr>dp_second := int v\<rparr>"
| "put_part p (FMs, v) = p\<lparr>dp_ms := int v\<rparr>"

definition roundTrips :: "date_parts \<Rightarrow> int \<Rightarrow> bool" where
  "roundTrips p t \<longleftrightarrow>
     getUTCFullYear t = dp_year p \<and> getUTCMonth t = dp_month p - 1 \<and> getUTCDate t = dp_day p
     \<and> getUTCHours t = dp_hour p \<and> getUTCMinutes t = dp_minute p \<and> getUTCSeconds t = dp_second p
     \<and> getUTCMilliseconds t = dp_ms p"

definition parseWithFormat :: "jstr \<Rightarrow> format_piece list \<Rightarrow> (coercion_code, int \<times> date_parts) result" where
  "parseWithFormat s ps =
     (case match_pieces ps s of
        None \<Rightarrow> Inl UnparseableDate
      | Some ms \<Rightarrow>
          let p = foldl put_part no_parts ms
          in if dp_year p < 0 \<or> dp_month p < 0 \<or> dp_day p < 0 then Inl InvalidDateFormat
             else (case utcMs (dp_year p) (dp_month p) (dp_day p) (dp_hour p) (dp_minute p) (dp_second p) (dp_ms p) of
                     None \<Rightarrow> Inl UnparseableDate
                   | Some t \<Rightarrow>
                       if \<not> roundTrips p t then Inl UnparseableDate
                       else if t < MIN_TIME_MS \<or> MAX_TIME_MS < t then Inl DateOutOfRange
                       else Inr (t, p)))"

definition renderDate :: "date_parts \<Rightarrow> jstr" where
  "renderDate p = pad (dp_year p) 4 @ [45] @ pad (dp_month p) 2 @ [45] @ pad (dp_day p) 2"

section \<open>The matrix\<close>

definition date_text :: "int option \<Rightarrow> (int \<Rightarrow> jstr) \<Rightarrow> coercion" where
  "date_text ms render =
     (case ms of
        None \<Rightarrow> co_fail UnparseableDate
      | Some t \<Rightarrow> if t < MIN_TIME_MS \<or> MAX_TIME_MS < t then co_fail DateOutOfRange else co_ok (CvText (render t)))"

definition toBinary :: "source_value \<Rightarrow> coercion" where
  "toBinary v = (case v of SvBytes bs \<Rightarrow> co_ok (CvBytes bs) | _ \<Rightarrow> co_fail UnsupportedSourceType)"

definition toStringValue :: "source_value \<Rightarrow> coercion" where
  "toStringValue v =
     (case v of
        SvText s \<Rightarrow> co_ok (CvText s)
      | SvNumber n \<Rightarrow> if is_finite n then co_ok (CvText (num_to_str n)) else co_fail NonFiniteValue
      | SvBigint i \<Rightarrow> co_ok (CvText ((if i < 0 then [45] else []) @ nat_digits (nat \<bar>i\<bar>)))
      | SvBool b \<Rightarrow> co_ok (CvText (if b then lit ''true'' else lit ''false''))
      | SvDate ms \<Rightarrow> date_text ms toISOString
      | _ \<Rightarrow> co_fail UnsupportedSourceType)"

definition toInteger :: "nat \<Rightarrow> source_value \<Rightarrow> coercion" where
  "toInteger limit v =
     (case v of
        SvBigint i \<Rightarrow> okInteger i
      | SvNumber n \<Rightarrow>
          if \<not> is_finite n then co_fail NonFiniteValue
          else if \<not> is_integer n then co_fail NotIntegral
          else okInteger (int_of_jnum n)
      | SvText s \<Rightarrow> integerFromString limit (trim s)
      | _ \<Rightarrow> co_fail UnsupportedSourceType)"

definition toNumber :: "source_value \<Rightarrow> coercion" where
  "toNumber v =
     (case v of
        SvNumber n \<Rightarrow> if is_finite n then co_ok (CvNumber n) else co_fail NonFiniteValue
      | SvBigint i \<Rightarrow> if i < MIN_SAFE \<or> MAX_SAFE < i then co_fail LossyInteger else co_ok (CvNumber (jnum_of_int i))
      | SvText s \<Rightarrow> numberFromString (trim s)
      | _ \<Rightarrow> co_fail UnsupportedSourceType)"

definition TRUE_TOKENS :: "jstr list" where "TRUE_TOKENS = [lit ''true'', lit ''yes'', lit ''1'']"
definition FALSE_TOKENS :: "jstr list" where "FALSE_TOKENS = [lit ''false'', lit ''no'', lit ''0'']"

definition toBoolean :: "host \<Rightarrow> source_value \<Rightarrow> coercion" where
  "toBoolean h v =
     (case v of
        SvBool b \<Rightarrow> co_ok (CvBool b)
      | SvText s \<Rightarrow>
          let t = h_lower h (trim s)
          in if t \<in> set TRUE_TOKENS then co_ok (CvBool True)
             else if t \<in> set FALSE_TOKENS then co_ok (CvBool False)
             else co_fail NotABoolean
      | _ \<Rightarrow> co_fail UnsupportedSourceType)"

definition toInstant :: "source_value \<Rightarrow> bool \<Rightarrow> coercion_options \<Rightarrow> coercion" where
  "toInstant v date opts =
     (case v of
        SvDate ms \<Rightarrow> date_text ms (\<lambda>t. if date then take 10 (toISOString t) else toISOString t)
      | SvText s \<Rightarrow>
          (case co_dateFormat opts of
             None \<Rightarrow> co_fail NoDateFormat
           | Some format \<Rightarrow>
               (case compileFormat format of
                  None \<Rightarrow> co_fail InvalidDateFormat
                | Some ps \<Rightarrow>
                    (case parseWithFormat (trim s) ps of
                       Inl code \<Rightarrow> co_fail code
                     | Inr (t, p) \<Rightarrow> co_ok (CvText (if date then renderDate p else toISOString t)))))
      | _ \<Rightarrow> co_fail UnsupportedSourceType)"

definition is_null_value :: "coercion_options \<Rightarrow> source_value \<Rightarrow> bool" where
  "is_null_value opts v \<longleftrightarrow> (case v of SvText s \<Rightarrow> co_nullValue opts = Some s | _ \<Rightarrow> False)"

definition coerceValue :: "host \<Rightarrow> nat \<Rightarrow> source_value \<Rightarrow> data_type \<Rightarrow> coercion_options \<Rightarrow> coercion" where
  "coerceValue h limit v target opts =
     (if v = SvAbsent then co_fail AbsentValue
      else if v = SvNull then co_ok CvNull
      else if is_null_value opts v then co_ok CvNull
      else (case target of
              DtString \<Rightarrow> toStringValue v
            | DtInteger \<Rightarrow> toInteger limit v
            | DtNumber \<Rightarrow> toNumber v
            | DtBoolean \<Rightarrow> toBoolean h v
            | DtDate \<Rightarrow> toInstant v True opts
            | DtTimestamp \<Rightarrow> toInstant v False opts
            | DtBinary \<Rightarrow> toBinary v))"

end
