(* ===== verification/CopyPump.thy ===== *)
theory CopyPump
  imports Coerce GraphSearch
begin

text \<open>
  The middle of a copy: the drift gate of \<open>shared/src/datamove/schema-drift.ts\<close> and the pump of
  \<open>shared/src/datamove/pump.ts\<close>, from batches of source rows to batches of rows for the sink. What its
  consumer does with a batch before it asks for the next, which may update the counters, is an argument;
  the consumer of \<open>server/src/connectors/copy.ts\<close> is at the end, over the store's answer to a batch.
\<close>

section \<open>Mapping\<close>

record mapping_entry =
  me_source :: "jstr option"
  me_expression :: source_value
  me_sink :: jstr
  me_type :: data_type
  me_onErrorNull :: bool

type_synonym source_row = "(jstr \<times> source_value) list"
type_synonym sink_row = "(jstr \<times> coerced_value) list"

subsection \<open>Columns of the source\<close>

definition nocaseFold :: "jstr \<Rightarrow> jstr" where
  "nocaseFold s = map (\<lambda>u. if is_upper u then u + 32 else u) s"

record source_index =
  si_names :: "jstr list"
  si_lowered :: "(jstr \<times> jstr list) list"

definition push_bucket :: "(jstr \<times> jstr list) list \<Rightarrow> jstr \<Rightarrow> (jstr \<times> jstr list) list" where
  "push_bucket m name =
     (let k = nocaseFold name
      in case map_of m k of
           Some bucket \<Rightarrow> map (\<lambda>e. if fst e = k then (k, bucket @ [name]) else e) m
         | None \<Rightarrow> m @ [(k, [name])])"

definition indexSourceColumns :: "jstr list \<Rightarrow> source_index" where
  "indexSourceColumns names =
     (let distinct = js_set names
      in \<lparr>si_names = distinct, si_lowered = foldl push_bucket [] distinct\<rparr>)"

datatype source_resolution = Bound jstr | NullColumn | MissingColumn | AmbiguousColumn

definition resolveSourceColumn :: "jstr option \<Rightarrow> bool \<Rightarrow> source_index \<Rightarrow> source_resolution" where
  "resolveSourceColumn source onErrorNull ix =
     (case source of
        None \<Rightarrow> MissingColumn
      | Some s \<Rightarrow>
          if s \<in> set (si_names ix) then Bound s
          else (case (case map_of (si_lowered ix) (nocaseFold s) of None \<Rightarrow> [] | Some b \<Rightarrow> b) of
                  [] \<Rightarrow> if onErrorNull then NullColumn else MissingColumn
                | [c] \<Rightarrow> Bound c
                | _ \<Rightarrow> AmbiguousColumn))"

text \<open>The gate before the copy: the columns that refuse it, and those it does not mention.\<close>

record source_drift =
  sd_missing :: "jstr list"
  sd_ambiguous :: "jstr list"
  sd_unmapped :: "jstr list"

definition checkSourceDrift :: "(jstr option \<times> bool) list \<Rightarrow> jstr list \<Rightarrow> source_drift" where
  "checkSourceDrift mapping columns =
     (let ix = indexSourceColumns columns;
          rs = concat (map (\<lambda>(s, n). case s of None \<Rightarrow> [] | Some c \<Rightarrow> [(c, resolveSourceColumn s n ix)]) mapping);
          bound = concat (map (\<lambda>(c, r). case r of Bound k \<Rightarrow> [k] | _ \<Rightarrow> []) rs)
      in \<lparr>sd_missing = map fst (filter (\<lambda>(c, r). r = MissingColumn) rs),
          sd_ambiguous = map fst (filter (\<lambda>(c, r). r = AmbiguousColumn) rs),
          sd_unmapped = (if mapping = [] then [] else filter (\<lambda>n. n \<notin> set bound) (si_names ix))\<rparr>)"

subsection \<open>The plan of a copy\<close>

datatype mapping_error =
    EmptyMapping | DuplicateSinkColumn "jstr list" | MissingSourceColumn "jstr list"
  | AmbiguousSourceColumn "jstr list" | UncoercibleConstant "(jstr \<times> coercion_code) list"

text \<open>What leaves a copy early: a refusal, a \<open>RangeError\<close> of the coercion, or a rejected row that was not sent.\<close>

datatype pump_throw = Refused mapping_error | RangeThrown | NoSourceRow

datatype column_plan = FromSource jstr jstr mapping_entry | Constant jstr coerced_value

definition constantPlan ::
  "host \<Rightarrow> nat \<Rightarrow> coercion_options \<Rightarrow> mapping_entry \<Rightarrow> (jstr \<times> coercion_code, column_plan) result option" where
  "constantPlan h limit opts e =
     (case coerceValue h limit (me_expression e) (me_type e) opts of
        None \<Rightarrow> None
      | Some (Inr v) \<Rightarrow> Some (Inr (Constant (me_sink e) v))
      | Some (Inl code) \<Rightarrow>
          Some (if me_onErrorNull e then Inr (Constant (me_sink e) CvNull) else Inl (me_sink e, code)))"

record planning =
  pl_plans :: "column_plan list"
  pl_missing :: "jstr list"
  pl_ambiguous :: "jstr list"
  pl_uncoercible :: "(jstr \<times> coercion_code) list"

definition plan_entry ::
  "host \<Rightarrow> nat \<Rightarrow> coercion_options \<Rightarrow> source_index \<Rightarrow> mapping_entry \<Rightarrow> planning \<Rightarrow> planning option" where
  "plan_entry h limit opts ix e pl =
     (case me_source e of
        None \<Rightarrow>
          (case constantPlan h limit opts e of
             None \<Rightarrow> None
           | Some (Inl r) \<Rightarrow> Some (pl\<lparr>pl_uncoercible := pl_uncoercible pl @ [r]\<rparr>)
           | Some (Inr p) \<Rightarrow> Some (pl\<lparr>pl_plans := pl_plans pl @ [p]\<rparr>))
      | Some s \<Rightarrow>
          Some (case resolveSourceColumn (me_source e) (me_onErrorNull e) ix of
                  Bound k \<Rightarrow> pl\<lparr>pl_plans := pl_plans pl @ [FromSource (me_sink e) k e]\<rparr>
                | AmbiguousColumn \<Rightarrow> pl\<lparr>pl_ambiguous := pl_ambiguous pl @ [s]\<rparr>
                | NullColumn \<Rightarrow> pl\<lparr>pl_plans := pl_plans pl @ [Constant (me_sink e) CvNull]\<rparr>
                | MissingColumn \<Rightarrow> pl\<lparr>pl_missing := pl_missing pl @ [s]\<rparr>))"

fun plan_entries ::
  "host \<Rightarrow> nat \<Rightarrow> coercion_options \<Rightarrow> source_index \<Rightarrow> mapping_entry list \<Rightarrow> planning \<Rightarrow> planning option" where
  "plan_entries h limit opts ix [] pl = Some pl"
| "plan_entries h limit opts ix (e # es) pl =
     (case plan_entry h limit opts ix e pl of None \<Rightarrow> None | Some pl' \<Rightarrow> plan_entries h limit opts ix es pl')"

definition planColumns ::
  "host \<Rightarrow> nat \<Rightarrow> coercion_options \<Rightarrow> mapping_entry list \<Rightarrow> jstr list \<Rightarrow> (pump_throw, column_plan list) result" where
  "planColumns h limit opts mapping columns =
     (case plan_entries h limit opts (indexSourceColumns columns) mapping
             \<lparr>pl_plans = [], pl_missing = [], pl_ambiguous = [], pl_uncoercible = []\<rparr> of
        None \<Rightarrow> Inl RangeThrown
      | Some pl \<Rightarrow>
          if pl_ambiguous pl \<noteq> [] then Inl (Refused (AmbiguousSourceColumn (pl_ambiguous pl)))
          else if pl_missing pl \<noteq> [] then Inl (Refused (MissingSourceColumn (pl_missing pl)))
          else if pl_uncoercible pl \<noteq> [] then Inl (Refused (UncoercibleConstant (pl_uncoercible pl)))
          else Inr (pl_plans pl))"

section \<open>Counters\<close>

datatype row_failure_code = CoercionFailed coercion_code | SinkRejected

record row_failure =
  rf_rowIndex :: nat
  rf_sink :: jstr
  rf_code :: row_failure_code

record copy_counters =
  cc_rowsRead :: nat
  cc_rowsWritten :: nat
  cc_rowsFailed :: nat
  cc_bytesRead :: nat
  cc_truncated :: bool
  cc_failuresByCode :: "(row_failure_code \<times> nat) list"
  cc_firstFailure :: "row_failure option"

definition newCopyCounters :: copy_counters where
  "newCopyCounters =
     \<lparr>cc_rowsRead = 0, cc_rowsWritten = 0, cc_rowsFailed = 0, cc_bytesRead = 0, cc_truncated = False,
      cc_failuresByCode = [], cc_firstFailure = None\<rparr>"

definition tally :: "row_failure_code \<Rightarrow> (row_failure_code \<times> nat) list \<Rightarrow> (row_failure_code \<times> nat) list" where
  "tally code m =
     (if map_of m code = None then m @ [(code, 1)]
      else map (\<lambda>e. if fst e = code then (code, snd e + 1) else e) m)"

definition recordCopyRowFailure :: "copy_counters \<Rightarrow> row_failure \<Rightarrow> copy_counters" where
  "recordCopyRowFailure c f =
     c\<lparr>cc_rowsFailed := cc_rowsFailed c + 1,
       cc_failuresByCode := tally (rf_code f) (cc_failuresByCode c),
       cc_firstFailure :=
         (case cc_firstFailure c of
            None \<Rightarrow> Some f
          | Some g \<Rightarrow> if rf_rowIndex f < rf_rowIndex g then Some f else Some g)\<rparr>"

definition byteSizeOf :: "source_value \<Rightarrow> nat" where
  "byteSizeOf v =
     (case v of
        SvText s \<Rightarrow> utf8ByteLength s
      | SvBytes bs \<Rightarrow> length bs
      | SvBool _ \<Rightarrow> 1
      | SvNumber _ \<Rightarrow> 8
      | SvBigint _ \<Rightarrow> 8
      | SvDate _ \<Rightarrow> 8
      | _ \<Rightarrow> 0)"

section \<open>Rows\<close>

text \<open>\<open>row[key]\<close>: an own value, or what a row inherits from \<open>Object.prototype\<close>.\<close>

definition row_get :: "source_row \<Rightarrow> jstr \<Rightarrow> source_value" where
  "row_get row k =
     (case map_of row k of
        Some v \<Rightarrow> v
      | None \<Rightarrow> if k \<notin> set OBJECT_PROTOTYPE then SvAbsent
                else if k = lit ''__proto__'' then SvStructured else SvFunction)"

text \<open>\<open>mapped[sink] = value\<close>: an assignment to \<open>__proto__\<close> makes no property.\<close>

definition put_cell :: "jstr \<Rightarrow> coerced_value \<Rightarrow> sink_row \<Rightarrow> sink_row" where
  "put_cell k v row = (if k = lit ''__proto__'' then row else obj_put k v row)"

text \<open>The row for the sink, or the column and the code that lose it.\<close>

fun map_row ::
  "host \<Rightarrow> nat \<Rightarrow> coercion_options \<Rightarrow> source_row \<Rightarrow> column_plan list \<Rightarrow> sink_row
    \<Rightarrow> (jstr \<times> coercion_code, sink_row) result option" where
  "map_row h limit opts row [] out = Some (Inr out)"
| "map_row h limit opts row (Constant sink v # ps) out = map_row h limit opts row ps (put_cell sink v out)"
| "map_row h limit opts row (FromSource sink key e # ps) out =
     (case coerceValue h limit (row_get row key) (me_type e) opts of
        None \<Rightarrow> None
      | Some (Inr v) \<Rightarrow> map_row h limit opts row ps (put_cell sink v out)
      | Some (Inl code) \<Rightarrow>
          if me_onErrorNull e then map_row h limit opts row ps (put_cell sink CvNull out)
          else Some (Inl (sink, code)))"

section \<open>The pump\<close>

text \<open>What the pump does that others see: a row dropped, a batch handed to the sink, the end of a batch.\<close>

datatype pump_event = RowDropped row_failure | SinkBatch "nat list" "sink_row list" | BatchDone

record pump_state =
  ps_counters :: copy_counters
  ps_plans :: "column_plan list option"
  ps_events :: "pump_event list"

text \<open>What a throw leaves: the counters are the caller's, so they stay.\<close>

type_synonym pump_step = "(pump_throw \<times> pump_state, pump_state) result"

record copy_setup =
  cs_host :: host
  cs_limit :: nat
  cs_mapping :: "mapping_entry list"
  cs_coercion :: coercion_options

definition plans_for :: "copy_setup \<Rightarrow> pump_state \<Rightarrow> source_row \<Rightarrow> (pump_throw, column_plan list) result" where
  "plans_for cs s row =
     (case ps_plans s of
        Some ps \<Rightarrow> Inr ps
      | None \<Rightarrow> planColumns (cs_host cs) (cs_limit cs) (cs_coercion cs) (cs_mapping cs) (map fst row))"

definition read_row :: "pump_state \<Rightarrow> column_plan list \<Rightarrow> source_row \<Rightarrow> pump_state" where
  "read_row s plans row =
     s\<lparr>ps_plans := Some plans,
       ps_counters := (ps_counters s)
         \<lparr>cc_bytesRead := cc_bytesRead (ps_counters s) + sum_list (map (byteSizeOf \<circ> snd) row),
          cc_rowsRead := cc_rowsRead (ps_counters s) + 1\<rparr>\<rparr>"

fun pump_rows ::
  "copy_setup \<Rightarrow> pump_state \<Rightarrow> source_row list \<Rightarrow> (nat \<times> sink_row) list
    \<Rightarrow> (pump_throw \<times> pump_state, pump_state \<times> (nat \<times> sink_row) list) result" where
  "pump_rows cs s [] out = Inr (s, out)"
| "pump_rows cs s (row # rows) out =
     (case plans_for cs s row of
        Inl t \<Rightarrow> Inl (t, s)
      | Inr plans \<Rightarrow>
          let s1 = read_row s plans row; i = cc_rowsRead (ps_counters s)
          in case map_row (cs_host cs) (cs_limit cs) (cs_coercion cs) row plans [] of
               None \<Rightarrow> Inl (RangeThrown, s1)
             | Some (Inr mapped) \<Rightarrow> pump_rows cs s1 rows (out @ [(i, mapped)])
             | Some (Inl (sink, code)) \<Rightarrow>
                 let f = \<lparr>rf_rowIndex = i, rf_sink = sink, rf_code = CoercionFailed code\<rparr>
                 in pump_rows cs
                      (s1\<lparr>ps_counters := recordCopyRowFailure (ps_counters s1) f,
                          ps_events := ps_events s1 @ [RowDropped f]\<rparr>) rows out)"

text \<open>What the consumer does between two batches.\<close>

type_synonym consumer =
  "nat list \<Rightarrow> sink_row list \<Rightarrow> copy_counters \<Rightarrow> (pump_throw \<times> copy_counters, copy_counters) result"

definition hand_over :: "consumer \<Rightarrow> pump_state \<Rightarrow> (nat \<times> sink_row) list \<Rightarrow> pump_step" where
  "hand_over take_rows s out =
     (if out = [] then Inr (s\<lparr>ps_events := ps_events s @ [BatchDone]\<rparr>)
      else let s1 = s\<lparr>ps_events := ps_events s @ [SinkBatch (map fst out) (map snd out)]\<rparr>
           in case take_rows (map fst out) (map snd out) (ps_counters s) of
                Inl (t, c) \<Rightarrow> Inl (t, s1\<lparr>ps_counters := c\<rparr>)
              | Inr c \<Rightarrow> Inr (s1\<lparr>ps_counters := c, ps_events := ps_events s1 @ [BatchDone]\<rparr>))"

fun pump_batches :: "consumer \<Rightarrow> copy_setup \<Rightarrow> pump_state \<Rightarrow> source_row list list \<Rightarrow> pump_step" where
  "pump_batches take_rows cs s [] = Inr s"
| "pump_batches take_rows cs s (b # bs) =
     bindR (pump_rows cs s b []) (\<lambda>(s', out).
       bindR (hand_over take_rows s' out) (\<lambda>s''. pump_batches take_rows cs s'' bs))"

definition duplicate_sinks :: "mapping_entry list \<Rightarrow> jstr list" where
  "duplicate_sinks mapping =
     snd (foldl (\<lambda>(seen, dup) e.
            (seen @ [me_sink e],
             if me_sink e \<in> set seen \<and> me_sink e \<notin> set dup then dup @ [me_sink e] else dup)) ([], []) mapping)"

definition pumpCopyRows :: "consumer \<Rightarrow> copy_setup \<Rightarrow> copy_counters \<Rightarrow> source_row list list \<Rightarrow> pump_step" where
  "pumpCopyRows take_rows cs counters batches =
     (let s = \<lparr>ps_counters = counters, ps_plans = None, ps_events = []\<rparr>
      in if cs_mapping cs = [] then Inl (Refused EmptyMapping, s)
         else if duplicate_sinks (cs_mapping cs) \<noteq> [] then Inl (Refused (DuplicateSinkColumn (duplicate_sinks (cs_mapping cs))), s)
         else pump_batches take_rows cs s batches)"

section \<open>The sink of a copy\<close>

text \<open>
  The store answers a batch with the positions of the rows it rejects and its running total of rows written;
  \<open>connectors/copy.ts\<close> numbers the rejected rows as the source rows they came from.
\<close>

type_synonym store = "nat list \<Rightarrow> sink_row list \<Rightarrow> nat list \<times> nat"

definition onRowRejected ::
  "jstr \<Rightarrow> nat list \<Rightarrow> copy_counters \<Rightarrow> nat \<Rightarrow> (pump_throw \<times> copy_counters, copy_counters) result" where
  "onRowRejected table sinkBatchRows c position =
     (if length sinkBatchRows \<le> position then Inl (NoSourceRow, c)
      else Inr (recordCopyRowFailure c
             \<lparr>rf_rowIndex = sinkBatchRows ! position, rf_sink = table, rf_code = SinkRejected\<rparr>))"

fun reject_rows ::
  "jstr \<Rightarrow> nat list \<Rightarrow> copy_counters \<Rightarrow> nat list \<Rightarrow> (pump_throw \<times> copy_counters, copy_counters) result" where
  "reject_rows table sinkBatchRows c [] = Inr c"
| "reject_rows table sinkBatchRows c (p # ps) =
     bindR (onRowRejected table sinkBatchRows c p) (\<lambda>c'. reject_rows table sinkBatchRows c' ps)"

definition copy_consumer :: "jstr \<Rightarrow> store \<Rightarrow> consumer" where
  "copy_consumer table store idx rows c =
     bindR (reject_rows table idx c (fst (store idx rows)))
       (\<lambda>c'. Inr (c'\<lparr>cc_rowsWritten := snd (store idx rows)\<rparr>))"

definition rowsSent :: "copy_counters \<Rightarrow> int" where
  "rowsSent c = int (cc_rowsRead c) - int (cc_rowsFailed c)"

text \<open>The advisory says how many rows the store kept of those sent, the failure what should have been written.\<close>

definition storeCountAdvisory :: "copy_counters \<Rightarrow> (nat \<times> int) option" where
  "storeCountAdvisory c =
     (if int (cc_rowsWritten c) = rowsSent c then None else Some (cc_rowsWritten c, rowsSent c))"

definition verifyAfterCopyFailure :: "copy_counters \<Rightarrow> nat \<Rightarrow> (nat \<times> nat \<times> int \<times> nat) option" where
  "verifyAfterCopyFailure c rowsWritten =
     (if storeCountAdvisory (c\<lparr>cc_rowsWritten := rowsWritten\<rparr>) = None then None
      else Some (cc_rowsRead c, cc_rowsFailed c, rowsSent c, rowsWritten))"

end
