(* ===== verification/CoerceFacts.thy ===== *)
theory CoerceFacts
  imports Coerce
begin

text \<open>
  The coercion of a text to a whole number is exact, and a date renders and parses back.
\<close>

section \<open>Exact whole numbers\<close>

lemma digits_acc: "digits_val_acc n s = n * 10 ^ length s + digits_val_acc 0 s"
proof (induction s arbitrary: n)
  case (Cons u s)
  have "digits_val_acc n (u # s) = (10 * n + (u - 48)) * 10 ^ length s + digits_val_acc 0 s"
    using Cons.IH [of "10 * n + (u - 48)"] by simp
  moreover have "digits_val_acc 0 (u # s) = (u - 48) * 10 ^ length s + digits_val_acc 0 s"
    using Cons.IH [of "u - 48"] by simp
  ultimately show ?case by (simp add: algebra_simps)
qed simp

lemma digits_append: "digits_val (a @ b) = digits_val a * 10 ^ length b + digits_val b"
proof -
  have "digits_val_acc n (a @ b) = digits_val_acc (digits_val_acc n a) b" for n
    by (induction a arbitrary: n) simp_all
  then show ?thesis unfolding digits_val_def using digits_acc [of "digits_val_acc 0 a" b] by simp
qed

lemma digits_Cons: "digits_val (u # s) = (u - 48) * 10 ^ length s + digits_val s"
  unfolding digits_val_def using digits_acc [of "u - 48" s] by simp

lemma digits_bound: "list_all is_digit s \<Longrightarrow> digits_val s < 10 ^ length s"
proof (induction s)
  case Nil
  then show ?case by (simp add: digits_val_def)
next
  case (Cons u s)
  then have "u - 48 \<le> 9" "digits_val s < 10 ^ length s" by (auto simp: is_digit_def)
  then have "(u - 48) * 10 ^ length s + digits_val s < 9 * 10 ^ length s + 10 ^ length s"
    by (meson add_le_less_mono mult_le_mono1)
  then show ?case by (simp add: digits_Cons)
qed

lemma digits_zero: "list_all is_digit s \<Longrightarrow> digits_val s = 0 \<longleftrightarrow> list_all (\<lambda>u. u = 48) s"
proof (induction s)
  case Nil
  then show ?case by (simp add: digits_val_def)
next
  case (Cons u s)
  then have "u - 48 = 0 \<longleftrightarrow> u = 48" by (auto simp: is_digit_def)
  then show ?case using Cons by (simp add: digits_Cons)
qed

text \<open>The rational a decimal literal stands for.\<close>

definition literal_magnitude :: "literal_parts \<Rightarrow> rat" where
  "literal_magnitude l =
     of_nat (digits_val (dl_whole l @ dl_fraction l)) * 10 powi (dl_exponent l - int (length (dl_fraction l)))"

definition literal_value :: "literal_parts \<Rightarrow> rat" where
  "literal_value l = (if dl_sign l = [45] then - literal_magnitude l else literal_magnitude l)"

definition literal_digits :: "literal_parts \<Rightarrow> bool" where
  "literal_digits l \<longleftrightarrow> list_all is_digit (dl_whole l) \<and> list_all is_digit (dl_fraction l)"

lemma fraction_not_int:
  assumes "0 < (b::nat)" "b < 10 ^ k"
  shows "of_nat a + of_nat b / (10 ^ k :: rat) \<noteq> of_int v"
proof
  assume eq: "of_nat a + of_nat b / (10 ^ k :: rat) = of_int v"
  have "(of_nat b :: rat) < of_nat (10 ^ k)" using assms(2) by (simp only: of_nat_less_iff)
  then have f: "0 < of_nat b / (10 ^ k :: rat)" "of_nat b / (10 ^ k :: rat) < 1"
    using assms(1) by (simp_all add: divide_less_eq)
  have "of_int (int a) < (of_int v :: rat)" "of_int v < (of_int (int a + 1) :: rat)"
    unfolding eq [symmetric] using f by simp_all
  then show False unfolding of_int_less_iff by simp
qed

lemma digits_split: "length ds = p + k \<Longrightarrow> digits_val ds = digits_val (take p ds) * 10 ^ k + digits_val (drop p ds)"
  using digits_append [of "take p ds" "drop p ds"] by simp

lemma magnitude_split:
  assumes "length (dl_whole l @ dl_fraction l) = p + k" "int (length (dl_whole l)) + dl_exponent l = int p"
  shows "literal_magnitude l =
    of_nat (digits_val (take p (dl_whole l @ dl_fraction l)))
    + of_nat (digits_val (drop p (dl_whole l @ dl_fraction l))) / 10 ^ k"
proof -
  let ?ds = "dl_whole l @ dl_fraction l"
  have "dl_exponent l - int (length (dl_fraction l)) = - int k" using assms by simp
  then have "literal_magnitude l = of_nat (digits_val ?ds) / 10 ^ k"
    by (simp add: literal_magnitude_def power_int_minus divide_inverse)
  also have "digits_val ?ds = digits_val (take p ?ds) * 10 ^ k + digits_val (drop p ?ds)"
    by (rule digits_split [OF assms(1)])
  finally show ?thesis by (simp only: of_nat_add of_nat_mult of_nat_power add_divide_distrib) simp
qed

lemma exact_integer:
  assumes "literal_digits l" "exactIntegerFromDecimal limit l = Some r"
  shows "case r of Some v \<Rightarrow> literal_value l = of_int v | None \<Rightarrow> \<forall>v. literal_value l \<noteq> of_int v"
proof -
  let ?ds = "dl_whole l @ dl_fraction l"
  let ?p = "int (length (dl_whole l)) + dl_exponent l"
  have ds: "list_all is_digit ?ds" using assms(1) by (simp add: literal_digits_def)
  consider (pad) "int (length ?ds) \<le> ?p" | (below) "?p < int (length ?ds)" "?p \<le> 0"
    | (inside) "0 < ?p" "?p < int (length ?ds)" by linarith
  then show ?thesis
  proof cases
    case pad
    then have r: "r = Some ((if dl_sign l = [45] then uminus else id)
        (int (digits_val ?ds) * 10 ^ nat (?p - int (length ?ds))))"
      using assms(2) by (auto simp: exactIntegerFromDecimal_def Let_def split: if_splits)
    have "dl_exponent l - int (length (dl_fraction l)) = int (nat (?p - int (length ?ds)))" using pad by simp
    then have "literal_magnitude l = of_nat (digits_val ?ds) * 10 ^ nat (?p - int (length ?ds))"
      unfolding literal_magnitude_def by (simp only: power_int_of_nat)
    then show ?thesis unfolding r by (simp add: literal_value_def)
  next
    case below
    then have r: "r = (if list_all (\<lambda>u. u = 48) ?ds then Some 0 else None)"
      using assms(2) by (simp add: exactIntegerFromDecimal_def Let_def)
    show ?thesis
    proof (cases "digits_val ?ds = 0")
      case True
      then show ?thesis using r digits_zero [OF ds] by (simp add: literal_value_def literal_magnitude_def)
    next
      case False
      let ?k = "nat (int (length ?ds) - ?p)"
      have "dl_exponent l - int (length (dl_fraction l)) = - int ?k" using below by simp
      then have mag: "literal_magnitude l = of_nat 0 + of_nat (digits_val ?ds) / 10 ^ ?k"
        unfolding literal_magnitude_def by (simp only: power_int_minus power_int_of_nat) (simp add: divide_inverse)
      have "digits_val ?ds < 10 ^ length ?ds" by (rule digits_bound [OF ds])
      also have "\<dots> \<le> 10 ^ ?k" using below(2) by (intro power_increasing) auto
      finally have "literal_magnitude l \<noteq> of_int v" for v
        unfolding mag using False by (intro fraction_not_int) simp_all
      then have "literal_value l \<noteq> of_int v" for v
        unfolding literal_value_def by (metis minus_equation_iff of_int_minus)
      then show ?thesis using r False digits_zero [OF ds] by auto
    qed
  next
    case inside
    define p where "p = nat ?p"
    define k where "k = length ?ds - p"
    have pk: "length ?ds = p + k" "?p = int p" using inside by (simp_all add: p_def k_def)
    have tail: "list_all is_digit (drop p ?ds)" using ds by (metis list_all_drop)
    have r: "r = (if list_all (\<lambda>u. u = 48) (drop p ?ds)
        then Some ((if dl_sign l = [45] then uminus else id) (int (digits_val (take p ?ds)))) else None)"
      using assms(2) inside by (auto simp: exactIntegerFromDecimal_def Let_def p_def split: if_splits)
    note mag = magnitude_split [OF pk]
    show ?thesis
    proof (cases "digits_val (drop p ?ds) = 0")
      case True
      then show ?thesis using r mag digits_zero [OF tail] by (simp add: literal_value_def)
    next
      case False
      have "digits_val (drop p ?ds) < 10 ^ k" using digits_bound [OF tail] by (simp only: length_drop k_def)
      then have "literal_magnitude l \<noteq> of_int v" for v
        unfolding mag using False by (intro fraction_not_int) simp_all
      then have "literal_value l \<noteq> of_int v" for v
        unfolding literal_value_def by (metis minus_equation_iff of_int_minus)
      then show ?thesis using r False digits_zero [OF tail] by auto
    qed
  qed
qed

text \<open>A whole number below \<open>2^64\<close> rounds to a finite whole number.\<close>

lemma rnd_whole:
  assumes "\<bar>n\<bar> \<le> 2 ^ 63"
  shows "\<exists>m. rnd (of_int n) = Fin (of_int m)"
proof (cases "\<bar>n\<bar> \<le> 2 ^ 53")
  case True
  then show ?thesis using rnd_of_int by blast
next
  case False
  define a :: rat where "a = of_int \<bar>n\<bar>"
  define L where "L = flog2 a"
  have big: "2 ^ 53 < a" and small: "a \<le> 2 ^ 63"
  proof -
    have "(of_int (2 ^ 53) :: rat) < of_int \<bar>n\<bar>" using False by (simp only: of_int_less_iff)
    then show "2 ^ 53 < a" by (simp add: a_def)
    have "(of_int \<bar>n\<bar> :: rat) \<le> of_int (2 ^ 63)" using assms by (simp only: of_int_le_iff)
    then show "a \<le> 2 ^ 63" by (simp add: a_def)
  qed
  have b: "2 powi L \<le> a" "a < 2 powi (L + 1)" using flog2_bounds [of a] big by (simp_all add: L_def)
  have L52: "52 < L"
  proof (rule ccontr)
    assume "\<not> 52 < L"
    then have "(2::rat) powi (L + 1) \<le> 2 powi 53" by (intro power_int_increasing) auto
    with b big show False by simp
  qed
  have L63: "L \<le> 63"
  proof (rule ccontr)
    assume "\<not> L \<le> 63"
    then have "(2::rat) powi 64 \<le> 2 powi L" by (intro power_int_increasing) auto
    with b small show False by simp
  qed
  define k where "k = nat (L - 52)"
  have e: "max (L - 52) (- 1074) = int k" using L52 by (simp add: k_def)
  define m where "m = round_half_even (a / 2 ^ k)"
  have "m \<le> \<lfloor>a / 2 ^ k\<rfloor> + 1" by (simp add: m_def round_half_even_def Let_def)
  then have "(of_int m :: rat) \<le> of_int (\<lfloor>a / 2 ^ k\<rfloor> + 1)" by (simp only: of_int_le_iff)
  also have "\<dots> \<le> a / 2 ^ k + 1" by simp
  finally have "of_int m \<le> a / 2 ^ k + 1" .
  then have "of_int m * 2 ^ k \<le> (a / 2 ^ k + 1) * 2 ^ k" by (rule mult_right_mono) simp
  also have "\<dots> = a + 2 ^ k" by (simp add: algebra_simps)
  also have "\<dots> \<le> 2 ^ 63 + 2 ^ 11" using small L63 by (intro add_mono power_increasing) (simp_all add: k_def)
  also have "\<dots> < 2 ^ 1024" by simp
  finally have fin: "\<not> 2 ^ 1024 \<le> of_int m * (2 ^ k :: rat)" by simp
  have abs: "\<bar>of_int n :: rat\<bar> = a" by (simp add: a_def)
  have n0: "(of_int n :: rat) \<noteq> 0" using False by auto
  have "1 \<le> a / 2 ^ k"
  proof -
    have "(2::rat) ^ k \<le> 2 ^ 11" using L63 by (intro power_increasing) (simp_all add: k_def)
    also have "\<dots> \<le> a" using big by simp
    finally show ?thesis by (simp add: le_divide_eq)
  qed
  then have "1 \<le> \<lfloor>a / 2 ^ k\<rfloor>" by (simp only: le_floor_iff of_int_1)
  moreover have "\<lfloor>a / 2 ^ k\<rfloor> \<le> m" by (simp add: m_def round_half_even_def Let_def)
  ultimately have m0: "m \<noteq> 0" by linarith
  have "rnd (of_int n) = Fin (if n < 0 then - (of_int m * 2 ^ k) else of_int m * 2 ^ k)"
    using n0 fin m0 unfolding rnd_def abs L_def [symmetric] Let_def e power_int_of_nat m_def [symmetric] by simp
  also have "\<dots> = Fin (of_int (if n < 0 then - (m * 2 ^ k) else m * 2 ^ k))" by simp
  finally show ?thesis by blast
qed

section \<open>A text to a whole number\<close>

lemma co_simps [simp]: "(co_ok v = co_ok w) = (v = w)" "co_ok v \<noteq> co_fail c" "co_fail c \<noteq> co_ok v"
  "co_ok v \<noteq> None" "None \<noteq> co_ok v" "co_fail c \<noteq> None" "(co_fail c = co_fail c') = (c = c')"
  by (auto simp: co_ok_def co_fail_def)

lemma takeWhile_digits: "list_all is_digit (takeWhile is_digit s)"
  by (induction s) auto

lemma DECIMAL_digits: "DECIMAL_RE s = Some l \<Longrightarrow> literal_digits l"
  by (auto simp: DECIMAL_RE_def literal_digits_def literal_fraction_def Let_def takeWhile_digits
      split: prod.splits if_splits list.splits option.splits)

lemma okInteger_ok: "okInteger v = co_ok (CvBigint w) \<longleftrightarrow> v = w \<and> MIN_INT64 \<le> v \<and> v \<le> MAX_INT64"
  by (auto simp: okInteger_def)

lemma INTEGER_DECIMAL:
  assumes "INTEGER_RE s = Some v"
  shows "\<exists>l. DECIMAL_RE s = Some l \<and> literal_value l = of_int v"
proof -
  let ?t = "drop (length (literal_sign s)) s"
  have t: "?t \<noteq> []" "list_all is_digit ?t"
    and v: "v = (if literal_sign s = [45] then - int (digits_val ?t) else int (digits_val ?t))"
    using assms by (auto simp: INTEGER_RE_def Let_def split: if_splits)
  have scan: "takeWhile is_digit ?t = ?t" "dropWhile is_digit ?t = []" using t(2) by (auto simp: list_all_iff)
  have "DECIMAL_RE s = Some \<lparr>dl_sign = literal_sign s, dl_whole = ?t, dl_fraction = [], dl_exponent = 0\<rparr>"
    unfolding DECIMAL_RE_def Let_def scan using t(1) by (simp add: literal_fraction_def scan_exp_def)
  then show ?thesis by (simp add: v literal_value_def literal_magnitude_def)
qed

lemma literal_number_whole:
  assumes "literal_value l = of_int v" "\<bar>v\<bar> \<le> 2 ^ 63"
  shows "is_finite (literal_number l) \<and> is_integer (literal_number l)"
proof (cases "digits_val (dl_whole l @ dl_fraction l) = 0")
  case True
  then show ?thesis by (simp add: literal_number_def dec_value_def is_integer_def)
next
  case False
  then have "literal_number l = rnd (literal_value l)"
    by (simp add: literal_number_def dec_value_def literal_value_def literal_magnitude_def Let_def)
  then show ?thesis using rnd_whole [OF assms(2)] assms(1) by (auto simp: is_integer_def)
qed

lemma integer_exact:
  assumes "DECIMAL_RE s = Some l" "int (length (dl_sign l) + length (dl_whole l)) + dl_exponent l \<le> int limit"
  shows "integerFromString limit s = co_ok (CvBigint v) \<longleftrightarrow>
    literal_value l = of_int v \<and> MIN_INT64 \<le> v \<and> v \<le> MAX_INT64"
proof (cases "INTEGER_RE s")
  case (Some w)
  then have "literal_value l = of_int w" using INTEGER_DECIMAL assms(1) by fastforce
  then show ?thesis using Some by (auto simp: integerFromString_def okInteger_ok)
next
  case None
  have "exactIntegerFromDecimal limit l \<noteq> None"
    using assms(2) by (simp add: exactIntegerFromDecimal_def Let_def)
  then obtain r where r: "exactIntegerFromDecimal limit l = Some r" by blast
  note exact = exact_integer [OF DECIMAL_digits [OF assms(1)] r]
  have whole: "literal_value l = of_int v \<Longrightarrow> MIN_INT64 \<le> v \<Longrightarrow> v \<le> MAX_INT64 \<Longrightarrow>
      is_finite (literal_number l) \<and> is_integer (literal_number l)"
    by (rule literal_number_whole) (auto simp: MIN_INT64_def MAX_INT64_def abs_le_iff)
  show ?thesis
  proof (cases r)
    case None
    then show ?thesis using exact assms(1) r \<open>INTEGER_RE s = None\<close> by (auto simp: integerFromString_def Let_def)
  next
    case (Some w)
    then show ?thesis using exact assms(1) r \<open>INTEGER_RE s = None\<close> whole
      by (auto simp: integerFromString_def Let_def okInteger_ok)
  qed
qed

section \<open>Dates\<close>

fun field_value :: "int \<Rightarrow> date_field \<Rightarrow> int" where
  "field_value t FYear = getUTCFullYear t"
| "field_value t FMonth = getUTCMonth t + 1"
| "field_value t FDay = getUTCDate t"
| "field_value t FHour = getUTCHours t"
| "field_value t FMinute = getUTCMinutes t"
| "field_value t FSecond = getUTCSeconds t"
| "field_value t FMs = getUTCMilliseconds t"

lemma valid_fields:
  assumes "in_range t"
  shows "valid_date (getUTCFullYear t) (getUTCMonth t) (getUTCDate t)"
    "valid_time (getUTCHours t) (getUTCMinutes t) (getUTCSeconds t) (getUTCMilliseconds t)"
    "1 \<le> getUTCFullYear t" "getUTCFullYear t \<le> 9999"
  using fields_valid fields_time_valid in_range_year [OF assms] by blast+

lemma token_text:
  assumes "isFormatToken r" "in_range t" "PARSE_TOKENS r = (k, f)"
  shows "FORMAT_TOKENS r t = pad (field_value t f) k" "0 \<le> field_value t f" "nat (field_value t f) < 10 ^ k" "0 < k"
proof -
  note v = valid_fields [OF assms(2)] daysInMonth_bounds [of "getUTCMonth t" "getUTCFullYear t"]
  have "(FORMAT_TOKENS r t = pad (field_value t f) k \<and> 0 \<le> field_value t f \<and> nat (field_value t f) < 10 ^ k) \<and> 0 < k"
    using assms(1,3) v
    unfolding isFormatToken_def FORMAT_TOKEN_NAMES_def
    by (auto simp: PARSE_TOKENS_def FORMAT_TOKENS_def valid_date_def valid_time_def nat_less_iff
        simp del: lit_simps simp add: lit_inj)
  then show "FORMAT_TOKENS r t = pad (field_value t f) k" "0 \<le> field_value t f" "nat (field_value t f) < 10 ^ k" "0 < k"
    by blast+
qed

definition piece_fields :: "format_piece list \<Rightarrow> date_field list" where
  "piece_fields ps = concat (map (\<lambda>p. case p of Digits k f \<Rightarrow> [f] | Literally r \<Rightarrow> []) ps)"

text \<open>What a format renders, it matches.\<close>

lemma render_matches:
  assumes "in_range t" "compile_runs seen runs = Some ps" "mapR (format_run fn t) runs = Inr rs"
  shows "match_pieces ps (concat rs) = Some (map (\<lambda>f. (f, nat (field_value t f))) (piece_fields ps))"
  using assms(2,3)
proof (induction seen runs arbitrary: ps rs rule: compile_runs.induct)
  case (1 seen)
  then show ?case by (simp add: piece_fields_def)
next
  case (2 seen r runs)
  obtain r' rs' where rs: "rs = r' # rs'" "format_run fn t r = Inr r'" "mapR (format_run fn t) runs = Inr rs'"
    using 2(4) by (auto simp: bindR_Inr_iff)
  show ?case
  proof (cases "is_letter (hd r)")
    case False
    then obtain ps' where "ps = Literally r # ps'" "compile_runs seen runs = Some ps'" using 2(3) by auto
    moreover have "r' = r" using False rs(2) by (simp add: format_run_def)
    ultimately show ?thesis using 2(1) [OF False _ rs(3)] rs(1) by (simp add: starts_with_def piece_fields_def)
  next
    case True
    then have token: "isFormatToken r" "\<not> (\<not> isFormatToken r \<or> r \<in> set seen)"
      using 2(3) by (auto split: if_splits)
    obtain k f where kf: "PARSE_TOKENS r = (k, f)" by fastforce
    obtain ps' where ps': "ps = Digits k f # ps'" "compile_runs (seen @ [r]) runs = Some ps'"
      using 2(3) True token kf by auto
    note tok = token_text [OF token(1) assms(1) kf]
    have "r' = pad (field_value t f) k" using True token(1) rs(2) tok(1) by (simp add: format_run_def)
    then have "match_pieces ps (concat rs) = map_option ((#) (f, nat (field_value t f))) (match_pieces ps' (concat rs'))"
      using digits_at_pad [OF tok(2,3,4)] ps'(1) rs(1) by simp
    then show ?thesis using 2(2) [OF _ token(2) ps'(2) rs(3)] True ps'(1) by (simp add: piece_fields_def)
  qed
qed

fun date_part :: "date_parts \<Rightarrow> date_field \<Rightarrow> int" where
  "date_part p FYear = dp_year p"
| "date_part p FMonth = dp_month p"
| "date_part p FDay = dp_day p"
| "date_part p FHour = dp_hour p"
| "date_part p FMinute = dp_minute p"
| "date_part p FSecond = dp_second p"
| "date_part p FMs = dp_ms p"

lemma part_put: "date_part (put_part p (g, v)) f = (if f = g then int v else date_part p f)"
  by (cases g; cases f) simp_all

lemma parts_put:
  "date_part (foldl put_part p (map (\<lambda>f. (f, nat (w f))) fs)) f = (if f \<in> set fs then int (nat (w f)) else date_part p f)"
  by (induction fs arbitrary: p) (auto simp: part_put)

text \<open>A day of the calendar lies in the range with all its times.\<close>

lemma in_range_day: "in_range t \<longleftrightarrow> - 719162 \<le> ms_day t \<and> ms_day t \<le> 2932896"
  using ms_split [of t] by (auto simp: in_range_def time_bounds)

lemma parse_parts:
  assumes t: "in_range t"
    and p: "dp_year p = getUTCFullYear t" "dp_month p = getUTCMonth t + 1" "dp_day p = getUTCDate t"
    and v: "valid_time (dp_hour p) (dp_minute p) (dp_second p) (dp_ms p)"
    and m: "match_pieces ps s = Some ms" "p = foldl put_part no_parts ms"
  shows "parseWithFormat s ps =
    Inr (make_date (getUTCFullYear t) (getUTCMonth t) (getUTCDate t) (dp_hour p) (dp_minute p) (dp_second p) (dp_ms p), p)"
proof -
  let ?u = "make_date (getUTCFullYear t) (getUTCMonth t) (getUTCDate t) (dp_hour p) (dp_minute p) (dp_second p) (dp_ms p)"
  note d = valid_fields [OF t]
  have "utcMs (dp_year p) (dp_month p) (dp_day p) (dp_hour p) (dp_minute p) (dp_second p) (dp_ms p) = Some ?u"
    using utcMs_valid [of "dp_year p" "dp_month p" "dp_day p"] d v p by simp
  moreover have "roundTrips p ?u" using make_date_fields [OF d(1) v] p by (simp add: roundTrips_def)
  moreover have "ms_day ?u = ms_day t"
    using ms_day_make(1) [OF time_fields(1,2) [OF v]] by (simp add: make_date_def make_day_of_fields)
  then have "in_range ?u" using t by (simp add: in_range_day)
  moreover have "0 \<le> getUTCMonth t" "1 \<le> getUTCDate t" using d(1) by (auto simp: valid_date_def)
  ultimately show ?thesis
    using m(1) d(3) p by (simp add: parseWithFormat_def Let_def in_range_def m(2) [symmetric])
qed

lemma iso_day: "in_range t \<Longrightarrow> take 10 (toISOString t) =
  pad (getUTCFullYear t) 4 @ [45] @ pad (getUTCMonth t + 1) 2 @ [45] @ pad (getUTCDate t) 2"
proof -
  assume t: "in_range t"
  note v = valid_fields [OF t] daysInMonth_bounds [of "getUTCMonth t" "getUTCFullYear t"]
  have "length (pad (getUTCFullYear t) 4) = 4" "length (pad (getUTCMonth t + 1) 2) = 2" "length (pad (getUTCDate t) 2) = 2"
    by (rule pad_width(1); use v in \<open>auto simp: valid_date_def\<close>)+
  then show ?thesis by (simp add: toISOString_def)
qed

lemma rendered_parts:
  assumes "in_range t" "compileFormat fmt = Some ps" "{FYear, FMonth, FDay} \<subseteq> set (piece_fields ps)"
    "formatDateTime fn [JStr (toISOString t), JStr fmt] = Inr (JStr s)"
  shows "\<exists>u p. parseWithFormat s ps = Inr (u, p) \<and> renderDate p = take 10 (toISOString t)
    \<and> ({FHour, FMinute, FSecond, FMs} \<subseteq> set (piece_fields ps) \<longrightarrow> u = t)"
proof -
  let ?ms = "map (\<lambda>f. (f, nat (field_value t f))) (piece_fields ps)"
  define p where "p = foldl put_part no_parts ?ms"
  obtain rs where "mapR (format_run fn t) (char_runs fmt) = Inr rs" "s = concat rs"
    using assms(4) parseTs_toISOString [OF assms(1)] by (auto simp: formatDateTime_def str_arg_def bindR_Inr_iff)
  then have m: "match_pieces ps s = Some ?ms"
    using render_matches [OF assms(1)] assms(2) by (simp add: compileFormat_def)
  note d = valid_fields [OF assms(1)]
  have nn: "0 \<le> field_value t f" for f using d by (cases f) (auto simp: valid_date_def valid_time_def)
  have date_part: "date_part p f = (if f \<in> set (piece_fields ps) then field_value t f else date_part no_parts f)" for f
    unfolding p_def parts_put using nn [of f] by simp
  have day: "dp_year p = getUTCFullYear t" "dp_month p = getUTCMonth t + 1" "dp_day p = getUTCDate t"
    using date_part [of FYear] date_part [of FMonth] date_part [of FDay] assms(3) by simp_all
  have time: "valid_time (dp_hour p) (dp_minute p) (dp_second p) (dp_ms p)"
    using date_part [of FHour] date_part [of FMinute] date_part [of FSecond] date_part [of FMs] d(2)
    by (auto simp: valid_time_def no_parts_def split: if_splits)
  note parsed = parse_parts [OF assms(1) day time m p_def]
  moreover have "renderDate p = take 10 (toISOString t)" using day by (simp add: renderDate_def iso_day [OF assms(1)])
  moreover have "{FHour, FMinute, FSecond, FMs} \<subseteq> set (piece_fields ps) \<Longrightarrow>
      dp_hour p = getUTCHours t \<and> dp_minute p = getUTCMinutes t \<and> dp_second p = getUTCSeconds t
      \<and> dp_ms p = getUTCMilliseconds t"
    using date_part [of FHour] date_part [of FMinute] date_part [of FSecond] date_part [of FMs] by simp
  ultimately show ?thesis by (auto simp: make_date_of_fields)
qed

section \<open>What a coercion gives\<close>

fun value_fits :: "data_type \<Rightarrow> coerced_value \<Rightarrow> bool" where
  "value_fits _ CvNull = True"
| "value_fits DtString (CvText _) = True"
| "value_fits DtInteger (CvBigint i) = (MIN_INT64 \<le> i \<and> i \<le> MAX_INT64)"
| "value_fits DtNumber (CvNumber n) = is_finite n"
| "value_fits DtBoolean (CvBool _) = True"
| "value_fits DtDate (CvText s) = (\<exists>t. in_range t \<and> s = take 10 (toISOString t))"
| "value_fits DtTimestamp (CvText s) = (\<exists>t. in_range t \<and> s = toISOString t)"
| "value_fits DtBinary (CvBytes _) = True"
| "value_fits _ _ = False"

lemma okInteger_fits: "okInteger i = co_ok w \<Longrightarrow> value_fits DtInteger w"
  by (auto simp: okInteger_def split: if_splits)

lemma date_text_ok: "date_text ms render = co_ok w \<Longrightarrow> \<exists>t. in_range t \<and> w = CvText (render t)"
  by (auto simp: date_text_def in_range_def not_less split: option.splits if_splits)

lemma parsed_fits:
  assumes "parseWithFormat s ps = Inr (t, p)"
  shows "in_range t \<and> renderDate p = take 10 (toISOString t)"
proof -
  have t: "in_range t" and r: "roundTrips p t"
    using assms by (auto simp: parseWithFormat_def Let_def in_range_def not_less split: option.splits if_splits)
  moreover have "dp_month p = getUTCMonth t + 1" using r by (simp add: roundTrips_def)
  ultimately show ?thesis by (simp add: renderDate_def iso_day roundTrips_def)
qed

lemma toInstant_fits: "toInstant v date opts = co_ok w \<Longrightarrow> value_fits (if date then DtDate else DtTimestamp) w"
  by (auto simp: toInstant_def split: source_value.splits option.splits sum.splits prod.splits if_splits
      dest!: date_text_ok parsed_fits)

lemma integerFromString_fits: "integerFromString limit s = co_ok w \<Longrightarrow> value_fits DtInteger w"
  by (auto simp: integerFromString_def Let_def split: option.splits if_splits intro: okInteger_fits)

lemma coerce_fits: "coerceValue h limit v target opts = co_ok w \<Longrightarrow> value_fits target w"
proof (cases target)
  case DtInteger
  then show "coerceValue h limit v target opts = co_ok w \<Longrightarrow> value_fits target w"
    by (auto simp: coerceValue_def toInteger_def split: source_value.splits if_splits
        intro: okInteger_fits integerFromString_fits)
next
  case DtNumber
  have "is_finite (jnum_of_int i)" if "MIN_SAFE \<le> i" "i \<le> MAX_SAFE" for i
    using jnum_of_int_exact [of i] that by (simp add: MIN_SAFE_def MAX_SAFE_def)
  then show "coerceValue h limit v target opts = co_ok w \<Longrightarrow> value_fits target w"
    using DtNumber
    by (auto simp: coerceValue_def toNumber_def numberFromString_def Let_def not_less
        split: source_value.splits if_splits option.splits)
next
  case DtDate
  then show "coerceValue h limit v target opts = co_ok w \<Longrightarrow> value_fits target w"
    using toInstant_fits [of v True opts w] by (auto simp: coerceValue_def split: if_splits)
next
  case DtTimestamp
  then show "coerceValue h limit v target opts = co_ok w \<Longrightarrow> value_fits target w"
    using toInstant_fits [of v False opts w] by (auto simp: coerceValue_def split: if_splits)
qed (auto simp: coerceValue_def toStringValue_def toBoolean_def toBinary_def Let_def
    split: source_value.splits if_splits dest!: date_text_ok)

end
