(* ===== verification/CopyFacts.thy ===== *)
theory CopyFacts
  imports CopyPump CoerceFacts
begin

text \<open>
  The gate and the pump agree on the columns of a source, and the pump accounts for every row it reads.
\<close>

section \<open>Planning\<close>

definition missing_of :: "source_index \<Rightarrow> mapping_entry list \<Rightarrow> source_resolution \<Rightarrow> jstr list" where
  "missing_of ix es r = concat (map (\<lambda>e. case me_source e of
      None \<Rightarrow> [] | Some s \<Rightarrow> if resolveSourceColumn (Some s) (me_onErrorNull e) ix = r then [s] else []) es)"

definition gate_view :: "mapping_entry list \<Rightarrow> (jstr option \<times> bool) list" where
  "gate_view es = map (\<lambda>e. (me_source e, me_onErrorNull e)) es"

lemma drift_missing: "sd_missing (checkSourceDrift (gate_view es) ks) = missing_of (indexSourceColumns ks) es MissingColumn"
  "sd_ambiguous (checkSourceDrift (gate_view es) ks) = missing_of (indexSourceColumns ks) es AmbiguousColumn"
  unfolding checkSourceDrift_def gate_view_def missing_of_def Let_def
  by (induction es) (auto split: option.splits)

lemma plan_entries_missing:
  "plan_entries h limit opts ix es pl = Some pl' \<Longrightarrow>
     pl_missing pl' = pl_missing pl @ missing_of ix es MissingColumn
     \<and> pl_ambiguous pl' = pl_ambiguous pl @ missing_of ix es AmbiguousColumn"
proof (induction es arbitrary: pl)
  case (Cons e es)
  obtain pl1 where pl1: "plan_entry h limit opts ix e pl = Some pl1" "plan_entries h limit opts ix es pl1 = Some pl'"
    using Cons.prems by (auto split: option.splits)
  have "pl_missing pl1 = pl_missing pl @ missing_of ix [e] MissingColumn
      \<and> pl_ambiguous pl1 = pl_ambiguous pl @ missing_of ix [e] AmbiguousColumn"
    using pl1(1) by (auto simp: plan_entry_def missing_of_def split: option.splits sum.splits source_resolution.splits)
  then show ?case using Cons.IH [OF pl1(2)] by (simp add: missing_of_def)
qed (simp add: missing_of_def)

lemma plan_sources:
  assumes "planColumns h limit opts mapping ks \<noteq> Inl RangeThrown"
  shows "planColumns h limit opts mapping ks = Inl (Refused (AmbiguousSourceColumn c)) \<longleftrightarrow>
      c \<noteq> [] \<and> c = sd_ambiguous (checkSourceDrift (gate_view mapping) ks)"
    "planColumns h limit opts mapping ks = Inl (Refused (MissingSourceColumn c)) \<longleftrightarrow>
      c \<noteq> [] \<and> c = sd_missing (checkSourceDrift (gate_view mapping) ks)
      \<and> sd_ambiguous (checkSourceDrift (gate_view mapping) ks) = []"
proof -
  obtain pl where pl: "plan_entries h limit opts (indexSourceColumns ks) mapping
      \<lparr>pl_plans = [], pl_missing = [], pl_ambiguous = [], pl_uncoercible = []\<rparr> = Some pl"
    using assms by (auto simp: planColumns_def split: option.splits)
  note m = plan_entries_missing [OF pl]
  show "planColumns h limit opts mapping ks = Inl (Refused (AmbiguousSourceColumn c)) \<longleftrightarrow>
      c \<noteq> [] \<and> c = sd_ambiguous (checkSourceDrift (gate_view mapping) ks)"
    "planColumns h limit opts mapping ks = Inl (Refused (MissingSourceColumn c)) \<longleftrightarrow>
      c \<noteq> [] \<and> c = sd_missing (checkSourceDrift (gate_view mapping) ks)
      \<and> sd_ambiguous (checkSourceDrift (gate_view mapping) ks) = []"
    using m unfolding drift_missing by (auto simp: planColumns_def pl)
qed

section \<open>Accounting\<close>

lemma tally_sum: "distinct (map fst m) \<Longrightarrow> sum_list (map snd (tally code m)) = sum_list (map snd m) + 1"
proof -
  assume d: "distinct (map fst m)"
  have keep: "map (\<lambda>e. if fst e = code then (code, snd e + 1) else e) m = m" if "code \<notin> fst ` set m" for m :: "(row_failure_code \<times> nat) list"
    using that by (induction m) auto
  show ?thesis
  proof (cases "map_of m code = None")
    case True
    then show ?thesis by (simp add: tally_def)
  next
    case False
    then have "code \<in> fst ` set m" by (simp add: map_of_eq_None_iff)
    then have "sum_list (map snd (map (\<lambda>e. if fst e = code then (code, snd e + 1) else e) m)) = sum_list (map snd m) + 1"
      using d
    proof (induction m)
      case (Cons e m)
      then show ?case using keep [of m] by (cases "fst e = code") auto
    qed simp
    then show ?thesis using False by (simp add: tally_def)
  qed
qed

lemma tally_distinct: "distinct (map fst m) \<Longrightarrow> distinct (map fst (tally code m))"
proof (cases "map_of m code = None")
  case True
  moreover assume "distinct (map fst m)"
  ultimately show ?thesis by (simp add: tally_def map_of_eq_None_iff)
next
  case False
  moreover assume "distinct (map fst m)"
  moreover have "map fst (map (\<lambda>e. if fst e = code then (code, snd e + 1) else e) m) = map fst m" by (induction m) auto
  ultimately show ?thesis unfolding tally_def by (simp only: if_False)
qed

text \<open>The counters are consistent: the codes sum up, and the first failure is one of a row.\<close>

definition counted :: "copy_counters \<Rightarrow> bool" where
  "counted c \<longleftrightarrow>
     distinct (map fst (cc_failuresByCode c)) \<and> sum_list (map snd (cc_failuresByCode c)) = cc_rowsFailed c
     \<and> (cc_firstFailure c = None \<longleftrightarrow> cc_rowsFailed c = 0)
     \<and> (case cc_firstFailure c of None \<Rightarrow> True | Some f \<Rightarrow> rf_rowIndex f < cc_rowsRead c)"

lemma counted_new: "counted newCopyCounters"
  by (simp add: counted_def newCopyCounters_def)

lemma counted_failure: "counted c \<Longrightarrow> rf_rowIndex f < cc_rowsRead c \<Longrightarrow> counted (recordCopyRowFailure c f)"
  by (auto simp: counted_def recordCopyRowFailure_def tally_sum tally_distinct split: option.splits)

lemma first_failure_lowest:
  "cc_firstFailure (recordCopyRowFailure c f) = Some g \<Longrightarrow>
     rf_rowIndex g \<le> rf_rowIndex f \<and> (\<forall>g'. cc_firstFailure c = Some g' \<longrightarrow> rf_rowIndex g \<le> rf_rowIndex g')"
  by (auto simp: recordCopyRowFailure_def split: option.splits if_splits)

text \<open>What the pump is to do with the rows of a batch, one at a time.\<close>

definition verdict :: "copy_setup \<Rightarrow> column_plan list \<Rightarrow> source_row \<Rightarrow> (jstr \<times> coercion_code, sink_row) result option" where
  "verdict cs plans row = map_row (cs_host cs) (cs_limit cs) (cs_coercion cs) row plans []"

fun kept :: "copy_setup \<Rightarrow> column_plan list \<Rightarrow> nat \<Rightarrow> source_row list \<Rightarrow> (nat \<times> sink_row) list" where
  "kept cs plans i [] = []"
| "kept cs plans i (row # rows) =
     (case verdict cs plans row of Some (Inr m) \<Rightarrow> (i, m) # kept cs plans (i + 1) rows | _ \<Rightarrow> kept cs plans (i + 1) rows)"

fun dropped :: "copy_setup \<Rightarrow> column_plan list \<Rightarrow> nat \<Rightarrow> source_row list \<Rightarrow> row_failure list" where
  "dropped cs plans i [] = []"
| "dropped cs plans i (row # rows) =
     (case verdict cs plans row of
        Some (Inl (sink, code)) \<Rightarrow>
          \<lparr>rf_rowIndex = i, rf_sink = sink, rf_code = CoercionFailed code\<rparr> # dropped cs plans (i + 1) rows
      | _ \<Rightarrow> dropped cs plans (i + 1) rows)"

lemma kept_append: "kept cs plans i (a @ b) = kept cs plans i a @ kept cs plans (i + length a) b"
  by (induction a arbitrary: i) (auto split: option.splits sum.splits)

lemma dropped_append: "dropped cs plans i (a @ b) = dropped cs plans i a @ dropped cs plans (i + length a) b"
  by (induction a arbitrary: i) (auto split: option.splits sum.splits)

lemma kept_indices: "x \<in> set (kept cs plans i rows) \<Longrightarrow> i \<le> fst x \<and> fst x < i + length rows"
  by (induction rows arbitrary: i) (fastforce split: option.splits sum.splits)+

lemma kept_dropped:
  "\<forall>row \<in> set rows. verdict cs plans row \<noteq> None \<Longrightarrow>
     length (kept cs plans i rows) + length (dropped cs plans i rows) = length rows"
  by (induction rows arbitrary: i) (auto split: option.splits sum.splits)

section \<open>The pump\<close>

abbreviation rows_read_of :: "pump_state \<Rightarrow> nat" where
  "rows_read_of s \<equiv> cc_rowsRead (ps_counters s)"

lemma rows_plan:
  assumes "ps_plans s = Some plans" "pump_rows cs s rows out = Inr (s', out')"
  shows "out' = out @ kept cs plans (rows_read_of s) rows \<and> ps_plans s' = Some plans
    \<and> ps_events s' = ps_events s @ map RowDropped (dropped cs plans (rows_read_of s) rows)
    \<and> rows_read_of s' = rows_read_of s + length rows
    \<and> cc_rowsFailed (ps_counters s') = cc_rowsFailed (ps_counters s) + length (dropped cs plans (rows_read_of s) rows)
    \<and> (counted (ps_counters s) \<longrightarrow> counted (ps_counters s'))
    \<and> (\<forall>row \<in> set rows. verdict cs plans row \<noteq> None)"
  using assms
proof (induction rows arbitrary: s out)
  case (Cons row rows)
  let ?s = "read_row s plans row" and ?i = "rows_read_of s"
  have plans: "plans_for cs s row = Inr plans" using Cons.prems(1) by (simp add: plans_for_def)
  have s1: "ps_plans ?s = Some plans" "rows_read_of ?s = ?i + 1" "ps_events ?s = ps_events s"
    "cc_rowsFailed (ps_counters ?s) = cc_rowsFailed (ps_counters s)"
    by (simp_all add: read_row_def)
  have c1: "counted (ps_counters s) \<Longrightarrow> counted (ps_counters ?s)"
    by (auto simp: counted_def read_row_def split: option.splits)
  obtain r where r: "verdict cs plans row = Some r"
    using Cons.prems(2) plans by (cases "verdict cs plans row") (simp_all add: verdict_def Let_def)
  show ?case
  proof (cases r)
    case (Inr m)
    then have "pump_rows cs ?s rows (out @ [(?i, m)]) = Inr (s', out')"
      using Cons.prems(2) plans r by (simp add: verdict_def Let_def)
    note ih = Cons.IH [OF s1(1) this]
    then show ?thesis using s1 c1 r Inr by auto
  next
    case (Inl e)
    obtain sink code where e: "e = (sink, code)" by fastforce
    let ?f = "\<lparr>rf_rowIndex = ?i, rf_sink = sink, rf_code = CoercionFailed code\<rparr>"
    let ?s2 = "?s\<lparr>ps_counters := recordCopyRowFailure (ps_counters ?s) ?f, ps_events := ps_events ?s @ [RowDropped ?f]\<rparr>"
    have run: "pump_rows cs ?s2 rows out = Inr (s', out')"
      using Cons.prems(2) plans r Inl e by (simp add: verdict_def Let_def)
    have "ps_plans ?s2 = Some plans" using s1(1) by simp
    note ih = Cons.IH [OF this run]
    have "counted (ps_counters s) \<Longrightarrow> counted (ps_counters ?s2)"
      using c1 s1(2) by (auto intro: counted_failure)
    moreover have "rows_read_of ?s2 = ?i + 1" "cc_rowsFailed (ps_counters ?s2) = cc_rowsFailed (ps_counters s) + 1"
      using s1 by (simp_all add: recordCopyRowFailure_def)
    ultimately show ?thesis using ih s1 r Inl e by auto
  qed
qed simp

lemma rows_first:
  "plans_for cs s row = Inr plans \<Longrightarrow>
     pump_rows cs s (row # rows) out = pump_rows cs (s\<lparr>ps_plans := Some plans\<rparr>) (row # rows) out"
  by (simp add: plans_for_def read_row_def)

text \<open>What the events of a copy say.\<close>

definition handed :: "pump_event list \<Rightarrow> (nat \<times> sink_row) list" where
  "handed es = concat (map (\<lambda>e. case e of SinkBatch is rows \<Rightarrow> zip is rows | _ \<Rightarrow> []) es)"

definition drops :: "pump_event list \<Rightarrow> row_failure list" where
  "drops es = concat (map (\<lambda>e. case e of RowDropped f \<Rightarrow> [f] | _ \<Rightarrow> []) es)"

definition sent_batches :: "pump_event list \<Rightarrow> sink_row list list" where
  "sent_batches es = concat (map (\<lambda>e. case e of SinkBatch is rows \<Rightarrow> [rows] | _ \<Rightarrow> []) es)"

definition rejections :: "(nat list \<Rightarrow> sink_row list \<Rightarrow> nat) \<Rightarrow> pump_event list \<Rightarrow> nat" where
  "rejections rejected es = sum_list (map (\<lambda>e. case e of SinkBatch is rows \<Rightarrow> rejected is rows | _ \<Rightarrow> 0) es)"

lemma events_append:
  "handed (es @ es') = handed es @ handed es'" "drops (es @ es') = drops es @ drops es'"
  "sent_batches (es @ es') = sent_batches es @ sent_batches es'"
  "rejections rj (es @ es') = rejections rj es + rejections rj es'"
  by (simp_all add: handed_def drops_def sent_batches_def rejections_def)

lemma events_dropped:
  "handed (map RowDropped fs) = []" "drops (map RowDropped fs) = fs" "sent_batches (map RowDropped fs) = []"
  "rejections rj (map RowDropped fs) = 0"
  by (induction fs) (simp_all add: handed_def drops_def sent_batches_def rejections_def)

lemma events_one:
  "handed [SinkBatch is rows, BatchDone] = zip is rows" "drops [SinkBatch is rows, BatchDone] = []"
  "sent_batches [SinkBatch is rows, BatchDone] = [rows]" "rejections rj [SinkBatch is rows, BatchDone] = rj is rows"
  "handed [BatchDone] = []" "drops [BatchDone] = []" "sent_batches [BatchDone] = []" "rejections rj [BatchDone] = 0"
  "handed [] = []" "drops [] = []" "sent_batches [] = []" "rejections rj [] = 0"
  by (simp_all add: handed_def drops_def sent_batches_def rejections_def)

text \<open>
  The contract of the consumer: it reads nothing, it records as many failures as the rows it rejects, and it
  keeps the counters consistent.
\<close>

locale sink_contract =
  fixes take_rows :: consumer and rejected :: "nat list \<Rightarrow> sink_row list \<Rightarrow> nat"
  assumes keeps_read: "take_rows is rows c = Inr c' \<Longrightarrow> cc_rowsRead c' = cc_rowsRead c"
    and counts_rejected: "take_rows is rows c = Inr c' \<Longrightarrow> cc_rowsFailed c' = cc_rowsFailed c + rejected is rows"
    and keeps_counted: "take_rows is rows c = Inr c' \<Longrightarrow> \<forall>i \<in> set is. i < cc_rowsRead c \<Longrightarrow> counted c \<Longrightarrow> counted c'"
begin

definition accounts :: "copy_setup \<Rightarrow> column_plan list \<Rightarrow> pump_state \<Rightarrow> source_row list \<Rightarrow> pump_event list \<Rightarrow> pump_state \<Rightarrow> bool" where
  "accounts cs plans s rows es s' \<longleftrightarrow>
     ps_events s' = ps_events s @ es
     \<and> handed es = kept cs plans (rows_read_of s) rows \<and> drops es = dropped cs plans (rows_read_of s) rows
     \<and> rows_read_of s' = rows_read_of s + length rows
     \<and> cc_rowsFailed (ps_counters s') = cc_rowsFailed (ps_counters s) + length (drops es) + rejections rejected es
     \<and> (counted (ps_counters s) \<longrightarrow> counted (ps_counters s'))
     \<and> [] \<notin> set (sent_batches es)
     \<and> (\<forall>row \<in> set rows. verdict cs plans row \<noteq> None)"

lemma accounts_empty: "accounts cs plans s [] [] s"
  by (simp add: accounts_def events_one)

lemma accounts_append:
  "accounts cs plans s rows es s1 \<Longrightarrow> accounts cs plans s1 rows' es' s2 \<Longrightarrow>
     accounts cs plans s (rows @ rows') (es @ es') s2"
  by (auto simp: accounts_def events_append kept_append dropped_append)

lemma batch_accounts:
  assumes "ps_plans s = Some plans" "pump_rows cs s b [] = Inr (s1, out)" "hand_over take_rows s1 out = Inr s2"
  shows "\<exists>es. accounts cs plans s b es s2 \<and> ps_plans s2 = Some plans"
proof -
  let ?dropped = "dropped cs plans (rows_read_of s) b"
  note r = rows_plan [OF assms(1,2)]
  show ?thesis
  proof (cases "out = []")
    case True
    then have "s2 = s1\<lparr>ps_events := ps_events s1 @ [BatchDone]\<rparr>" using assms(3) by (simp add: hand_over_def)
    then have "accounts cs plans s b (map RowDropped ?dropped @ [BatchDone]) s2" "ps_plans s2 = Some plans"
      using r True by (auto simp: accounts_def events_append events_dropped events_one)
    then show ?thesis by blast
  next
    case False
    let ?is = "map fst out" and ?rows = "map snd out"
    obtain c where c: "take_rows ?is ?rows (ps_counters s1) = Inr c"
      and s2: "s2 = s1\<lparr>ps_counters := c, ps_events := ps_events s1 @ [SinkBatch ?is ?rows, BatchDone]\<rparr>"
      using assms(3) False by (auto simp: hand_over_def Let_def split: sum.splits prod.splits)
    have "\<forall>i \<in> set ?is. i < cc_rowsRead (ps_counters s1)" using r kept_indices [of _ cs plans "rows_read_of s" b] by fastforce
    note keep = keeps_read [OF c] counts_rejected [OF c] keeps_counted [OF c this]
    have "accounts cs plans s b (map RowDropped ?dropped @ [SinkBatch ?is ?rows, BatchDone]) s2" "ps_plans s2 = Some plans"
      using r keep False by (auto simp: s2 accounts_def events_append events_dropped events_one zip_map_fst_snd)
    then show ?thesis by blast
  qed
qed

lemma batches_plan:
  assumes "ps_plans s = Some plans" "pump_batches take_rows cs s bs = Inr s'"
  shows "\<exists>es. accounts cs plans s (concat bs) es s'"
  using assms
proof (induction bs arbitrary: s)
  case Nil
  then show ?case using accounts_empty by auto
next
  case (Cons b bs)
  obtain s1 out s2 where s1: "pump_rows cs s b [] = Inr (s1, out)" "hand_over take_rows s1 out = Inr s2"
    and rest: "pump_batches take_rows cs s2 bs = Inr s'"
    using Cons.prems(2) by (auto simp: bindR_Inr_iff)
  obtain es where es: "accounts cs plans s b es s2" "ps_plans s2 = Some plans"
    using batch_accounts [OF Cons.prems(1) s1] by blast
  then show ?case using Cons.IH [OF es(2) rest] accounts_append by fastforce
qed

lemma batches_run:
  assumes "ps_plans s = None" "pump_batches take_rows cs s bs = Inr s'"
  shows "\<exists>plans es. accounts cs plans s (concat bs) es s' \<and>
    (concat bs \<noteq> [] \<longrightarrow> planColumns (cs_host cs) (cs_limit cs) (cs_coercion cs) (cs_mapping cs)
      (map fst (hd (concat bs))) = Inr plans)"
  using assms
proof (induction bs arbitrary: s)
  case Nil
  then have "accounts cs [] s (concat []) [] s'" using accounts_empty by simp
  then show ?case by auto
next
  case (Cons b bs)
  show ?case
  proof (cases b)
    case Nil
    let ?s = "s\<lparr>ps_events := ps_events s @ [BatchDone]\<rparr>"
    have "pump_batches take_rows cs ?s bs = Inr s'" "ps_plans ?s = None"
      using Cons.prems Nil by (simp_all add: hand_over_def)
    then obtain plans es where es: "accounts cs plans ?s (concat bs) es s'"
      "concat bs \<noteq> [] \<longrightarrow> planColumns (cs_host cs) (cs_limit cs) (cs_coercion cs) (cs_mapping cs)
        (map fst (hd (concat bs))) = Inr plans"
      using Cons.IH by blast
    have "accounts cs plans s [] [BatchDone] ?s" by (simp add: accounts_def events_one)
    then have "accounts cs plans s (concat (b # bs)) ([BatchDone] @ es) s'" using es(1) accounts_append Nil by fastforce
    then show ?thesis using es(2) Nil by auto
  next
    case (Cons row rows)
    have "plans_for cs s row = Inr plans \<Longrightarrow>
        pump_batches take_rows cs s (b # bs) = pump_batches take_rows cs (s\<lparr>ps_plans := Some plans\<rparr>) (b # bs)" for plans
      by (simp only: pump_batches.simps rows_first Cons)
    moreover obtain plans where plans: "plans_for cs s row = Inr plans"
      using Cons.prems(2) Cons by (cases "plans_for cs s row") simp_all
    ultimately have "pump_batches take_rows cs (s\<lparr>ps_plans := Some plans\<rparr>) (b # bs) = Inr s'"
      using Cons.prems(2) by simp
    from batches_plan [OF _ this] obtain es where "accounts cs plans (s\<lparr>ps_plans := Some plans\<rparr>) (concat (b # bs)) es s'"
      by auto
    then have "accounts cs plans s (concat (b # bs)) es s'" by (simp add: accounts_def)
    then show ?thesis using plans Cons.prems(1) Cons by (auto simp: plans_for_def)
  qed
qed

end

section \<open>The sink of a copy\<close>

lemma reject_facts:
  "reject_rows table is c ps = Inr c' \<Longrightarrow>
     cc_rowsRead c' = cc_rowsRead c \<and> cc_rowsFailed c' = cc_rowsFailed c + length ps
     \<and> ((\<forall>i \<in> set is. i < cc_rowsRead c) \<longrightarrow> counted c \<longrightarrow> counted c')"
proof (induction ps arbitrary: c)
  case (Cons p ps)
  let ?f = "\<lparr>rf_rowIndex = is ! p, rf_sink = table, rf_code = SinkRejected\<rparr>"
  have p: "p < length is" and run: "reject_rows table is (recordCopyRowFailure c ?f) ps = Inr c'"
    using Cons.prems by (auto simp: bindR_Inr_iff onRowRejected_def split: if_splits)
  have "cc_rowsRead (recordCopyRowFailure c ?f) = cc_rowsRead c"
    "cc_rowsFailed (recordCopyRowFailure c ?f) = cc_rowsFailed c + 1"
    by (simp_all add: recordCopyRowFailure_def)
  moreover have "\<forall>i \<in> set is. i < cc_rowsRead c \<Longrightarrow> counted c \<Longrightarrow> counted (recordCopyRowFailure c ?f)"
    using p by (intro counted_failure) simp_all
  ultimately show ?case using Cons.IH [OF run] by auto
qed simp

lemma counted_written: "counted (c\<lparr>cc_rowsWritten := n\<rparr>) = counted c"
  by (cases "cc_firstFailure c") (simp_all add: counted_def)

interpretation copy_sink: sink_contract "copy_consumer table store" "\<lambda>is rows. length (fst (store is rows))" for table store
proof
  fix "is" rows c c'
  assume "copy_consumer table store is rows c = Inr c'"
  then obtain c1 where c1: "reject_rows table is c (fst (store is rows)) = Inr c1" "c' = c1\<lparr>cc_rowsWritten := snd (store is rows)\<rparr>"
    by (auto simp: copy_consumer_def bindR_Inr_iff)
  note r = reject_facts [OF c1(1)]
  show "cc_rowsRead c' = cc_rowsRead c" "cc_rowsFailed c' = cc_rowsFailed c + length (fst (store is rows))"
    using r c1(2) by simp_all
  show "\<forall>i \<in> set is. i < cc_rowsRead c \<Longrightarrow> counted c \<Longrightarrow> counted c'"
    using r c1(2) by (simp add: counted_written)
qed

lemma copy_accounts:
  assumes "pumpCopyRows (copy_consumer table store) cs newCopyCounters batches = Inr s"
  shows "\<exists>plans. handed (ps_events s) = kept cs plans 0 (concat batches)
    \<and> drops (ps_events s) = dropped cs plans 0 (concat batches)
    \<and> (concat batches \<noteq> [] \<longrightarrow> planColumns (cs_host cs) (cs_limit cs) (cs_coercion cs) (cs_mapping cs)
         (map fst (hd (concat batches))) = Inr plans)
    \<and> cc_rowsRead (ps_counters s) = length (concat batches)
    \<and> cc_rowsFailed (ps_counters s) = length (drops (ps_events s))
        + rejections (\<lambda>is rows. length (fst (store is rows))) (ps_events s)
    \<and> length (handed (ps_events s)) + length (drops (ps_events s)) = length (concat batches)
    \<and> counted (ps_counters s) \<and> [] \<notin> set (sent_batches (ps_events s))"
proof -
  let ?s = "\<lparr>ps_counters = newCopyCounters, ps_plans = None, ps_events = []\<rparr>"
  have run: "pump_batches (copy_consumer table store) cs ?s batches = Inr s"
    using assms by (auto simp: pumpCopyRows_def Let_def split: if_splits)
  obtain plans es where "copy_sink.accounts store cs plans ?s (concat batches) es s"
    and "concat batches \<noteq> [] \<longrightarrow> planColumns (cs_host cs) (cs_limit cs) (cs_coercion cs) (cs_mapping cs)
         (map fst (hd (concat batches))) = Inr plans"
    using copy_sink.batches_run [OF _ run] by auto
  then show ?thesis
    using kept_dropped [of "concat batches" cs plans 0] counted_new
    by (intro exI [of _ plans]) (simp add: copy_sink.accounts_def newCopyCounters_def)
qed

end
