(* ===== verification/CopyProperties.thy ===== *)
theory CopyProperties
  imports CopyFacts
begin

text \<open>
  What a copy promises: its coercions are exact, what the gate admits the pump binds, and every row read is
  sent or accounted for.
\<close>

text \<open>The host of the examples: without case tables of its own.\<close>

definition text_host :: host where
  "text_host = \<lparr>h_lower = id, h_upper = id, h_inherited = \<lambda>_ _. None\<rparr>"

section \<open>Coercion\<close>

text \<open>C28: A text that is a decimal literal, whatever its notation, becomes the whole number it
  stands for and no other, if there is one and it fits into 64 bits; otherwise it is refused. The condition
  on the limit is that the host can make a string as long as the digits of the number.\<close>

theorem integer_text_exact:
  assumes "DECIMAL_RE (trim s) = Some l" "co_nullValue opts \<noteq> Some s"
    "int (length (dl_sign l) + length (dl_whole l)) + dl_exponent l \<le> int limit"
  shows "coerceValue h limit (SvText s) DtInteger opts = co_ok (CvBigint v) \<longleftrightarrow>
    literal_value l = of_int v \<and> MIN_INT64 \<le> v \<and> v \<le> MAX_INT64"
  using integer_exact [OF assms(1,3)] assms(2) by (simp add: coerceValue_def is_null_value_def toInteger_def)

text \<open>The literal 9.007199254740993e15, which no double holds.\<close>

theorem integer_text_exact_witness:
  "coerceValue text_host 536870888 (SvText (lit ''9.007199254740993e15'')) DtInteger \<lparr>co_nullValue = None, co_dateFormat = None\<rparr>
   = co_ok (CvBigint 9007199254740993)"
proof -
  let ?l = "\<lparr>dl_sign = [], dl_whole = lit ''9'', dl_fraction = lit ''007199254740993'', dl_exponent = 15\<rparr>"
  have "DECIMAL_RE (trim (lit ''9.007199254740993e15'')) = Some ?l" by code_simp
  moreover have "literal_value ?l = of_int 9007199254740993" by code_simp
  ultimately show ?thesis
    using integer_text_exact [of "lit ''9.007199254740993e15''" ?l "\<lparr>co_nullValue = None, co_dateFormat = None\<rparr>"
        536870888 text_host 9007199254740993]
    by (simp add: MIN_INT64_def MAX_INT64_def)
qed

text \<open>C32: The coercion is not total: a zero with an exponent as large as the length of the longest
  string of the host makes it raise a RangeError, for it writes out the zeros of the exponent; a copy with such
  a value in an integer column does not fail the row but throws.\<close>

theorem zero_exponent_throws:
  "coerceValue h limit (SvText ([48, 101] @ nat_digits limit)) DtInteger \<lparr>co_nullValue = None, co_dateFormat = f\<rparr> = None"
proof -
  let ?s = "[48, 101] @ nat_digits limit"
  have ds: "list_all is_digit (nat_digits limit)" by (rule nat_digits_all)
  have "is_digit (hd (nat_digits limit))" using ds hd_in_set [OF nat_digits_nonempty] by (auto simp: list_all_iff)
  then have hd: "hd (nat_digits limit) \<noteq> 43" "hd (nat_digits limit) \<noteq> 45" by (auto simp: is_digit_def)
  have "is_digit (last (nat_digits limit))" using ds last_in_set [OF nat_digits_nonempty] by (auto simp: list_all_iff)
  then have "trim ?s = ?s"
    by (intro trim_id) (simp_all add: digit_not_space is_js_space_def [of 48])
  moreover have "INTEGER_RE ?s = None" by (simp add: INTEGER_RE_def literal_sign_def is_digit_def)
  moreover have scan: "takeWhile is_digit (nat_digits limit) = nat_digits limit" "dropWhile is_digit (nat_digits limit) = []"
    using ds by (auto simp: list_all_iff)
  have "scan_exp (101 # nat_digits limit) = (int limit, [])"
    using hd unfolding scan_exp_def by (simp add: Let_def scan digits_val_nat_digits del: takeWhile_eq_all_conv)
  then have "DECIMAL_RE ?s = Some \<lparr>dl_sign = [], dl_whole = [48], dl_fraction = [], dl_exponent = int limit\<rparr>"
    by (simp add: DECIMAL_RE_def literal_sign_def literal_fraction_def is_digit_def)
  ultimately show ?thesis
    by (simp add: coerceValue_def is_null_value_def toInteger_def integerFromString_def literal_number_def dec_value_def
        digits_val_def is_integer_def exactIntegerFromDecimal_def)
qed

text \<open>C29: A date that formatDateTime renders with a format reads back through the same format as
  the declared format of a source: to its day when the format has a year, a month and a day, and to its
  millisecond when it has every field; a rendered text must not begin or end with a space, which the
  coercion trims.\<close>

theorem rendered_date_reads_back:
  assumes "compileFormat fmt = Some ps" "{FYear, FMonth, FDay} \<subseteq> set (piece_fields ps)" "in_range t"
    "formatDateTime fn [JStr (toISOString t), JStr fmt] = Inr (JStr s)" "trim s = s"
  shows "coerceValue h limit (SvText s) DtDate \<lparr>co_nullValue = None, co_dateFormat = Some fmt\<rparr>
      = co_ok (CvText (take 10 (toISOString t)))
    \<and> ({FHour, FMinute, FSecond, FMs} \<subseteq> set (piece_fields ps) \<longrightarrow>
        coerceValue h limit (SvText s) DtTimestamp \<lparr>co_nullValue = None, co_dateFormat = Some fmt\<rparr>
        = co_ok (CvText (toISOString t)))"
  using rendered_parts [OF assms(3,1,2,4)] assms(1,5)
  by (auto simp: coerceValue_def is_null_value_def toInstant_def)

lemma leap_day:
  "getUTCFullYear 1709164800000 = 2024" "getUTCMonth 1709164800000 = 1" "getUTCDate 1709164800000 = 29"
  "getUTCHours 1709164800000 = 0" "getUTCMinutes 1709164800000 = 0" "getUTCSeconds 1709164800000 = 0"
  "getUTCMilliseconds 1709164800000 = 0"
  by (simp_all add: getUTCFullYear_def year_from_day_def day_from_year_def ms_day_def getUTCMonth_def
      day_in_year_def month_of_def month_start_def isLeapYear_def getUTCDate_def getUTCHours_def getUTCMinutes_def
      getUTCSeconds_def getUTCMilliseconds_def)

lemma leap_day_text: "take 10 (toISOString 1709164800000) = lit ''2024-02-29''"
  "pad 2024 4 = lit ''2024''" "pad 2 2 = lit ''02''" "pad 29 2 = lit ''29''"
  by (simp_all add: toISOString_def leap_day pad_def pad_start_def nat_digits.simps numeral_2_eq_2)

lemma leap_day_runs: "char_runs (lit ''dd.MM.yyyy'') = [lit ''dd'', [46], lit ''MM'', [46], lit ''yyyy'']"
  by code_simp

theorem rendered_date_reads_back_witness:
  "coerceValue text_host 9 (SvText (lit ''29.02.2024'')) DtDate \<lparr>co_nullValue = None, co_dateFormat = Some (lit ''dd.MM.yyyy'')\<rparr>
   = co_ok (CvText (lit ''2024-02-29''))"
proof -
  let ?fmt = "lit ''dd.MM.yyyy''" and ?t = "1709164800000"
  have "compileFormat ?fmt = Some [Digits 2 FDay, Literally [46], Digits 2 FMonth, Literally [46], Digits 4 FYear]"
    by code_simp
  moreover have t: "in_range ?t" by (simp add: in_range_def time_bounds)
  moreover have "formatDateTime [] [JStr (toISOString ?t), JStr ?fmt] = Inr (JStr (lit ''29.02.2024''))"
    unfolding formatDateTime_def
    by (simp add: parseTs_toISOString t str_arg_def leap_day_runs format_run_def is_letter_def is_upper_def is_lower_def
        isFormatToken_def FORMAT_TOKEN_NAMES_def FORMAT_TOKENS_def leap_day leap_day_text)
  moreover have "trim (lit ''29.02.2024'') = lit ''29.02.2024''" by code_simp
  moreover note leap_day_text(1)
  ultimately show ?thesis
    using rendered_date_reads_back [of ?fmt _ ?t "[]" "lit ''29.02.2024''" text_host 9]
    by (simp add: piece_fields_def del: lit_simps)
qed

text \<open>C31: What a coercion yields fits the column: a whole number of 64 bits, a finite number, a day
  or an instant of the years 1 to 9999 in canonical form, a boolean, bytes, a text, or null.\<close>

theorem coerced_value_fits:
  assumes "coerceValue h limit v target opts = co_ok w"
  shows "value_fits target w"
  using assms by (rule coerce_fits)

theorem coerced_value_fits_witness:
  "value_fits DtTimestamp (CvText (toISOString 0))"
  by (rule coerced_value_fits [of text_host 0 "SvDate (Some 0)" DtTimestamp "\<lparr>co_nullValue = None, co_dateFormat = None\<rparr>"])
    (simp add: coerceValue_def is_null_value_def toInstant_def date_text_def time_bounds)

section \<open>The gate and the pump\<close>

text \<open>C30: The check of a source before the copy and the plan of the pump agree: for the same columns
  the pump refuses a mapping for ambiguous or missing columns exactly when the check names them, and names the
  same ones, ambiguous before missing.\<close>

theorem gate_and_pump_agree:
  assumes "planColumns h limit opts mapping ks \<noteq> Inl RangeThrown"
  shows "(planColumns h limit opts mapping ks = Inl (Refused (AmbiguousSourceColumn c)) \<longleftrightarrow>
      c \<noteq> [] \<and> c = sd_ambiguous (checkSourceDrift (map (\<lambda>e. (me_source e, me_onErrorNull e)) mapping) ks))
    \<and> (planColumns h limit opts mapping ks = Inl (Refused (MissingSourceColumn c)) \<longleftrightarrow>
      c \<noteq> [] \<and> c = sd_missing (checkSourceDrift (map (\<lambda>e. (me_source e, me_onErrorNull e)) mapping) ks)
      \<and> sd_ambiguous (checkSourceDrift (map (\<lambda>e. (me_source e, me_onErrorNull e)) mapping) ks) = [])"
  using plan_sources [OF assms] unfolding gate_view_def by blast

definition sample_entry :: "jstr \<Rightarrow> mapping_entry" where
  "sample_entry s =
     \<lparr>me_source = Some s, me_expression = SvAbsent, me_sink = s, me_type = DtInteger, me_onErrorNull = False\<rparr>"

theorem gate_and_pump_agree_witness:
  "planColumns text_host 9 \<lparr>co_nullValue = None, co_dateFormat = None\<rparr> [sample_entry (lit ''id'')] [lit ''ID'', lit ''Id'']
   = Inl (Refused (AmbiguousSourceColumn [lit ''id'']))"
proof -
  let ?plan = "planColumns text_host 9 \<lparr>co_nullValue = None, co_dateFormat = None\<rparr> [sample_entry (lit ''id'')] [lit ''ID'', lit ''Id'']"
  have "?plan \<noteq> Inl RangeThrown" by (simp add: planColumns_def plan_entry_def sample_entry_def)
  moreover have "sd_ambiguous (checkSourceDrift (map (\<lambda>e. (me_source e, me_onErrorNull e)) [sample_entry (lit ''id'')])
      [lit ''ID'', lit ''Id'']) = [lit ''id'']"
    by code_simp
  ultimately show ?thesis using gate_and_pump_agree by simp
qed

section \<open>Rows\<close>

text \<open>C27: A copy that ends has treated every row of its source once and in order, whatever the
  batches: with the plan made from the columns of the first row, the rows whose values all coerce are handed
  to the sink with their positions in the source, the others are dropped with their positions and the first
  column that failed, and no batch handed over is empty.\<close>

theorem pump_maps_rows:
  assumes "pumpCopyRows (copy_consumer table store) cs newCopyCounters batches = Inr s" "concat batches \<noteq> []"
  shows "\<exists>plans. planColumns (cs_host cs) (cs_limit cs) (cs_coercion cs) (cs_mapping cs) (map fst (hd (concat batches))) = Inr plans
    \<and> handed (ps_events s) = kept cs plans 0 (concat batches)
    \<and> drops (ps_events s) = dropped cs plans 0 (concat batches)
    \<and> [] \<notin> set (sent_batches (ps_events s))"
  using copy_accounts [OF assms(1)] assms(2) by blast

text \<open>C26: The counters of a copy that ends account for every row: those read are the rows of the
  source, those failed are the rows dropped and the rows the store rejected, summed up by their codes; those
  sent are the rows handed over less the rejected ones, and the copy warns exactly when the store reports
  another number of rows written.\<close>

theorem rows_accounted:
  assumes "pumpCopyRows (copy_consumer table store) cs newCopyCounters batches = Inr s"
  shows "cc_rowsRead (ps_counters s) = length (concat batches)
    \<and> sum_list (map snd (cc_failuresByCode (ps_counters s))) = cc_rowsFailed (ps_counters s)
    \<and> rowsSent (ps_counters s) = int (length (handed (ps_events s)))
        - int (rejections (\<lambda>is rows. length (fst (store is rows))) (ps_events s))
    \<and> (storeCountAdvisory (ps_counters s) = None \<longleftrightarrow> int (cc_rowsWritten (ps_counters s)) = rowsSent (ps_counters s))"
  using copy_accounts [OF assms] by (auto simp: rowsSent_def storeCountAdvisory_def counted_def)

text \<open>Two batches of rows, with a value that is no number, to a store that rejects the first row of a batch.\<close>

definition sample_copy :: "host \<Rightarrow> copy_setup" where
  "sample_copy h =
     \<lparr>cs_host = h, cs_limit = 9, cs_mapping = [sample_entry (lit ''id'')],
      cs_coercion = \<lparr>co_nullValue = None, co_dateFormat = None\<rparr>\<rparr>"

definition sample_batches :: "source_row list list" where
  "sample_batches = [[[(lit ''ID'', SvText (lit ''7''))], [(lit ''ID'', SvText (lit ''x''))]], [[(lit ''ID'', SvBigint 8)]]]"

definition sample_store :: store where
  "sample_store is rows = ([0], 0)"

lemma sample_coercions:
  "coerceValue h 9 (SvText (lit ''7'')) DtInteger \<lparr>co_nullValue = None, co_dateFormat = None\<rparr> = Some (Inr (CvBigint 7))"
  "coerceValue h 9 (SvText (lit ''x'')) DtInteger \<lparr>co_nullValue = None, co_dateFormat = None\<rparr> = Some (Inl NotANumber)"
  "coerceValue h 9 (SvBigint 8) DtInteger \<lparr>co_nullValue = None, co_dateFormat = None\<rparr> = Some (Inr (CvBigint 8))"
  by (simp_all add: coerceValue_def is_null_value_def toInteger_def integerFromString_def INTEGER_RE_def DECIMAL_RE_def
      literal_sign_def literal_fraction_def is_digit_def trim_def trim_left_def trim_right_def is_js_space_def
      digits_val_def okInteger_def MIN_INT64_def MAX_INT64_def co_ok_def co_fail_def)

lemma sample_plan:
  "planColumns h 9 \<lparr>co_nullValue = None, co_dateFormat = None\<rparr> [sample_entry (lit ''id'')] [lit ''ID'']
   = Inr [FromSource (lit ''id'') (lit ''ID'') (sample_entry (lit ''id''))]"
  by (simp add: planColumns_def plan_entry_def sample_entry_def resolveSourceColumn_def indexSourceColumns_def js_set_def
      push_bucket_def nocaseFold_def is_upper_def Let_def)

lemma sample_run:
  "\<exists>s. pumpCopyRows (copy_consumer (lit ''t'') sample_store) (sample_copy h) newCopyCounters sample_batches = Inr s"
  using sample_coercions [of h] sample_plan [of h]
  by (simp add: pumpCopyRows_def sample_copy_def sample_batches_def duplicate_sinks_def plans_for_def read_row_def
      hand_over_def copy_consumer_def sample_store_def onRowRejected_def newCopyCounters_def recordCopyRowFailure_def
      row_get_def sample_entry_def Let_def)

theorem pump_maps_rows_witness:
  "\<exists>plans. planColumns text_host 9 \<lparr>co_nullValue = None, co_dateFormat = None\<rparr> [sample_entry (lit ''id'')] [lit ''ID''] = Inr plans"
proof -
  obtain s where "pumpCopyRows (copy_consumer (lit ''t'') sample_store) (sample_copy text_host) newCopyCounters sample_batches = Inr s"
    using sample_run by blast
  from pump_maps_rows [OF this] show ?thesis by (auto simp: sample_batches_def sample_copy_def)
qed

theorem rows_accounted_witness:
  "\<exists>s. pumpCopyRows (copy_consumer (lit ''t'') sample_store) (sample_copy text_host) newCopyCounters sample_batches = Inr s
     \<and> cc_rowsRead (ps_counters s) = 3"
proof -
  obtain s where s: "pumpCopyRows (copy_consumer (lit ''t'') sample_store) (sample_copy text_host) newCopyCounters sample_batches = Inr s"
    using sample_run by blast
  from rows_accounted [OF s] have "cc_rowsRead (ps_counters s) = 3" by (simp add: sample_batches_def)
  with s show ?thesis by blast
qed

end
