(* ===== verification/Spec2Isabelle.thy ===== *)
theory Spec2Isabelle
  imports LanguageProperties ValueProperties EngineProperties ReducerProperties StaticProperties DocProperties
    DelimitedProperties CopyProperties
begin

text \<open>
  A model of the run engine of the studio: the pure core under
  \<open>studio/packages/shared/src/engine/\<close>, which decides what a pipeline document means and how a run
  of it proceeds. Everything the engine does is a function of a document and a log of events; the
  server appends events, folds them with \<open>reduce\<close> and carries out the commands that come back. Beside
  it stand the pure parts a copy between datasets rests on, under \<open>shared/src/datamove/\<close>.
\<close>

section \<open>The parts and how they interact\<close>

text \<open>
  A document is a graph of nodes, containers and edges (\<open>schemas/pipeline.ts\<close>). When it is saved,
  \<open>params.ts\<close> classifies its edges, computes which outputs are available where and checks the
  \<open>${}\<close> expressions of its configurations against that. When it runs, \<open>reduce.ts\<close> folds the log: each
  event updates the persisted state of the run, and \<open>settle\<close> then walks the document until nothing
  moves, skipping and dispatching nodes, stepping containers, firing back-edges, and deciding the end
  of the run. Dispatching a node evaluates its configuration in the context of the run, with the
  evaluator of \<open>params.ts\<close> over the function catalog of \<open>functions.ts\<close>.

  \<^item> The language. \<open>JsString\<close>, \<open>JsNumber\<close>, \<open>JsValue\<close>, \<open>JsError\<close>: strings of UTF-16 units, doubles,
    JSON values and what can be thrown. \<open>Expr\<close>: the parser and the template scanner (\<open>expr.ts\<close>).
    \<open>Catalog\<close> with \<open>Calendar\<close>, \<open>Utf8Base64\<close>, \<open>Json\<close>, \<open>UriComponent\<close>: every function of the catalog
    (\<open>functions.ts\<close>). \<open>Evaluator\<close>: references, calls, the budget of array elements, \<open>substitute\<close>
    (\<open>params.ts\<close>, first part). \<open>RunParams\<close>, \<open>InstanceKey\<close>: the parameters of a run, written values,
    replay safety, the keys of parallel instances.
  \<^item> The document. \<open>PipelineDoc\<close>: nodes, edges, containers, membership, \<open>partitionReadiness\<close>.
    \<open>GraphSearch\<close> and \<open>DocGraph\<close>: the searches (a locale, interpreted on every adjacency the code
    builds), cycles, reset bodies. \<open>Availability\<close>: \<open>computeGraph\<close> and implicit routing (\<open>params.ts\<close>,
    last part). \<open>StaticCheck\<close>: \<open>scan\<close>, \<open>checkExprStatic\<close>, \<open>checkRefRoot\<close> and trigger bindings.
    \<open>DocRules\<close>: the structural rules of the save gate (\<open>validateDoc\<close>) and the check of the graph of
    calls (\<open>validateCallGraph\<close>).
  \<^item> The run. \<open>RunTypes\<close>, \<open>RunState\<close>, \<open>Protocol\<close>: statuses, state, events and commands (\<open>types.ts\<close>).
    \<open>Binding\<close>: what \<open>createEngine\<close> precomputes. \<open>Readiness\<close>: the verdict on an entity and the outcome
    of a scope. \<open>Prepare\<close>, \<open>Control\<close>, \<open>Dispatch\<close>: preparing and dispatching a node. \<open>Containers\<close>:
    back-edges, stages, loops, foreach. \<open>Settle\<close>: the walk. \<open>Outputs\<close>: declared outputs and redaction
    (\<open>outputs.ts\<close>, \<open>secure.ts\<close>, \<open>child-outputs.ts\<close>). \<open>Handlers\<close>, \<open>Reducer\<close>: the events, \<open>reduce\<close>,
    the projection of a log, the frontier of a rerun (\<open>reduce.ts\<close>).
  \<^item> Copies. \<open>Delimited\<close>: the row grammar of delimited text as a machine over characters
    (\<open>datamove/delimited.ts\<close>), and the writer of exported files (\<open>server/src/util/csv.ts\<close>).
    \<open>Coerce\<close>: the coercion of a value to the type of a column (\<open>datamove/coerce.ts\<close>). \<open>CopyPump\<close>: the
    drift gate (\<open>datamove/schema-drift.ts\<close>), the pump and its counters (\<open>datamove/pump.ts\<close>), and its
    consumer (\<open>server/src/connectors/copy.ts\<close>) over the store's answers, which are a parameter.
\<close>

section \<open>What the lemmas show\<close>

text \<open>
  \<^item> \<open>WalkSteps\<close> gives the abstract transition relation of the walk and shows that \<open>settle\<close> refines it;
    \<open>SettleTermination\<close> shows that the walk returns, by a lexicographic measure of nine numbers;
    \<open>RunInvariants\<close> shows the invariants of a reachable state; \<open>SettleFacts\<close> and \<open>ReducerFacts\<close> draw
    the consequences; \<open>NestedLoop\<close> is the document on which the walk never returns when the condition
    on documents is dropped. \<open>ReducerProperties\<close> states the results.
  \<^item> \<open>EngineProperties\<close>: what availability promises holds in the run states that readiness allows; the
    verdicts of readiness; cycles, reset bodies, the partition.
  \<^item> \<open>StaticSoundness\<close> and \<open>StaticProperties\<close>: an accepted expression fails only on its values, and
    depends only on what is reported; the bindings of a trigger.
  \<^item> \<open>DocProperties\<close>: a document the structural rules accept can be run and binds without a defect; the
    graph of calls; the identifiers the rules let through although the reducer cannot read them back.
  \<^item> \<open>DelimitedFacts\<close> and \<open>DelimitedProperties\<close>: chunks that keep the two units of a character
    together do not matter; the characters of the row in progress, of its fields and of every completed row stay
    within their limits; what is written reads back.
  \<^item> \<open>CoerceFacts\<close>, \<open>CopyFacts\<close>, \<open>CopyProperties\<close>: whole numbers are exact, rendered dates read back,
    the gate and the pump agree, and the counters account for every row.
  \<^item> \<open>LanguageProperties\<close>, \<open>ValueProperties\<close>: substitution, evaluation, the scanner, round trips.

  Interfaces are locales interpreted on the model's own definitions: \<open>GraphSearch\<close> over adjacencies,
  \<open>escapes\<close> of \<open>StaticSoundness\<close> over the errors an evaluation may raise, the reachable states of a
  known document in \<open>RunInvariants\<close>, and the contract of the consumer of a copy in \<open>CopyFacts\<close>.
\<close>

section \<open>Representation\<close>

text \<open>
  \<^item> A string is the list of its UTF-16 units, a number a double given by its mathematical value, an
    object the association list of its own properties in insertion order; a \<open>Map\<close> is the list of its
    insertions. Case mapping and the members of \<open>Object.prototype\<close> belong to the host and are
    parameters (\<open>host\<close>).
  \<^item> A thrown error is the left value of a sum; a message, a diagnostic and a refusal are represented by
    the site that writes them. \<open>None\<close> as the result of \<open>reduce\<close> or of a check is an escaping
    \<open>TypeError\<close> or a walk that does not return. In a coercion it is the \<open>RangeError\<close> of a string longer
    than the host makes; that length is a parameter.
  \<^item> Telemetry events, which the reducer only counts, are the one constructor \<open>Observed\<close>. A container
    whose state is missing from a record is left alone, as the code's guards do.
  \<^item> Loops that may run for ever are \<open>partial_function (option)\<close>. The fuel of \<open>run_turns\<close> occurs in
    witnesses only; a run that returns within it is a run of \<open>settle_walk\<close>.
  \<^item> \<open>sound_doc\<close>, the condition on documents of the totality theorem, is what the structural rules of
    the save gate imply for ids that hold no line feed: distinct ids without the separator of instance
    keys, and no container inside a container.
\<close>

section \<open>Not modelled\<close>

text \<open>
  The driver, executor, scheduler, repositories, routes and connectors of the server are asynchronous
  I/O around these functions; the web application is a user interface; the schemas are declarations
  checked by a third-party library, of which the document fields that the engine reads are modelled.
  The text of messages is not modelled. Values have no identity: \<open>equals\<close> compares by structure even where
  the code would recognise one and the same array or object, a difference only if it holds \<open>NaN\<close>.
\<close>

end
